(* ===== verification/Prelude.thy ===== *)
theory Prelude
  imports Main "HOL-Library.Word"
begin

text \<open>
  The vocabulary every component theory shares: the machine integers of the source, the
  result type, Rust's checked and saturating arithmetic, and the little- and big-endian
  byte encodings (\<^verbatim>\<open>to_le_bytes\<close>, \<^verbatim>\<open>from_be_bytes\<close> and so on) with their round trips.
  The interface \<open>fixed_codec\<close> states what a fixed-width encoder and decoder promise
  each other; a block of such records is decoded once and for all inside it.
\<close>

named_theorems widths \<open>lengths of the encoded forms\<close>
named_theorems codec \<open>decoding undoes encoding\<close>
named_theorems rust_arith \<open>definitions of the checked and saturating operations\<close>

section \<open>Machine types\<close>

type_synonym u8 = "8 word"
type_synonym u16 = "16 word"
type_synonym u32 = "32 word"
type_synonym u64 = "64 word"
type_synonym u128 = "128 word"
type_synonym i64 = "64 word"
type_synonym byte = "8 word"
type_synonym bytes = "byte list"

text \<open>A Rust \<^verbatim>\<open>Result<'a, 'e>\<close>: the error is on the left, the value on the right.\<close>

type_synonym ('e, 'a) result = "'e + 'a"

definition bind_result :: "('e, 'a) result \<Rightarrow> ('a \<Rightarrow> ('e, 'b) result) \<Rightarrow> ('e, 'b) result" where
  "bind_result r f = (case r of Inl e \<Rightarrow> Inl e | Inr a \<Rightarrow> f a)"

lemma bind_result_simps [simp]:
  "bind_result (Inl e) f = Inl e"
  "bind_result (Inr a) f = f a"
  by (simp_all add: bind_result_def)

lemma bind_result_eq_Inr [simp]:
  "bind_result r f = Inr b \<longleftrightarrow> (\<exists>a. r = Inr a \<and> f a = Inr b)"
  by (cases r) auto

lemma bind_result_eq_Inl:
  "bind_result r f = Inl e \<longleftrightarrow> r = Inl e \<or> (\<exists>a. r = Inr a \<and> f a = Inl e)"
  by (cases r) auto

section \<open>Checked and saturating arithmetic\<close>

definition u64_MAX :: u64 where
  "u64_MAX = - 1"

definition checked_add :: "'a::len word \<Rightarrow> 'a word \<Rightarrow> 'a word option" where
  [rust_arith]: "checked_add a b = (if unat a + unat b < 2 ^ LENGTH('a) then Some (a + b) else None)"

definition checked_sub :: "'a::len word \<Rightarrow> 'a word \<Rightarrow> 'a word option" where
  [rust_arith]: "checked_sub a b = (if b \<le> a then Some (a - b) else None)"

definition checked_mul :: "'a::len word \<Rightarrow> 'a word \<Rightarrow> 'a word option" where
  [rust_arith]: "checked_mul a b = (if unat a * unat b < 2 ^ LENGTH('a) then Some (a * b) else None)"

definition saturating_add :: "'a::len word \<Rightarrow> 'a word \<Rightarrow> 'a word" where
  [rust_arith]: "saturating_add a b = (if unat a + unat b < 2 ^ LENGTH('a) then a + b else - 1)"

definition saturating_sub :: "'a::len word \<Rightarrow> 'a word \<Rightarrow> 'a word" where
  [rust_arith]: "saturating_sub a b = (if b \<le> a then a - b else 0)"

lemma unat_sub_le: "b \<le> a \<Longrightarrow> unat (a - b) = unat a - unat (b :: 'a::len word)"
  by (simp add: unat_sub_if_size word_le_nat_alt)

lemma unat_add_small:
  "unat a + unat b < 2 ^ LENGTH('a) \<Longrightarrow> unat (a + b) = unat a + unat (b :: 'a::len word)"
  by (simp add: unat_word_ariths)

lemma checked_add_SomeD:
  "checked_add a b = Some c \<Longrightarrow> unat c = unat a + unat b"
  by (auto simp: checked_add_def unat_add_small split: if_splits)

lemma checked_sub_SomeD:
  "checked_sub a b = Some c \<Longrightarrow> b \<le> a \<and> unat c = unat a - unat b"
  by (auto simp: checked_sub_def unat_sub_le split: if_splits)

lemma checked_mul_SomeD:
  "checked_mul a b = Some c \<Longrightarrow> unat c = unat a * unat b"
  by (auto simp: checked_mul_def unat_word_ariths split: if_splits)

lemma unat_saturating_sub: "unat (saturating_sub a b) = unat a - unat b"
  by (auto simp: saturating_sub_def unat_sub_le word_le_nat_alt)

lemma unat_saturating_add:
  "unat (saturating_add a b) = min (unat a + unat b) (2 ^ LENGTH('a) - 1)"
  for a b :: "'a::len word"
  by (auto simp: saturating_add_def unat_add_small unsigned_minus_1_eq_mask mask_eq_exp_minus_1)

section \<open>Ordered maps\<close>

text \<open>
  Rust's \<^verbatim>\<open>BTreeMap\<close> as its ascending entry list: iteration order is the list's order.
  \<open>bt_get\<close> is \<^verbatim>\<open>get\<close>, \<open>bt_insert\<close> is \<^verbatim>\<open>insert\<close> (the old value is replaced),
  \<open>bt_update k d f\<close> is \<^verbatim>\<open>*m.entry(k).or_insert(d) = f(..)\<close> and \<open>bt_collect\<close> is
  \<^verbatim>\<open>collect()\<close> over pairs.
\<close>

type_synonym ('k, 'v) btree = "('k \<times> 'v) list"

abbreviation bt_get :: "('k, 'v) btree \<Rightarrow> 'k \<Rightarrow> 'v option" where
  "bt_get m k \<equiv> map_of m k"

fun bt_insert :: "'k::linorder \<Rightarrow> 'v \<Rightarrow> ('k, 'v) btree \<Rightarrow> ('k, 'v) btree" where
  "bt_insert k v [] = [(k, v)]"
| "bt_insert k v (e # m) =
     (if fst e < k then e # bt_insert k v m
      else (k, v) # (if fst e = k then m else e # m))"

definition bt_update :: "'k::linorder \<Rightarrow> 'v \<Rightarrow> ('v \<Rightarrow> 'v) \<Rightarrow> ('k, 'v) btree \<Rightarrow> ('k, 'v) btree" where
  "bt_update k d f m = bt_insert k (f (case bt_get m k of None \<Rightarrow> d | Some v \<Rightarrow> v)) m"

definition bt_collect :: "('k::linorder \<times> 'v) list \<Rightarrow> ('k, 'v) btree" where
  "bt_collect xs = fold (\<lambda>(k, v). bt_insert k v) xs []"

definition bt_wf :: "('k::linorder, 'v) btree \<Rightarrow> bool" where
  "bt_wf m \<longleftrightarrow> sorted_wrt (<) (map fst m)"

lemma bt_wf_Nil [simp]: "bt_wf []"
  by (simp add: bt_wf_def)

lemma bt_wf_Cons: "bt_wf (e # m) \<longleftrightarrow> (\<forall>x \<in> set m. fst e < fst x) \<and> bt_wf m"
  by (auto simp: bt_wf_def)

lemma bt_wf_distinct: "bt_wf m \<Longrightarrow> distinct (map fst m)"
  by (simp add: bt_wf_def strict_sorted_iff)

lemma keys_bt_insert: "fst ` set (bt_insert k v m) = insert k (fst ` set m)"
  by (induction k v m rule: bt_insert.induct) auto

lemma set_bt_insert: "set (bt_insert k v m) \<subseteq> insert (k, v) (set m)"
  by (induction k v m rule: bt_insert.induct) auto

lemma bt_wf_insert [simp]: "bt_wf m \<Longrightarrow> bt_wf (bt_insert k v m)"
proof (induction k v m rule: bt_insert.induct)
  case (2 k v e m)
  show ?case
  proof (cases "fst e < k")
    case True
    have "\<forall>x \<in> set (bt_insert k v m). fst e < fst x"
      using "2.prems" True keys_bt_insert [of k v m] by (force simp: bt_wf_Cons)
    with 2 True show ?thesis by (simp add: bt_wf_Cons)
  next
    case False
    with "2.prems" show ?thesis by (auto simp: bt_wf_Cons)
  qed
qed (simp add: bt_wf_def)

lemma bt_get_insert [simp]: "map_of (bt_insert k v m) = (map_of m)(k \<mapsto> v)"
  by (induction k v m rule: bt_insert.induct) (auto simp: fun_eq_iff)

lemma bt_get_update [simp]:
  "map_of (bt_update k d f m) = (map_of m)(k \<mapsto> f (case bt_get m k of None \<Rightarrow> d | Some v \<Rightarrow> v))"
  by (simp add: bt_update_def)

lemma bt_wf_update [simp]: "bt_wf m \<Longrightarrow> bt_wf (bt_update k d f m)"
  by (simp add: bt_update_def)

definition bt_remove :: "'k \<Rightarrow> ('k, 'v) btree \<Rightarrow> ('k, 'v) btree" where
  "bt_remove k m = filter (\<lambda>(k', _). k' \<noteq> k) m"

lemma bt_wf_remove: "bt_wf m \<Longrightarrow> bt_wf (bt_remove k m)"
  by (induction m) (auto simp: bt_remove_def bt_wf_Cons)

lemma bt_wf_single [simp]: "bt_wf [e]"
  by (simp add: bt_wf_def)

lemma keys_bt_remove: "fst ` set (bt_remove k m) = fst ` set m - {k}"
  by (force simp: bt_remove_def)

lemma bt_get_remove: "map_of (bt_remove k m) k' = (if k' = k then None else map_of m k')"
  by (induction m) (auto simp: bt_remove_def)

lemma bt_insert_insert [simp]: "bt_insert k v (bt_insert k v' m) = bt_insert k v m"
  by (induction k v' m rule: bt_insert.induct) auto

lemma bt_update_update: "bt_update k d f (bt_update k d g m) = bt_update k d (\<lambda>v. f (g v)) m"
  by (simp add: bt_update_def)

lemma bt_insert_last: "\<forall>x \<in> set m. fst x < k \<Longrightarrow> bt_insert k v m = m @ [(k, v)]"
  by (induction m) auto

lemma fold_bt_insert_sorted:
  "bt_wf (m @ xs) \<Longrightarrow> fold (\<lambda>(k, v). bt_insert k v) xs m = m @ xs"
proof (induction xs arbitrary: m)
  case Nil
  then show ?case by simp
next
  case (Cons x xs)
  obtain k v where x: "x = (k, v)" by (cases x)
  have "\<forall>y \<in> set m. fst y < k"
    using Cons.prems by (auto simp: bt_wf_def x sorted_wrt_append)
  then have "bt_insert k v m = m @ [x]" by (simp add: x bt_insert_last)
  with Cons.IH [of "m @ [x]"] Cons.prems show ?case by (simp add: x)
qed

lemma bt_collect_id: "bt_wf m \<Longrightarrow> bt_collect m = m"
  using fold_bt_insert_sorted [of "[]" m] by (simp add: bt_collect_def)

lemma map_of_filter_distinct:
  "distinct (map fst m) \<Longrightarrow> map_of (filter P m) k =
     (case map_of m k of None \<Rightarrow> None | Some v \<Rightarrow> if P (k, v) then Some v else None)"
proof (induction m)
  case (Cons e m)
  have "map_of m (fst e) = None" using Cons.prems by (simp add: map_of_eq_None_iff)
  with Cons show ?case by (cases e) (auto split: option.splits)
qed simp

section \<open>Byte encodings\<close>

text \<open>
  \<open>le_nat n k\<close> is the low \<open>n\<close> bytes of \<open>k\<close>, least significant first. The source's
  \<^verbatim>\<open>x.to_le_bytes()\<close> for an \<open>n\<close>-byte integer is \<open>le_nat n (unat x)\<close>, and
  \<^verbatim>\<open>to_be_bytes\<close> is its reverse.
\<close>

fun le_nat :: "nat \<Rightarrow> nat \<Rightarrow> bytes" where
  "le_nat 0 k = []"
| "le_nat (Suc n) k = of_nat (k mod 256) # le_nat n (k div 256)"

fun nat_le :: "bytes \<Rightarrow> nat" where
  "nat_le [] = 0"
| "nat_le (b # bs) = unat b + 256 * nat_le bs"

definition to_le :: "'a::len word \<Rightarrow> bytes" where
  "to_le x = le_nat (LENGTH('a) div 8) (unat x)"

definition from_le :: "bytes \<Rightarrow> 'a::len word" where
  "from_le bs = of_nat (nat_le bs)"

definition to_be :: "'a::len word \<Rightarrow> bytes" where
  "to_be x = rev (to_le x)"

definition from_be :: "bytes \<Rightarrow> 'a::len word" where
  "from_be bs = from_le (rev bs)"

lemma length_le_nat [simp, widths]: "length (le_nat n k) = n"
  by (induction n arbitrary: k) auto

lemma le_nat_numeral:
  "le_nat (numeral n) k = of_nat (k mod 256) # le_nat (pred_numeral n) (k div 256)"
  by (simp only: numeral_eq_Suc [of n] le_nat.simps)

lemma unat_byte_of_nat: "unat (of_nat (k mod 256) :: byte) = k mod 256"
  by (simp add: unat_of_nat)

lemma nat_le_le_nat: "nat_le (le_nat n k) = k mod 256 ^ n"
  by (induction n arbitrary: k) (simp_all add: unat_byte_of_nat mod_mult2_eq)

lemma nat_le_bound: "nat_le bs < 256 ^ length bs"
proof (induction bs)
  case Nil
  then show ?case by simp
next
  case (Cons b bs)
  have "unat b < 256" using unsigned_less [of b] by simp
  with Cons show ?case by simp
qed

lemma le_nat_nat_le: "le_nat (length bs) (nat_le bs) = bs"
proof (induction bs)
  case Nil
  then show ?case by simp
next
  case (Cons b bs)
  have "unat b < 256" using unsigned_less [of b] by simp
  with Cons show ?case by simp
qed

lemma to_le_inverse:
  assumes "LENGTH('a) = 8 * n"
  shows "from_le (to_le (x :: 'a::len word)) = x"
proof -
  have "(256 :: nat) ^ n = 2 ^ LENGTH('a)"
    using assms by (simp add: power_mult)
  then have "nat_le (le_nat n (unat x)) = unat x"
    using unsigned_less [of x] by (simp add: nat_le_le_nat)
  with assms show ?thesis by (simp add: to_le_def from_le_def)
qed

lemma from_le_inverse:
  assumes "LENGTH('a) = 8 * n" and "length bs = n"
  shows "to_le (from_le bs :: 'a::len word) = bs"
proof -
  have "(256 :: nat) ^ n = 2 ^ LENGTH('a)"
    using assms by (simp add: power_mult)
  then have "unat (of_nat (nat_le bs) :: 'a word) = nat_le bs"
    using nat_le_bound [of bs] assms(2) by (simp add: unat_of_nat)
  with assms show ?thesis
    using le_nat_nat_le [of bs] by (simp add: to_le_def from_le_def)
qed

lemma length_to_le [simp, widths]:
  "length (to_le (x :: u16)) = 2" "length (to_le (y :: u32)) = 4"
  "length (to_le (z :: u64)) = 8" "length (to_le (w :: u128)) = 16"
  by (simp_all add: to_le_def)

lemma length_to_be [simp, widths]:
  "length (to_be (x :: u16)) = 2" "length (to_be (y :: u32)) = 4"
  "length (to_be (z :: u64)) = 8" "length (to_be (w :: u128)) = 16"
  by (simp_all add: to_be_def)

lemma list_of_length_2: "length xs = 2 \<Longrightarrow> \<exists>a b. xs = [a, b]"
  by (auto simp: numeral_eq_Suc length_Suc_conv)

lemma list_of_length_4: "length xs = 4 \<Longrightarrow> \<exists>a b c d. xs = [a, b, c, d]"
  by (auto simp: numeral_eq_Suc length_Suc_conv)

section \<open>The fixed-width codec interface\<close>

text \<open>
  A fixed-width codec writes every valid value as \<open>width\<close> bytes, and its decoder accepts
  exactly the encodings of valid values. From the two round trips follow the injectivity of
  the encoding and the decoding of a concatenated block of records.
\<close>

locale fixed_codec =
  fixes width :: nat
    and valid :: "'a \<Rightarrow> bool"
    and encode :: "'a \<Rightarrow> bytes"
    and decode :: "bytes \<Rightarrow> 'a option"
  assumes encode_width: "valid x \<Longrightarrow> length (encode x) = width"
    and decode_encode: "valid x \<Longrightarrow> decode (encode x) = Some x"
    and encode_decode: "decode bs = Some x \<Longrightarrow> encode x = bs \<and> valid x"
begin

lemma decode_width: "decode bs = Some x \<Longrightarrow> length bs = width"
  using encode_decode encode_width by blast

lemma encode_inject: "valid x \<Longrightarrow> valid y \<Longrightarrow> encode x = encode y \<longleftrightarrow> x = y"
  by (metis decode_encode option.inject)

lemma take_encode: "valid x \<Longrightarrow> take width (encode x @ rest) = encode x"
  by (simp add: encode_width)

lemma drop_encode: "valid x \<Longrightarrow> drop width (encode x @ rest) = rest"
  by (simp add: encode_width)

lemma block_length: "\<forall>x \<in> set xs. valid x \<Longrightarrow> length (concat (map encode xs)) = length xs * width"
  by (induction xs) (simp_all add: encode_width)

lemma block_nth:
  "\<forall>x \<in> set xs. valid x \<Longrightarrow> i < length xs \<Longrightarrow>
   take width (drop (i * width) (concat (map encode xs) @ rest)) = encode (xs ! i)"
proof (induction xs arbitrary: i)
  case (Cons x xs)
  then show ?case
    by (cases i) (simp_all add: encode_width add.commute flip: drop_drop)
qed simp

end

definition decode_le :: "nat \<Rightarrow> bytes \<Rightarrow> 'a::len word option" where
  "decode_le n bs = (if length bs = n then Some (from_le bs) else None)"

definition decode_be :: "nat \<Rightarrow> bytes \<Rightarrow> 'a::len word option" where
  "decode_be n bs = (if length bs = n then Some (from_be bs) else None)"

lemma fixed_codec_le:
  assumes "LENGTH('a) = 8 * n"
  shows "fixed_codec n (\<lambda>_. True) (to_le :: 'a::len word \<Rightarrow> bytes) (decode_le n)"
proof
  show "length (to_le x) = n" for x :: "'a word"
    using assms by (simp add: to_le_def)
  then show "decode_le n (to_le x) = Some x" for x :: "'a word"
    using to_le_inverse [OF assms, of x] by (simp add: decode_le_def)
  show "decode_le n bs = Some x \<Longrightarrow> to_le x = bs \<and> True" for bs and x :: "'a word"
    using from_le_inverse [OF assms, of bs] by (auto simp: decode_le_def split: if_splits)
qed

lemma fixed_codec_be:
  assumes "LENGTH('a) = 8 * n"
  shows "fixed_codec n (\<lambda>_. True) (to_be :: 'a::len word \<Rightarrow> bytes) (decode_be n)"
proof
  show len: "length (to_be x) = n" for x :: "'a word"
    using assms by (simp add: to_be_def to_le_def)
  show "decode_be n (to_be x) = Some x" for x :: "'a word"
    using to_le_inverse [OF assms, of x] len [of x]
    by (simp add: decode_be_def from_be_def to_be_def)
  show "decode_be n bs = Some x \<Longrightarrow> to_be x = bs \<and> True" for bs and x :: "'a word"
    using from_le_inverse [OF assms, of "rev bs"]
    by (auto simp: decode_be_def from_be_def to_be_def split: if_splits)
qed

interpretation le16: fixed_codec 2 "\<lambda>_. True" "to_le :: u16 \<Rightarrow> bytes" "decode_le 2"
  by (rule fixed_codec_le) simp

interpretation le32: fixed_codec 4 "\<lambda>_. True" "to_le :: u32 \<Rightarrow> bytes" "decode_le 4"
  by (rule fixed_codec_le) simp

interpretation le64: fixed_codec 8 "\<lambda>_. True" "to_le :: u64 \<Rightarrow> bytes" "decode_le 8"
  by (rule fixed_codec_le) simp

interpretation le128: fixed_codec 16 "\<lambda>_. True" "to_le :: u128 \<Rightarrow> bytes" "decode_le 16"
  by (rule fixed_codec_le) simp

interpretation be32: fixed_codec 4 "\<lambda>_. True" "to_be :: u32 \<Rightarrow> bytes" "decode_be 4"
  by (rule fixed_codec_be) simp

lemma from_le_to_le [simp, codec]:
  "from_le (to_le x) = (x :: u16)" "from_le (to_le y) = (y :: u32)"
  "from_le (to_le z) = (z :: u64)" "from_le (to_le w) = (w :: u128)"
  by (rule to_le_inverse; simp)+

lemma to_le_from_le [simp, codec]:
  "length bs = 2 \<Longrightarrow> to_le (from_le bs :: u16) = bs"
  "length bs = 4 \<Longrightarrow> to_le (from_le bs :: u32) = bs"
  "length bs = 8 \<Longrightarrow> to_le (from_le bs :: u64) = bs"
  "length bs = 16 \<Longrightarrow> to_le (from_le bs :: u128) = bs"
  by (rule from_le_inverse; simp)+

lemma from_be_to_be [simp, codec]:
  "from_be (to_be x) = (x :: u16)" "from_be (to_be y) = (y :: u32)"
  "from_be (to_be z) = (z :: u64)" "from_be (to_be w) = (w :: u128)"
  by (simp_all add: from_be_def to_be_def)

section \<open>Snapshot headers\<close>

text \<open>
  Several files start with a six-byte magic, a little-endian version and the little-endian
  checksum of the body. Reading the four parts back by index gives what was written.
\<close>

lemma header_bytes:
  assumes "length magic = 6"
  shows "take 6 (magic @ to_le (v :: u16) @ to_le (c :: u32) @ body) = magic"
    and "from_le [(magic @ to_le v @ to_le c @ body) ! 6, (magic @ to_le v @ to_le c @ body) ! 7] = v"
    and "from_le [(magic @ to_le v @ to_le c @ body) ! 8, (magic @ to_le v @ to_le c @ body) ! 9,
                  (magic @ to_le v @ to_le c @ body) ! 10, (magic @ to_le v @ to_le c @ body) ! 11] = c"
    and "drop 12 (magic @ to_le v @ to_le c @ body) = body"
proof -
  obtain v0 v1 where v: "to_le v = [v0, v1]"
    using list_of_length_2 [OF length_to_le(1) [of v]] by blast
  obtain c0 c1 c2 c3 where c: "to_le c = [c0, c1, c2, c3]"
    using list_of_length_4 [OF length_to_le(2) [of c]] by blast
  show "take 6 (magic @ to_le v @ to_le c @ body) = magic" using assms by simp
  show "from_le [(magic @ to_le v @ to_le c @ body) ! 6, (magic @ to_le v @ to_le c @ body) ! 7] = v"
    using from_le_to_le(1) [of v] assms by (simp add: nth_append v c)
  show "from_le [(magic @ to_le v @ to_le c @ body) ! 8, (magic @ to_le v @ to_le c @ body) ! 9,
                 (magic @ to_le v @ to_le c @ body) ! 10, (magic @ to_le v @ to_le c @ body) ! 11] = c"
    using from_le_to_le(2) [of c] assms by (simp add: nth_append v c)
  show "drop 12 (magic @ to_le v @ to_le c @ body) = body" using assms by (simp add: v c)
qed

end
