(* ===== verification/Hlc.thy ===== *)
theory Hlc
  imports Prelude
begin

text \<open>
  Frontier points (\<^verbatim>\<open>store/stats.rs\<close>): the pair of wall clock and global sequence that
  every watermark carries, its lexicographic \<^verbatim>\<open>Ord\<close>, the sequence-axis maximum and
  minimum, and the watermark kinds. The interface \<open>bounded_join\<close> is what the frontier
  relies on: a commutative, associative, idempotent join with a least element.
\<close>

section \<open>Frontier points\<close>

datatype HlcPoint = HlcPoint (wall_ms: u64) (global_sequence: u64)

definition ORIGIN :: HlcPoint where
  "ORIGIN = HlcPoint 0 0"

definition covers_sequence :: "HlcPoint \<Rightarrow> HlcPoint \<Rightarrow> bool" where
  "covers_sequence p target \<longleftrightarrow> global_sequence p \<ge> global_sequence target"

text \<open>The derived comparison: wall clock first, then the global sequence.\<close>

instantiation HlcPoint :: linorder
begin

definition less_eq_HlcPoint :: "HlcPoint \<Rightarrow> HlcPoint \<Rightarrow> bool" where
  "p \<le> q \<longleftrightarrow> wall_ms p < wall_ms q \<or> (wall_ms p = wall_ms q \<and> global_sequence p \<le> global_sequence q)"

definition less_HlcPoint :: "HlcPoint \<Rightarrow> HlcPoint \<Rightarrow> bool" where
  "p < q \<longleftrightarrow> wall_ms p < wall_ms q \<or> (wall_ms p = wall_ms q \<and> global_sequence p < global_sequence q)"

instance
  by standard (auto simp: less_eq_HlcPoint_def less_HlcPoint_def intro: HlcPoint.expand)

end

definition max_by_sequence :: "HlcPoint \<Rightarrow> HlcPoint \<Rightarrow> HlcPoint" where
  "max_by_sequence p q =
     (if global_sequence p < global_sequence q then q
      else if global_sequence p > global_sequence q then p
      else max p q)"

definition min_by_sequence :: "HlcPoint \<Rightarrow> HlcPoint \<Rightarrow> HlcPoint" where
  "min_by_sequence p q =
     (if global_sequence p < global_sequence q then p
      else if global_sequence p > global_sequence q then q
      else min p q)"

datatype WatermarkKind = Accepted | Written | Durable | Applied | Visible | Emitted

section \<open>The sequence-axis order\<close>

text \<open>
  \<open>seq_le\<close> compares the global sequence first and the wall clock second. It is not an
  operation of the source: it is the order whose join and meet \<^verbatim>\<open>max_by_sequence\<close> and
  \<^verbatim>\<open>min_by_sequence\<close> compute.
\<close>

definition seq_le :: "HlcPoint \<Rightarrow> HlcPoint \<Rightarrow> bool" where
  "seq_le p q \<longleftrightarrow> global_sequence p < global_sequence q
     \<or> (global_sequence p = global_sequence q \<and> wall_ms p \<le> wall_ms q)"

lemma seq_le_refl [simp, intro]: "seq_le p p"
  by (simp add: seq_le_def)

lemma seq_le_trans [trans]: "seq_le p q \<Longrightarrow> seq_le q r \<Longrightarrow> seq_le p r"
  by (auto simp: seq_le_def)

lemma seq_le_antisym: "seq_le p q \<Longrightarrow> seq_le q p \<Longrightarrow> p = q"
  by (auto simp: seq_le_def intro: HlcPoint.expand)

lemma seq_le_total: "seq_le p q \<or> seq_le q p"
  by (auto simp: seq_le_def)

lemma max_by_sequence_seq_le: "max_by_sequence p q = (if seq_le p q then q else p)"
  by (auto simp: max_by_sequence_def seq_le_def max_def less_eq_HlcPoint_def intro: HlcPoint.expand)

lemma min_by_sequence_seq_le: "min_by_sequence p q = (if seq_le p q then p else q)"
  by (auto simp: min_by_sequence_def seq_le_def min_def less_eq_HlcPoint_def intro: HlcPoint.expand)

lemma ORIGIN_seq_le [simp]: "seq_le ORIGIN p"
  by (auto simp: seq_le_def ORIGIN_def word_gt_0)

lemma seq_le_covers: "seq_le p q \<Longrightarrow> covers_sequence q p"
  by (auto simp: seq_le_def covers_sequence_def)

lemma covers_refl [simp]: "covers_sequence p p"
  by (simp add: covers_sequence_def)

lemma covers_trans: "covers_sequence p q \<Longrightarrow> covers_sequence q r \<Longrightarrow> covers_sequence p r"
  by (simp add: covers_sequence_def)

lemma covers_ORIGIN [simp]: "covers_sequence p ORIGIN"
  by (simp add: covers_sequence_def ORIGIN_def)

lemma global_sequence_max [simp]:
  "global_sequence (max_by_sequence p q) = max (global_sequence p) (global_sequence q)"
  by (auto simp: max_by_sequence_def max_def)

lemma global_sequence_min [simp]:
  "global_sequence (min_by_sequence p q) = min (global_sequence p) (global_sequence q)"
  by (auto simp: min_by_sequence_def min_def)

lemma covers_max: "covers_sequence (max_by_sequence p q) r \<longleftrightarrow> covers_sequence p r \<or> covers_sequence q r"
  by (auto simp: covers_sequence_def max_def)

lemma max_covered: "covers_sequence r (max_by_sequence p q) \<longleftrightarrow> covers_sequence r p \<and> covers_sequence r q"
  by (auto simp: covers_sequence_def max_def)

lemma covers_min: "covers_sequence (min_by_sequence p q) r \<longleftrightarrow> covers_sequence p r \<and> covers_sequence q r"
  by (auto simp: covers_sequence_def min_def)

lemmas covers_simps = covers_max max_covered covers_min

section \<open>Joins with a least element\<close>

text \<open>
  The contract of a watermark merge. From it follow the facts the frontier uses: the
  induced order, that a run of merges is an upper bound of everything merged, and that
  the order in which points arrive does not matter.
\<close>

locale bounded_join =
  fixes join :: "'a \<Rightarrow> 'a \<Rightarrow> 'a"
    and bottom :: 'a
  assumes join_assoc: "join (join a b) c = join a (join b c)"
    and join_commute: "join a b = join b a"
    and join_idem: "join a a = a"
    and join_bottom: "join bottom a = a"
begin

lemma join_left_commute: "join a (join b c) = join b (join a c)"
  by (metis join_assoc join_commute)

lemma join_absorb: "join a (join a b) = join a b"
  by (metis join_assoc join_idem)

lemma fold_join: "fold join xs a = join a (fold join xs bottom)"
proof (induction xs arbitrary: a)
  case Nil
  then show ?case by (metis fold_Nil id_apply join_bottom join_commute)
next
  case (Cons x xs)
  from Cons [of "join x a"] Cons [of "join x bottom"] show ?case
    by (simp add: join_assoc join_commute join_left_commute join_bottom)
qed

lemma fold_join_upper: "x \<in> set xs \<Longrightarrow> join x (fold join xs a) = fold join xs a"
proof (induction xs arbitrary: a)
  case Nil
  then show ?case by simp
next
  case (Cons y ys)
  show ?case
  proof (cases "x \<in> set ys")
    case True
    with Cons show ?thesis by simp
  next
    case False
    with Cons.prems have "x = y" by simp
    then show ?thesis
      by (metis fold_join join_absorb join_assoc fold_simps(2))
  qed
qed

lemma fold_join_append:
  "fold join (xs @ ys) a = join a (join (fold join xs bottom) (fold join ys bottom))"
  using fold_join [of ys "fold join xs a"] fold_join [of xs a] by (simp add: join_assoc)

lemma fold_join_swap: "fold join (xs @ ys) a = fold join (ys @ xs) a"
  by (simp only: fold_join_append join_commute)

lemma fold_join_twice: "fold join xs (fold join xs a) = fold join xs a"
  by (metis fold_join join_absorb join_commute)

end

interpretation seq_join: bounded_join max_by_sequence ORIGIN
proof
  fix a b c :: HlcPoint
  show "max_by_sequence (max_by_sequence a b) c = max_by_sequence a (max_by_sequence b c)"
    by (auto simp: max_by_sequence_seq_le seq_le_def intro!: HlcPoint.expand)
  show "max_by_sequence a b = max_by_sequence b a"
    using seq_le_total [of a b] by (auto simp: max_by_sequence_seq_le dest: seq_le_antisym)
qed (simp_all add: max_by_sequence_seq_le)

lemma ORIGIN_le [simp]: "ORIGIN \<le> p"
  by (auto simp: less_eq_HlcPoint_def ORIGIN_def word_gt_0)

interpretation hlc_join: bounded_join "max :: HlcPoint \<Rightarrow> HlcPoint \<Rightarrow> HlcPoint" ORIGIN
  by unfold_locales (rule max.assoc, rule max.commute, simp_all add: max_absorb2)

lemma max_min_absorb: "max_by_sequence p (min_by_sequence p q) = p"
  using seq_le_total [of p q] by (auto simp: max_by_sequence_seq_le min_by_sequence_seq_le dest: seq_le_antisym)

lemma min_max_absorb: "min_by_sequence p (max_by_sequence p q) = p"
  using seq_le_total [of p q] by (auto simp: max_by_sequence_seq_le min_by_sequence_seq_le dest: seq_le_antisym)

lemma min_by_sequence_comm: "min_by_sequence p q = min_by_sequence q p"
  using seq_le_total [of p q] by (auto simp: min_by_sequence_seq_le dest: seq_le_antisym)

lemma min_by_sequence_assoc:
  "min_by_sequence (min_by_sequence p q) r = min_by_sequence p (min_by_sequence q r)"
  by (auto simp: min_by_sequence_seq_le seq_le_def intro!: HlcPoint.expand)

section \<open>Properties\<close>

text \<open>
  Merging watermarks by sequence is a lattice: maximum and minimum are associative,
  commutative and idempotent, absorb each other, have the origin as least element, and a
  merged point covers a target exactly when one (for the maximum) or both (for the minimum)
  of its parts do. Hence the order and repetition of watermark reports do not matter.
\<close>

theorem watermark_merge_lattice:
  "max_by_sequence (max_by_sequence p q) r = max_by_sequence p (max_by_sequence q r) \<and>
   min_by_sequence (min_by_sequence p q) r = min_by_sequence p (min_by_sequence q r) \<and>
   max_by_sequence p q = max_by_sequence q p \<and> min_by_sequence p q = min_by_sequence q p \<and>
   max_by_sequence p p = p \<and> max_by_sequence ORIGIN p = p \<and>
   max_by_sequence p (min_by_sequence p q) = p \<and> min_by_sequence p (max_by_sequence p q) = p \<and>
   (covers_sequence (max_by_sequence p q) r = (covers_sequence p r \<or> covers_sequence q r)) \<and>
   (covers_sequence (min_by_sequence p q) r = (covers_sequence p r \<and> covers_sequence q r)) \<and>
   fold max_by_sequence (ps @ qs) p = fold max_by_sequence (qs @ ps) p \<and>
   fold max_by_sequence ps (fold max_by_sequence ps p) = fold max_by_sequence ps p"
  by (intro conjI)
    (rule seq_join.join_assoc min_by_sequence_assoc seq_join.join_commute min_by_sequence_comm
      seq_join.join_idem seq_join.join_bottom max_min_absorb min_max_absorb covers_max covers_min
      seq_join.fold_join_swap seq_join.fold_join_twice)+

end
