(* ===== verification/Coordinate.thy ===== *)
theory Coordinate
  imports Prelude "HOL-Library.Sublist"
begin

text \<open>
  The names events carry: event kinds (\<^verbatim>\<open>event/kind.rs\<close>), coordinates and regions
  (\<^verbatim>\<open>coordinate/mod.rs\<close>) and causal positions (\<^verbatim>\<open>coordinate/position.rs\<close>).
  A Rust \<^verbatim>\<open>&str\<close> is its UTF-8 byte string, a \<open>string\<close> whose characters are bytes.
\<close>

unbundle bit_operations_syntax

section \<open>Event kinds\<close>

datatype EventKind = EventKind (as_raw_u16: u16)

datatype EventKindError =
    CategoryOutOfRange u8
  | ReservedSystemCategory
  | ReservedEffectCategory
  | TypeIdOutOfRange u16

definition try_custom :: "u8 \<Rightarrow> u16 \<Rightarrow> (EventKindError, EventKind) result" where
  "try_custom category type_id =
     (if category \<ge> 16 then Inl (CategoryOutOfRange category)
      else if category = 0 then Inl ReservedSystemCategory
      else if category = 0xD then Inl ReservedEffectCategory
      else if type_id \<ge> 0x1000 then Inl (TypeIdOutOfRange type_id)
      else Inr (EventKind (push_bit 12 (ucast category) OR type_id)))"

text \<open>The const constructor panics where \<open>try_custom\<close> reports an error.\<close>

definition custom :: "u8 \<Rightarrow> u16 \<Rightarrow> EventKind option" where
  "custom category type_id =
     (if \<not> category < 16 then None
      else if \<not> category \<noteq> 0 then None
      else if \<not> category \<noteq> 0xD then None
      else if \<not> type_id < 0x1000 then None
      else Some (EventKind (push_bit 12 (ucast category) OR type_id)))"

definition category :: "EventKind \<Rightarrow> u8" where
  "category k = ucast (drop_bit 12 (as_raw_u16 k))"

definition type_id :: "EventKind \<Rightarrow> u16" where
  "type_id k = as_raw_u16 k AND 0x0FFF"

definition is_system :: "EventKind \<Rightarrow> bool" where
  "is_system k \<longleftrightarrow> category k = 0"

definition is_effect :: "EventKind \<Rightarrow> bool" where
  "is_effect k \<longleftrightarrow> category k = 0xD"

definition is_reserved :: "EventKind \<Rightarrow> bool" where
  "is_reserved k \<longleftrightarrow> is_system k \<or> is_effect k"

definition DATA :: EventKind where "DATA = EventKind 0x1000"
definition SYSTEM_BATCH_BEGIN :: EventKind where "SYSTEM_BATCH_BEGIN = EventKind 0x0006"
definition SYSTEM_BATCH_COMMIT :: EventKind where "SYSTEM_BATCH_COMMIT = EventKind 0x0007"

lemma bits_below:
  assumes "unat x < 2 ^ n" and "bit (x :: 'a::len word) m"
  shows "m < n"
proof -
  have "take_bit n x = x"
    using assms(1) by (simp add: word_unat_eq_iff unsigned_take_bit_eq take_bit_nat_eq_self)
  with assms(2) show ?thesis by (metis bit_take_bit_iff)
qed

lemma kind_parts:
  assumes "c < 16" and "t < 0x1000"
  shows "category (EventKind (push_bit 12 (ucast c) OR t)) = c"
    and "type_id (EventKind (push_bit 12 (ucast c) OR t)) = t"
proof -
  have c: "bit c m \<Longrightarrow> m < 4" and t: "bit t m \<Longrightarrow> m < 12" for m
    using bits_below [of c 4 m] bits_below [of t 12 m] assms by (simp_all add: word_less_nat_alt)
  show "category (EventKind (push_bit 12 (ucast c) OR t)) = c"
    by (rule bit_word_eqI) (auto simp: category_def bit_simps dest: c t)
  have mask: "(0x0FFF :: u16) = mask 12"
    by (simp add: mask_eq_exp_minus_1)
  show "type_id (EventKind (push_bit 12 (ucast c) OR t)) = t"
    unfolding type_id_def mask by (rule bit_word_eqI) (auto simp: bit_simps dest: t)
qed

lemma custom_try_custom:
  "custom c t = (case try_custom c t of Inl _ \<Rightarrow> None | Inr k \<Rightarrow> Some k)"
  by (auto simp: custom_def try_custom_def)

section \<open>Coordinates\<close>

record coordinate =
  coord_entity :: string
  coord_scope :: string

datatype CoordinateError =
    EmptyEntity
  | EmptyScope
  | EntityTooLong nat nat
  | ScopeTooLong nat nat
  | NulByte
  | ControlChar
  | PathTraversal
  | ForbiddenSeparator

definition MAX_COORDINATE_COMPONENT_LEN :: nat where
  "MAX_COORDINATE_COMPONENT_LEN = 1024"

text \<open>The byte loop of \<^verbatim>\<open>validate_component_bytes\<close>: the first offending byte decides.\<close>

fun check_bytes :: "string \<Rightarrow> (CoordinateError, unit) result" where
  "check_bytes [] = Inr ()"
| "check_bytes (c # cs) =
     (let byte = of_char c :: nat in
      if byte = 0 then Inl NulByte
      else if byte < 0x20 \<or> byte = 0x7F then Inl ControlChar
      else check_bytes cs)"

definition validate_component_bytes :: "string \<Rightarrow> (CoordinateError, unit) result" where
  "validate_component_bytes value =
     bind_result (check_bytes value) (\<lambda>_.
       if CHR ''/'' \<in> set value \<or> sublist ''..'' value then Inl PathTraversal
       else if CHR ''|'' \<in> set value \<or> CHR ''='' \<in> set value then Inl ForbiddenSeparator
       else Inr ())"

definition validate_parts :: "string \<Rightarrow> string \<Rightarrow> (CoordinateError, unit) result" where
  "validate_parts entity scope =
     (if entity = [] then Inl EmptyEntity
      else if scope = [] then Inl EmptyScope
      else if length entity > MAX_COORDINATE_COMPONENT_LEN
        then Inl (EntityTooLong (length entity) MAX_COORDINATE_COMPONENT_LEN)
      else if length scope > MAX_COORDINATE_COMPONENT_LEN
        then Inl (ScopeTooLong (length scope) MAX_COORDINATE_COMPONENT_LEN)
      else bind_result (validate_component_bytes entity) (\<lambda>_. validate_component_bytes scope))"

definition coordinate_new :: "string \<Rightarrow> string \<Rightarrow> (CoordinateError, coordinate) result" where
  "coordinate_new entity scope =
     bind_result (validate_parts entity scope) (\<lambda>_. Inr \<lparr>coord_entity = entity, coord_scope = scope\<rparr>)"

text \<open>
  The serde form: \<^verbatim>\<open>CoordinateWire\<close> is the pair of strings, and deserializing validates
  again through \<^verbatim>\<open>Coordinate::new\<close>.
\<close>

definition coordinate_to_wire :: "coordinate \<Rightarrow> string \<times> string" where
  "coordinate_to_wire c = (coord_entity c, coord_scope c)"

definition coordinate_of_wire :: "string \<times> string \<Rightarrow> (CoordinateError, coordinate) result" where
  "coordinate_of_wire w = coordinate_new (fst w) (snd w)"

text \<open>What an accepted component looks like.\<close>

definition good_component :: "string \<Rightarrow> bool" where
  "good_component v \<longleftrightarrow>
     0 < length v \<and> length v \<le> 1024 \<and>
     (\<forall>c \<in> set v. 0x20 \<le> (of_char c :: nat) \<and> of_char c \<noteq> (0x7F :: nat) \<and> c \<notin> {CHR ''/'', CHR ''|'', CHR ''=''}) \<and>
     \<not> sublist ''..'' v"

lemma check_bytes_ok:
  "check_bytes v = Inr () \<longleftrightarrow> (\<forall>c \<in> set v. 0x20 \<le> (of_char c :: nat) \<and> of_char c \<noteq> (0x7F :: nat))"
  by (induction v) (auto simp: Let_def)

lemma validate_component_ok:
  "v \<noteq> [] \<Longrightarrow> length v \<le> 1024 \<Longrightarrow> validate_component_bytes v = Inr () \<longleftrightarrow> good_component v"
  by (auto simp: validate_component_bytes_def good_component_def check_bytes_ok)

lemma validate_parts_ok:
  "validate_parts e s = Inr () \<longleftrightarrow> good_component e \<and> good_component s"
proof (cases "e = [] \<or> s = [] \<or> 1024 < length e \<or> 1024 < length s")
  case True
  then show ?thesis
    by (auto simp: validate_parts_def good_component_def MAX_COORDINATE_COMPONENT_LEN_def)
next
  case False
  then show ?thesis
    by (auto simp: validate_parts_def MAX_COORDINATE_COMPONENT_LEN_def validate_component_ok)
qed

lemma coordinate_new_ok:
  "coordinate_new e s = Inr c \<longleftrightarrow>
     good_component e \<and> good_component s \<and> c = \<lparr>coord_entity = e, coord_scope = s\<rparr>"
  using validate_parts_ok [of e s] by (auto simp: coordinate_new_def)

section \<open>Regions\<close>

datatype RegionFilterError = InvertedClockRange u32 u32 | FilterCategoryOutOfRange u8

record clock_range =
  cr_start :: u32
  cr_end :: u32

definition clock_range_new :: "u32 \<Rightarrow> u32 \<Rightarrow> (RegionFilterError, clock_range) result" where
  "clock_range_new start end =
     (if start > end then Inl (InvertedClockRange start end)
      else Inr \<lparr>cr_start = start, cr_end = end\<rparr>)"

definition event_category_new :: "u8 \<Rightarrow> (RegionFilterError, u8) result" where
  "event_category_new cat = (if cat \<ge> 16 then Inl (FilterCategoryOutOfRange cat) else Inr cat)"

definition event_category_of_kind :: "EventKind \<Rightarrow> u8" where
  "event_category_of_kind k = category k"

datatype KindFilter = Exact EventKind | Category u8 | Any

record region =
  rg_entity_prefix :: "string option"
  rg_scope :: "string option"
  rg_fact :: "KindFilter option"
  rg_clock_range :: "clock_range option"
  rg_lane :: "u32 option"

definition region_all :: region where
  "region_all = \<lparr>rg_entity_prefix = None, rg_scope = None, rg_fact = None,
     rg_clock_range = None, rg_lane = None\<rparr>"

definition region_entity :: "string \<Rightarrow> region" where
  "region_entity pfx = region_all\<lparr>rg_entity_prefix := Some pfx\<rparr>"

definition region_scope :: "string \<Rightarrow> region" where
  "region_scope scope = region_all\<lparr>rg_scope := Some scope\<rparr>"

definition with_fact_category :: "region \<Rightarrow> u8 \<Rightarrow> region" where
  "with_fact_category r cat = r\<lparr>rg_fact := Some (Category cat)\<rparr>"

definition namespace_prefix_matches :: "string \<Rightarrow> string \<Rightarrow> bool" where
  "namespace_prefix_matches pfx candidate \<longleftrightarrow>
     candidate = pfx \<or>
     (prefix pfx candidate \<and>
      (case drop (length pfx) candidate of [] \<Rightarrow> False | c # _ \<Rightarrow> c = CHR '':''))"

definition matches_entity :: "region \<Rightarrow> string \<Rightarrow> bool" where
  "matches_entity r entity =
     (case rg_entity_prefix r of Some pfx \<Rightarrow> namespace_prefix_matches pfx entity | None \<Rightarrow> True)"

definition matches_event_on_lane ::
  "region \<Rightarrow> string \<Rightarrow> string \<Rightarrow> EventKind \<Rightarrow> u32 option \<Rightarrow> bool" where
  "matches_event_on_lane r entity scope kind lane =
     (if \<not> matches_entity r entity then False
      else if (case rg_lane r of Some expected \<Rightarrow> lane \<noteq> Some expected | None \<Rightarrow> False) then False
      else if (case rg_scope r of Some s \<Rightarrow> scope \<noteq> s | None \<Rightarrow> False) then False
      else if (case rg_fact r of
                 Some (Exact k) \<Rightarrow> kind \<noteq> k
               | Some (Category c) \<Rightarrow> category kind \<noteq> c
               | Some Any \<Rightarrow> False
               | None \<Rightarrow> False) then False
      else True)"

definition matches_event :: "region \<Rightarrow> string \<Rightarrow> string \<Rightarrow> EventKind \<Rightarrow> bool" where
  "matches_event r entity scope kind = matches_event_on_lane r entity scope kind None"

lemma namespace_prefix_matches_iff:
  "namespace_prefix_matches pfx cand \<longleftrightarrow> cand = pfx \<or> (\<exists>rest. cand = pfx @ CHR '':'' # rest)"
  by (auto simp: namespace_prefix_matches_def prefix_def split: list.splits)

section \<open>Causal positions\<close>

record dag_position =
  dp_wall_ms :: u64
  dp_counter :: u16
  dp_depth :: u32
  dp_lane :: u32
  dp_sequence :: u32

datatype ordering = Less | Equal | Greater

definition cmp :: "'a::linorder \<Rightarrow> 'a \<Rightarrow> ordering" where
  "cmp a b = (if a < b then Less else if a = b then Equal else Greater)"

definition dag_new :: "u32 \<Rightarrow> u32 \<Rightarrow> u32 \<Rightarrow> dag_position" where
  "dag_new depth lane sequence =
     \<lparr>dp_wall_ms = 0, dp_counter = 0, dp_depth = depth, dp_lane = lane, dp_sequence = sequence\<rparr>"

definition with_hlc :: "u64 \<Rightarrow> u16 \<Rightarrow> u32 \<Rightarrow> u32 \<Rightarrow> u32 \<Rightarrow> dag_position" where
  "with_hlc wall_ms counter depth lane sequence =
     \<lparr>dp_wall_ms = wall_ms, dp_counter = counter, dp_depth = depth, dp_lane = lane,
      dp_sequence = sequence\<rparr>"

definition dag_root :: dag_position where
  "dag_root = \<lparr>dp_wall_ms = 0, dp_counter = 0, dp_depth = 0, dp_lane = 0, dp_sequence = 0\<rparr>"

definition dag_child :: "u32 \<Rightarrow> dag_position" where
  "dag_child sequence =
     \<lparr>dp_wall_ms = 0, dp_counter = 0, dp_depth = 0, dp_lane = 0, dp_sequence = sequence\<rparr>"

definition dag_child_at :: "u32 \<Rightarrow> u64 \<Rightarrow> u16 \<Rightarrow> dag_position" where
  "dag_child_at sequence wall_ms counter =
     \<lparr>dp_wall_ms = wall_ms, dp_counter = counter, dp_depth = 0, dp_lane = 0,
      dp_sequence = sequence\<rparr>"

definition dag_fork :: "u32 \<Rightarrow> u32 \<Rightarrow> dag_position" where
  "dag_fork parent_depth new_lane =
     \<lparr>dp_wall_ms = 0, dp_counter = 0, dp_depth = saturating_add parent_depth 1,
      dp_lane = new_lane, dp_sequence = 0\<rparr>"

definition is_root :: "dag_position \<Rightarrow> bool" where
  "is_root p \<longleftrightarrow> dp_depth p = 0 \<and> dp_lane p = 0 \<and> dp_sequence p = 0"

definition is_ancestor_of :: "dag_position \<Rightarrow> dag_position \<Rightarrow> bool" where
  "is_ancestor_of p q \<longleftrightarrow>
     dp_lane p = dp_lane q \<and> dp_depth p = dp_depth q \<and> dp_sequence p < dp_sequence q"

definition partial_cmp :: "dag_position \<Rightarrow> dag_position \<Rightarrow> ordering option" where
  "partial_cmp p q =
     (if dp_lane p \<noteq> dp_lane q \<or> dp_depth p \<noteq> dp_depth q then None
      else if cmp (dp_sequence p) (dp_sequence q) \<noteq> Equal
        then Some (cmp (dp_sequence p) (dp_sequence q))
      else if dp_wall_ms p = dp_wall_ms q \<and> dp_counter p = dp_counter q then Some Equal
      else None)"

lemma cmp_simps [simp]:
  "cmp a b = Less \<longleftrightarrow> a < b" "cmp a b = Equal \<longleftrightarrow> a = b" "cmp a b = Greater \<longleftrightarrow> a > b"
  by (auto simp: cmp_def)

section \<open>Properties\<close>

text \<open>
  \<^verbatim>\<open>EventKind::try_custom\<close> accepts exactly the categories 1 to 15 other than 0xD with
  a 12-bit type id; an accepted kind splits back into its category and type id and is
  never one of the reserved system or effect kinds; and the panicking constructor
  returns a kind exactly where \<^verbatim>\<open>try_custom\<close> does, the same one.
\<close>

theorem try_custom_correct:
  "((\<exists>k. try_custom c t = Inr k) \<longleftrightarrow> c \<notin> {0, 0xD} \<and> c < 16 \<and> t < 0x1000) \<and>
   (try_custom c t = Inr k \<longrightarrow> category k = c \<and> type_id k = t \<and> \<not> is_reserved k) \<and>
   (custom c t = Some k \<longleftrightarrow> try_custom c t = Inr k)"
proof (intro conjI impI)
  show "(\<exists>k. try_custom c t = Inr k) \<longleftrightarrow> c \<notin> {0, 0xD} \<and> c < 16 \<and> t < 0x1000"
    by (auto simp: try_custom_def)
  assume "try_custom c t = Inr k"
  then have "c < 16" "t < 0x1000" "c \<noteq> 0" "c \<noteq> 0xD" and k: "k = EventKind (push_bit 12 (ucast c) OR t)"
    by (auto simp: try_custom_def split: if_splits)
  then show "category k = c" "type_id k = t" "\<not> is_reserved k"
    using kind_parts [of c t] by (auto simp: is_reserved_def is_system_def is_effect_def)
next
  show "custom c t = Some k \<longleftrightarrow> try_custom c t = Inr k"
    by (auto simp: custom_try_custom split: sum.splits)
qed

theorem try_custom_correct_witness:
  "try_custom 0xF 0xA01 = Inr (EventKind 0xFA01) \<and> category (EventKind 0xFA01) = 0xF"
proof -
  have "try_custom 0xF 0xA01 = Inr (EventKind 0xFA01)" by (simp add: try_custom_def)
  then show ?thesis
    using try_custom_correct [of "0xF" "0xA01" "EventKind 0xFA01"] by simp
qed

text \<open>
  \<^verbatim>\<open>Coordinate::new\<close> succeeds exactly when both components are 1 to 1024 bytes long, hold
  no ASCII control character, no path separator, no \<open>..\<close> and no identity separator,
  and then stores them unchanged; and a coordinate that was built this way survives
  serialization and validating deserialization unchanged.
\<close>

theorem coordinate_new_correct:
  "(coordinate_new e s = Inr c \<longleftrightarrow>
      good_component e \<and> good_component s \<and> c = \<lparr>coord_entity = e, coord_scope = s\<rparr>) \<and>
   (coordinate_new e s = Inr c \<longrightarrow> coordinate_of_wire (coordinate_to_wire c) = Inr c)"
  by (auto simp: coordinate_new_ok coordinate_of_wire_def coordinate_to_wire_def)

theorem coordinate_new_correct_witness:
  "coordinate_of_wire (coordinate_to_wire \<lparr>coord_entity = ''p:1'', coord_scope = ''r''\<rparr>)
     = Inr \<lparr>coord_entity = ''p:1'', coord_scope = ''r''\<rparr>"
proof -
  have "coordinate_new ''p:1'' ''r'' = Inr \<lparr>coord_entity = ''p:1'', coord_scope = ''r''\<rparr>"
    by code_simp
  then show ?thesis using coordinate_new_correct by blast
qed

text \<open>
  A region accepts an event exactly when each filter it sets accepts it: the entity
  is the prefix itself or continues it after a colon (so \<open>p:1\<close> does not cover \<open>p:10\<close>),
  the lane is known and equal, the scope is equal and the kind filter admits the kind;
  a filter that is not set accepts everything.
\<close>

theorem matches_event_on_lane_correct:
  "matches_event_on_lane r entity scope kind lane \<longleftrightarrow>
     (\<forall>pfx. rg_entity_prefix r = Some pfx \<longrightarrow>
        entity = pfx \<or> (\<exists>rest. entity = pfx @ CHR '':'' # rest)) \<and>
     (\<forall>l. rg_lane r = Some l \<longrightarrow> lane = Some l) \<and>
     (\<forall>s. rg_scope r = Some s \<longrightarrow> scope = s) \<and>
     (\<forall>k. rg_fact r = Some (Exact k) \<longrightarrow> kind = k) \<and>
     (\<forall>c. rg_fact r = Some (Category c) \<longrightarrow> category kind = c)"
  by (auto simp: matches_event_on_lane_def matches_entity_def namespace_prefix_matches_iff
      split: option.splits KindFilter.splits)

theorem matches_event_on_lane_correct_witness:
  "matches_event_on_lane ((region_entity ''p:1'')\<lparr>rg_lane := Some 3\<rparr>) ''p:1:x'' ''r'' DATA (Some 3)"
  by (subst matches_event_on_lane_correct) (simp add: region_entity_def region_all_def)

text \<open>
  The order on causal positions is a strict partial order on each branch: comparison is
  exact on equal positions, positions of different lanes or depths are incomparable,
  \<^verbatim>\<open>is_ancestor_of\<close> is exactly \<^verbatim>\<open>Less\<close>, converse comparisons agree, and \<^verbatim>\<open>Less\<close> composes
  with both \<^verbatim>\<open>Less\<close> and \<^verbatim>\<open>Equal\<close>; a fork always moves one level deeper unless the depth
  counter is exhausted.
\<close>

theorem partial_cmp_correct:
  "(partial_cmp p q = Some Equal \<longleftrightarrow> p = q) \<and>
   (partial_cmp p q = Some Less \<longleftrightarrow> is_ancestor_of p q) \<and>
   (partial_cmp p q = Some Greater \<longleftrightarrow> partial_cmp q p = Some Less) \<and>
   (dp_lane p \<noteq> dp_lane q \<or> dp_depth p \<noteq> dp_depth q \<longrightarrow> partial_cmp p q = None) \<and>
   (partial_cmp p q = Some Less \<longrightarrow> partial_cmp q r \<in> {Some Less, Some Equal} \<longrightarrow>
      partial_cmp p r = Some Less) \<and>
   unat (dp_depth (dag_fork (dp_depth p) l)) = min (unat (dp_depth p) + 1) (2 ^ 32 - 1)"
proof (intro conjI impI)
  show "partial_cmp p q = Some Equal \<longleftrightarrow> p = q"
    by (cases p; cases q) (auto simp: partial_cmp_def)
  show "partial_cmp p q = Some Less \<longleftrightarrow> is_ancestor_of p q"
    by (auto simp: partial_cmp_def is_ancestor_of_def)
  show "partial_cmp p q = Some Greater \<longleftrightarrow> partial_cmp q p = Some Less"
    by (auto simp: partial_cmp_def)
  show "partial_cmp p q = None" if "dp_lane p \<noteq> dp_lane q \<or> dp_depth p \<noteq> dp_depth q"
    using that by (auto simp: partial_cmp_def)
  show "partial_cmp p r = Some Less"
    if "partial_cmp p q = Some Less" and "partial_cmp q r \<in> {Some Less, Some Equal}"
    using that by (auto simp: partial_cmp_def split: if_splits)
  show "unat (dp_depth (dag_fork (dp_depth p) l)) = min (unat (dp_depth p) + 1) (2 ^ 32 - 1)"
    by (simp add: dag_fork_def unat_saturating_add)
qed

theorem partial_cmp_correct_witness:
  "partial_cmp (dag_new 0 1 4) (dag_new 0 1 9) = Some Less \<and>
   partial_cmp (dag_new 0 1 4) (dag_new 0 2 9) = None"
  using partial_cmp_correct [of "dag_new 0 1 4" "dag_new 0 1 9" "dag_new 0 1 9" 0]
    partial_cmp_correct [of "dag_new 0 1 4" "dag_new 0 2 9" "dag_new 0 1 9" 0]
  by (simp add: is_ancestor_of_def dag_new_def)

end
