(* ===== verification/Errors.thy ===== *)
theory Errors
  imports Hlc Coordinate
begin

text \<open>
  \<^verbatim>\<open>StoreError\<close> (\<^verbatim>\<open>store/error.rs\<close>), one constructor per variant. A message the source formats
  is a value of \<open>detail\<close>: one constructor per message, with the values the message
  interpolates. Errors of the serialization library and of the operating system, file paths
  and the payloads of the platform and projection variants are opaque and left out.
\<close>

datatype (plugins only: code size) detail =
    BadMagic
  | UnexpectedEof
  | UnsupportedVersion u16
  | HeaderTooLong nat
  | BelowFrameRegion u64 u64
  | PastFrameRegion u64 u64
  | FrameTailOverflow
  | FrameLenOutOfRange nat
  | FrameOffsetOverflow
  | PayloadTooLong nat
  | PayloadPastRegion
  | PayloadEndedEarly
  | ActiveReadEndedEarly
  | UnreadablePayload u64
  | CorruptAfterRead u64
  | InvalidBatchCount u32 u64
  | MarkerHashChain u64
  | MissingHashChain u64
  | FrameSizeOverflow nat
  | EntryBufferLen nat
  | EntriesOverflow
  | EntriesBeforeStart
  | TableOffsetPastEntries u64 u64
  | EntryTruncated nat
  | EntityIdxRange nat u32
  | ScopeIdxRange nat u32
  | MidStreamCorruption nat nat
  | ManifestFrameMissing nat nat

datatype HiddenRangesCorruption =
    ReadFailed
  | TooShort nat nat
  | HiddenBadMagic
  | HiddenUnsupportedVersion u16 u16
  | HiddenCrcMismatch u32 u32
  | DecodeFailed
  | MalformedEntries u64 u64

datatype (plugins only: code size) StoreError =
    Io
  | StoreLocked string
  | Coordinate CoordinateError
  | CheckpointId
  | Serialization
  | CrcMismatch u64 u64
  | CorruptSegment u64 detail
  | EventNotFound u128
  | SequenceMismatch string u32 u32
  | WriterCrashed
  | WaitTimeout WatermarkKind HlcPoint u64
  | CacheFailed
  | ProjectionStateContractUnspecified string
  | ProjectionStateExtentUnavailable string
  | ProjectionStateBoundExceeded string
  | SequenceGateViolation string u64 u64 u64
  | Configuration string
  | PlatformProfileInvalid
  | PlatformProfileMismatch string
  | PlatformAdmissionFailed string string
  | EventPayloadRegistry
  | IdempotencyRequired
  | VisibilityFenceActive
  | VisibilityFenceNotActive
  | VisibilityFenceCancelled
  | BatchFailed nat StoreError
  | BatchSyncFailed nat StoreError
  | FaultInjected string
  | IdempotencyPartialBatch
  | IdempotencyFutureVersion u16 u16
  | MmapFutureVersion u16 u16
  | CheckpointFutureVersion u16 u16
  | HiddenRangesFutureVersion u16 u16
  | ForkEvidenceFutureVersion u16 u16
  | ImportProvenanceFutureVersion u16 u16
  | IdempotencyOverflowFailClosed u64 u64
  | InvalidPayloadVersion u16
  | CorruptFrame u64 u64 detail
  | SegmentTooManyEntries u64 u64
  | InternerExhausted u64
  | DataDirMalformed
  | AncestryCorrupt u128
  | RangeMalformed u64 u64
  | InvalidCoordinate "nat option"
  | ReservedKind "nat option" u16
  | InvalidCausation nat nat
  | InvalidCommitMetadata
  | CoordinateNulByte
  | CoordinatePathTraversal
  | CoordinateControlChar
  | HiddenRangesCorrupt HiddenRangesCorruption
  | BatchItemTooLarge nat nat nat
  | EntityClockOverflow string
  | InvalidClock
  | CheckpointWriteFailed string
  | CursorCheckpointCorrupt
  | CursorCheckpointRegionMismatch "string option" string
  | InvariantViolation

definition store_error_of_coordinate :: "CoordinateError \<Rightarrow> StoreError" where
  "store_error_of_coordinate e =
     (case e of
        NulByte \<Rightarrow> CoordinateNulByte
      | ControlChar \<Rightarrow> CoordinateControlChar
      | PathTraversal \<Rightarrow> CoordinatePathTraversal
      | _ \<Rightarrow> Coordinate e)"

end
