(* ===== verification/Events.thy ===== *)
theory Events
  imports Errors
begin

text \<open>
  The data every store component passes around: hash chains (\<^verbatim>\<open>event/hash.rs\<close>), event headers
  (\<^verbatim>\<open>event/header.rs\<close>) and index entries with their disk positions and clock keys
  (\<^verbatim>\<open>store/index/entry.rs\<close>). Identifiers are their 128-bit values, a 32-byte hash is its
  byte list, and the content hash function is the parameter \<open>hash\<close>.
\<close>

unbundle bit_operations_syntax

section \<open>Hash chains\<close>

record hash_chain =
  prev_hash :: bytes
  event_hash :: bytes

definition ZERO_HASH :: bytes where
  "ZERO_HASH = replicate 32 0"

definition hash_chain_default :: hash_chain where
  "hash_chain_default = \<lparr>prev_hash = ZERO_HASH, event_hash = ZERO_HASH\<rparr>"

definition verify_chain :: "(bytes \<Rightarrow> bytes) \<Rightarrow> bytes \<Rightarrow> hash_chain \<Rightarrow> bytes \<Rightarrow> bool" where
  "verify_chain hash content_bytes chain expected_prev \<longleftrightarrow>
     prev_hash chain = expected_prev \<and> event_hash chain = hash content_bytes"

section \<open>Event headers\<close>

record event_header =
  eh_event_id :: u128
  eh_correlation_id :: u128
  eh_causation_id :: "u128 option"
  eh_timestamp_us :: i64
  eh_position :: dag_position
  eh_payload_size :: u32
  eh_event_kind :: EventKind
  eh_flags :: u8
  eh_content_hash :: bytes
  eh_payload_version :: u16

definition FLAG_REQUIRES_ACK :: u8 where "FLAG_REQUIRES_ACK = 0x01"
definition FLAG_TRANSACTIONAL :: u8 where "FLAG_TRANSACTIONAL = 0x02"
definition FLAG_REPLAY :: u8 where "FLAG_REPLAY = 0x08"

definition event_header_new ::
  "u128 \<Rightarrow> u128 \<Rightarrow> u128 option \<Rightarrow> i64 \<Rightarrow> dag_position \<Rightarrow> u32 \<Rightarrow> EventKind \<Rightarrow> event_header" where
  "event_header_new event_id correlation_id causation_id timestamp_us position payload_size event_kind =
     \<lparr>eh_event_id = event_id, eh_correlation_id = correlation_id, eh_causation_id = causation_id,
      eh_timestamp_us = timestamp_us, eh_position = position, eh_payload_size = payload_size,
      eh_event_kind = event_kind, eh_flags = 0, eh_content_hash = ZERO_HASH, eh_payload_version = 0\<rparr>"

definition with_flags :: "event_header \<Rightarrow> u8 \<Rightarrow> event_header" where
  "with_flags h flags = h\<lparr>eh_flags := flags\<rparr>"

definition with_payload_version :: "event_header \<Rightarrow> u16 \<Rightarrow> event_header" where
  "with_payload_version h v = h\<lparr>eh_payload_version := v\<rparr>"

definition requires_ack :: "event_header \<Rightarrow> bool" where
  "requires_ack h \<longleftrightarrow> eh_flags h AND FLAG_REQUIRES_ACK \<noteq> 0"

definition is_transactional :: "event_header \<Rightarrow> bool" where
  "is_transactional h \<longleftrightarrow> eh_flags h AND FLAG_TRANSACTIONAL \<noteq> 0"

definition is_replay :: "event_header \<Rightarrow> bool" where
  "is_replay h \<longleftrightarrow> eh_flags h AND FLAG_REPLAY \<noteq> 0"

text \<open>\<^verbatim>\<open>i64::saturating_sub\<close>, then \<^verbatim>\<open>max(0)\<close> on the signed value and the cast to \<^verbatim>\<open>u64\<close>.\<close>

definition saturating_sub_i64 :: "i64 \<Rightarrow> i64 \<Rightarrow> i64" where
  "saturating_sub_i64 a b =
     (let d = sint a - sint b in
      if d > 2 ^ 63 - 1 then word_of_int (2 ^ 63 - 1)
      else if d < - (2 ^ 63) then word_of_int (- (2 ^ 63)) else word_of_int d)"

definition age_us :: "event_header \<Rightarrow> i64 \<Rightarrow> u64" where
  "age_us h now_us =
     (let d = saturating_sub_i64 now_us (eh_timestamp_us h) in if sint d \<ge> 0 then d else 0)"

section \<open>Index entries\<close>

record disk_pos =
  pos_segment :: u64
  pos_offset :: u64
  pos_length :: u32

type_synonym extensions = "(string, bytes) btree"

record index_entry =
  ie_event_id :: u128
  ie_correlation_id :: u128
  ie_causation_id :: "u128 option"
  ie_coord :: coordinate
  ie_entity_id :: u32
  ie_scope_id :: u32
  ie_kind :: EventKind
  ie_wall_ms :: u64
  ie_clock :: u32
  ie_dag_lane :: u32
  ie_dag_depth :: u32
  ie_hash_chain :: hash_chain
  ie_disk_pos :: disk_pos
  ie_global_sequence :: u64
  ie_receipt_extensions :: extensions

definition is_correlated :: "index_entry \<Rightarrow> bool" where
  "is_correlated e \<longleftrightarrow> ie_event_id e \<noteq> ie_correlation_id e"

definition is_caused_by :: "index_entry \<Rightarrow> u128 \<Rightarrow> bool" where
  "is_caused_by e event_id \<longleftrightarrow> ie_causation_id e = Some event_id"

definition is_root_cause :: "index_entry \<Rightarrow> bool" where
  "is_root_cause e \<longleftrightarrow> ie_causation_id e = None"

record query_hit =
  qh_event_id :: u128
  qh_global_sequence :: u64
  qh_disk_pos :: disk_pos
  qh_kind :: EventKind
  qh_clock :: u32
  qh_dag_lane :: u32

definition query_hit_from_entry :: "index_entry \<Rightarrow> query_hit" where
  "query_hit_from_entry e =
     \<lparr>qh_event_id = ie_event_id e, qh_global_sequence = ie_global_sequence e,
      qh_disk_pos = ie_disk_pos e, qh_kind = ie_kind e, qh_clock = ie_clock e,
      qh_dag_lane = ie_dag_lane e\<rparr>"

text \<open>The key of an entity's stream: wall clock, then entity clock, then event id.\<close>

datatype ClockKey = ClockKey (ck_wall_ms: u64) (ck_clock: u32) (ck_uuid: u128)

instantiation ClockKey :: linorder
begin

definition less_ClockKey :: "ClockKey \<Rightarrow> ClockKey \<Rightarrow> bool" where
  "p < q \<longleftrightarrow> ck_wall_ms p < ck_wall_ms q \<or>
     (ck_wall_ms p = ck_wall_ms q \<and> (ck_clock p < ck_clock q \<or> (ck_clock p = ck_clock q \<and> ck_uuid p < ck_uuid q)))"

definition less_eq_ClockKey :: "ClockKey \<Rightarrow> ClockKey \<Rightarrow> bool" where
  "p \<le> q \<longleftrightarrow> p < q \<or> p = (q :: ClockKey)"

instance
proof
  fix p q r :: ClockKey
  show "p < q \<longleftrightarrow> p \<le> q \<and> \<not> q \<le> p"
    by (auto simp: less_eq_ClockKey_def less_ClockKey_def)
  show "p \<le> p" by (simp add: less_eq_ClockKey_def)
  show "p \<le> q \<Longrightarrow> q \<le> r \<Longrightarrow> p \<le> r"
    by (auto simp: less_eq_ClockKey_def less_ClockKey_def)
  show "p \<le> q \<Longrightarrow> q \<le> p \<Longrightarrow> p = q"
    by (auto simp: less_eq_ClockKey_def less_ClockKey_def)
  show "p \<le> q \<or> q \<le> p"
    by (auto simp: less_eq_ClockKey_def less_ClockKey_def intro: ClockKey.expand)
qed

end

section \<open>Lemmas\<close>

lemma sint_word_of_int_i64: "- (2 ^ 63) \<le> d \<Longrightarrow> d \<le> 2 ^ 63 - 1 \<Longrightarrow> sint (word_of_int d :: i64) = d"
  by (simp add: int_word_sint)

lemma uint_i64_nonneg: "sint d \<ge> 0 \<Longrightarrow> uint d = sint (d :: i64)"
  using uint_word_of_int [of "sint d", where 'a = 64] sint_lt [of d] by simp

lemma sint_saturating_sub_i64:
  "sint (saturating_sub_i64 a b) = max (- (2 ^ 63)) (min (sint a - sint b) (2 ^ 63 - 1))"
proof -
  define d where "d = sint a - sint b"
  show ?thesis
    unfolding saturating_sub_i64_def Let_def d_def [symmetric]
    by (auto simp: sint_word_of_int_i64 simp del: word_of_int_numeral)
qed

lemma age_us_eq:
  "int (unat (age_us h now_us)) = max 0 (min (sint now_us - sint (eh_timestamp_us h)) (2 ^ 63 - 1))"
  by (auto simp: age_us_def Let_def sint_saturating_sub_i64 uint_i64_nonneg)

end
