(* ===== verification/Ranges.thy ===== *)
theory Ranges
  imports Errors
begin

text \<open>
  Sets of half-open sequence ranges as sorted, merged lists: the cancelled ranges of
  \<^verbatim>\<open>store/index/visibility.rs\<close> and their normalization in \<^verbatim>\<open>store/hidden_ranges.rs\<close>.
  The interface \<open>range_set\<close> says what insertion means for membership; \<open>canonical_ranges\<close>
  extends it with the normal form that persistence relies on.
\<close>

type_synonym ranges = "(u64 \<times> u64) list"

section \<open>Operations\<close>

definition range_contains :: "ranges \<Rightarrow> u64 \<Rightarrow> bool" where
  "range_contains rs sequence = list_ex (\<lambda>(start, end). sequence \<ge> start \<and> sequence < end) rs"

text \<open>
  One iteration of the merge loop: \<open>merged\<close> is the output vector, whose last range is
  extended when the next range starts no later than it ends.
\<close>

definition merge_step :: "u64 \<times> u64 \<Rightarrow> ranges \<Rightarrow> ranges" where
  "merge_step r merged =
     (if merged \<noteq> [] \<and> fst r \<le> snd (last merged)
      then butlast merged @ [(fst (last merged), max (snd (last merged)) (snd r))]
      else merged @ [r])"

definition merge_sorted :: "ranges \<Rightarrow> ranges" where
  "merge_sorted rs = fold merge_step rs []"

definition insert_cancelled_range :: "ranges \<Rightarrow> u64 \<Rightarrow> u64 \<Rightarrow> ranges" where
  "insert_cancelled_range rs start end =
     (if start \<ge> end then rs
      else merge_sorted (sort_key fst (rs @ [(start, end)])))"

fun check_ranges :: "ranges \<Rightarrow> (StoreError, unit) result" where
  "check_ranges [] = Inr ()"
| "check_ranges ((start, end) # rs) =
     (if start \<ge> end then Inl (RangeMalformed start end) else check_ranges rs)"

definition normalize_ranges :: "ranges \<Rightarrow> (StoreError, ranges) result" where
  "normalize_ranges rs =
     bind_result (check_ranges rs) (\<lambda>_. Inr (merge_sorted (sort_key fst rs)))"

fun normalize_lanes ::
  "(u32, ranges) btree \<Rightarrow> (u32, ranges) btree \<Rightarrow> (StoreError, (u32, ranges) btree) result" where
  "normalize_lanes normalized [] = Inr normalized"
| "normalize_lanes normalized ((lane, rs) # rest) =
     bind_result (normalize_ranges rs) (\<lambda>rs'.
       normalize_lanes (if rs' \<noteq> [] then bt_insert lane rs' normalized else normalized) rest)"

definition normalize_lane_ranges :: "(u32, ranges) btree \<Rightarrow> (StoreError, (u32, ranges) btree) result" where
  "normalize_lane_ranges lane_ranges = normalize_lanes [] lane_ranges"

section \<open>Membership\<close>

text \<open>The normal form: nonempty ranges in ascending order, with a gap between neighbours.\<close>

definition canonical :: "ranges \<Rightarrow> bool" where
  "canonical rs \<longleftrightarrow> sorted_wrt (\<lambda>r r'. snd r < fst r') rs \<and> (\<forall>r \<in> set rs. fst r < snd r)"

lemma range_contains_iff: "range_contains rs x \<longleftrightarrow> (\<exists>(s, e) \<in> set rs. s \<le> x \<and> x < e)"
  by (auto simp: range_contains_def list_ex_iff)

lemma range_contains_simps [simp]:
  "range_contains [] x \<longleftrightarrow> False"
  "range_contains (r # rs) x \<longleftrightarrow> (fst r \<le> x \<and> x < snd r) \<or> range_contains rs x"
  "range_contains (rs @ rs') x \<longleftrightarrow> range_contains rs x \<or> range_contains rs' x"
  by (auto simp: range_contains_def)

lemma merge_step_contains:
  assumes "merged \<noteq> [] \<Longrightarrow> fst (last merged) \<le> fst r"
  shows "range_contains (merge_step r merged) x \<longleftrightarrow> range_contains merged x \<or> (fst r \<le> x \<and> x < snd r)"
proof (cases "merged \<noteq> [] \<and> fst r \<le> snd (last merged)")
  case True
  then have "merged = butlast merged @ [last merged]" by simp
  then have "range_contains merged x \<longleftrightarrow>
      range_contains (butlast merged) x \<or> (fst (last merged) \<le> x \<and> x < snd (last merged))"
    by (metis range_contains_simps)
  with True assms show ?thesis
    by (auto simp: merge_step_def less_max_iff_disj)
next
  case False
  then show ?thesis by (auto simp: merge_step_def)
qed

lemma merge_step_last_le:
  assumes "merged \<noteq> [] \<Longrightarrow> fst (last merged) \<le> fst r"
  shows "fst (last (merge_step r merged)) \<le> fst r"
  using assms by (auto simp: merge_step_def)

lemma fold_merge_contains:
  assumes "sorted (map fst rs)" and "\<And>r. r \<in> set rs \<Longrightarrow> merged \<noteq> [] \<Longrightarrow> fst (last merged) \<le> fst r"
  shows "range_contains (fold merge_step rs merged) x \<longleftrightarrow> range_contains merged x \<or> range_contains rs x"
  using assms
proof (induction rs arbitrary: merged)
  case Nil
  then show ?case by simp
next
  case (Cons r rs)
  have "fst (last (merge_step r merged)) \<le> fst r"
    using Cons.prems by (intro merge_step_last_le) auto
  then have "\<And>r'. r' \<in> set rs \<Longrightarrow> fst (last (merge_step r merged)) \<le> fst r'"
    using Cons.prems(1) by force
  moreover have "sorted (map fst rs)" using Cons.prems(1) by simp
  ultimately have "range_contains (fold merge_step rs (merge_step r merged)) x \<longleftrightarrow>
      range_contains (merge_step r merged) x \<or> range_contains rs x"
    using Cons.IH by blast
  moreover have "range_contains (merge_step r merged) x \<longleftrightarrow> range_contains merged x \<or> (fst r \<le> x \<and> x < snd r)"
    using Cons.prems by (intro merge_step_contains) auto
  ultimately show ?case by auto
qed

lemma range_contains_set: "set rs = set rs' \<Longrightarrow> range_contains rs x = range_contains rs' x"
  by (simp add: range_contains_iff)

lemma merge_sorted_contains:
  "range_contains (merge_sorted (sort_key fst rs)) x \<longleftrightarrow> range_contains rs x"
  using fold_merge_contains [of "sort_key fst rs" "[]" x] range_contains_set [of "sort_key fst rs" rs x]
  by (simp add: merge_sorted_def)

lemma contains_insert_cancelled:
  "range_contains (insert_cancelled_range rs s e) x \<longleftrightarrow> range_contains rs x \<or> (s \<le> x \<and> x < e)"
  by (auto simp: insert_cancelled_range_def merge_sorted_contains)

section \<open>Normal form\<close>

lemma canonical_snoc:
  "canonical (rs @ [r]) \<longleftrightarrow> canonical rs \<and> fst r < snd r \<and> (\<forall>q \<in> set rs. snd q < fst r)"
  by (auto simp: canonical_def sorted_wrt_append)

lemma canonical_Nil [simp]: "canonical []"
  by (simp add: canonical_def)

lemma canonical_starts: "canonical rs \<Longrightarrow> sorted (map fst rs)"
  unfolding canonical_def sorted_map
  by (rule sorted_wrt_mono_rel [of _ "\<lambda>r r'. snd r < fst r'"]) force+

lemma canonical_last_max:
  "canonical rs \<Longrightarrow> rs \<noteq> [] \<Longrightarrow> q \<in> set rs \<Longrightarrow> snd q \<le> snd (last rs)"
  by (induction rs rule: rev_induct) (force simp: canonical_snoc)+

lemma merge_step_canonical:
  assumes "canonical merged" and "fst r < snd r"
  shows "canonical (merge_step r merged)"
proof (cases merged rule: rev_cases)
  case Nil
  with assms show ?thesis by (simp add: merge_step_def canonical_def)
next
  case (snoc ys y)
  show ?thesis
  proof (cases "fst r \<le> snd y")
    case True
    with assms snoc show ?thesis
      by (auto simp: merge_step_def canonical_snoc less_max_iff_disj)
  next
    case False
    have "snd q < fst r" if "q \<in> set merged" for q
      using canonical_last_max [OF assms(1) _ that] that snoc False by auto
    with assms snoc False show ?thesis
      by (simp add: merge_step_def canonical_snoc [of "ys @ [y]", simplified])
  qed
qed

lemma fold_merge_canonical:
  "canonical merged \<Longrightarrow> \<forall>r \<in> set rs. fst r < snd r \<Longrightarrow> canonical (fold merge_step rs merged)"
  by (induction rs arbitrary: merged) (simp_all add: merge_step_canonical)

lemma merge_sorted_canonical: "\<forall>r \<in> set rs. fst r < snd r \<Longrightarrow> canonical (merge_sorted (sort_key fst rs))"
  by (simp add: merge_sorted_def fold_merge_canonical)

lemma canonical_insert_cancelled:
  "canonical rs \<Longrightarrow> canonical (insert_cancelled_range rs s e)"
  by (auto simp: insert_cancelled_range_def canonical_def [of rs] intro!: merge_sorted_canonical)

lemma fold_merge_id: "canonical (merged @ rs) \<Longrightarrow> fold merge_step rs merged = merged @ rs"
proof (induction rs arbitrary: merged)
  case Nil
  then show ?case by simp
next
  case (Cons r rs)
  have "merged = [] \<or> snd (last merged) < fst r"
  proof (cases "merged = []")
    case False
    then have "last merged \<in> set merged" by simp
    with Cons.prems show ?thesis by (simp add: canonical_def sorted_wrt_append)
  qed simp
  then have "merge_step r merged = merged @ [r]" by (auto simp: merge_step_def)
  with Cons.IH [of "merged @ [r]"] Cons.prems show ?case by simp
qed

lemma merge_sorted_id: "canonical rs \<Longrightarrow> merge_sorted (sort_key fst rs) = rs"
  using fold_merge_id [of "[]" rs] canonical_starts [of rs]
  by (simp add: merge_sorted_def sort_key_id_if_sorted)

lemma insert_cancelled_last:
  "canonical (rs @ [(s, e)]) \<Longrightarrow> insert_cancelled_range rs s e = rs @ [(s, e)]"
  using merge_sorted_id [of "rs @ [(s, e)]"] by (auto simp: insert_cancelled_range_def canonical_snoc)

lemma fold_insert_cancelled_id:
  "canonical (acc @ rs) \<Longrightarrow> fold (\<lambda>(s, e) rs. insert_cancelled_range rs s e) rs acc = acc @ rs"
proof (induction rs arbitrary: acc)
  case Nil
  then show ?case by simp
next
  case (Cons r rs)
  obtain s e where r: "r = (s, e)" by (cases r)
  have "canonical (acc @ [(s, e)])"
    using Cons.prems by (auto simp: canonical_def sorted_wrt_append r)
  then have "insert_cancelled_range acc s e = acc @ [(s, e)]" by (rule insert_cancelled_last)
  with Cons show ?case by (simp add: r)
qed

section \<open>The interface of a range set\<close>

locale range_set =
  fixes empty :: 'r
    and insert :: "'r \<Rightarrow> u64 \<Rightarrow> u64 \<Rightarrow> 'r"
    and contains :: "'r \<Rightarrow> u64 \<Rightarrow> bool"
  assumes contains_empty: "\<not> contains empty x"
    and contains_insert: "contains (insert r s e) x \<longleftrightarrow> contains r x \<or> (s \<le> x \<and> x < e)"
begin

lemma insert_grows: "contains r x \<Longrightarrow> contains (insert r s e) x"
  by (simp add: contains_insert)

lemma contains_fold:
  "contains (fold (\<lambda>(s, e) r. insert r s e) rs r) x \<longleftrightarrow> contains r x \<or> range_contains rs x"
  by (induction rs arbitrary: r) (simp_all add: contains_insert split_beta disj_assoc)

lemma contains_rebuild:
  "contains (fold (\<lambda>(s, e) r. insert r s e) rs empty) x \<longleftrightarrow> range_contains rs x"
  by (simp add: contains_fold contains_empty)

end

locale canonical_ranges = range_set +
  fixes normal :: "'a \<Rightarrow> bool"
  assumes normal_empty: "normal empty"
    and normal_insert: "normal r \<Longrightarrow> normal (insert r s e)"
begin

lemma normal_fold: "normal r \<Longrightarrow> normal (fold (\<lambda>(s, e) r. insert r s e) rs r)"
  by (induction rs arbitrary: r) (simp_all add: normal_insert split_beta)

lemma normal_rebuild: "normal (fold (\<lambda>(s, e) r. insert r s e) rs empty)"
  by (simp add: normal_fold normal_empty)

end

interpretation cancelled: canonical_ranges "[]" insert_cancelled_range range_contains canonical
  by unfold_locales (simp_all add: contains_insert_cancelled canonical_insert_cancelled)

lemma check_ranges_ok: "check_ranges rs = Inr () \<longleftrightarrow> (\<forall>r \<in> set rs. fst r < snd r)"
  by (induction rs rule: check_ranges.induct) auto

lemma normalize_ranges_ok:
  "normalize_ranges rs = Inr rs' \<longleftrightarrow> (\<forall>r \<in> set rs. fst r < snd r) \<and> rs' = merge_sorted (sort_key fst rs)"
  using check_ranges_ok [of rs] by (auto simp: normalize_ranges_def)

lemma normalize_canonical: "canonical rs \<Longrightarrow> normalize_ranges rs = Inr rs"
  by (auto simp: normalize_ranges_ok merge_sorted_id canonical_def [of rs])

end
