(* ===== verification/Visibility.thy ===== *)
theory Visibility
  imports Ranges
begin

text \<open>
  The sequence gate (\<^verbatim>\<open>store/index/visibility.rs\<close>): sequence allocation, publication of a
  visible prefix (globally and per lane), visibility fences and the ranges that a cancelled
  fence hides for ever. The atomics and lock-protected cells of \<^verbatim>\<open>SequenceGate\<close> are the
  fields of one record, and each method is one state transformer; the writer thread is the
  only caller of the mutating methods. Condition-variable wakeups carry no data and are
  represented by the epoch counter alone.
\<close>

section \<open>State and operations\<close>

record sequence_gate =
  allocated :: u64
  visible :: u64
  lane_visible :: "(u32, u64) btree"
  active_fence :: u64
  active_fence_start :: u64
  active_fence_end :: u64
  next_fence_token :: u64
  cancelled_ranges :: ranges
  lane_cancelled_ranges :: "(u32, ranges) btree"
  visibility_epoch :: u64

record visibility_snapshot =
  snap_visible :: u64
  snap_lane_visible :: "(u32, u64) btree"
  snap_cancelled :: ranges
  snap_lane_cancelled :: "(u32, ranges) btree"

record cancelled_visibility =
  cv_global :: ranges
  cv_lanes :: "(u32, ranges) btree"

definition unwrap_or_zero :: "u64 option \<Rightarrow> u64" where
  "unwrap_or_zero x = (case x of None \<Rightarrow> 0 | Some v \<Rightarrow> v)"

definition gate_new :: sequence_gate where
  "gate_new = \<lparr>allocated = 0, visible = 0, lane_visible = [], active_fence = 0,
     active_fence_start = u64_MAX, active_fence_end = 0, next_fence_token = 1,
     cancelled_ranges = [], lane_cancelled_ranges = [], visibility_epoch = 0\<rparr>"

definition signal_visibility_change :: "sequence_gate \<Rightarrow> sequence_gate" where
  "signal_visibility_change g = g\<lparr>visibility_epoch := visibility_epoch g + 1\<rparr>"

definition reserve :: "sequence_gate \<Rightarrow> u64 \<Rightarrow> u64 \<times> sequence_gate" where
  "reserve g n = (allocated g, g\<lparr>allocated := allocated g + n\<rparr>)"

definition publish :: "sequence_gate \<Rightarrow> u64 \<Rightarrow> string \<Rightarrow> (StoreError, sequence_gate) result" where
  "publish g up_to operation =
     (if up_to > allocated g \<or> up_to < visible g
      then Inl (SequenceGateViolation operation up_to (allocated g) (visible g))
      else Inr (signal_visibility_change (g\<lparr>visible := up_to\<rparr>)))"

fun check_lanes :: "sequence_gate \<Rightarrow> (u32 \<times> u64) list \<Rightarrow> string \<Rightarrow> (StoreError, unit) result" where
  "check_lanes g [] operation = Inr ()"
| "check_lanes g ((lane, up_to) # lanes) operation =
     (let current_lane = unwrap_or_zero (bt_get (lane_visible g) lane) in
      if up_to > allocated g
        then Inl (SequenceGateViolation operation up_to (allocated g) current_lane)
      else if up_to < current_lane
        then Inl (SequenceGateViolation operation up_to (allocated g) current_lane)
      else check_lanes g lanes operation)"

definition publish_on_lanes ::
  "sequence_gate \<Rightarrow> u64 \<Rightarrow> (u32 \<times> u64) list \<Rightarrow> string \<Rightarrow> (StoreError, sequence_gate) result" where
  "publish_on_lanes g global_up_to lanes operation =
     (if global_up_to > allocated g \<or> global_up_to < visible g
      then Inl (SequenceGateViolation operation global_up_to (allocated g) (visible g))
      else bind_result (check_lanes g lanes operation) (\<lambda>_.
        Inr (signal_visibility_change (g\<lparr>visible := global_up_to,
          lane_visible := fold (\<lambda>(lane, up_to). bt_insert lane up_to) lanes (lane_visible g)\<rparr>))))"

definition restore_lane_visible :: "sequence_gate \<Rightarrow> (u32, u64) btree \<Rightarrow> sequence_gate" where
  "restore_lane_visible g lanes = g\<lparr>lane_visible := lanes\<rparr>"

definition advance :: "sequence_gate \<Rightarrow> sequence_gate" where
  "advance g = g\<lparr>allocated := allocated g + 1\<rparr>"

definition restore_allocator :: "sequence_gate \<Rightarrow> u64 \<Rightarrow> sequence_gate" where
  "restore_allocator g value = g\<lparr>allocated := value\<rparr>"

definition gate_clear :: "sequence_gate \<Rightarrow> sequence_gate" where
  "gate_clear g = g\<lparr>allocated := 0, visible := 0, lane_visible := [], active_fence := 0,
     active_fence_start := u64_MAX, active_fence_end := 0, next_fence_token := 1,
     cancelled_ranges := [], lane_cancelled_ranges := []\<rparr>"

text \<open>The token counter moves on even when another fence is active.\<close>

definition begin_fence :: "sequence_gate \<Rightarrow> (StoreError, u64) result \<times> sequence_gate" where
  "begin_fence g =
     (let token = next_fence_token g; g' = g\<lparr>next_fence_token := token + 1\<rparr> in
      if active_fence g' = 0
      then (Inr token, g'\<lparr>active_fence := token, active_fence_start := u64_MAX, active_fence_end := 0\<rparr>)
      else (Inl VisibilityFenceActive, g'))"

definition active_fence_token :: "sequence_gate \<Rightarrow> u64 option" where
  "active_fence_token g = (if active_fence g \<noteq> 0 then Some (active_fence g) else None)"

definition active_fence_range :: "sequence_gate \<Rightarrow> (u64 \<times> u64) option" where
  "active_fence_range g =
     (if active_fence g = 0 then None
      else if active_fence_start g \<noteq> u64_MAX \<and> active_fence_start g < active_fence_end g
        then Some (active_fence_start g, active_fence_end g)
      else None)"

definition note_fence_progress ::
  "sequence_gate \<Rightarrow> u64 \<Rightarrow> u64 \<Rightarrow> u64 \<Rightarrow> (StoreError, sequence_gate) result" where
  "note_fence_progress g token start end =
     (if active_fence g \<noteq> token then Inl VisibilityFenceNotActive
      else Inr (g\<lparr>active_fence_start := min (active_fence_start g) start,
                  active_fence_end := max (active_fence_end g) end\<rparr>))"

definition clear_fence :: "sequence_gate \<Rightarrow> sequence_gate" where
  "clear_fence g = g\<lparr>active_fence := 0, active_fence_start := u64_MAX, active_fence_end := 0\<rparr>"

definition finish_fence_on_lanes ::
  "sequence_gate \<Rightarrow> u64 \<Rightarrow> u64 option \<Rightarrow> (u32 \<times> u64) list \<Rightarrow> (StoreError, sequence_gate) result" where
  "finish_fence_on_lanes g token publish_to lanes =
     (if active_fence g \<noteq> token then Inl VisibilityFenceNotActive
      else bind_result
        (case publish_to of
           Some up_to \<Rightarrow> publish_on_lanes g up_to lanes ''finish_visibility_fence''
         | None \<Rightarrow> Inr g)
        (\<lambda>g'. Inr (clear_fence g')))"

definition insert_ranges :: "ranges \<Rightarrow> ranges \<Rightarrow> ranges" where
  "insert_ranges rs acc = fold (\<lambda>(start, end) acc. insert_cancelled_range acc start end) rs acc"

definition insert_lane_ranges ::
  "(u32, ranges) btree \<Rightarrow> (u32, ranges) btree \<Rightarrow> (u32, ranges) btree" where
  "insert_lane_ranges lanes acc =
     fold (\<lambda>(lane, rs) acc. bt_update lane [] (insert_ranges rs) acc) lanes acc"

definition cancel_fence ::
  "sequence_gate \<Rightarrow> u64 \<Rightarrow> (u32, ranges) btree \<Rightarrow> (StoreError, sequence_gate) result" where
  "cancel_fence g token lane_ranges =
     (if active_fence g \<noteq> token then Inl VisibilityFenceNotActive
      else
        (let start = active_fence_start g; end = active_fence_end g;
             g1 = (if start \<noteq> u64_MAX \<and> start < end
                   then g\<lparr>cancelled_ranges := insert_cancelled_range (cancelled_ranges g) start end\<rparr>
                   else g);
             g2 = (if lane_ranges \<noteq> []
                   then g1\<lparr>lane_cancelled_ranges := insert_lane_ranges lane_ranges (lane_cancelled_ranges g1)\<rparr>
                   else g1)
         in Inr (clear_fence g2)))"

definition snapshot :: "sequence_gate \<Rightarrow> visibility_snapshot" where
  "snapshot g = \<lparr>snap_visible = visible g, snap_lane_visible = lane_visible g,
     snap_cancelled = cancelled_ranges g, snap_lane_cancelled = lane_cancelled_ranges g\<rparr>"

definition is_visible :: "visibility_snapshot \<Rightarrow> u64 \<Rightarrow> bool" where
  "is_visible s sequence =
     (if sequence \<ge> snap_visible s then False
      else \<not> range_contains (snap_cancelled s) sequence)"

definition is_visible_on_lane :: "visibility_snapshot \<Rightarrow> u64 \<Rightarrow> u32 \<Rightarrow> bool" where
  "is_visible_on_lane s sequence lane =
     (if sequence \<ge> unwrap_or_zero (bt_get (snap_lane_visible s) lane) then False
      else if range_contains (snap_cancelled s) sequence then False
      else \<not> (case bt_get (snap_lane_cancelled s) lane of
                 None \<Rightarrow> False | Some rs \<Rightarrow> range_contains rs sequence))"

definition cancelled_ranges_snapshot :: "sequence_gate \<Rightarrow> cancelled_visibility" where
  "cancelled_ranges_snapshot g =
     \<lparr>cv_global = cancelled_ranges g, cv_lanes = lane_cancelled_ranges g\<rparr>"

definition restore_cancelled_ranges :: "sequence_gate \<Rightarrow> cancelled_visibility \<Rightarrow> sequence_gate" where
  "restore_cancelled_ranges g rs =
     g\<lparr>cancelled_ranges := insert_ranges (cv_global rs) [],
       lane_cancelled_ranges := insert_lane_ranges (cv_lanes rs) []\<rparr>"

lemmas gate_defs = reserve_def publish_def publish_on_lanes_def begin_fence_def note_fence_progress_def
  finish_fence_on_lanes_def cancel_fence_def clear_fence_def signal_visibility_change_def Let_def

section \<open>What a gate keeps true\<close>

definition gate_inv :: "sequence_gate \<Rightarrow> bool" where
  "gate_inv g \<longleftrightarrow>
     visible g \<le> allocated g \<and>
     (\<forall>lane up_to. bt_get (lane_visible g) lane = Some up_to \<longrightarrow> up_to \<le> allocated g) \<and>
     bt_wf (lane_visible g) \<and>
     canonical (cancelled_ranges g) \<and>
     bt_wf (lane_cancelled_ranges g) \<and>
     (\<forall>lane rs. bt_get (lane_cancelled_ranges g) lane = Some rs \<longrightarrow> canonical rs)"

text \<open>One call of the writer on the gate that succeeds, or that only consumes a token.\<close>

inductive gate_step :: "sequence_gate \<Rightarrow> sequence_gate \<Rightarrow> bool" where
  step_reserve: "unat (allocated g) + unat n < 2 ^ 64 \<Longrightarrow> gate_step g (snd (reserve g n))"
| step_publish: "publish g up_to op = Inr g' \<Longrightarrow> gate_step g g'"
| step_publish_lanes: "publish_on_lanes g up_to lanes op = Inr g' \<Longrightarrow> gate_step g g'"
| step_begin_fence: "gate_step g (snd (begin_fence g))"
| step_note: "note_fence_progress g token start end = Inr g' \<Longrightarrow> gate_step g g'"
| step_finish: "finish_fence_on_lanes g token up_to lanes = Inr g' \<Longrightarrow> gate_step g g'"
| step_cancel: "cancel_fence g token lanes = Inr g' \<Longrightarrow> gate_step g g'"

text \<open>The lanes that one call can move never move backwards, whatever list of lanes is passed.\<close>

lemma fold_lanes_get:
  "map_of (fold (\<lambda>(lane, up_to). bt_insert lane up_to) lanes m) l =
     (case map_of (rev lanes) l of Some v \<Rightarrow> Some v | None \<Rightarrow> map_of m l)"
  by (induction lanes arbitrary: m) (auto simp: map_add_def fun_upd_def split: option.splits)

lemma fold_lanes_wf: "bt_wf m \<Longrightarrow> bt_wf (fold (\<lambda>(lane, up_to). bt_insert lane up_to) lanes m)"
  by (induction lanes arbitrary: m) (auto simp: split_beta)

lemma check_lanes_ok:
  "check_lanes g lanes op = Inr () \<longleftrightarrow>
     (\<forall>(lane, up_to) \<in> set lanes. up_to \<le> allocated g \<and> unwrap_or_zero (bt_get (lane_visible g) lane) \<le> up_to)"
  by (induction g lanes op rule: check_lanes.induct) (auto simp: Let_def)

lemma insert_ranges_contains [simp]:
  "range_contains (insert_ranges rs acc) x \<longleftrightarrow> range_contains acc x \<or> range_contains rs x"
  by (simp add: insert_ranges_def cancelled.contains_fold)

lemma insert_ranges_canonical [simp]: "canonical acc \<Longrightarrow> canonical (insert_ranges rs acc)"
  by (simp add: insert_ranges_def cancelled.normal_fold)

lemma insert_ranges_id: "canonical rs \<Longrightarrow> insert_ranges rs [] = rs"
  by (simp add: insert_ranges_def fold_insert_cancelled_id [of "[]", simplified])

definition lane_hidden :: "(u32, ranges) btree \<Rightarrow> u32 \<Rightarrow> u64 \<Rightarrow> bool" where
  "lane_hidden m lane x = (case bt_get m lane of None \<Rightarrow> False | Some rs \<Rightarrow> range_contains rs x)"

lemma lane_hidden_update:
  "lane_hidden (bt_update l [] (insert_ranges rs) m) lane x \<longleftrightarrow>
     lane_hidden m lane x \<or> (lane = l \<and> range_contains rs x)"
  by (auto simp: lane_hidden_def split: option.splits)

lemma insert_lane_ranges_hidden:
  "lane_hidden (insert_lane_ranges lanes acc) lane x \<longleftrightarrow>
     lane_hidden acc lane x \<or> (\<exists>rs. (lane, rs) \<in> set lanes \<and> range_contains rs x)"
  unfolding insert_lane_ranges_def
  by (induction lanes arbitrary: acc) (auto simp: lane_hidden_update split_beta)

lemma insert_lane_ranges_wf: "bt_wf acc \<Longrightarrow> bt_wf (insert_lane_ranges lanes acc)"
  unfolding insert_lane_ranges_def by (induction lanes arbitrary: acc) (auto simp: split_beta)

lemma insert_lane_ranges_canonical:
  assumes "\<And>lane rs. bt_get acc lane = Some rs \<Longrightarrow> canonical rs"
  shows "bt_get (insert_lane_ranges lanes acc) lane = Some rs \<Longrightarrow> canonical rs"
  using assms unfolding insert_lane_ranges_def
proof (induction lanes arbitrary: acc)
  case (Cons x lanes)
  have "canonical rs'" if "bt_get (bt_update (fst x) [] (insert_ranges (snd x)) acc) l = Some rs'" for l rs'
    using that Cons.prems(2) by (auto split: if_splits option.splits)
  then show ?case
    using Cons.prems(1) Cons.IH [of "bt_update (fst x) [] (insert_ranges (snd x)) acc"] by (simp add: split_beta)
qed simp

lemma publish_lanes_inv:
  assumes "gate_inv g" and "publish_on_lanes g up_to lanes op = Inr g'"
  shows "gate_inv g'"
proof -
  from assms(2) have "up_to \<le> allocated g" and ok: "check_lanes g lanes op = Inr ()"
    and g': "g' = signal_visibility_change (g\<lparr>visible := up_to,
        lane_visible := fold (\<lambda>(lane, up_to). bt_insert lane up_to) lanes (lane_visible g)\<rparr>)"
    by (auto simp: publish_on_lanes_def split: if_splits)
  moreover have "v \<le> allocated g"
    if "map_of (fold (\<lambda>(lane, up_to). bt_insert lane up_to) lanes (lane_visible g)) l = Some v" for l v
    using that ok assms(1)
    by (auto simp: fold_lanes_get check_lanes_ok gate_inv_def split: option.splits dest!: map_of_SomeD)
  ultimately show ?thesis
    using assms(1) by (simp add: gate_inv_def signal_visibility_change_def fold_lanes_wf)
qed

lemma cancel_fence_inv:
  assumes "gate_inv g" and "cancel_fence g token lanes = Inr g'"
  shows "gate_inv g'"
proof -
  have "canonical rs" if "bt_get (insert_lane_ranges lanes (lane_cancelled_ranges g)) l = Some rs" for l rs
    using insert_lane_ranges_canonical [OF _ that] assms(1) by (auto simp: gate_inv_def)
  with assms show ?thesis
    by (auto simp: cancel_fence_def Let_def clear_fence_def gate_inv_def canonical_insert_cancelled
        insert_lane_ranges_wf split: if_splits)
qed

lemma finish_fence_cases:
  assumes "finish_fence_on_lanes g token up_to lanes = Inr g'"
  obtains g1 where "g1 = g \<or> (\<exists>u. publish_on_lanes g u lanes ''finish_visibility_fence'' = Inr g1)"
    and "g' = clear_fence g1"
  using assms by (auto simp: finish_fence_on_lanes_def split: if_splits option.splits)

lemma clear_fence_inv [simp]: "gate_inv (clear_fence g) = gate_inv g"
  by (simp add: gate_inv_def clear_fence_def)

lemma gate_step_inv: "gate_step g g' \<Longrightarrow> gate_inv g \<Longrightarrow> gate_inv g'"
proof (induction rule: gate_step.induct)
  case (step_reserve g n)
  have "allocated g \<le> allocated g + n"
    using step_reserve.hyps by (simp add: word_le_nat_alt unat_add_small)
  with step_reserve.prems show ?case
    by (auto simp: reserve_def gate_inv_def intro: order_trans)
next
  case (step_publish_lanes g up_to lanes op g')
  then show ?case by (blast intro: publish_lanes_inv)
next
  case (step_finish g token up_to lanes g')
  from step_finish.hyps show ?case
    by (rule finish_fence_cases) (use step_finish.prems publish_lanes_inv in auto)
next
  case (step_cancel g token lanes g')
  then show ?case by (blast intro: cancel_fence_inv)
qed (auto simp: gate_inv_def gate_defs split: if_splits)

lemma gate_new_inv: "gate_inv gate_new"
  by (simp add: gate_inv_def gate_new_def)

lemma gate_reach_inv: "gate_step\<^sup>*\<^sup>* g g' \<Longrightarrow> gate_inv g \<Longrightarrow> gate_inv g'"
  by (induction rule: rtranclp_induct) (auto intro: gate_step_inv)

text \<open>What can only grow along a run: the visible bounds and everything that is hidden.\<close>

definition gate_grows :: "sequence_gate \<Rightarrow> sequence_gate \<Rightarrow> bool" where
  "gate_grows g g' \<longleftrightarrow>
     visible g \<le> visible g' \<and>
     (\<forall>l. unwrap_or_zero (bt_get (lane_visible g) l) \<le> unwrap_or_zero (bt_get (lane_visible g') l)) \<and>
     (\<forall>x. range_contains (cancelled_ranges g) x \<longrightarrow> range_contains (cancelled_ranges g') x) \<and>
     (\<forall>l x. lane_hidden (lane_cancelled_ranges g) l x \<longrightarrow> lane_hidden (lane_cancelled_ranges g') l x)"

lemma gate_grows_refl [simp]: "gate_grows g g"
  by (simp add: gate_grows_def)

lemma gate_grows_trans: "gate_grows g g' \<Longrightarrow> gate_grows g' g'' \<Longrightarrow> gate_grows g g''"
  unfolding gate_grows_def by (meson order_trans)

lemma clear_fence_grows [simp]: "gate_grows g (clear_fence g') = gate_grows g g'"
  by (simp add: gate_grows_def clear_fence_def)

lemma publish_lanes_grows:
  assumes "publish_on_lanes g up_to lanes op = Inr g'"
  shows "gate_grows g g'"
proof -
  from assms have "visible g \<le> up_to" and ok: "check_lanes g lanes op = Inr ()"
    and g': "g' = signal_visibility_change (g\<lparr>visible := up_to,
        lane_visible := fold (\<lambda>(lane, up_to). bt_insert lane up_to) lanes (lane_visible g)\<rparr>)"
    by (auto simp: publish_on_lanes_def split: if_splits)
  moreover have "unwrap_or_zero (bt_get (lane_visible g) l) \<le>
      unwrap_or_zero (map_of (fold (\<lambda>(lane, up_to). bt_insert lane up_to) lanes (lane_visible g)) l)" for l
  proof (cases "map_of (rev lanes) l")
    case (Some v)
    then have "(l, v) \<in> set lanes" by (auto dest: map_of_SomeD)
    with ok Some show ?thesis
      by (auto simp: fold_lanes_get check_lanes_ok unwrap_or_zero_def [of "Some v"])
  qed (simp add: fold_lanes_get)
  ultimately show ?thesis
    by (simp add: gate_grows_def signal_visibility_change_def)
qed

lemma gate_step_grows: "gate_step g g' \<Longrightarrow> gate_grows g g'"
proof (induction rule: gate_step.induct)
  case (step_publish_lanes g up_to lanes op g')
  then show ?case by (rule publish_lanes_grows)
next
  case (step_finish g token up_to lanes g')
  then show ?case
    by (rule finish_fence_cases) (auto dest: publish_lanes_grows)
next
  case (step_cancel g token lanes g')
  then show ?case
    by (auto simp: cancel_fence_def Let_def clear_fence_def gate_grows_def contains_insert_cancelled
        insert_lane_ranges_hidden split: if_splits)
qed (auto simp: gate_grows_def gate_defs split: if_splits)

lemma gate_run_grows: "gate_step\<^sup>*\<^sup>* g g' \<Longrightarrow> gate_grows g g'"
  by (induction rule: rtranclp_induct) (auto intro: gate_grows_trans gate_step_grows)

lemma is_visible_iff: "is_visible (snapshot g) x \<longleftrightarrow> x < visible g \<and> \<not> range_contains (cancelled_ranges g) x"
  by (auto simp: is_visible_def snapshot_def)

lemma is_visible_on_lane_iff:
  "is_visible_on_lane (snapshot g) x l \<longleftrightarrow>
     x < unwrap_or_zero (bt_get (lane_visible g) l) \<and> \<not> range_contains (cancelled_ranges g) x \<and>
     \<not> lane_hidden (lane_cancelled_ranges g) l x"
  by (auto simp: is_visible_on_lane_def snapshot_def lane_hidden_def)

section \<open>Properties\<close>

text \<open>
  C15. In every state the writer can reach from a fresh gate, the gate invariant holds and
  nothing is visible before it was allocated, on the whole journal or on any lane; and a
  state reached later never shows a smaller visible bound, globally or on a lane.
\<close>

theorem gate_no_premature_visibility:
  assumes "gate_step\<^sup>*\<^sup>* gate_new g" and "gate_step\<^sup>*\<^sup>* g g'"
  shows "gate_inv g \<and>
    (is_visible (snapshot g) x \<longrightarrow> x < allocated g) \<and>
    (is_visible_on_lane (snapshot g) x lane \<longrightarrow> x < allocated g) \<and>
    visible g \<le> visible g' \<and>
    unwrap_or_zero (bt_get (lane_visible g) lane) \<le> unwrap_or_zero (bt_get (lane_visible g') lane)"
proof -
  have inv: "gate_inv g"
    using assms(1) gate_reach_inv gate_new_inv by blast
  have lane: "unwrap_or_zero (bt_get (lane_visible g) lane) \<le> allocated g"
    using inv by (auto simp: gate_inv_def unwrap_or_zero_def split: option.splits)
  show ?thesis
    using inv lane gate_run_grows [OF assms(2)]
    by (auto simp: is_visible_iff is_visible_on_lane_iff gate_grows_def gate_inv_def)
qed

theorem gate_no_premature_visibility_witness:
  "is_visible (snapshot (gate_new\<lparr>allocated := 2, visible := 1, visibility_epoch := 1\<rparr>)) 0 \<and>
   (0 :: u64) < allocated (gate_new\<lparr>allocated := 2, visible := 1, visibility_epoch := 1\<rparr>)"
proof -
  let ?g = "gate_new\<lparr>allocated := 2, visible := 1, visibility_epoch := 1\<rparr>"
  have "gate_step gate_new (snd (reserve gate_new 2))"
    by (rule step_reserve) (simp add: gate_new_def)
  moreover have "gate_step (snd (reserve gate_new 2)) ?g"
    by (rule step_publish [of _ 1 "''append''"])
      (simp add: publish_def reserve_def gate_new_def signal_visibility_change_def)
  ultimately have "gate_step\<^sup>*\<^sup>* gate_new ?g" by (meson r_into_rtranclp rtranclp_trans)
  then have "is_visible (snapshot ?g) 0 \<longrightarrow> 0 < allocated ?g"
    using gate_no_premature_visibility [of ?g ?g 0 0] by blast
  moreover have "is_visible (snapshot ?g) 0"
    by (simp add: is_visible_iff gate_new_def)
  ultimately show ?thesis by simp
qed

text \<open>
  C16. Cancelling a fence hides the fence's range for ever: every sequence in the range the
  fence had noted stays invisible, on the journal and on every lane, in every state the
  writer can reach afterwards, and so does everything the caller listed per lane.
\<close>

theorem cancelled_fence_stays_hidden:
  assumes "cancel_fence g token lane_ranges = Inr g1" and "gate_step\<^sup>*\<^sup>* g1 g2"
  shows "(active_fence_range g = Some (s, e) \<and> s \<le> x \<and> x < e \<longrightarrow>
      \<not> is_visible (snapshot g2) x \<and> \<not> is_visible_on_lane (snapshot g2) x lane) \<and>
    ((lane, rs) \<in> set lane_ranges \<and> range_contains rs x \<longrightarrow> \<not> is_visible_on_lane (snapshot g2) x lane)"
proof -
  have grow: "gate_grows g1 g2" by (rule gate_run_grows [OF assms(2)])
  have "range_contains (cancelled_ranges g1) x"
    if "active_fence_range g = Some (s, e)" "s \<le> x" "x < e"
    using that assms(1)
    by (auto simp: cancel_fence_def active_fence_range_def clear_fence_def Let_def
        contains_insert_cancelled split: if_splits)
  moreover have "lane_hidden (lane_cancelled_ranges g1) lane x"
    if "(lane, rs) \<in> set lane_ranges" "range_contains rs x"
    using that assms(1)
    by (auto simp: cancel_fence_def clear_fence_def Let_def insert_lane_ranges_hidden split: if_splits)
  ultimately show ?thesis
    using grow by (auto simp: is_visible_iff is_visible_on_lane_iff gate_grows_def)
qed

theorem cancelled_fence_stays_hidden_witness:
  "\<not> is_visible (snapshot (gate_new\<lparr>allocated := 9, visible := 9, cancelled_ranges := [(3, 5)],
        next_fence_token := 2, visibility_epoch := 1\<rparr>)) 4"
proof -
  let ?g = "gate_new\<lparr>allocated := 9, active_fence := 1, active_fence_start := 3,
    active_fence_end := 5, next_fence_token := 2\<rparr>"
  let ?g1 = "gate_new\<lparr>allocated := 9, cancelled_ranges := [(3, 5)], next_fence_token := 2\<rparr>"
  let ?g2 = "?g1\<lparr>visible := 9, visibility_epoch := 1\<rparr>"
  have cancel: "cancel_fence ?g 1 [] = Inr ?g1"
    by (simp add: cancel_fence_def clear_fence_def gate_new_def Let_def insert_cancelled_range_def
        merge_sorted_def merge_step_def u64_MAX_def)
  have "gate_step ?g1 ?g2"
    by (rule step_publish [of _ 9 "''append''"])
      (simp add: publish_def gate_new_def signal_visibility_change_def)
  then have run: "gate_step\<^sup>*\<^sup>* ?g1 ?g2" by (rule r_into_rtranclp)
  have "active_fence_range ?g = Some (3, 5)"
    by (simp add: active_fence_range_def gate_new_def u64_MAX_def)
  then have "\<not> is_visible (snapshot ?g2) 4"
    using cancelled_fence_stays_hidden [OF cancel run, of 3 5 4 0 "[]"] by simp
  then show ?thesis by (simp add: gate_new_def)
qed

end
