(* ===== verification/HiddenRanges.thy ===== *)
theory HiddenRanges
  imports Visibility
begin

text \<open>
  Persistence of cancelled visibility ranges (\<^verbatim>\<open>store/hidden_ranges.rs\<close>): the file
  \<^verbatim>\<open>visibility_ranges.fbv\<close> is a magic, a little-endian version, a little-endian CRC and an
  encoded body. The body's encoder and decoder (MessagePack) and the checksum (crc32) are
  libraries, and are the parameters \<open>to_bytes\<close>, \<open>from_bytes\<close> and \<open>crc\<close>. The model
  starts after the symlink check and takes the file-system calls that replace or remove the
  file as succeeding: writing returns the contents the file then has, \<open>None\<close> for no file.
\<close>

section \<open>Format\<close>

definition VISIBILITY_RANGES_MAGIC :: bytes where
  "VISIBILITY_RANGES_MAGIC = [0x46, 0x42, 0x41, 0x54, 0x56, 0x52]"

definition VISIBILITY_RANGES_VERSION :: u16 where
  "VISIBILITY_RANGES_VERSION = 2"

definition HEADER_LEN :: nat where
  "HEADER_LEN = 6 + 2 + 4"

record visibility_ranges_data =
  vd_ranges :: ranges
  vd_lane_ranges :: "(u32 \<times> ranges) list"

datatype file_read = NotFound | ReadError | Contents bytes

definition write_cancelled_ranges ::
  "(visibility_ranges_data \<Rightarrow> bytes option) \<Rightarrow> (bytes \<Rightarrow> u32) \<Rightarrow> cancelled_visibility \<Rightarrow>
   (StoreError, bytes option) result" where
  "write_cancelled_ranges to_bytes crc rs =
     bind_result (normalize_ranges (cv_global rs)) (\<lambda>normalized_global.
     bind_result (normalize_lane_ranges (cv_lanes rs)) (\<lambda>normalized_lanes.
       if normalized_global = [] \<and> normalized_lanes = [] then Inr None
       else case to_bytes \<lparr>vd_ranges = normalized_global, vd_lane_ranges = normalized_lanes\<rparr> of
           None \<Rightarrow> Inl Serialization
         | Some body \<Rightarrow>
             Inr (Some (VISIBILITY_RANGES_MAGIC @ to_le VISIBILITY_RANGES_VERSION @
                        to_le (crc body) @ body))))"

definition corrupt_ranges :: "HiddenRangesCorruption \<Rightarrow> StoreError" where
  "corrupt_ranges kind = HiddenRangesCorrupt kind"

text \<open>A malformed range of the decoded body is reported inside the corruption kind.\<close>

definition malformed :: "StoreError \<Rightarrow> StoreError" where
  "malformed e = (case e of RangeMalformed s t \<Rightarrow> corrupt_ranges (MalformedEntries s t) | _ \<Rightarrow> e)"

definition load_cancelled_ranges ::
  "(bytes \<Rightarrow> visibility_ranges_data option) \<Rightarrow> (bytes \<Rightarrow> u32) \<Rightarrow> file_read \<Rightarrow>
   (StoreError, cancelled_visibility option) result" where
  "load_cancelled_ranges from_bytes crc file =
     (case file of
        NotFound \<Rightarrow> Inr None
      | ReadError \<Rightarrow> Inl (corrupt_ranges ReadFailed)
      | Contents raw \<Rightarrow>
          if length raw < HEADER_LEN then Inl (corrupt_ranges (TooShort (length raw) HEADER_LEN))
          else if take 6 raw \<noteq> VISIBILITY_RANGES_MAGIC then Inl (corrupt_ranges HiddenBadMagic)
          else
            let version = from_le [raw ! 6, raw ! 7] :: u16 in
            if version > VISIBILITY_RANGES_VERSION
              then Inl (HiddenRangesFutureVersion version VISIBILITY_RANGES_VERSION)
            else if \<not> (1 \<le> version \<and> version \<le> VISIBILITY_RANGES_VERSION)
              then Inl (corrupt_ranges (HiddenUnsupportedVersion version VISIBILITY_RANGES_VERSION))
            else
              let stored_crc = from_le [raw ! 8, raw ! 9, raw ! 10, raw ! 11];
                  body = drop HEADER_LEN raw; actual_crc = crc body in
              if stored_crc \<noteq> actual_crc
                then Inl (corrupt_ranges (HiddenCrcMismatch stored_crc actual_crc))
              else case from_bytes body of
                  None \<Rightarrow> Inl (corrupt_ranges DecodeFailed)
                | Some data \<Rightarrow>
                    (case (normalize_ranges (vd_ranges data),
                           normalize_lane_ranges (bt_collect (vd_lane_ranges data))) of
                       (Inr global, Inr lanes) \<Rightarrow> Inr (Some \<lparr>cv_global = global, cv_lanes = lanes\<rparr>)
                     | (Inl err, _) \<Rightarrow> Inl (malformed err)
                     | (_, Inl err) \<Rightarrow> Inl (malformed err)))"

section \<open>Lemmas\<close>

lemma normalize_lanes_canonical:
  assumes "bt_wf (acc @ lanes)" and "\<And>l rs. (l, rs) \<in> set lanes \<Longrightarrow> canonical rs"
  shows "normalize_lanes acc lanes = Inr (acc @ filter (\<lambda>x. snd x \<noteq> []) lanes)"
  using assms
proof (induction lanes arbitrary: acc)
  case Nil
  then show ?case by simp
next
  case (Cons x lanes)
  obtain l rs where x: "x = (l, rs)" by (cases x)
  have norm: "normalize_ranges rs = Inr rs"
    using Cons.prems(2) [of l rs] by (simp add: x normalize_canonical)
  have "\<forall>y \<in> set acc. fst y < l"
    using Cons.prems(1) by (auto simp: bt_wf_def x sorted_wrt_append)
  then have ins: "bt_insert l rs acc = acc @ [x]" by (simp add: x bt_insert_last)
  have wf: "bt_wf ((acc @ [x]) @ lanes)" using Cons.prems(1) by simp
  have wf': "bt_wf (acc @ lanes)" using Cons.prems(1) by (simp add: bt_wf_def sorted_wrt_append)
  have can: "\<And>l rs. (l, rs) \<in> set lanes \<Longrightarrow> canonical rs" using Cons.prems(2) by auto
  show ?case
    using Cons.IH [OF wf can] Cons.IH [OF wf' can] norm ins by (simp add: x)
qed

lemma bt_wf_filter: "bt_wf m \<Longrightarrow> bt_wf (filter P m)"
  by (induction m) (auto simp: bt_wf_Cons)

lemma normalize_lane_ranges_canonical:
  "bt_wf lanes \<Longrightarrow> (\<And>l rs. (l, rs) \<in> set lanes \<Longrightarrow> canonical rs) \<Longrightarrow>
   normalize_lane_ranges lanes = Inr (filter (\<lambda>x. snd x \<noteq> []) lanes)"
  using normalize_lanes_canonical [of "[]" lanes] by (simp add: normalize_lane_ranges_def)

lemma normalize_ranges_canonical: "normalize_ranges rs = Inr rs' \<Longrightarrow> canonical rs'"
  by (auto simp: normalize_ranges_ok merge_sorted_canonical)

lemma gate_inv_lanes: "gate_inv g \<Longrightarrow> (l, rs) \<in> set (lane_cancelled_ranges g) \<Longrightarrow> canonical rs"
  by (auto simp: gate_inv_def dest: bt_wf_distinct map_of_is_SomeI)

lemma write_canonical:
  assumes "canonical (cv_global rs)" and "bt_wf (cv_lanes rs)"
    and "\<And>l r. (l, r) \<in> set (cv_lanes rs) \<Longrightarrow> canonical r"
  shows "write_cancelled_ranges to_bytes crc rs =
     (let lanes = filter (\<lambda>x. snd x \<noteq> []) (cv_lanes rs) in
      if cv_global rs = [] \<and> lanes = [] then Inr None
      else case to_bytes \<lparr>vd_ranges = cv_global rs, vd_lane_ranges = lanes\<rparr> of
          None \<Rightarrow> Inl Serialization
        | Some body \<Rightarrow> Inr (Some (VISIBILITY_RANGES_MAGIC @ to_le VISIBILITY_RANGES_VERSION @
                        to_le (crc body) @ body)))"
  using assms by (simp add: write_cancelled_ranges_def normalize_canonical normalize_lane_ranges_canonical Let_def)

lemma load_written:
  assumes "from_bytes body = Some \<lparr>vd_ranges = global, vd_lane_ranges = lanes\<rparr>"
    and "canonical global" and "bt_wf lanes" and "\<And>l r. (l, r) \<in> set lanes \<Longrightarrow> canonical r \<and> r \<noteq> []"
  shows "load_cancelled_ranges from_bytes crc (Contents (VISIBILITY_RANGES_MAGIC @
      to_le VISIBILITY_RANGES_VERSION @ to_le (crc body) @ body)) =
    Inr (Some \<lparr>cv_global = global, cv_lanes = lanes\<rparr>)"
proof -
  have magic: "length VISIBILITY_RANGES_MAGIC = 6" by (simp add: VISIBILITY_RANGES_MAGIC_def)
  have "filter (\<lambda>x. snd x \<noteq> []) lanes = lanes"
    using assms(4) by (force intro: filter_True)
  then have "normalize_lane_ranges (bt_collect lanes) = Inr lanes"
    using assms(3,4) normalize_lane_ranges_canonical [of lanes] by (simp add: bt_collect_id)
  then show ?thesis
    using header_bytes [OF magic, of VISIBILITY_RANGES_VERSION "crc body" body] assms(1,2)
    by (simp add: load_cancelled_ranges_def HEADER_LEN_def magic Let_def normalize_canonical)
      (simp add: VISIBILITY_RANGES_VERSION_def)
qed

lemma lane_hidden_filter:
  "bt_wf m \<Longrightarrow> lane_hidden (filter (\<lambda>x. snd x \<noteq> []) m) l x = lane_hidden m l x"
  by (auto simp: lane_hidden_def map_of_filter_distinct bt_wf_distinct split: option.splits)

lemma restored_lanes_hidden:
  assumes "bt_wf m"
  shows "lane_hidden (insert_lane_ranges m []) l x = lane_hidden m l x"
proof -
  have "(l, rs) \<in> set m \<longleftrightarrow> map_of m l = Some rs" for rs
    by (simp add: map_of_eq_Some_iff bt_wf_distinct [OF assms])
  then have "(\<exists>rs. (l, rs) \<in> set m \<and> range_contains rs x) \<longleftrightarrow> lane_hidden m l x"
    by (auto simp: lane_hidden_def split: option.splits)
  then show ?thesis by (simp add: insert_lane_ranges_hidden lane_hidden_def [of "[]"])
qed

lemma version_range: "1 \<le> v \<Longrightarrow> v \<le> VISIBILITY_RANGES_VERSION \<Longrightarrow> v \<in> {1, VISIBILITY_RANGES_VERSION}"
  unfolding VISIBILITY_RANGES_VERSION_def by (auto simp: word_le_nat_alt word_unat_eq_iff)

lemma normalize_lanes_ok:
  assumes "normalize_lanes acc lanes = Inr m" and "bt_wf acc" and "\<And>l r. (l, r) \<in> set acc \<Longrightarrow> canonical r \<and> r \<noteq> []"
  shows "bt_wf m \<and> (\<forall>(l, r) \<in> set m. canonical r \<and> r \<noteq> [])"
  using assms
proof (induction acc lanes rule: normalize_lanes.induct)
  case (2 acc lane rs rest)
  from "2.prems"(1) obtain rs' where rs': "normalize_ranges rs = Inr rs'"
    and rest: "normalize_lanes (if rs' \<noteq> [] then bt_insert lane rs' acc else acc) rest = Inr m" by auto
  have can: "canonical rs'" using rs' by (rule normalize_ranges_canonical)
  have "canonical r \<and> r \<noteq> []" if "(l, r) \<in> set (if rs' \<noteq> [] then bt_insert lane rs' acc else acc)" for l r
    using that can "2.prems"(3) set_bt_insert [of lane rs' acc] by (auto split: if_splits)
  moreover have "bt_wf (if rs' \<noteq> [] then bt_insert lane rs' acc else acc)"
    using "2.prems"(2) by simp
  ultimately show ?case using "2.IH" [OF rest] by blast
qed auto

text \<open>What a loaded value promises about the decoded body it comes from.\<close>

definition loaded_ranges_ok :: "visibility_ranges_data \<Rightarrow> cancelled_visibility \<Rightarrow> bool" where
  "loaded_ranges_ok data rs \<longleftrightarrow>
     canonical (cv_global rs) \<and> bt_wf (cv_lanes rs) \<and>
     (\<forall>(lane, r) \<in> set (cv_lanes rs). canonical r \<and> r \<noteq> []) \<and>
     (\<forall>x. range_contains (cv_global rs) x = range_contains (vd_ranges data) x)"

lemma loaded_ranges_okI:
  assumes "normalize_ranges (vd_ranges data) = Inr global" and "normalize_lane_ranges lanes = Inr m"
  shows "loaded_ranges_ok data \<lparr>cv_global = global, cv_lanes = m\<rparr>"
  using assms normalize_lanes_ok [of "[]" lanes m] normalize_ranges_canonical [OF assms(1)]
  by (simp add: loaded_ranges_ok_def normalize_lane_ranges_def normalize_ranges_ok merge_sorted_contains)

text \<open>What opening the store does with the result of loading the file.\<close>

definition reopen_gate :: "sequence_gate \<Rightarrow> cancelled_visibility option \<Rightarrow> sequence_gate" where
  "reopen_gate g loaded = (case loaded of None \<Rightarrow> g | Some rs \<Rightarrow> restore_cancelled_ranges g rs)"

definition as_read :: "bytes option \<Rightarrow> file_read" where
  "as_read file = (case file of None \<Rightarrow> NotFound | Some raw \<Rightarrow> Contents raw)"

section \<open>Properties\<close>

text \<open>
  C17. Hidden ranges survive a restart: when the file written from a gate's cancelled ranges
  is loaded back (after a body codec that decodes what it encodes), loading succeeds and
  restoring the result into a gate with no cancelled ranges hides exactly the sequences
  that were hidden before, on the whole journal and on each lane. This includes the case
  where nothing is hidden and the file is removed.
\<close>

theorem hidden_ranges_roundtrip:
  assumes codec: "\<And>d bs. to_bytes d = Some bs \<Longrightarrow> from_bytes bs = Some d"
    and inv: "gate_inv g"
    and written: "write_cancelled_ranges to_bytes crc (cancelled_ranges_snapshot g) = Inr file"
    and fresh: "cancelled_ranges g0 = []" "lane_cancelled_ranges g0 = []"
  shows "\<exists>loaded. load_cancelled_ranges from_bytes crc (as_read file) = Inr loaded \<and>
    cancelled_ranges (reopen_gate g0 loaded) = cancelled_ranges g \<and>
    (\<forall>lane x. lane_hidden (lane_cancelled_ranges (reopen_gate g0 loaded)) lane x =
              lane_hidden (lane_cancelled_ranges g) lane x)"
proof -
  let ?lanes = "filter (\<lambda>x. snd x \<noteq> []) (lane_cancelled_ranges g)"
  have can: "canonical (cancelled_ranges g)" and wf: "bt_wf (lane_cancelled_ranges g)"
    using inv by (simp_all add: gate_inv_def)
  have hid: "lane_hidden ?lanes l x = lane_hidden (lane_cancelled_ranges g) l x" for l x
    by (rule lane_hidden_filter [OF wf])
  have "write_cancelled_ranges to_bytes crc (cancelled_ranges_snapshot g) = (if cancelled_ranges g = [] \<and> ?lanes = [] then Inr None
      else case to_bytes \<lparr>vd_ranges = cancelled_ranges g, vd_lane_ranges = ?lanes\<rparr> of
          None \<Rightarrow> Inl Serialization
        | Some body \<Rightarrow> Inr (Some (VISIBILITY_RANGES_MAGIC @ to_le VISIBILITY_RANGES_VERSION @
                        to_le (crc body) @ body)))"
    by (subst write_canonical)
      (simp_all add: cancelled_ranges_snapshot_def can wf gate_inv_lanes [OF inv] Let_def)
  note w = written [unfolded this]
  show ?thesis
  proof (cases "cancelled_ranges g = [] \<and> ?lanes = []")
    case True
    then have "file = None" using w by auto
    moreover have "\<not> lane_hidden (lane_cancelled_ranges g) l x" for l x
      using True hid [of l x] by (simp add: lane_hidden_def)
    ultimately show ?thesis
      using True fresh by (auto simp: as_read_def load_cancelled_ranges_def reopen_gate_def lane_hidden_def)
  next
    case False
    then obtain body where enc: "to_bytes \<lparr>vd_ranges = cancelled_ranges g, vd_lane_ranges = ?lanes\<rparr> = Some body"
      and contents: "file = Some (VISIBILITY_RANGES_MAGIC @ to_le VISIBILITY_RANGES_VERSION @ to_le (crc body) @ body)"
      using w by (auto split: option.splits)
    have "load_cancelled_ranges from_bytes crc (as_read file) =
        Inr (Some \<lparr>cv_global = cancelled_ranges g, cv_lanes = ?lanes\<rparr>)"
      unfolding contents as_read_def option.case
      by (rule load_written) (use codec [OF enc] can wf gate_inv_lanes [OF inv] bt_wf_filter in auto)
    then show ?thesis
      by (simp add: reopen_gate_def restore_cancelled_ranges_def insert_ranges_id [OF can]
          restored_lanes_hidden [OF bt_wf_filter [OF wf]] hid)
  qed
qed

theorem hidden_ranges_roundtrip_witness:
  "\<exists>loaded. load_cancelled_ranges
      (\<lambda>bs. if bs = [1] then Some \<lparr>vd_ranges = [(3, 5)], vd_lane_ranges = []\<rparr> else None) (\<lambda>_. 7)
      (Contents (VISIBILITY_RANGES_MAGIC @ to_le VISIBILITY_RANGES_VERSION @ to_le (7 :: u32) @ [1])) = Inr loaded \<and>
    cancelled_ranges (reopen_gate gate_new loaded) = [(3, 5)]"
proof -
  let ?d = "\<lparr>vd_ranges = [(3, 5)], vd_lane_ranges = []\<rparr> :: visibility_ranges_data"
  let ?to = "\<lambda>d. if d = ?d then Some [1 :: byte] else None"
  let ?from = "\<lambda>bs. if bs = [1 :: byte] then Some ?d else None"
  let ?g = "gate_new\<lparr>cancelled_ranges := [(3, 5)]\<rparr>"
  have can: "canonical (cancelled_ranges ?g)" by (simp add: canonical_def)
  have inv: "gate_inv ?g" using gate_new_inv can by (simp add: gate_inv_def)
  have w: "write_cancelled_ranges ?to (\<lambda>_. 7) (cancelled_ranges_snapshot ?g) =
      Inr (Some (VISIBILITY_RANGES_MAGIC @ to_le VISIBILITY_RANGES_VERSION @ to_le (7 :: u32) @ [1]))"
    by (subst write_canonical) (simp_all add: cancelled_ranges_snapshot_def gate_new_def canonical_def Let_def)
  have codec: "?from bs = Some d" if "?to d = Some bs" for d bs
    using that by (simp split: if_splits)
  have fresh: "cancelled_ranges gate_new = []" "lane_cancelled_ranges gate_new = []"
    by (simp_all add: gate_new_def)
  from hidden_ranges_roundtrip [of ?to ?from ?g "\<lambda>_. 7" _ gate_new, OF codec inv w fresh]
  show ?thesis by (auto simp: as_read_def)
qed

text \<open>
  C18. Loading fails closed. When a file is accepted, it carries the magic, a version between
  1 and the current one and the checksum of its body, the body decodes, and every range
  list handed to the gate is in normal form, lanes ascending with none empty, and hides the
  sequences the body lists. A file of a later version is refused as such, and an unreadable
  one is corruption, never "no ranges".
\<close>

theorem load_cancelled_ranges_sound:
  "(load_cancelled_ranges from_bytes crc (Contents raw) = Inr loaded \<longrightarrow>
      12 \<le> length raw \<and> take 6 raw = VISIBILITY_RANGES_MAGIC \<and>
      from_le [raw ! 6, raw ! 7] \<in> {1, VISIBILITY_RANGES_VERSION} \<and>
      from_le [raw ! 8, raw ! 9, raw ! 10, raw ! 11] = crc (drop 12 raw) \<and>
      (\<exists>data rs. from_bytes (drop 12 raw) = Some data \<and> loaded = Some rs \<and> loaded_ranges_ok data rs)) \<and>
   (12 \<le> length raw \<and> take 6 raw = VISIBILITY_RANGES_MAGIC \<and>
      from_le [raw ! 6, raw ! 7] > VISIBILITY_RANGES_VERSION \<longrightarrow>
    load_cancelled_ranges from_bytes crc (Contents raw) =
      Inl (HiddenRangesFutureVersion (from_le [raw ! 6, raw ! 7]) VISIBILITY_RANGES_VERSION)) \<and>
   load_cancelled_ranges from_bytes crc ReadError = Inl (corrupt_ranges ReadFailed)"
proof (intro conjI impI)
  assume ok: "load_cancelled_ranges from_bytes crc (Contents raw) = Inr loaded"
  then show "12 \<le> length raw" "take 6 raw = VISIBILITY_RANGES_MAGIC"
    "from_le [raw ! 6, raw ! 7] \<in> {1, VISIBILITY_RANGES_VERSION}"
    "from_le [raw ! 8, raw ! 9, raw ! 10, raw ! 11] = crc (drop 12 raw)"
    using version_range [of "from_le [raw ! 6, raw ! 7]"]
    by (auto simp: load_cancelled_ranges_def HEADER_LEN_def Let_def split: if_splits)
  from ok obtain data where "from_bytes (drop 12 raw) = Some data"
    by (auto simp: load_cancelled_ranges_def HEADER_LEN_def Let_def split: if_splits option.splits)
  with ok show "\<exists>data rs. from_bytes (drop 12 raw) = Some data \<and> loaded = Some rs \<and> loaded_ranges_ok data rs"
    by (auto simp: load_cancelled_ranges_def HEADER_LEN_def Let_def loaded_ranges_okI
        split: if_splits sum.splits)
qed (auto simp: load_cancelled_ranges_def HEADER_LEN_def Let_def)

theorem load_cancelled_ranges_sound_witness:
  "load_cancelled_ranges (\<lambda>_. None) (\<lambda>_. 0) (Contents (VISIBILITY_RANGES_MAGIC @ [3, 0, 0, 0, 0, 0])) =
     Inl (HiddenRangesFutureVersion 3 2)"
  using load_cancelled_ranges_sound [of "\<lambda>_. None" "\<lambda>_. 0" "VISIBILITY_RANGES_MAGIC @ [3, 0, 0, 0, 0, 0]" None]
  by (simp add: VISIBILITY_RANGES_MAGIC_def VISIBILITY_RANGES_VERSION_def from_le_def)

end
