(* ===== verification/Idempotency.thy ===== *)
theory Idempotency
  imports Events HiddenRanges "HOL-Library.AList"
begin

text \<open>
  The durable idempotency store (\<^verbatim>\<open>store/index/idemp.rs\<close>): the keys of committed appends with
  the receipt tuple a repeated append replays, window and cap retention, the overflow
  policies, and the file \<^verbatim>\<open>index.idemp\<close>. The concurrent hash map is an association list in
  iteration order with distinct keys; no result below depends on that order. The body codec
  and the checksum are parameters, as in the hidden-range file.
\<close>

section \<open>Configuration and state\<close>

datatype IdempotencyRetention =
    Unbounded
  | Window u64
  | Hybrid u64 u64

datatype OverflowPolicy = Warn | FailClosed | Backpressure

definition DEFAULT_KEEP_SEQUENCES :: u64 where
  "DEFAULT_KEEP_SEQUENCES = 16 * 1024 * 1024"

definition DEFAULT_MAX_KEYS :: u64 where
  "DEFAULT_MAX_KEYS = 64 * 1024 * 1024"

definition retention_default :: IdempotencyRetention where
  "retention_default = Hybrid DEFAULT_KEEP_SEQUENCES DEFAULT_MAX_KEYS"

fun keep_sequences :: "IdempotencyRetention \<Rightarrow> u64 option" where
  "keep_sequences Unbounded = None"
| "keep_sequences (Window keep) = Some keep"
| "keep_sequences (Hybrid keep _) = Some keep"

fun max_keys :: "IdempotencyRetention \<Rightarrow> u64 option" where
  "max_keys Unbounded = None"
| "max_keys (Window _) = None"
| "max_keys (Hybrid _ cap) = Some cap"

record idemp_entry =
  id_key :: u128
  id_event_id :: u128
  id_global_sequence :: u64
  id_disk_pos_segment :: u64
  id_disk_pos_offset :: u64
  id_disk_pos_length :: u32
  id_content_hash :: bytes
  id_prev_hash :: bytes
  id_entity :: string
  id_scope :: string
  id_kind :: EventKind
  id_recorded :: u64
  id_event_evicted :: bool
  id_receipt_extensions :: extensions

definition from_index_entry :: "index_entry \<Rightarrow> u64 \<Rightarrow> idemp_entry" where
  "from_index_entry entry recorded_global_sequence =
     \<lparr>id_key = ie_event_id entry, id_event_id = ie_event_id entry,
      id_global_sequence = ie_global_sequence entry,
      id_disk_pos_segment = pos_segment (ie_disk_pos entry),
      id_disk_pos_offset = pos_offset (ie_disk_pos entry),
      id_disk_pos_length = pos_length (ie_disk_pos entry),
      id_content_hash = event_hash (ie_hash_chain entry),
      id_prev_hash = prev_hash (ie_hash_chain entry),
      id_entity = coord_entity (ie_coord entry), id_scope = coord_scope (ie_coord entry),
      id_kind = ie_kind entry, id_recorded = recorded_global_sequence,
      id_event_evicted = False, id_receipt_extensions = ie_receipt_extensions entry\<rparr>"

definition idemp_disk_pos :: "idemp_entry \<Rightarrow> disk_pos" where
  "idemp_disk_pos e = \<lparr>pos_segment = id_disk_pos_segment e, pos_offset = id_disk_pos_offset e,
     pos_length = id_disk_pos_length e\<rparr>"

record idemp_store =
  idemp_map :: "(u128 \<times> idemp_entry) list"
  retention :: IdempotencyRetention
  overflow :: OverflowPolicy

record eviction_report =
  aged_out :: u64
  cap_trimmed_out_of_window :: u64
  within_window_exceeds_cap :: bool
  remaining :: u64

definition eviction_report_default :: eviction_report where
  "eviction_report_default = \<lparr>aged_out = 0, cap_trimmed_out_of_window = 0,
     within_window_exceeds_cap = False, remaining = 0\<rparr>"

section \<open>Operations\<close>

definition idemp_new :: "IdempotencyRetention \<Rightarrow> OverflowPolicy \<Rightarrow> idemp_store" where
  "idemp_new r v = \<lparr>idemp_map = [], retention = r, overflow = v\<rparr>"

definition idemp_len :: "idemp_store \<Rightarrow> u64" where
  "idemp_len s = of_nat (length (idemp_map s))"

definition idemp_get :: "idemp_store \<Rightarrow> u128 \<Rightarrow> idemp_entry option" where
  "idemp_get s key = map_of (idemp_map s) key"

definition record_entry :: "idemp_store \<Rightarrow> idemp_entry \<Rightarrow> idemp_store" where
  "record_entry s entry = s\<lparr>idemp_map := AList.update (id_key entry) entry (idemp_map s)\<rparr>"

definition mark_evicted :: "idemp_store \<Rightarrow> (u128 \<Rightarrow> bool) \<Rightarrow> idemp_store" where
  "mark_evicted s is_live =
     s\<lparr>idemp_map := map (\<lambda>(k, e). (k, if \<not> id_event_evicted e \<and> \<not> is_live (id_event_id e)
                                       then e\<lparr>id_event_evicted := True\<rparr> else e)) (idemp_map s)\<rparr>"

definition idemp_restore :: "idemp_store \<Rightarrow> idemp_entry list \<Rightarrow> idemp_store" where
  "idemp_restore s entries =
     s\<lparr>idemp_map := fold (\<lambda>entry. AList.update (id_key entry) entry) entries []\<rparr>"

definition idemp_snapshot :: "idemp_store \<Rightarrow> idemp_entry list" where
  "idemp_snapshot s = map snd (idemp_map s)"

definition remove_keys :: "u128 list \<Rightarrow> (u128 \<times> idemp_entry) list \<Rightarrow> (u128 \<times> idemp_entry) list" where
  "remove_keys keys m = fold AList.delete keys m"

text \<open>
  The cap step after ageing: nothing unless the cap is exceeded; within-window keys alone
  over the cap only raise the flag; otherwise as many out-of-window keys as needed go.
\<close>

definition evict_cap :: "u64 \<Rightarrow> u64 \<Rightarrow> idemp_store \<Rightarrow> eviction_report \<Rightarrow> eviction_report \<times> idemp_store" where
  "evict_cap cap window_floor s report =
     (let len = idemp_len s in
      if len > cap then
        let within_window = of_nat (length (filter (\<lambda>(k, e). id_recorded e \<ge> window_floor) (idemp_map s))) in
        if within_window \<ge> cap then (report\<lparr>within_window_exceeds_cap := True\<rparr>, s)
        else
          let trim_target = saturating_sub len cap;
              out_of_window = take (unat trim_target)
                (map fst (filter (\<lambda>(k, e). id_recorded e < window_floor) (idemp_map s))) in
          (report\<lparr>cap_trimmed_out_of_window := of_nat (length out_of_window)\<rparr>,
           s\<lparr>idemp_map := remove_keys out_of_window (idemp_map s)\<rparr>)
      else (report, s))"

definition evict :: "idemp_store \<Rightarrow> u64 \<Rightarrow> eviction_report \<times> idemp_store" where
  "evict s frontier =
     (case keep_sequences (retention s) of
        None \<Rightarrow> (eviction_report_default\<lparr>remaining := idemp_len s\<rparr>, s)
      | Some keep \<Rightarrow>
          let window_floor = saturating_sub frontier keep;
              aged = map fst (filter (\<lambda>(k, e). id_recorded e < window_floor) (idemp_map s));
              s1 = s\<lparr>idemp_map := remove_keys aged (idemp_map s)\<rparr>;
              report1 = eviction_report_default\<lparr>aged_out := of_nat (length aged)\<rparr>;
              (report2, s2) = (case max_keys (retention s) of
                  Some cap \<Rightarrow> evict_cap cap window_floor s1 report1
                | None \<Rightarrow> (report1, s1)) in
          (report2\<lparr>remaining := idemp_len s2\<rparr>, s2))"

text \<open>Admission may evict, so the store comes back with the result, also on refusal.\<close>

definition admit_unique_new_count ::
  "idemp_store \<Rightarrow> u64 \<Rightarrow> u64 \<Rightarrow> (StoreError, unit) result \<times> idemp_store" where
  "admit_unique_new_count s unique_new frontier =
     (case max_keys (retention s) of
        None \<Rightarrow> (Inr (), s)
      | Some cap \<Rightarrow>
          if unique_new = 0 then (Inr (), s)
          else if saturating_add (idemp_len s) unique_new \<le> cap then (Inr (), s)
          else
            let s' = snd (evict s frontier); len = idemp_len s' in
            if saturating_add len unique_new \<le> cap then (Inr (), s')
            else case overflow s' of
                Warn \<Rightarrow> (Inr (), s')
              | FailClosed \<Rightarrow> (Inl (IdempotencyOverflowFailClosed len cap), s')
              | Backpressure \<Rightarrow> (Inl (IdempotencyOverflowFailClosed len cap), s'))"

definition admit_new_key :: "idemp_store \<Rightarrow> u128 \<Rightarrow> u64 \<Rightarrow> (StoreError, unit) result \<times> idemp_store" where
  "admit_new_key s key frontier =
     (if idemp_get s key \<noteq> None then (Inr (), s) else admit_unique_new_count s 1 frontier)"

text \<open>The counting loop of a batch: keys already stored are skipped, a repeated new key is refused.\<close>

fun count_new :: "idemp_store \<Rightarrow> u128 list \<Rightarrow> u128 list \<Rightarrow> u64 \<Rightarrow> (StoreError, u64) result" where
  "count_new s [] seen_new unique_new = Inr unique_new"
| "count_new s (key # keys) seen_new unique_new =
     (if idemp_get s key \<noteq> None then count_new s keys seen_new unique_new
      else if key \<in> set seen_new then Inl IdempotencyPartialBatch
      else count_new s keys (key # seen_new) (saturating_add unique_new 1))"

definition admit_new_keys :: "idemp_store \<Rightarrow> u128 list \<Rightarrow> u64 \<Rightarrow> (StoreError, unit) result \<times> idemp_store" where
  "admit_new_keys s keys frontier =
     (case count_new s keys [] 0 of
        Inl e \<Rightarrow> (Inl e, s)
      | Inr unique_new \<Rightarrow> admit_unique_new_count s unique_new frontier)"

section \<open>The file\<close>

definition IDEMP_MAGIC :: bytes where
  "IDEMP_MAGIC = [0x46, 0x42, 0x41, 0x54, 0x49, 0x44]"

definition IDEMP_VERSION :: u16 where
  "IDEMP_VERSION = 1"

definition IDEMP_HEADER_LEN :: nat where
  "IDEMP_HEADER_LEN = 6 + 2 + 4"

datatype IdempInvalid =
    IdempReadFailed
  | IdempTooShort nat
  | IdempWrongMagic
  | IdempUnsupportedVersion u16
  | IdempCrc u32 u32
  | IdempDecodeFailed

datatype IdempLoad = Loaded "idemp_entry list" | Missing | Invalid IdempInvalid

definition idemp_flush ::
  "(idemp_entry list \<Rightarrow> bytes option) \<Rightarrow> (bytes \<Rightarrow> u32) \<Rightarrow> idemp_store \<Rightarrow> (StoreError, bytes) result" where
  "idemp_flush to_bytes crc s =
     (case to_bytes (idemp_snapshot s) of
        None \<Rightarrow> Inl Serialization
      | Some body \<Rightarrow> Inr (IDEMP_MAGIC @ to_le IDEMP_VERSION @ to_le (crc body) @ body))"

definition read_idemp_file ::
  "(bytes \<Rightarrow> idemp_entry list option) \<Rightarrow> (bytes \<Rightarrow> u32) \<Rightarrow> file_read \<Rightarrow> (StoreError, IdempLoad) result" where
  "read_idemp_file from_bytes crc file =
     (case file of
        NotFound \<Rightarrow> Inr Missing
      | ReadError \<Rightarrow> Inr (Invalid IdempReadFailed)
      | Contents raw \<Rightarrow>
          if length raw < IDEMP_HEADER_LEN then Inr (Invalid (IdempTooShort (length raw)))
          else if take 6 raw \<noteq> IDEMP_MAGIC then Inr (Invalid IdempWrongMagic)
          else
            let version = from_le [raw ! 6, raw ! 7] :: u16 in
            if version > IDEMP_VERSION then Inl (IdempotencyFutureVersion version IDEMP_VERSION)
            else if version \<noteq> IDEMP_VERSION then Inr (Invalid (IdempUnsupportedVersion version))
            else
              let stored_crc = from_le [raw ! 8, raw ! 9, raw ! 10, raw ! 11];
                  body = drop IDEMP_HEADER_LEN raw; computed_crc = crc body in
              if stored_crc \<noteq> computed_crc then Inr (Invalid (IdempCrc stored_crc computed_crc))
              else case from_bytes body of
                  Some entries \<Rightarrow> Inr (Loaded entries)
                | None \<Rightarrow> Inr (Invalid IdempDecodeFailed))"

section \<open>Eviction keeps the window\<close>

definition idemp_inv :: "idemp_store \<Rightarrow> bool" where
  "idemp_inv s \<longleftrightarrow> distinct (map fst (idemp_map s)) \<and> (\<forall>(k, e) \<in> set (idemp_map s). id_key e = k)"

definition in_window :: "IdempotencyRetention \<Rightarrow> u64 \<Rightarrow> idemp_entry \<Rightarrow> bool" where
  "in_window r frontier e =
     (case keep_sequences r of None \<Rightarrow> True | Some keep \<Rightarrow> saturating_sub frontier keep \<le> id_recorded e)"

definition kept :: "idemp_store \<Rightarrow> u64 \<Rightarrow> (u128 \<times> idemp_entry) list" where
  "kept s frontier = filter (\<lambda>(k, e). in_window (retention s) frontier e) (idemp_map s)"

lemma remove_keys_filter: "remove_keys keys m = filter (\<lambda>x. fst x \<notin> set keys) m"
  unfolding remove_keys_def
  by (induction keys arbitrary: m) (auto simp: AList.delete_eq intro: filter_cong)

lemma remove_aged:
  assumes "distinct (map fst m)"
  shows "remove_keys (map fst (filter P m)) m = filter (\<lambda>x. \<not> P x) m"
proof -
  have "fst x \<in> set (map fst (filter P m)) \<longleftrightarrow> P x" if "x \<in> set m" for x
    using that assms by (auto simp: distinct_map inj_on_def)
  then show ?thesis unfolding remove_keys_filter by (auto intro!: filter_cong)
qed

lemma evict_cap_aged:
  assumes "\<forall>(k, e) \<in> set (idemp_map s). floor \<le> id_recorded e"
  shows "evict_cap cap floor s report =
    (if idemp_len s > cap then report\<lparr>within_window_exceeds_cap := True\<rparr> else report, s)"
proof -
  have "filter (\<lambda>(k, e). id_recorded e \<ge> floor) (idemp_map s) = idemp_map s"
    using assms by (auto intro: filter_True)
  then show ?thesis by (auto simp: evict_cap_def Let_def idemp_len_def)
qed

lemma evict_eq:
  assumes "distinct (map fst (idemp_map s))"
  shows "evict s frontier =
    (\<lparr>aged_out = of_nat (length (filter (\<lambda>(k, e). \<not> in_window (retention s) frontier e) (idemp_map s))),
      cap_trimmed_out_of_window = 0,
      within_window_exceeds_cap =
        (case max_keys (retention s) of None \<Rightarrow> False | Some cap \<Rightarrow> of_nat (length (kept s frontier)) > cap),
      remaining = of_nat (length (kept s frontier))\<rparr>,
     s\<lparr>idemp_map := kept s frontier\<rparr>)"
proof (cases "keep_sequences (retention s)")
  case None
  then have "max_keys (retention s) = None" by (cases "retention s") auto
  with None show ?thesis
    by (simp add: evict_def kept_def in_window_def eviction_report_default_def idemp_len_def)
next
  case (Some keep)
  let ?floor = "saturating_sub frontier keep"
  have aged: "remove_keys (map fst (filter (\<lambda>(k, e). id_recorded e < ?floor) (idemp_map s))) (idemp_map s) =
      kept s frontier"
    unfolding remove_aged [OF assms] kept_def in_window_def
    by (auto simp: Some not_less intro!: filter_cong)
  have "\<forall>(k, e) \<in> set (idemp_map (s\<lparr>idemp_map := kept s frontier\<rparr>)). ?floor \<le> id_recorded e"
    by (auto simp: kept_def in_window_def Some)
  note cap = evict_cap_aged [OF this]
  show ?thesis
    using Some
    by (auto simp: evict_def Let_def aged cap in_window_def not_le eviction_report_default_def
        idemp_len_def split: option.splits)
qed

lemma kept_get:
  assumes "idemp_inv s"
  shows "map_of (kept s frontier) k =
    (case idemp_get s k of None \<Rightarrow> None
     | Some e \<Rightarrow> if in_window (retention s) frontier e then Some e else None)"
  using assms unfolding idemp_inv_def idemp_get_def kept_def
  by (auto simp: map_of_filter_distinct split: option.splits)

lemma kept_inv: "idemp_inv s \<Longrightarrow> idemp_inv (s\<lparr>idemp_map := kept s frontier\<rparr>)"
  by (auto simp: idemp_inv_def kept_def distinct_map_filter)

lemma set_update: "set (AList.update k v m) \<subseteq> insert (k, v) (set m)"
  by (induction m) auto

lemma record_inv: "idemp_inv s \<Longrightarrow> idemp_inv (record_entry s e)"
  using set_update [of "id_key e" e "idemp_map s"]
  by (auto simp: idemp_inv_def record_entry_def distinct_update)

lemma mark_evicted_keys [simp]: "map fst (idemp_map (mark_evicted s live)) = map fst (idemp_map s)"
  by (simp add: mark_evicted_def comp_def split_beta)

lemma mark_evicted_inv: "idemp_inv s \<Longrightarrow> idemp_inv (mark_evicted s live)"
  unfolding idemp_inv_def mark_evicted_keys by (auto simp: mark_evicted_def split_beta)

section \<open>Admission\<close>

lemma saturating_len:
  assumes "a + b < 2 ^ 64"
  shows "saturating_add (of_nat a :: u64) (of_nat b) \<le> cap \<longleftrightarrow> a + b \<le> unat cap"
proof -
  have "unat (of_nat a :: u64) = a" "unat (of_nat b :: u64) = b"
    using assms by (simp_all add: unat_of_nat)
  with assms show ?thesis
    by (simp add: word_le_nat_alt unat_saturating_add min_def)
qed

definition new_keys :: "idemp_store \<Rightarrow> u128 list \<Rightarrow> u128 list" where
  "new_keys s keys = filter (\<lambda>k. idemp_get s k = None) keys"

lemma count_new_eq:
  assumes "n + length keys < 2 ^ 64"
  shows "count_new s keys seen (of_nat n) =
    (if distinct (new_keys s keys) \<and> set (new_keys s keys) \<inter> set seen = {}
     then Inr (of_nat (n + length (new_keys s keys))) else Inl IdempotencyPartialBatch)"
  using assms
proof (induction keys arbitrary: seen n)
  case Nil
  then show ?case by (simp add: new_keys_def)
next
  case (Cons key keys)
  have "saturating_add (of_nat n :: u64) 1 = of_nat (Suc n)"
    using Cons.prems by (simp add: saturating_add_def unat_of_nat)
  then show ?case
    using Cons.IH [of n seen] Cons.IH [of "Suc n" "key # seen"] Cons.prems
    by (auto simp: new_keys_def)
qed

lemma kept_length: "length (kept s frontier) \<le> length (idemp_map s)"
  by (simp add: kept_def)

text \<open>Whether a batch of \<open>n\<close> new keys fits, and what admission answers.\<close>

definition admit_result :: "idemp_store \<Rightarrow> nat \<Rightarrow> u64 \<Rightarrow> (StoreError, unit) result \<times> idemp_store" where
  "admit_result s n frontier =
     (case max_keys (retention s) of
        None \<Rightarrow> (Inr (), s)
      | Some cap \<Rightarrow>
          if n = 0 \<or> length (idemp_map s) + n \<le> unat cap then (Inr (), s)
          else (if length (kept s frontier) + n \<le> unat cap \<or> overflow s = Warn then Inr ()
                else Inl (IdempotencyOverflowFailClosed (of_nat (length (kept s frontier))) cap),
                s\<lparr>idemp_map := kept s frontier\<rparr>))"

lemma admit_unique_eq:
  assumes "idemp_inv s" and "length (idemp_map s) + n < 2 ^ 64"
  shows "admit_unique_new_count s (of_nat n) frontier = admit_result s n frontier"
proof (cases "max_keys (retention s)")
  case None
  then show ?thesis by (simp add: admit_unique_new_count_def admit_result_def)
next
  case (Some cap)
  have zero: "(of_nat n :: u64) = 0 \<longleftrightarrow> n = 0"
    using assms(2) by (simp add: word_unat_eq_iff unat_of_nat)
  have "length (kept s frontier) + n < 2 ^ 64"
    using assms(2) kept_length [of s frontier] by linarith
  note sat = saturating_len [OF assms(2), of cap] saturating_len [OF this, of cap]
  have snd_evict: "snd (evict s frontier) = s\<lparr>idemp_map := kept s frontier\<rparr>"
    using assms(1) by (simp add: evict_eq idemp_inv_def)
  show ?thesis
    unfolding admit_unique_new_count_def admit_result_def Some option.case zero snd_evict Let_def idemp_len_def
    using sat by (auto split: OverflowPolicy.splits)
qed

lemma admit_result_store:
  "snd (admit_result s n frontier) = s \<or> snd (admit_result s n frontier) = s\<lparr>idemp_map := kept s frontier\<rparr>"
  by (auto simp: admit_result_def split: option.splits)

section \<open>Retention as an interface\<close>

text \<open>
  What an append that replays relies on: a store whose every operation keeps the entries it
  is bound to keep, up to a relation on the value (here: the eviction mark may be set). The
  bound \<open>keeps\<close> depends on the store only through its configuration.
\<close>

locale retaining_store =
  fixes get :: "'s \<Rightarrow> 'k \<Rightarrow> 'v option"
    and step :: "'o \<Rightarrow> 's \<Rightarrow> 's"
    and valid :: "'s \<Rightarrow> bool"
    and keeps :: "'s \<Rightarrow> 'o \<Rightarrow> 'k \<Rightarrow> 'v \<Rightarrow> bool"
    and same :: "'v \<Rightarrow> 'v \<Rightarrow> bool"
  assumes valid_step: "valid s \<Longrightarrow> valid (step o1 s)"
    and get_step: "valid s \<Longrightarrow> get s k = Some v \<Longrightarrow> keeps s o1 k v \<Longrightarrow>
      \<exists>v'. get (step o1 s) k = Some v' \<and> same v v'"
    and keeps_step: "keeps (step o1 s) o2 k v = keeps s o2 k v"
    and keeps_same: "same v v' \<Longrightarrow> keeps s o1 k v' = keeps s o1 k v"
    and same_refl: "same v v"
    and same_trans: "same v v' \<Longrightarrow> same v' v'' \<Longrightarrow> same v v''"
begin

lemma valid_run: "valid s \<Longrightarrow> valid (fold step ops s)"
  by (induction ops arbitrary: s) (simp_all add: valid_step)

lemma run_keeps:
  assumes "valid s" and "get s k = Some v" and "\<And>op. op \<in> set ops \<Longrightarrow> keeps s op k v"
  shows "\<exists>v'. get (fold step ops s) k = Some v' \<and> same v v'"
  using assms
proof (induction ops arbitrary: s v)
  case Nil
  then show ?case by (auto intro: same_refl)
next
  case (Cons op ops)
  from get_step [OF Cons.prems(1,2) Cons.prems(3)] obtain v1
    where v1: "get (step op s) k = Some v1" "same v v1" by auto
  have "keeps (step op s) op' k v1" if "op' \<in> set ops" for op'
    using that Cons.prems(3) keeps_same [OF v1(2)] keeps_step by auto
  from Cons.IH [OF valid_step [OF Cons.prems(1)] v1(1) this]
  show ?case using same_trans [OF v1(2)] by auto
qed

end

datatype idemp_op =
    OpRecord idemp_entry
  | OpAdmit "u128 list" u64
  | OpEvict u64
  | OpMarkEvicted "u128 list"

fun idemp_step :: "idemp_op \<Rightarrow> idemp_store \<Rightarrow> idemp_store" where
  "idemp_step (OpRecord e) s = record_entry s e"
| "idemp_step (OpAdmit keys frontier) s = snd (admit_new_keys s keys frontier)"
| "idemp_step (OpEvict frontier) s = snd (evict s frontier)"
| "idemp_step (OpMarkEvicted live) s = mark_evicted s (\<lambda>id. id \<in> set live)"

fun idemp_keeps :: "idemp_store \<Rightarrow> idemp_op \<Rightarrow> u128 \<Rightarrow> idemp_entry \<Rightarrow> bool" where
  "idemp_keeps s (OpRecord e) k v \<longleftrightarrow> id_key e \<noteq> k"
| "idemp_keeps s (OpAdmit _ frontier) k v \<longleftrightarrow> in_window (retention s) frontier v"
| "idemp_keeps s (OpEvict frontier) k v \<longleftrightarrow> in_window (retention s) frontier v"
| "idemp_keeps s (OpMarkEvicted _) k v \<longleftrightarrow> True"

text \<open>The receipt tuple a replay returns: everything but the eviction mark.\<close>

definition same_receipt :: "idemp_entry \<Rightarrow> idemp_entry \<Rightarrow> bool" where
  "same_receipt e e' \<longleftrightarrow> e\<lparr>id_event_evicted := False\<rparr> = e'\<lparr>id_event_evicted := False\<rparr>"

lemma admit_store_cases:
  assumes "idemp_inv s"
  shows "snd (admit_new_keys s keys frontier) \<in> {s, s\<lparr>idemp_map := kept s frontier\<rparr>}"
  using assms
  by (auto simp: admit_new_keys_def admit_unique_new_count_def evict_eq idemp_inv_def Let_def
      split: sum.splits option.splits OverflowPolicy.splits if_splits)

lemma kept_keeps:
  "idemp_inv s \<Longrightarrow> idemp_get s k = Some v \<Longrightarrow> in_window (retention s) frontier v \<Longrightarrow>
   idemp_get (s\<lparr>idemp_map := kept s frontier\<rparr>) k = Some v"
  by (simp add: idemp_get_def kept_get)

lemma mark_evicted_get:
  "idemp_get (mark_evicted s live) k = map_option (\<lambda>e. if \<not> id_event_evicted e \<and> \<not> live (id_event_id e)
     then e\<lparr>id_event_evicted := True\<rparr> else e) (idemp_get s k)"
  by (simp add: idemp_get_def mark_evicted_def map_of_map)

lemma evict_config: "retention (snd (evict s frontier)) = retention s \<and> overflow (snd (evict s frontier)) = overflow s"
proof -
  have "retention (snd (evict_cap cap floor s' r)) = retention s' \<and> overflow (snd (evict_cap cap floor s' r)) = overflow s'"
    for cap floor s' r
    by (simp add: evict_cap_def Let_def)
  then show ?thesis
    by (auto simp: evict_def Let_def split_beta split: option.split)
qed

lemma admit_config: "retention (snd (admit_new_keys s keys frontier)) = retention s"
  by (simp add: admit_new_keys_def admit_unique_new_count_def evict_config Let_def
      split: sum.split option.split OverflowPolicy.split)

lemma retention_step: "retention (idemp_step op s) = retention s"
  by (cases op) (simp_all add: record_entry_def mark_evicted_def admit_config evict_config)

lemma idemp_step_inv: "idemp_inv s \<Longrightarrow> idemp_inv (idemp_step op s)"
proof (cases op)
  case (OpAdmit keys frontier)
  then show "idemp_inv s \<Longrightarrow> ?thesis"
    using admit_store_cases [of s keys frontier] kept_inv [of s frontier] by auto
next
  case (OpEvict frontier)
  then show "idemp_inv s \<Longrightarrow> ?thesis"
    using evict_eq [of s frontier] kept_inv [of s frontier] by (simp add: idemp_inv_def)
qed (simp_all add: record_inv mark_evicted_inv)

lemma idemp_step_get:
  assumes "idemp_inv s" and "idemp_get s k = Some v" and "idemp_keeps s op k v"
  shows "\<exists>v'. idemp_get (idemp_step op s) k = Some v' \<and> same_receipt v v'"
proof (cases op)
  case (OpRecord e)
  with assms show ?thesis by (simp add: idemp_get_def record_entry_def update_conv same_receipt_def)
next
  case (OpAdmit keys frontier)
  with assms admit_store_cases [OF assms(1), of keys frontier] kept_keeps [OF assms(1,2), of frontier]
  show ?thesis by (auto simp: same_receipt_def)
next
  case (OpEvict frontier)
  with assms evict_eq [of s frontier] kept_keeps [OF assms(1,2), of frontier]
  show ?thesis by (simp add: idemp_inv_def same_receipt_def)
next
  case (OpMarkEvicted live)
  with assms show ?thesis by (simp add: mark_evicted_get same_receipt_def)
qed

lemma in_window_same: "same_receipt v v' \<Longrightarrow> in_window r f v' = in_window r f v"
proof -
  assume "same_receipt v v'"
  then have "id_recorded v = id_recorded v'"
    unfolding same_receipt_def by (metis idemp_entry.select_convs(12) idemp_entry.surjective idemp_entry.update_convs(13))
  then show ?thesis by (simp add: in_window_def split: option.split)
qed

interpretation idemp: retaining_store idemp_get idemp_step idemp_inv idemp_keeps same_receipt
proof
  show "idemp_keeps (idemp_step o1 s) o2 k v = idemp_keeps s o2 k v" for o1 s o2 k v
    by (cases o2) (simp_all add: retention_step)
  show "same_receipt v v' \<Longrightarrow> idemp_keeps s o1 k v' = idemp_keeps s o1 k v" for v v' s o1 k
    by (cases o1) (simp_all add: in_window_same)
qed (erule idemp_step_inv | erule (2) idemp_step_get | simp add: same_receipt_def)+

lemma record_length:
  "length (idemp_map (record_entry s e)) \<le> Suc (length (idemp_map s))"
proof -
  have "length (AList.update k v m) \<le> Suc (length m)" for k v and m :: "(u128 \<times> idemp_entry) list"
    by (induction m) auto
  then show ?thesis by (simp add: record_entry_def)
qed

lemma fold_record_length:
  "length (idemp_map (fold (\<lambda>e s. record_entry s e) entries s)) \<le> length (idemp_map s) + length entries"
proof (induction entries arbitrary: s)
  case (Cons e entries)
  from Cons.IH [of "record_entry s e"] record_length [of s e] show ?case by simp
qed simp

lemma restore_get:
  "map_of (fold (\<lambda>entry. AList.update (id_key entry) entry) entries m) =
   map_of m ++ map_of (rev (map (\<lambda>e. (id_key e, e)) entries))"
  by (induction entries arbitrary: m) (simp_all add: update_conv map_add_upd_left fun_eq_iff map_add_def split: option.split)

lemma restore_snapshot:
  assumes "idemp_inv s"
  shows "idemp_get (idemp_restore s0 (idemp_snapshot s)) = idemp_get s"
proof -
  have "map (\<lambda>e. (id_key e, e)) (map snd (idemp_map s)) = idemp_map s"
    using assms by (auto simp: idemp_inv_def comp_def intro!: map_idI)
  moreover have "map_of (rev (idemp_map s)) = map_of (idemp_map s)"
    using assms by (simp add: idemp_inv_def map_of_inject_set rev_map [symmetric])
  ultimately show ?thesis
    by (simp add: fun_eq_iff idemp_get_def idemp_restore_def idemp_snapshot_def restore_get)
qed

section \<open>Properties\<close>

text \<open>A small entry for the concrete instances below.\<close>

definition example_entry :: "u128 \<Rightarrow> u64 \<Rightarrow> idemp_entry" where
  "example_entry k r = \<lparr>id_key = k, id_event_id = k, id_global_sequence = r, id_disk_pos_segment = 0,
     id_disk_pos_offset = 0, id_disk_pos_length = 0, id_content_hash = [], id_prev_hash = [],
     id_entity = [], id_scope = [], id_kind = DATA, id_recorded = r, id_event_evicted = False,
     id_receipt_extensions = []\<rparr>"

lemma example_entry_simps [simp]:
  "id_key (example_entry k r) = k" "id_recorded (example_entry k r) = r"
  by (simp_all add: example_entry_def)

text \<open>
  C13. Eviction never drops a key inside the retention window and drops every key outside
  it: afterwards a lookup returns exactly the entries whose recorded sequence is at or
  above the window floor. The report counts the dropped and the remaining keys, raises the
  cap flag exactly when the in-window keys alone exceed the cap, and never reports a key
  trimmed by the cap.
\<close>

theorem evict_correct:
  assumes "idemp_inv s" and "evict s frontier = (report, s')"
  shows "idemp_inv s' \<and> retention s' = retention s \<and>
    idemp_get s' k = (case idemp_get s k of None \<Rightarrow> None
      | Some e \<Rightarrow> if in_window (retention s) frontier e then Some e else None) \<and>
    cap_trimmed_out_of_window report = 0 \<and> remaining report = idemp_len s' \<and>
    aged_out report + remaining report = idemp_len s \<and>
    within_window_exceeds_cap report =
      (case max_keys (retention s) of None \<Rightarrow> False | Some cap \<Rightarrow> idemp_len s' > cap)"
proof -
  have e: "s' = s\<lparr>idemp_map := kept s frontier\<rparr>" and r: "report =
      \<lparr>aged_out = of_nat (length (filter (\<lambda>(k, e). \<not> in_window (retention s) frontier e) (idemp_map s))),
      cap_trimmed_out_of_window = 0,
      within_window_exceeds_cap =
        (case max_keys (retention s) of None \<Rightarrow> False | Some cap \<Rightarrow> of_nat (length (kept s frontier)) > cap),
      remaining = of_nat (length (kept s frontier))\<rparr>"
    using assms evict_eq [of s frontier] by (simp_all add: idemp_inv_def)
  have "length (filter (\<lambda>(k, e). \<not> in_window (retention s) frontier e) (idemp_map s)) + length (kept s frontier) =
      length (idemp_map s)"
    unfolding kept_def
    using sum_length_filter_compl [of "\<lambda>(k, e). in_window (retention s) frontier e" "idemp_map s"]
    by (simp add: case_prod_unfold add.commute)
  then have "(of_nat (length (filter (\<lambda>(k, e). \<not> in_window (retention s) frontier e) (idemp_map s))) :: u64) +
      of_nat (length (kept s frontier)) = of_nat (length (idemp_map s))"
    by (metis of_nat_add)
  then show ?thesis
    unfolding e r idemp_len_def
    using assms(1) kept_get [OF assms(1)] kept_inv [OF assms(1)]
    by (simp add: idemp_get_def cong: option.case_cong)
qed

theorem evict_correct_witness:
  "\<exists>report s'.
     evict \<lparr>idemp_map = [(7, example_entry 7 50), (8, example_entry 8 95)], retention = Hybrid 10 1,
       overflow = Warn\<rparr> 100 = (report, s') \<and>
     idemp_get s' 7 = None \<and> idemp_get s' 8 = Some (example_entry 8 95)"
proof -
  let ?s = "\<lparr>idemp_map = [(7, example_entry 7 50), (8, example_entry 8 95)], retention = Hybrid 10 1,
    overflow = Warn\<rparr>"
  have inv: "idemp_inv ?s" by (simp add: idemp_inv_def)
  obtain report s' where ev: "evict ?s 100 = (report, s')" by fastforce
  have "idemp_get s' 7 = None" "idemp_get s' 8 = Some (example_entry 8 95)"
    using evict_correct [OF inv ev, of 7] evict_correct [OF inv ev, of 8]
    by (simp_all add: idemp_get_def in_window_def saturating_sub_def)
  with ev show ?thesis by blast
qed

text \<open>
  C14. A recorded append stays replayable: through any sequence of records of other keys,
  admissions, evictions and eviction marks whose frontiers leave the entry inside the
  window, a lookup of the key keeps returning the entry, up to the eviction mark.
\<close>

theorem idempotent_replay_retained:
  assumes "idemp_inv s" and "idemp_get s k = Some e"
    and "\<And>op. op \<in> set ops \<Longrightarrow> idemp_keeps s op k e"
  shows "\<exists>e'. idemp_get (fold idemp_step ops s) k = Some e' \<and> same_receipt e e'"
  using assms by (rule idemp.run_keeps)

theorem idempotent_replay_retained_witness:
  "\<exists>e'. idemp_get (fold idemp_step [OpEvict 60, OpMarkEvicted [], OpAdmit [9] 60]
       (record_entry (idemp_new (Hybrid 10 1) FailClosed) (example_entry 7 50))) 7 = Some e' \<and>
     same_receipt (example_entry 7 50) e'"
proof -
  let ?s = "record_entry (idemp_new (Hybrid 10 1) FailClosed) (example_entry 7 50)"
  let ?ops = "[OpEvict 60, OpMarkEvicted [], OpAdmit [9] 60]"
  have inv: "idemp_inv ?s" by (simp add: idemp_inv_def record_entry_def idemp_new_def)
  have get: "idemp_get ?s 7 = Some (example_entry 7 50)"
    by (simp add: idemp_get_def record_entry_def idemp_new_def)
  have keeps: "idemp_keeps ?s op 7 (example_entry 7 50)" if "op \<in> set ?ops" for op
    using that by (auto simp: in_window_def record_entry_def idemp_new_def saturating_sub_def)
  show ?thesis by (rule idempotent_replay_retained [OF inv get keeps])
qed

text \<open>
  Admission of a batch of keys, on every branch. A key repeated among the keys not yet
  stored refuses the batch; otherwise the batch is admitted at once when nothing is new or
  the cap leaves room, and only then is the window evicted; what still does not fit is
  admitted under \<^verbatim>\<open>Warn\<close> and refused under the other two policies, with the counts.
\<close>

theorem admit_new_keys_correct:
  assumes "idemp_inv s" and "length (idemp_map s) + length keys < 2 ^ 64"
  shows "admit_new_keys s keys frontier =
    (if distinct (new_keys s keys) then admit_result s (length (new_keys s keys)) frontier
     else (Inl IdempotencyPartialBatch, s))"
proof -
  have "length (idemp_map s) + length (new_keys s keys) < 2 ^ 64"
    unfolding new_keys_def
    using assms(2) length_filter_le [of "\<lambda>k. idemp_get s k = None" keys] by linarith
  then show ?thesis
    using count_new_eq [of 0 keys s "[]"] assms(2) admit_unique_eq [OF assms(1)]
    by (simp add: admit_new_keys_def)
qed

theorem admit_new_keys_correct_witness:
  "admit_new_keys (idemp_new (Hybrid 10 1) FailClosed) [3, 4] 0 =
     (Inl (IdempotencyOverflowFailClosed 0 1), idemp_new (Hybrid 10 1) FailClosed)"
  using admit_new_keys_correct [of "idemp_new (Hybrid 10 1) FailClosed" "[3, 4]" 0]
  by (simp add: idemp_inv_def idemp_new_def new_keys_def idemp_get_def admit_result_def kept_def)

text \<open>
  A store that fails closed keeps its cap: when it holds at most the cap and a batch of
  keys not yet stored is admitted, recording the batch leaves at most the cap.
\<close>

theorem fail_closed_cap:
  assumes "idemp_inv s" and "max_keys (retention s) = Some cap" and "overflow s \<noteq> Warn"
    and "length (idemp_map s) \<le> unat cap" and "length (idemp_map s) + length keys < 2 ^ 64"
    and "\<And>k. k \<in> set keys \<Longrightarrow> idemp_get s k = None"
    and "admit_new_keys s keys frontier = (Inr (), s')" and "map id_key entries = keys"
  shows "length (idemp_map (fold (\<lambda>e s. record_entry s e) entries s')) \<le> unat cap"
proof -
  have new: "new_keys s keys = keys" using assms(6) by (simp add: new_keys_def)
  have "admit_new_keys s keys frontier =
      (if distinct keys then admit_unique_new_count s (of_nat (length keys)) frontier
       else (Inl IdempotencyPartialBatch, s))"
    using count_new_eq [of 0 keys s "[]"] assms(5) new by (simp add: admit_new_keys_def)
  then have "admit_result s (length keys) frontier = (Inr (), s')"
    using assms(7) admit_unique_eq [OF assms(1,5), of frontier] by (simp split: if_splits)
  then have "length (idemp_map s') + length keys \<le> unat cap"
    using assms(2-4) by (auto simp: admit_result_def split: if_splits)
  moreover have "length keys = length entries" using assms(8) by auto
  ultimately show ?thesis
    using fold_record_length [of entries s'] by simp
qed

theorem fail_closed_cap_witness:
  "length (idemp_map (fold (\<lambda>e s. record_entry s e) [example_entry 3 50] (idemp_new (Hybrid 10 1) FailClosed)))
     \<le> unat (1 :: u64)"
  by (rule fail_closed_cap [of "idemp_new (Hybrid 10 1) FailClosed" 1 "[3]" 0])
    (simp_all add: idemp_inv_def idemp_new_def idemp_get_def admit_new_keys_def
      admit_unique_new_count_def idemp_len_def saturating_add_def)

text \<open>
  The store survives a restart: reading back what a flush wrote (with a codec that
  decodes what it encodes) loads the entries, and restoring them gives a store with the
  same lookups. A file of a later version is a hard error and never an empty store.
\<close>

theorem idemp_file_roundtrip:
  assumes "\<And>es bs. to_bytes es = Some bs \<Longrightarrow> from_bytes bs = Some es"
    and "idemp_inv s" and "idemp_flush to_bytes crc s = Inr raw"
  shows "(\<exists>entries. read_idemp_file from_bytes crc (Contents raw) = Inr (Loaded entries) \<and>
      idemp_get (idemp_restore s0 entries) = idemp_get s) \<and>
    (v > IDEMP_VERSION \<longrightarrow> read_idemp_file from_bytes crc (Contents (IDEMP_MAGIC @ to_le v @ drop 8 raw)) =
      Inl (IdempotencyFutureVersion v IDEMP_VERSION))"
proof -
  have magic: "length IDEMP_MAGIC = 6" by (simp add: IDEMP_MAGIC_def)
  obtain body where body: "to_bytes (idemp_snapshot s) = Some body"
    and raw: "raw = IDEMP_MAGIC @ to_le IDEMP_VERSION @ to_le (crc body) @ body"
    using assms(3) by (auto simp: idemp_flush_def split: option.splits)
  have "read_idemp_file from_bytes crc (Contents raw) = Inr (Loaded (idemp_snapshot s))"
    using header_bytes [OF magic, of IDEMP_VERSION "crc body" body] assms(1) [OF body]
    by (simp add: read_idemp_file_def raw IDEMP_HEADER_LEN_def magic Let_def)
  moreover have "drop 8 raw = to_le (crc body) @ body"
    by (simp add: raw magic)
  then have "read_idemp_file from_bytes crc (Contents (IDEMP_MAGIC @ to_le v @ drop 8 raw)) =
      Inl (IdempotencyFutureVersion v IDEMP_VERSION)" if "v > IDEMP_VERSION"
    using header_bytes [OF magic, of v "crc body" body] that
    by (simp add: read_idemp_file_def IDEMP_HEADER_LEN_def magic Let_def)
  ultimately show ?thesis using restore_snapshot [OF assms(2)] by blast
qed

theorem idemp_file_roundtrip_witness:
  "\<exists>raw. idemp_flush (\<lambda>es. if es = [] then Some [0x90] else None) (\<lambda>_. 5) (idemp_new Unbounded Warn) = Inr raw \<and>
    (\<exists>entries. read_idemp_file (\<lambda>bs. if bs = [0x90] then Some [] else None) (\<lambda>_. 5) (Contents raw) = Inr (Loaded entries))"
proof -
  let ?to = "\<lambda>es :: idemp_entry list. if es = [] then Some [0x90 :: byte] else None"
  let ?from = "\<lambda>bs. if bs = [0x90 :: byte] then Some ([] :: idemp_entry list) else None"
  have codec: "?from bs = Some es" if "?to es = Some bs" for es bs using that by (simp split: if_splits)
  have inv: "idemp_inv (idemp_new Unbounded Warn)" by (simp add: idemp_inv_def idemp_new_def)
  obtain raw where raw: "idemp_flush ?to (\<lambda>_. 5) (idemp_new Unbounded Warn) = Inr raw"
    by (simp add: idemp_flush_def idemp_snapshot_def idemp_new_def)
  from idemp_file_roundtrip [of ?to ?from, OF codec inv raw, of "idemp_new Unbounded Warn" 2] raw
  show ?thesis by blast
qed

end
