(* ===== verification/Watermark.thy ===== *)
theory Watermark
  imports Events "HOL-Library.AList"
begin

text \<open>
  Frontier watermarks (\<^verbatim>\<open>store/write/writer/watermark.rs\<close>), the views of \<^verbatim>\<open>store/stats.rs\<close> and
  the projection registry (\<^verbatim>\<open>store/projection/registry.rs\<close>). The six watermarks that the state,
  each lane, the snapshot and the views carry are one record that the others extend. The
  mutex makes every method one transition; a blocked waiter is a list of what it sees at
  each wake-up. The monotonic clock's reading is an argument of the methods that take it.
\<close>

section \<open>State\<close>

record watermarks =
  accepted_hlc :: HlcPoint
  written_hlc :: HlcPoint
  durable_hlc :: HlcPoint
  visible_hlc :: HlcPoint
  applied_hlc :: HlcPoint
  emitted_hlc :: HlcPoint

type_synonym lane_watermarks = watermarks

record watermark_state = watermarks +
  lanes :: "(u32, lane_watermarks) btree"
  pending_write_start_mono_ns :: "i64 option"

record watermark_snapshot = watermarks +
  oldest_pending_write_age_ms :: "u64 option"

record lane_frontier_view = watermarks +
  lv_lane :: u32
  lv_visible_minus_durable_seq :: i64

record frontier_view = watermarks +
  fv_visible_minus_durable_seq :: i64
  fv_lanes :: "lane_frontier_view list"
  fv_oldest_pending_write_age_ms :: "u64 option"

definition lane_default :: lane_watermarks where
  "lane_default = \<lparr>accepted_hlc = ORIGIN, written_hlc = ORIGIN, durable_hlc = ORIGIN,
     visible_hlc = ORIGIN, applied_hlc = ORIGIN, emitted_hlc = ORIGIN\<rparr>"

definition lane_for_bootstrap :: "HlcPoint \<Rightarrow> lane_watermarks" where
  "lane_for_bootstrap p = \<lparr>accepted_hlc = p, written_hlc = p, durable_hlc = p,
     visible_hlc = p, applied_hlc = p, emitted_hlc = p\<rparr>"

definition for_bootstrap_split :: "HlcPoint \<Rightarrow> HlcPoint \<Rightarrow> lane_watermarks" where
  "for_bootstrap_split durable_point visible_point =
     \<lparr>accepted_hlc = durable_point, written_hlc = durable_point, durable_hlc = durable_point,
      visible_hlc = visible_point, applied_hlc = visible_point, emitted_hlc = visible_point\<rparr>"

fun current :: "WatermarkKind \<Rightarrow> 'a watermarks_scheme \<Rightarrow> HlcPoint" where
  "current Accepted w = accepted_hlc w"
| "current Written w = written_hlc w"
| "current Durable w = durable_hlc w"
| "current Applied w = applied_hlc w"
| "current Visible w = visible_hlc w"
| "current Emitted w = emitted_hlc w"

text \<open>The difference of the two sequences, each read as a signed number.\<close>

definition seq_difference :: "HlcPoint \<Rightarrow> HlcPoint \<Rightarrow> i64" where
  "seq_difference p q = global_sequence p - global_sequence q"

definition lane_view :: "u32 \<Rightarrow> lane_watermarks \<Rightarrow> lane_frontier_view" where
  "lane_view lane w =
     \<lparr>accepted_hlc = accepted_hlc w, written_hlc = written_hlc w, durable_hlc = durable_hlc w,
      visible_hlc = visible_hlc w, applied_hlc = applied_hlc w, emitted_hlc = emitted_hlc w,
      lv_lane = lane, lv_visible_minus_durable_seq = seq_difference (visible_hlc w) (durable_hlc w)\<rparr>"

definition state_new :: watermark_state where
  "state_new = \<lparr>accepted_hlc = ORIGIN, written_hlc = ORIGIN, durable_hlc = ORIGIN,
     visible_hlc = ORIGIN, applied_hlc = ORIGIN, emitted_hlc = ORIGIN, lanes = [],
     pending_write_start_mono_ns = None\<rparr>"

definition state_for_bootstrap :: "HlcPoint \<Rightarrow> watermark_state" where
  "state_for_bootstrap p = \<lparr>accepted_hlc = p, written_hlc = p, durable_hlc = p, visible_hlc = p,
     applied_hlc = p, emitted_hlc = p, lanes = bt_insert 0 (lane_for_bootstrap p) [],
     pending_write_start_mono_ns = None\<rparr>"

section \<open>Operations\<close>

definition reset_to_bootstrap_lanes ::
  "HlcPoint \<Rightarrow> HlcPoint \<Rightarrow> (u32 \<times> HlcPoint) list \<Rightarrow> (u32 \<times> HlcPoint) list \<Rightarrow> watermark_state \<Rightarrow>
   watermark_state" where
  "reset_to_bootstrap_lanes global_durable_point global_visible_point lane_durable_points lane_visible_points w =
     (let durables = bt_collect lane_durable_points;
          visibles = bt_collect lane_visible_points;
          durables' = fold (\<lambda>(lane, point). bt_update lane ORIGIN (\<lambda>d. max_by_sequence d point))
            visibles durables;
          built = fold (\<lambda>(lane, durable_point). bt_insert lane (for_bootstrap_split durable_point
            (case bt_get visibles lane of None \<Rightarrow> ORIGIN | Some p \<Rightarrow> p))) durables' [];
          built' = (if built = [] then bt_insert 0 (lane_for_bootstrap ORIGIN) built else built) in
      \<lparr>accepted_hlc = global_durable_point, written_hlc = global_durable_point,
       durable_hlc = global_durable_point, visible_hlc = global_visible_point,
       applied_hlc = global_visible_point, emitted_hlc = global_visible_point,
       lanes = built', pending_write_start_mono_ns = None\<rparr>)"

definition lane_watermark :: "watermark_state \<Rightarrow> u32 \<Rightarrow> lane_watermarks" where
  "lane_watermark w lane = (case bt_get (lanes w) lane of None \<Rightarrow> lane_default | Some l \<Rightarrow> l)"

text \<open>The write through \<^verbatim>\<open>lane_watermark_mut\<close>.\<close>

definition lane_watermark_mut ::
  "u32 \<Rightarrow> (lane_watermarks \<Rightarrow> lane_watermarks) \<Rightarrow> watermark_state \<Rightarrow> watermark_state" where
  "lane_watermark_mut lane f w = w\<lparr>lanes := bt_update lane lane_default f (lanes w)\<rparr>"

definition advance_accepted_on_lane :: "i64 \<Rightarrow> u32 \<Rightarrow> HlcPoint \<Rightarrow> watermark_state \<Rightarrow> watermark_state" where
  "advance_accepted_on_lane now lane point w =
     (let w1 = (if \<not> covers_sequence (accepted_hlc w) point
                then (let w' = w\<lparr>accepted_hlc := point\<rparr> in
                      if pending_write_start_mono_ns w' = None
                      then w'\<lparr>pending_write_start_mono_ns := Some now\<rparr> else w')
                else w) in
      lane_watermark_mut lane (\<lambda>l. l\<lparr>accepted_hlc := max_by_sequence (accepted_hlc l) point\<rparr>) w1)"

definition advance_written_on_lane :: "u32 \<Rightarrow> HlcPoint \<Rightarrow> watermark_state \<Rightarrow> watermark_state" where
  "advance_written_on_lane lane point w =
     lane_watermark_mut lane (\<lambda>l. l\<lparr>written_hlc := max_by_sequence (written_hlc l) point\<rparr>)
       (w\<lparr>written_hlc := max_by_sequence (written_hlc w) point\<rparr>)"

definition advance_lane_durability_to_physical :: "watermark_state \<Rightarrow> watermark_state" where
  "advance_lane_durability_to_physical w =
     w\<lparr>lanes := map (\<lambda>(lane, l). (lane,
        if covers_sequence (durable_hlc w) (written_hlc l)
        then l\<lparr>durable_hlc := max_by_sequence (durable_hlc l) (written_hlc l)\<rparr> else l)) (lanes w)\<rparr>"

definition advance_durable :: "HlcPoint \<Rightarrow> watermark_state \<Rightarrow> watermark_state" where
  "advance_durable point w =
     (let w1 = advance_lane_durability_to_physical (w\<lparr>durable_hlc := max_by_sequence (durable_hlc w) point\<rparr>) in
      if covers_sequence (durable_hlc w1) (accepted_hlc w1)
      then w1\<lparr>pending_write_start_mono_ns := None\<rparr> else w1)"

definition advance_durable_to_accepted :: "watermark_state \<Rightarrow> watermark_state" where
  "advance_durable_to_accepted w = advance_durable (accepted_hlc w) w"

definition advance_visible_on_lane :: "u32 \<Rightarrow> HlcPoint \<Rightarrow> watermark_state \<Rightarrow> watermark_state" where
  "advance_visible_on_lane lane point w =
     lane_watermark_mut lane (\<lambda>l. l\<lparr>visible_hlc := max_by_sequence (visible_hlc l) point\<rparr>)
       (w\<lparr>visible_hlc := max_by_sequence (visible_hlc w) point\<rparr>)"

definition advance_emitted_on_lane :: "u32 \<Rightarrow> HlcPoint \<Rightarrow> watermark_state \<Rightarrow> watermark_state" where
  "advance_emitted_on_lane lane point w =
     lane_watermark_mut lane (\<lambda>l. l\<lparr>emitted_hlc := max_by_sequence (emitted_hlc l) point\<rparr>)
       (w\<lparr>emitted_hlc := max_by_sequence (emitted_hlc w) point\<rparr>)"

definition advance_visible_and_emitted :: "HlcPoint \<Rightarrow> watermark_state \<Rightarrow> watermark_state" where
  "advance_visible_and_emitted point w =
     w\<lparr>visible_hlc := max_by_sequence (visible_hlc w) point,
       emitted_hlc := max_by_sequence (emitted_hlc w) point\<rparr>"

definition advance_visible_and_emitted_on_lane :: "u32 \<Rightarrow> HlcPoint \<Rightarrow> watermark_state \<Rightarrow> watermark_state" where
  "advance_visible_and_emitted_on_lane lane point w =
     advance_emitted_on_lane lane point (advance_visible_on_lane lane point w)"

definition set_applied :: "HlcPoint \<Rightarrow> watermark_state \<Rightarrow> watermark_state" where
  "set_applied point w = w\<lparr>applied_hlc := point\<rparr>"

definition set_applied_on_lane :: "u32 \<Rightarrow> HlcPoint \<Rightarrow> watermark_state \<Rightarrow> watermark_state" where
  "set_applied_on_lane lane point w = lane_watermark_mut lane (\<lambda>l. l\<lparr>applied_hlc := point\<rparr>) w"

text \<open>
  The clamp to nonnegative precedes the division, so the signed division is that of natural
  numbers and the conversion to \<^verbatim>\<open>u64\<close> always succeeds.
\<close>

definition elapsed_ms_since :: "i64 \<Rightarrow> i64 \<Rightarrow> u64" where
  "elapsed_ms_since now_ns then_ns =
     (let elapsed_ns = saturating_sub_i64 now_ns then_ns in
      if sint elapsed_ns \<ge> 0 then word_of_int (sint elapsed_ns div 1000000) else 0)"

definition state_snapshot :: "i64 \<Rightarrow> watermark_state \<Rightarrow> watermark_snapshot" where
  "state_snapshot now w =
     \<lparr>accepted_hlc = accepted_hlc w, written_hlc = written_hlc w, durable_hlc = durable_hlc w,
      visible_hlc = visible_hlc w, applied_hlc = applied_hlc w, emitted_hlc = emitted_hlc w,
      oldest_pending_write_age_ms =
        map_option (\<lambda>start. elapsed_ms_since now start) (pending_write_start_mono_ns w)\<rparr>"

definition lane_views :: "watermark_state \<Rightarrow> lane_frontier_view list" where
  "lane_views w = map (\<lambda>(lane, l). lane_view lane l) (lanes w)"

text \<open>The ordering assertions of the frontier view, on the whole store and on each lane.\<close>

definition marks_ok :: "'a watermarks_scheme \<Rightarrow> bool" where
  "marks_ok w \<longleftrightarrow> covers_sequence (accepted_hlc w) (written_hlc w) \<and>
     covers_sequence (written_hlc w) (durable_hlc w) \<and>
     covers_sequence (accepted_hlc w) (visible_hlc w) \<and>
     covers_sequence (visible_hlc w) (applied_hlc w) \<and>
     covers_sequence (emitted_hlc w) (visible_hlc w)"

definition frontier_ok :: "watermark_state \<Rightarrow> bool" where
  "frontier_ok w \<longleftrightarrow> marks_ok w \<and>
     (\<forall>(lane, l) \<in> set (lanes w). marks_ok l \<and> covers_sequence (durable_hlc w) (durable_hlc l))"

definition snapshot_view :: "i64 \<Rightarrow> watermark_state \<Rightarrow> frontier_view" where
  "snapshot_view now w =
     \<lparr>accepted_hlc = accepted_hlc w, written_hlc = written_hlc w, durable_hlc = durable_hlc w,
      visible_hlc = visible_hlc w, applied_hlc = applied_hlc w, emitted_hlc = emitted_hlc w,
      fv_visible_minus_durable_seq = seq_difference (visible_hlc w) (durable_hlc w),
      fv_lanes = lane_views w,
      fv_oldest_pending_write_age_ms =
        map_option (\<lambda>start. elapsed_ms_since now start) (pending_write_start_mono_ns w)\<rparr>"

definition view_lane :: "frontier_view \<Rightarrow> u32 \<Rightarrow> lane_frontier_view option" where
  "view_lane v lane = find (\<lambda>view. lv_lane view = lane) (fv_lanes v)"

section \<open>Waiting\<close>

text \<open>
  What a waiter holds the lock over at one turn of its loop: whether the writer crashed, the
  state, and the time since it started, in nanoseconds. Running out of turns is \<open>None\<close>: the
  waiter is still blocked in the condition variable.
\<close>

record wake =
  wk_poison :: bool
  wk_state :: watermark_state
  wk_elapsed :: nat

definition timeout_ms :: "nat \<Rightarrow> u64" where
  "timeout_ms timeout = (if timeout div 1000000 < 2 ^ 64 then of_nat (timeout div 1000000) else u64_MAX)"

fun wait_loop :: "(watermark_state \<Rightarrow> HlcPoint) \<Rightarrow> WatermarkKind \<Rightarrow> HlcPoint \<Rightarrow> nat \<Rightarrow> wake list \<Rightarrow>
  (StoreError, unit) result option" where
  "wait_loop read watermark point timeout [] = None"
| "wait_loop read watermark point timeout (t # ts) =
     (if wk_poison t then Some (Inl WriterCrashed)
      else if covers_sequence (read (wk_state t)) point then Some (Inr ())
      else if wk_elapsed t \<ge> timeout then Some (Inl (WaitTimeout watermark point (timeout_ms timeout)))
      else if timeout - wk_elapsed t = 0 then Some (Inl (WaitTimeout watermark point (timeout_ms timeout)))
      else wait_loop read watermark point timeout ts)"

definition wait_for_watermark ::
  "WatermarkKind \<Rightarrow> HlcPoint \<Rightarrow> nat \<Rightarrow> wake list \<Rightarrow> (StoreError, unit) result option" where
  "wait_for_watermark watermark point timeout turns =
     wait_loop (\<lambda>w. current watermark (state_snapshot 0 w)) watermark point timeout turns"

definition wait_for_watermark_on_lane ::
  "WatermarkKind \<Rightarrow> u32 \<Rightarrow> HlcPoint \<Rightarrow> nat \<Rightarrow> wake list \<Rightarrow> (StoreError, unit) result option" where
  "wait_for_watermark_on_lane watermark lane point timeout turns =
     wait_loop (\<lambda>w. current watermark (lane_watermark w lane)) watermark point timeout turns"

section \<open>Projection registry\<close>

record projection_registry =
  progress :: "(string \<times> HlcPoint) list"
  lane_progress :: "((string \<times> u32) \<times> HlcPoint) list"

fun reduce_min :: "HlcPoint list \<Rightarrow> HlcPoint option" where
  "reduce_min [] = None"
| "reduce_min (p # ps) = Some (fold (\<lambda>q acc. min_by_sequence acc q) ps p)"

definition recompute_locked :: "projection_registry \<Rightarrow> watermark_state \<Rightarrow> watermark_state" where
  "recompute_locked r w =
     (case reduce_min (map snd (progress r)) of Some point \<Rightarrow> set_applied point w | None \<Rightarrow> w)"

definition recompute_lane_locked :: "projection_registry \<Rightarrow> u32 \<Rightarrow> watermark_state \<Rightarrow> watermark_state" where
  "recompute_lane_locked r lane w =
     (case reduce_min (map snd (filter (\<lambda>((_, l), _). l = lane) (lane_progress r))) of
        Some point \<Rightarrow> set_applied_on_lane lane point w | None \<Rightarrow> w)"

text \<open>An entry of a hash map set through \<^verbatim>\<open>entry(k).or_insert(d)\<close> and then joined with a point.\<close>

definition raise_entry :: "'k \<Rightarrow> HlcPoint \<Rightarrow> HlcPoint \<Rightarrow> ('k \<times> HlcPoint) list \<Rightarrow> ('k \<times> HlcPoint) list" where
  "raise_entry k d point m =
     AList.update k (max_by_sequence (case map_of m k of None \<Rightarrow> d | Some p \<Rightarrow> p) point) m"

definition notify_applied_on_lane ::
  "string \<Rightarrow> u32 \<Rightarrow> HlcPoint \<Rightarrow> projection_registry \<times> watermark_state \<Rightarrow> projection_registry \<times> watermark_state" where
  "notify_applied_on_lane projection_id lane point rw =
     (let (r, w) = rw;
          view = snapshot_view 0 w;
          current_applied = applied_hlc view;
          current_lane_applied =
            (case map_option applied_hlc (view_lane view lane) of None \<Rightarrow> ORIGIN | Some p \<Rightarrow> p);
          r' = \<lparr>progress = raise_entry projection_id current_applied point (progress r),
                lane_progress = raise_entry (projection_id, lane) current_lane_applied point (lane_progress r)\<rparr> in
      (r', recompute_lane_locked r' lane (recompute_locked r' w)))"

section \<open>Lane updates\<close>

lemma bt_update_set:
  "set (bt_update k d f m) \<subseteq> insert (k, f (case bt_get m k of None \<Rightarrow> d | Some v \<Rightarrow> v)) (set m)"
  unfolding bt_update_def by (rule set_bt_insert)

lemma lane_mut_marks [simp]:
  "accepted_hlc (lane_watermark_mut lane f w) = accepted_hlc w"
  "written_hlc (lane_watermark_mut lane f w) = written_hlc w"
  "durable_hlc (lane_watermark_mut lane f w) = durable_hlc w"
  "visible_hlc (lane_watermark_mut lane f w) = visible_hlc w"
  "applied_hlc (lane_watermark_mut lane f w) = applied_hlc w"
  "emitted_hlc (lane_watermark_mut lane f w) = emitted_hlc w"
  by (simp_all add: lane_watermark_mut_def)

lemma lane_mut_get [simp]:
  "lane_watermark (lane_watermark_mut lane f w) l =
     (if l = lane then f (lane_watermark w lane) else lane_watermark w l)"
  by (simp add: lane_watermark_def lane_watermark_mut_def split: option.split)

lemma lane_update_lanes [simp]:
  "lane_watermark (w\<lparr>accepted_hlc := p\<rparr>) l = lane_watermark w l"
  "lane_watermark (w\<lparr>written_hlc := p\<rparr>) l = lane_watermark w l"
  "lane_watermark (w\<lparr>durable_hlc := p\<rparr>) l = lane_watermark w l"
  "lane_watermark (w\<lparr>visible_hlc := p\<rparr>) l = lane_watermark w l"
  "lane_watermark (w\<lparr>applied_hlc := p\<rparr>) l = lane_watermark w l"
  "lane_watermark (w\<lparr>emitted_hlc := p\<rparr>) l = lane_watermark w l"
  "lane_watermark (w\<lparr>pending_write_start_mono_ns := t\<rparr>) l = lane_watermark w l"
  by (simp_all add: lane_watermark_def)

lemma lane_mut_all:
  assumes "\<forall>(lane, l) \<in> set (lanes w). P l" and "P (f (lane_watermark w lane))"
  shows "\<forall>(lane, l) \<in> set (lanes (lane_watermark_mut lane f w)). P l"
  using assms bt_update_set [of lane lane_default f "lanes w"]
  by (fastforce simp: lane_watermark_mut_def lane_watermark_def)

lemma lane_watermark_all:
  assumes "\<forall>(lane, l) \<in> set (lanes w). P l" and "P lane_default"
  shows "P (lane_watermark w lane)"
  using assms by (auto simp: lane_watermark_def split: option.split dest: map_of_SomeD)

lemma durability_get [simp]:
  "lane_watermark (advance_lane_durability_to_physical w) l =
    (let k = lane_watermark w l in
     if covers_sequence (durable_hlc w) (written_hlc k)
     then k\<lparr>durable_hlc := max_by_sequence (durable_hlc k) (written_hlc k)\<rparr> else k)"
proof (cases "bt_get (lanes w) l")
  case None
  then show ?thesis
    by (simp add: lane_watermark_def advance_lane_durability_to_physical_def map_of_map lane_default_def
        max_by_sequence_seq_le Let_def)
next
  case (Some k)
  then show ?thesis
    by (simp add: lane_watermark_def advance_lane_durability_to_physical_def map_of_map Let_def)
qed

lemma durability_marks [simp]:
  "accepted_hlc (advance_lane_durability_to_physical w) = accepted_hlc w"
  "written_hlc (advance_lane_durability_to_physical w) = written_hlc w"
  "durable_hlc (advance_lane_durability_to_physical w) = durable_hlc w"
  "visible_hlc (advance_lane_durability_to_physical w) = visible_hlc w"
  "applied_hlc (advance_lane_durability_to_physical w) = applied_hlc w"
  "emitted_hlc (advance_lane_durability_to_physical w) = emitted_hlc w"
  by (simp_all add: advance_lane_durability_to_physical_def)

section \<open>The frontier protocol\<close>

text \<open>
  What a caller owes before each advance: a point is written only once accepted, durable
  only once written, published only once accepted, and applied only once visible and never
  below what was applied before.
\<close>

inductive frontier_step :: "watermark_state \<Rightarrow> watermark_state \<Rightarrow> bool" where
  fr_accept: "frontier_step w (advance_accepted_on_lane now lane p w)"
| fr_write: "covers_sequence (accepted_hlc w) p \<Longrightarrow> covers_sequence (accepted_hlc (lane_watermark w lane)) p \<Longrightarrow>
    frontier_step w (advance_written_on_lane lane p w)"
| fr_durable: "covers_sequence (written_hlc w) p \<Longrightarrow> frontier_step w (advance_durable p w)"
| fr_publish_lane: "covers_sequence (accepted_hlc w) p \<Longrightarrow> covers_sequence (accepted_hlc (lane_watermark w lane)) p \<Longrightarrow>
    frontier_step w (advance_visible_and_emitted_on_lane lane p w)"
| fr_publish_all: "covers_sequence (accepted_hlc w) p \<Longrightarrow> frontier_step w (advance_visible_and_emitted p w)"
| fr_apply_all: "covers_sequence (visible_hlc w) p \<Longrightarrow> covers_sequence p (applied_hlc w) \<Longrightarrow>
    frontier_step w (set_applied p w)"
| fr_apply_lane: "covers_sequence (visible_hlc (lane_watermark w lane)) p \<Longrightarrow>
    covers_sequence p (applied_hlc (lane_watermark w lane)) \<Longrightarrow> frontier_step w (set_applied_on_lane lane p w)"

definition lane_ok :: "HlcPoint \<Rightarrow> lane_watermarks \<Rightarrow> bool" where
  "lane_ok d l \<longleftrightarrow> marks_ok l \<and> covers_sequence d (durable_hlc l)"

lemma lane_ok_default [simp]: "lane_ok d lane_default"
  by (simp add: lane_ok_def marks_ok_def lane_default_def)

lemma frontier_okI:
  "marks_ok w \<Longrightarrow> \<forall>(lane, l) \<in> set (lanes w). lane_ok (durable_hlc w) l \<Longrightarrow> frontier_ok w"
  by (auto simp: frontier_ok_def lane_ok_def)

lemma frontier_ok_lane: "frontier_ok w \<Longrightarrow> lane_ok (durable_hlc w) (lane_watermark w lane)"
  by (rule lane_watermark_all) (simp_all add: frontier_ok_def flip: lane_ok_def)

lemma frontier_ok_mut:
  assumes "frontier_ok w" and "marks_ok w'" and "lanes w' = lanes w" and "durable_hlc w' = durable_hlc w"
    and "lane_ok (durable_hlc w) (f (lane_watermark w lane))"
  shows "frontier_ok (lane_watermark_mut lane f w')"
proof -
  have marks: "marks_ok (lane_watermark_mut lane f w')" using assms(2) by (simp add: marks_ok_def)
  have lane: "lane_watermark w' lane = lane_watermark w lane" using assms(3) by (simp add: lane_watermark_def)
  have "\<forall>(lane', l) \<in> set (lanes (lane_watermark_mut lane f w')). lane_ok (durable_hlc w) l"
  proof (rule lane_mut_all)
    show "\<forall>(lane', l) \<in> set (lanes w'). lane_ok (durable_hlc w) l"
      using assms(1,3) by (simp add: frontier_ok_def lane_ok_def)
    show "lane_ok (durable_hlc w) (f (lane_watermark w' lane))" using assms(5) lane by simp
  qed
  with marks assms(4) show ?thesis by (intro frontier_okI) simp_all
qed

lemma not_covers: "\<not> covers_sequence p q \<Longrightarrow> covers_sequence q p"
  by (auto simp: covers_sequence_def)

lemma lane_durability_ok:
  "lane_ok d l \<Longrightarrow> covers_sequence d' d \<Longrightarrow>
   lane_ok d' (if covers_sequence d' (written_hlc l)
     then l\<lparr>durable_hlc := max_by_sequence (durable_hlc l) (written_hlc l)\<rparr> else l)"
  by (auto simp: lane_ok_def marks_ok_def covers_sequence_def)

lemma advance_durable_ok:
  assumes "frontier_ok w" and "covers_sequence (written_hlc w) p"
  shows "frontier_ok (advance_durable p w)"
proof -
  let ?w = "w\<lparr>durable_hlc := max_by_sequence (durable_hlc w) p\<rparr>"
  let ?w1 = "advance_lane_durability_to_physical ?w"
  have "lane_ok (durable_hlc ?w) l" if "(lane, l) \<in> set (lanes ?w1)" for lane l
  proof -
    from that obtain k where "(lane, k) \<in> set (lanes w)"
      and l: "l = (if covers_sequence (durable_hlc ?w) (written_hlc k)
        then k\<lparr>durable_hlc := max_by_sequence (durable_hlc k) (written_hlc k)\<rparr> else k)"
      by (auto simp: advance_lane_durability_to_physical_def)
    then have "lane_ok (durable_hlc w) k" using assms(1) by (auto simp: frontier_ok_def lane_ok_def)
    then show ?thesis unfolding l by (rule lane_durability_ok) (simp add: covers_simps)
  qed
  then have "frontier_ok ?w1"
    using assms by (intro frontier_okI) (auto simp: frontier_ok_def marks_ok_def covers_simps)
  then show ?thesis
    by (auto simp: advance_durable_def Let_def frontier_ok_def marks_ok_def)
qed

lemma frontier_step_ok: "frontier_step w w' \<Longrightarrow> frontier_ok w \<Longrightarrow> frontier_ok w'"
proof (induction rule: frontier_step.induct)
  case (fr_accept w now lane p)
  have "marks_ok w1 \<and> lanes w1 = lanes w \<and> durable_hlc w1 = durable_hlc w"
    if "w1 = (if \<not> covers_sequence (accepted_hlc w) p then (let w' = w\<lparr>accepted_hlc := p\<rparr> in
        if pending_write_start_mono_ns w' = None then w'\<lparr>pending_write_start_mono_ns := Some now\<rparr> else w') else w)" for w1
    using that fr_accept.prems not_covers [of "accepted_hlc w" p]
    by (auto simp: frontier_ok_def marks_ok_def Let_def intro: covers_trans)
  then show ?case
    unfolding advance_accepted_on_lane_def Let_def
    using fr_accept.prems frontier_ok_lane [OF fr_accept.prems, of lane]
    by (intro frontier_ok_mut [of w]) (auto simp: lane_ok_def marks_ok_def covers_simps Let_def)
next
  case (fr_write w p lane)
  then show ?case
    unfolding advance_written_on_lane_def
    using frontier_ok_lane [OF fr_write.prems, of lane]
    by (intro frontier_ok_mut [of w]) (auto simp: frontier_ok_def lane_ok_def marks_ok_def covers_simps)
next
  case (fr_durable w p)
  then show ?case by (rule advance_durable_ok [rotated])
next
  case (fr_publish_lane w p lane)
  have "frontier_ok (lane_watermark_mut lane (\<lambda>l. l\<lparr>visible_hlc := max_by_sequence (visible_hlc l) p,
      emitted_hlc := max_by_sequence (emitted_hlc l) p\<rparr>)
      (w\<lparr>visible_hlc := max_by_sequence (visible_hlc w) p, emitted_hlc := max_by_sequence (emitted_hlc w) p\<rparr>))"
    using fr_publish_lane frontier_ok_lane [OF fr_publish_lane.prems, of lane]
    by (intro frontier_ok_mut [of w]) (auto simp: frontier_ok_def lane_ok_def marks_ok_def covers_simps)
  moreover have "advance_visible_and_emitted_on_lane lane p w = lane_watermark_mut lane
      (\<lambda>l. l\<lparr>visible_hlc := max_by_sequence (visible_hlc l) p, emitted_hlc := max_by_sequence (emitted_hlc l) p\<rparr>)
      (w\<lparr>visible_hlc := max_by_sequence (visible_hlc w) p, emitted_hlc := max_by_sequence (emitted_hlc w) p\<rparr>)"
    by (simp add: advance_visible_and_emitted_on_lane_def advance_visible_on_lane_def
        advance_emitted_on_lane_def lane_watermark_mut_def bt_update_update)
  ultimately show ?case by simp
next
  case (fr_publish_all w p)
  then show ?case
    by (intro frontier_okI)
      (auto simp: advance_visible_and_emitted_def frontier_ok_def marks_ok_def covers_simps lane_ok_def)
next
  case (fr_apply_all w p)
  then show ?case
    by (intro frontier_okI) (auto simp: set_applied_def frontier_ok_def marks_ok_def lane_ok_def)
next
  case (fr_apply_lane w lane p)
  then show ?case
    unfolding set_applied_on_lane_def
    using frontier_ok_lane [OF fr_apply_lane.prems, of lane]
    by (intro frontier_ok_mut [of w]) (auto simp: frontier_ok_def lane_ok_def marks_ok_def)
qed

text \<open>Watermarks only move forward: every kind, on the store and on each lane.\<close>

definition marks_le :: "'a watermarks_scheme \<Rightarrow> 'a watermarks_scheme \<Rightarrow> bool" where
  "marks_le m m' \<longleftrightarrow> (\<forall>kind. covers_sequence (current kind m') (current kind m))"

lemma all_kinds: "(\<forall>kind. P kind) \<longleftrightarrow> P Accepted \<and> P Written \<and> P Durable \<and> P Visible \<and> P Applied \<and> P Emitted"
  by (metis WatermarkKind.exhaust)

lemma marks_le_iff:
  "marks_le m m' \<longleftrightarrow> covers_sequence (accepted_hlc m') (accepted_hlc m) \<and>
     covers_sequence (written_hlc m') (written_hlc m) \<and> covers_sequence (durable_hlc m') (durable_hlc m) \<and>
     covers_sequence (visible_hlc m') (visible_hlc m) \<and> covers_sequence (applied_hlc m') (applied_hlc m) \<and>
     covers_sequence (emitted_hlc m') (emitted_hlc m)"
  by (simp add: marks_le_def all_kinds)

definition frontier_le :: "watermark_state \<Rightarrow> watermark_state \<Rightarrow> bool" where
  "frontier_le w w' \<longleftrightarrow> marks_le w w' \<and> (\<forall>lane. marks_le (lane_watermark w lane) (lane_watermark w' lane))"

lemma frontier_le_refl [simp]: "frontier_le w w"
  by (simp add: frontier_le_def marks_le_iff)

lemma frontier_le_trans: "frontier_le w w' \<Longrightarrow> frontier_le w' w'' \<Longrightarrow> frontier_le w w''"
  unfolding frontier_le_def marks_le_def by (meson covers_trans)

lemmas advance_defs = advance_accepted_on_lane_def advance_written_on_lane_def advance_durable_def
  advance_visible_and_emitted_on_lane_def advance_visible_on_lane_def advance_emitted_on_lane_def
  advance_visible_and_emitted_def set_applied_def set_applied_on_lane_def

lemma frontier_step_le: "frontier_step w w' \<Longrightarrow> frontier_le w w'"
proof (induction rule: frontier_step.induct)
  case (fr_accept w now lane p)
  then show ?case
    using not_covers [of "accepted_hlc w" p]
    by (auto simp: frontier_le_def marks_le_iff advance_defs covers_simps Let_def)
qed (auto simp: frontier_le_def marks_le_iff advance_defs covers_simps Let_def)

lemma frontier_run:
  "frontier_step\<^sup>*\<^sup>* w w' \<Longrightarrow> frontier_ok w \<Longrightarrow> frontier_ok w' \<and> frontier_le w w'"
  by (induction rule: rtranclp_induct) (auto intro: frontier_step_ok frontier_step_le frontier_le_trans)

section \<open>Bootstrap\<close>

lemma fold_raise_lanes:
  "bt_get (fold (\<lambda>(lane, point). bt_update lane ORIGIN (\<lambda>d. max_by_sequence d point)) visibles durables) l =
    (if l \<in> fst ` set visibles \<or> bt_get durables l \<noteq> None
     then Some (fold (\<lambda>(lane, point) d. if lane = l then max_by_sequence d point else d) visibles
       (case bt_get durables l of None \<Rightarrow> ORIGIN | Some d \<Rightarrow> d)) else None)"
proof (induction visibles arbitrary: durables)
  case (Cons x visibles)
  obtain lane p where x: "x = (lane, p)" by (cases x)
  show ?case using Cons.IH [of "bt_update lane ORIGIN (\<lambda>d. max_by_sequence d p) durables"]
    by (auto simp: x)
qed (auto split: option.splits)

lemma fold_raise_above:
  "covers_sequence (fold (\<lambda>(lane, point) d. if lane = l then max_by_sequence d point else d) xs d) d"
proof (induction xs arbitrary: d)
  case (Cons x xs)
  then show ?case
    using Cons.IH [of "max_by_sequence d (snd x)"]
    by (cases x) (auto simp: covers_simps intro: covers_trans)
qed simp

lemma fold_raise_member:
  "(l, p) \<in> set xs \<Longrightarrow>
     covers_sequence (fold (\<lambda>(lane, point) d. if lane = l then max_by_sequence d point else d) xs d) p"
proof (induction xs arbitrary: d)
  case (Cons x xs)
  then show ?case
    using fold_raise_above [of l xs "max_by_sequence d p"]
    by (cases x) (auto simp: covers_simps intro: covers_trans)
qed simp

lemma fold_raise_below:
  "\<forall>(lane, p) \<in> set xs. covers_sequence g p \<Longrightarrow> covers_sequence g d \<Longrightarrow>
     covers_sequence g (fold (\<lambda>(lane, point) d. if lane = l then max_by_sequence d point else d) xs d)"
  by (induction xs arbitrary: d) (auto simp: covers_simps)

lemma fold_update_wf:
  "bt_wf m \<Longrightarrow> bt_wf (fold (\<lambda>(lane, point). bt_update lane ORIGIN (\<lambda>d. max_by_sequence d point)) xs m)"
  by (induction xs arbitrary: m) (auto simp: split_beta)

lemma bt_collect_set: "set (bt_collect xs) \<subseteq> set xs"
proof -
  have "set (fold (\<lambda>(k, v). bt_insert k v) xs m) \<subseteq> set xs \<union> set m" for m
  proof (induction xs arbitrary: m)
    case (Cons x xs)
    from Cons.IH [of "bt_insert (fst x) (snd x) m"] set_bt_insert [of "fst x" "snd x" m] show ?case
      by (auto simp: split_beta)
  qed simp
  from this [of "[]"] show ?thesis by (simp add: bt_collect_def)
qed

lemma bt_collect_wf: "bt_wf (bt_collect xs)"
proof -
  have "bt_wf m \<Longrightarrow> bt_wf (fold (\<lambda>(k, v). bt_insert k v) xs m)" for m
    by (induction xs arbitrary: m) (auto simp: split_beta)
  then show ?thesis by (simp add: bt_collect_def)
qed

lemma fold_insert_map:
  assumes "bt_wf m"
  shows "fold (\<lambda>(k, v). bt_insert k (f k v)) m [] = map (\<lambda>(k, v). (k, f k v)) m"
proof -
  have "fold (\<lambda>(k, v). bt_insert k v) (map (\<lambda>(k, v). (k, f k v)) m) [] = map (\<lambda>(k, v). (k, f k v)) m"
    using assms fold_bt_insert_sorted [of "[]" "map (\<lambda>(k, v). (k, f k v)) m"]
    by (simp add: bt_wf_def comp_def split_beta)
  then show ?thesis by (simp add: fold_map comp_def case_prod_unfold)
qed

lemma split_ok:
  "covers_sequence d v \<Longrightarrow> covers_sequence g d \<Longrightarrow> lane_ok g (for_bootstrap_split d v)"
  by (simp add: lane_ok_def marks_ok_def for_bootstrap_split_def)

lemma state_new_ok: "frontier_ok state_new"
  by (simp add: frontier_ok_def marks_ok_def state_new_def)

section \<open>Waiting\<close>

lemma wait_loop_ok:
  "wait_loop read k p timeout turns = Some (Inr ()) \<Longrightarrow>
     \<exists>t \<in> set turns. \<not> wk_poison t \<and> covers_sequence (read (wk_state t)) p"
  by (induction turns) (auto split: if_splits)

lemma wait_loop_err:
  "wait_loop read k p timeout turns = Some (Inl e) \<Longrightarrow>
     \<exists>t \<in> set turns. (wk_poison t \<and> e = WriterCrashed) \<or>
       (\<not> wk_poison t \<and> \<not> covers_sequence (read (wk_state t)) p \<and> timeout \<le> wk_elapsed t \<and>
        e = WaitTimeout k p (timeout_ms timeout))"
  by (induction turns) (auto split: if_splits)

lemma wait_loop_returns:
  "t \<in> set turns \<Longrightarrow> wk_poison t \<or> covers_sequence (read (wk_state t)) p \<or> timeout \<le> wk_elapsed t \<Longrightarrow>
     wait_loop read k p timeout turns \<noteq> None"
  by (induction turns) auto

lemma current_snapshot [simp]: "current k (state_snapshot now w) = current k w"
  by (cases k) (simp_all add: state_snapshot_def)

section \<open>The registry\<close>

lemma raise_entry_set:
  "set (raise_entry k d p m) \<subseteq> insert (k, max_by_sequence (case map_of m k of None \<Rightarrow> d | Some x \<Rightarrow> x) p) (set m)"
  unfolding raise_entry_def by (induction m) auto

lemma raise_entry_nonempty [simp]: "raise_entry k d p m \<noteq> []"
  by (cases m) (auto simp: raise_entry_def)

lemma raise_entry_mem:
  "(k, max_by_sequence (case map_of m k of None \<Rightarrow> d | Some x \<Rightarrow> x) p) \<in> set (raise_entry k d p m)"
  using map_of_SomeD [of "raise_entry k d p m" k] by (simp add: raise_entry_def update_conv)

lemma fold_min_covers:
  "covers_sequence (fold (\<lambda>q acc. min_by_sequence acc q) ps p) r \<longleftrightarrow> (\<forall>q \<in> insert p (set ps). covers_sequence q r)"
  by (induction ps arbitrary: p) (auto simp: covers_simps)

lemma reduce_min_lower: "reduce_min ps = Some m \<Longrightarrow> q \<in> set ps \<Longrightarrow> covers_sequence q m"
  using fold_min_covers [of "tl ps" "hd ps" m] by (cases ps) auto

lemma reduce_min_greatest: "reduce_min ps = Some m \<Longrightarrow> (\<And>q. q \<in> set ps \<Longrightarrow> covers_sequence q r) \<Longrightarrow> covers_sequence m r"
  using fold_min_covers [of "tl ps" "hd ps" r] by (cases ps) auto

lemma reduce_min_upper: "reduce_min ps = Some m \<Longrightarrow> q \<in> set ps \<Longrightarrow> covers_sequence r q \<Longrightarrow> covers_sequence r m"
  using reduce_min_lower covers_trans by blast

lemma view_lane_get:
  "map_option applied_hlc (view_lane (snapshot_view now w) lane) = map_option applied_hlc (bt_get (lanes w) lane)"
proof -
  have "find (\<lambda>view. lv_lane view = lane) (map (\<lambda>(lane, l). lane_view lane l) ls) =
      map_option (lane_view lane) (map_of ls lane)" for ls
    by (induction ls) (auto simp: lane_view_def)
  then show ?thesis
    by (simp add: view_lane_def snapshot_view_def lane_views_def option.map_comp comp_def lane_view_def)
qed

definition registry_inv :: "projection_registry \<Rightarrow> watermark_state \<Rightarrow> bool" where
  "registry_inv r w \<longleftrightarrow>
     (\<forall>(i, p) \<in> set (progress r). covers_sequence p (applied_hlc w) \<and> covers_sequence (visible_hlc w) p) \<and>
     (\<forall>((i, l), p) \<in> set (lane_progress r). covers_sequence p (applied_hlc (lane_watermark w l)) \<and>
        covers_sequence (visible_hlc (lane_watermark w l)) p)"

lemma notify_unfold:
  assumes "notify_applied_on_lane i lane p (r, w) = (r', w')"
  obtains m m' where
    "r' = \<lparr>progress = raise_entry i (applied_hlc w) p (progress r),
           lane_progress = raise_entry (i, lane) (applied_hlc (lane_watermark w lane)) p (lane_progress r)\<rparr>"
    and "reduce_min (map snd (progress r')) = Some m"
    and "reduce_min (map snd (filter (\<lambda>((_, l), _). l = lane) (lane_progress r'))) = Some m'"
    and "w' = set_applied_on_lane lane m' (set_applied m w)"
proof -
  let ?r = "\<lparr>progress = raise_entry i (applied_hlc w) p (progress r),
           lane_progress = raise_entry (i, lane) (applied_hlc (lane_watermark w lane)) p (lane_progress r)\<rparr>"
  have applied: "(case map_option applied_hlc (bt_get (lanes w) lane) of None \<Rightarrow> ORIGIN | Some p \<Rightarrow> p) =
      applied_hlc (lane_watermark w lane)"
    by (simp add: lane_watermark_def lane_default_def split: option.split)
  have eq: "(r', w') = (?r, recompute_lane_locked ?r lane (recompute_locked ?r w))"
    using assms unfolding notify_applied_on_lane_def Let_def view_lane_get prod.case applied
    by (auto simp: snapshot_view_def)
  have some: "\<exists>m. reduce_min ps = Some m" if "ps \<noteq> []" for ps using that by (cases ps) simp_all
  have "filter (\<lambda>((_, l), _). l = lane) (lane_progress ?r) \<noteq> []"
    using raise_entry_mem [where k = "(i, lane)" and m = "lane_progress r"
        and d = "applied_hlc (lane_watermark w lane)" and p = p]
    by (auto simp: filter_empty_conv)
  then obtain m' where "reduce_min (map snd (filter (\<lambda>((_, l), _). l = lane) (lane_progress ?r))) = Some m'"
    using some by blast
  moreover obtain m where "reduce_min (map snd (progress ?r)) = Some m"
    using some [of "map snd (progress ?r)"] by auto
  ultimately show thesis
    using eq by (intro that [of m m']) (auto simp: recompute_lane_locked_def recompute_locked_def)
qed

lemma raise_entry_inv:
  assumes "\<forall>(j, x) \<in> set m. covers_sequence x a \<and> covers_sequence v x"
    and "covers_sequence v a" and "covers_sequence v p" and "(j, x) \<in> set (raise_entry i a p m)"
  shows "covers_sequence x a \<and> covers_sequence v x"
proof -
  have "covers_sequence y a \<and> covers_sequence v y" if "y = (case map_of m i of None \<Rightarrow> a | Some y \<Rightarrow> y)" for y
    using that assms(1,2) by (auto split: option.splits dest: map_of_SomeD)
  then show ?thesis
    using assms raise_entry_set [of i a p m] by (fastforce simp: covers_simps)
qed

lemma raise_lane_entry_inv:
  assumes "\<forall>((j, l), x) \<in> set m. covers_sequence x (a l) \<and> covers_sequence (v l) x"
    and "covers_sequence (v lane) (a lane)" and "covers_sequence (v lane) p"
    and "((j, l), x) \<in> set (raise_entry (i, lane) (a lane) p m)"
  shows "covers_sequence x (a l) \<and> covers_sequence (v l) x"
proof -
  have "covers_sequence y (a lane) \<and> covers_sequence (v lane) y"
    if "y = (case map_of m (i, lane) of None \<Rightarrow> a lane | Some y \<Rightarrow> y)" for y
    using that assms(1,2) by (auto split: option.splits dest: map_of_SomeD)
  then show ?thesis
    using assms raise_entry_set [of "(i, lane)" "a lane" p m] by (fastforce simp: covers_simps)
qed

section \<open>Properties\<close>

text \<open>
  C19. The frontier keeps its order. Callers that follow the protocol (written after
  accepted, durable after written, visible after accepted, applied after visible) take a
  state that satisfies the ordering assertions only to states that satisfy them, on the
  store and on every lane, and no watermark of any kind ever moves back.
\<close>

theorem frontier_protocol_safe:
  assumes "frontier_ok w" and "frontier_step\<^sup>*\<^sup>* w w'"
  shows "frontier_ok w' \<and> covers_sequence (current kind w') (current kind w) \<and>
    covers_sequence (current kind (lane_watermark w' lane)) (current kind (lane_watermark w lane))"
  using frontier_run [OF assms(2,1)] by (simp add: frontier_le_def marks_le_def)

theorem frontier_protocol_safe_witness:
  "frontier_ok (advance_written_on_lane 3 (HlcPoint 5 1) (advance_accepted_on_lane 0 3 (HlcPoint 5 1) state_new))"
proof -
  let ?w = "advance_accepted_on_lane 0 3 (HlcPoint 5 1) state_new"
  have "frontier_step state_new ?w" by (rule fr_accept)
  moreover have "frontier_step ?w (advance_written_on_lane 3 (HlcPoint 5 1) ?w)"
    by (rule fr_write) (simp_all add: advance_defs state_new_def covers_sequence_def ORIGIN_def)
  ultimately have "frontier_step\<^sup>*\<^sup>* state_new (advance_written_on_lane 3 (HlcPoint 5 1) ?w)"
    by (meson r_into_rtranclp rtranclp_trans)
  then show ?thesis using frontier_protocol_safe [OF state_new_ok] by blast
qed

text \<open>
  Opening a store sets the frontier so that the ordering assertions hold, for any
  lists of lane points, when the recovered visible point and all lane points are covered by
  the recovered durable point: a lane that appears only among the visible points, or whose
  durable point lags its visible one, is raised to it.
\<close>

theorem bootstrap_frontier_ok:
  assumes "covers_sequence gd gv"
    and dp: "\<forall>(lane, p) \<in> set durable_points. covers_sequence gd p"
    and vp: "\<forall>(lane, p) \<in> set visible_points. covers_sequence gd p"
  shows "frontier_ok (reset_to_bootstrap_lanes gd gv durable_points visible_points w)"
proof -
  let ?d = "bt_collect durable_points" and ?v = "bt_collect visible_points"
  let ?d' = "fold (\<lambda>(lane, point). bt_update lane ORIGIN (\<lambda>d. max_by_sequence d point)) ?v ?d"
  let ?vis = "\<lambda>lane. case bt_get ?v lane of None \<Rightarrow> ORIGIN | Some p \<Rightarrow> p"
  have wf: "bt_wf ?d'" by (intro fold_update_wf bt_collect_wf)
  have ok: "lane_ok gd (for_bootstrap_split d (?vis lane))" if "(lane, d) \<in> set ?d'" for lane d
  proof (rule split_ok)
    have get: "bt_get ?d' lane = Some d" using that wf by (simp add: bt_wf_distinct)
    then have d: "d = fold (\<lambda>(lane', point) d. if lane' = lane then max_by_sequence d point else d) ?v
        (case bt_get ?d lane of None \<Rightarrow> ORIGIN | Some d \<Rightarrow> d)"
      by (simp add: fold_raise_lanes split: if_splits)
    show "covers_sequence d (?vis lane)"
      unfolding d by (auto intro: fold_raise_member dest: map_of_SomeD split: option.split)
    show "covers_sequence gd d"
      unfolding d using dp vp bt_collect_set [of durable_points] bt_collect_set [of visible_points]
      by (intro fold_raise_below) (fastforce dest: map_of_SomeD split: option.split)+
  qed
  have built: "fold (\<lambda>(lane, d). bt_insert lane (for_bootstrap_split d (?vis lane))) ?d' [] =
      map (\<lambda>(lane, d). (lane, for_bootstrap_split d (?vis lane))) ?d'"
    using fold_insert_map [OF wf, of "\<lambda>lane d. for_bootstrap_split d (?vis lane)"] by simp
  have origin: "lane_ok gd (lane_for_bootstrap ORIGIN)"
    by (simp add: lane_ok_def marks_ok_def lane_for_bootstrap_def)
  show ?thesis
    unfolding reset_to_bootstrap_lanes_def Let_def built
    using assms(1) ok origin by (intro frontier_okI) (auto simp: marks_ok_def)
qed

theorem bootstrap_frontier_ok_witness:
  "frontier_ok (reset_to_bootstrap_lanes (HlcPoint 9 4) (HlcPoint 9 3) [(1, HlcPoint 9 2)]
     [(1, HlcPoint 9 3), (2, HlcPoint 8 1)] state_new)"
  by (rule bootstrap_frontier_ok) (simp_all add: covers_sequence_def)



text \<open>
  The applied watermark is the minimum over the projections. A projection's report on a
  lane, for a point that is visible there, leaves the ordering assertions true, never moves
  the applied watermark of the store or of a lane back, and keeps it at or below the
  progress of every registered projection.
\<close>

theorem applied_is_projection_minimum:
  assumes ok: "frontier_ok w" and inv: "registry_inv r w"
    and vis: "covers_sequence (visible_hlc w) p" "covers_sequence (visible_hlc (lane_watermark w lane)) p"
    and notify: "notify_applied_on_lane i lane p (r, w) = (r', w')"
  shows "frontier_ok w' \<and> registry_inv r' w' \<and>
    covers_sequence (applied_hlc w') (applied_hlc w) \<and>
    covers_sequence (applied_hlc (lane_watermark w' l)) (applied_hlc (lane_watermark w l)) \<and>
    reduce_min (map snd (progress r')) = Some (applied_hlc w')"
proof -
  from notify obtain m m' where r': "r' = \<lparr>progress = raise_entry i (applied_hlc w) p (progress r),
           lane_progress = raise_entry (i, lane) (applied_hlc (lane_watermark w lane)) p (lane_progress r)\<rparr>"
    and m: "reduce_min (map snd (progress r')) = Some m"
    and m': "reduce_min (map snd (filter (\<lambda>((_, l), _). l = lane) (lane_progress r'))) = Some m'"
    and w': "w' = set_applied_on_lane lane m' (set_applied m w)" by (rule notify_unfold)
  have va: "covers_sequence (visible_hlc w) (applied_hlc w)"
    and val: "covers_sequence (visible_hlc (lane_watermark w lane)) (applied_hlc (lane_watermark w lane))"
    using ok frontier_ok_lane [OF ok, of lane] by (simp_all add: frontier_ok_def lane_ok_def marks_ok_def)
  have ent: "covers_sequence x (applied_hlc w) \<and> covers_sequence (visible_hlc w) x"
    if "(j, x) \<in> set (progress r')" for j x
    using that inv raise_entry_inv [of "progress r", OF _ va vis(1), of j x i]
    unfolding r' registry_inv_def by simp
  have lent: "covers_sequence x (applied_hlc (lane_watermark w l)) \<and> covers_sequence (visible_hlc (lane_watermark w l)) x"
    if "((j, l), x) \<in> set (lane_progress r')" for j l x
  proof (rule raise_lane_entry_inv [where a = "\<lambda>l. applied_hlc (lane_watermark w l)"
        and v = "\<lambda>l. visible_hlc (lane_watermark w l)", OF _ val vis(2)])
    show "\<forall>((j, l), x) \<in> set (lane_progress r). covers_sequence x (applied_hlc (lane_watermark w l)) \<and>
        covers_sequence (visible_hlc (lane_watermark w l)) x"
      using inv unfolding registry_inv_def by blast
    show "((j, l), x) \<in> set (raise_entry (i, lane) (applied_hlc (lane_watermark w lane)) p (lane_progress r))"
      using that unfolding r' by simp
  qed
  have "progress r' \<noteq> []" by (simp add: r')
  then obtain j x where jx: "(j, x) \<in> set (progress r')" by (cases "progress r'") auto
  have up: "covers_sequence m (applied_hlc w)" "covers_sequence (visible_hlc w) m"
    using ent jx
    by (auto intro!: reduce_min_greatest [OF m]) (rule reduce_min_upper [OF m, of x], force, blast)
  have "((i, lane), max_by_sequence (case map_of (lane_progress r) (i, lane) of
      None \<Rightarrow> applied_hlc (lane_watermark w lane) | Some x \<Rightarrow> x) p) \<in> set (lane_progress r')"
    unfolding r' by (simp add: raise_entry_mem)
  then obtain y where y: "((i, lane), y) \<in> set (lane_progress r')" by blast
  have upl: "covers_sequence m' (applied_hlc (lane_watermark w lane))" "covers_sequence (visible_hlc (lane_watermark w lane)) m'"
    using lent y
    by (auto intro!: reduce_min_greatest [OF m']) (rule reduce_min_upper [OF m', of y], force, blast)
  have "frontier_step w (set_applied m w)" using up by (intro fr_apply_all)
  moreover have "frontier_step (set_applied m w) w'"
    unfolding w' using upl by (intro fr_apply_lane) (simp_all add: set_applied_def)
  ultimately have run: "frontier_step\<^sup>*\<^sup>* w w'" by (meson r_into_rtranclp rtranclp_trans)
  have "registry_inv r' w'"
    unfolding registry_inv_def w' set_applied_on_lane_def set_applied_def
    using ent lent reduce_min_lower [OF m] reduce_min_lower [OF m'] by (force simp: image_iff)
  with frontier_run [OF run ok] m show ?thesis
    by (simp add: frontier_le_def marks_le_iff w' set_applied_on_lane_def set_applied_def)
qed

theorem applied_is_projection_minimum_witness:
  "\<exists>r' w'. notify_applied_on_lane ''p'' 1 (HlcPoint 5 1) (\<lparr>progress = [], lane_progress = []\<rparr>,
      advance_visible_and_emitted_on_lane 1 (HlcPoint 5 1) (advance_accepted_on_lane 0 1 (HlcPoint 5 1) state_new)) =
      (r', w') \<and> frontier_ok w'"
proof -
  let ?v = "advance_accepted_on_lane 0 1 (HlcPoint 5 1) state_new"
  let ?w = "advance_visible_and_emitted_on_lane 1 (HlcPoint 5 1) ?v"
  have ok0: "frontier_ok ?v" by (rule frontier_step_ok [OF fr_accept state_new_ok])
  have "frontier_step ?v ?w"
    by (rule fr_publish_lane) (simp_all add: advance_defs state_new_def covers_sequence_def ORIGIN_def)
  then have ok: "frontier_ok ?w" using ok0 by (rule frontier_step_ok)
  have inv: "registry_inv \<lparr>progress = [], lane_progress = []\<rparr> ?w" by (simp add: registry_inv_def)
  have vis: "covers_sequence (visible_hlc ?w) (HlcPoint 5 1)"
    "covers_sequence (visible_hlc (lane_watermark ?w 1)) (HlcPoint 5 1)"
    by (simp_all add: advance_defs covers_simps)
  obtain r' w' where n: "notify_applied_on_lane ''p'' 1 (HlcPoint 5 1) (\<lparr>progress = [], lane_progress = []\<rparr>, ?w) = (r', w')"
    by fastforce
  with applied_is_projection_minimum [OF ok inv vis n] show ?thesis by blast
qed

end
