(* ===== verification/Columnar.thy ===== *)
theory Columnar
  imports Events "HOL-Library.List_Lexorder" "HOL-Library.Char_ord" "HOL-Library.Multiset"
begin

text \<open>
  The scan index (\<^verbatim>\<open>store/index/columnar.rs\<close> and \<^verbatim>\<open>columnar/\<close>): three column layouts of the
  index entries and the base maps, any of which may answer a query by kind, category or scope,
  and the routing between them. Hash maps are ordered maps: their iteration order is not
  observable, since every answer is sorted by sequence number. A hash set is a list without
  repetitions. The locks around the layouts are left out; the index is used under them.
\<close>

section \<open>Keys\<close>

instantiation EventKind :: linorder
begin

definition less_eq_EventKind :: "EventKind \<Rightarrow> EventKind \<Rightarrow> bool" where
  "k \<le> k' \<longleftrightarrow> as_raw_u16 k \<le> as_raw_u16 k'"

definition less_EventKind :: "EventKind \<Rightarrow> EventKind \<Rightarrow> bool" where
  "k < k' \<longleftrightarrow> as_raw_u16 k < as_raw_u16 k'"

instance
  by standard (auto simp: less_eq_EventKind_def less_EventKind_def intro: EventKind.expand)

end

definition clock_key :: "index_entry \<Rightarrow> ClockKey" where
  "clock_key e = ClockKey (ie_wall_ms e) (ie_clock e) (ie_event_id e)"

abbreviation entity_of :: "index_entry \<Rightarrow> string" where
  "entity_of e \<equiv> coord_entity (ie_coord e)"

abbreviation scope_of :: "index_entry \<Rightarrow> string" where
  "scope_of e \<equiv> coord_scope (ie_coord e)"

type_synonym scope_map = "(string, string list) btree"

definition note_scope :: "scope_map \<Rightarrow> index_entry \<Rightarrow> scope_map" where
  "note_scope m e = bt_update (scope_of e) [] (List.insert (entity_of e)) m"

datatype EntryQuery = KindQuery EventKind | CategoryQuery u8 | ScopeQuery string

section \<open>Structure of arrays\<close>

record soa =
  soa_kinds :: "EventKind list"
  soa_entries :: "index_entry list"
  soa_scope_entities :: scope_map

definition soa_new :: soa where
  "soa_new = \<lparr>soa_kinds = [], soa_entries = [], soa_scope_entities = []\<rparr>"

definition soa_push :: "soa \<Rightarrow> index_entry \<Rightarrow> soa" where
  "soa_push s e = \<lparr>soa_kinds = soa_kinds s @ [ie_kind e], soa_entries = soa_entries s @ [e],
     soa_scope_entities = note_scope (soa_scope_entities s) e\<rparr>"

definition soa_from_entries :: "index_entry list \<Rightarrow> soa" where
  "soa_from_entries es =
     \<lparr>soa_kinds = map ie_kind es, soa_entries = es, soa_scope_entities = foldl note_scope [] es\<rparr>"

definition soa_hits_entries :: "soa \<Rightarrow> (EventKind \<Rightarrow> bool) \<Rightarrow> query_hit list" where
  "soa_hits_entries s P =
     map (\<lambda>(_, e). query_hit_from_entry e) (filter (\<lambda>(kind, _). P kind) (zip (soa_kinds s) (soa_entries s)))"

definition soa_hits_by_scope :: "soa \<Rightarrow> string \<Rightarrow> query_hit list" where
  "soa_hits_by_scope s scope =
     (case bt_get (soa_scope_entities s) scope of
        None \<Rightarrow> []
      | Some entities \<Rightarrow> map query_hit_from_entry (filter (\<lambda>e. entity_of e \<in> set entities) (soa_entries s)))"

definition soa_candidates :: "soa \<Rightarrow> EntryQuery \<Rightarrow> query_hit list" where
  "soa_candidates s q =
     (case q of
        KindQuery k \<Rightarrow> soa_hits_entries s (\<lambda>kind. kind = k)
      | CategoryQuery c \<Rightarrow> soa_hits_entries s (\<lambda>kind. category kind = c)
      | ScopeQuery scope \<Rightarrow> soa_hits_by_scope s scope)"

section \<open>Tiles of one kind\<close>

record tile =
  tile_kinds :: "EventKind list"
  tile_entries :: "index_entry list"
  tile_len :: nat

definition tile_new :: tile where
  "tile_new = \<lparr>tile_kinds = [], tile_entries = [], tile_len = 0\<rparr>"

definition tile_is_full :: "nat \<Rightarrow> tile \<Rightarrow> bool" where
  "tile_is_full N t \<longleftrightarrow> tile_len t \<ge> N"

definition tile_push :: "tile \<Rightarrow> EventKind \<Rightarrow> index_entry \<Rightarrow> tile" where
  "tile_push t kind e =
     \<lparr>tile_kinds = tile_kinds t @ [kind], tile_entries = tile_entries t @ [e], tile_len = tile_len t + 1\<rparr>"

record aosoa =
  ao_tiles :: "tile list"
  ao_open_tiles :: "(EventKind, nat) btree"
  ao_scope_entities :: scope_map

definition aosoa_new :: aosoa where
  "aosoa_new = \<lparr>ao_tiles = [], ao_open_tiles = [], ao_scope_entities = []\<rparr>"

definition aosoa_push :: "nat \<Rightarrow> aosoa \<Rightarrow> index_entry \<Rightarrow> aosoa" where
  "aosoa_push N s e =
     (let kind = ie_kind e;
          s' = (case bt_get (ao_open_tiles s) kind of
             Some idx \<Rightarrow>
               let t = tile_push (ao_tiles s ! idx) kind e in
               s\<lparr>ao_tiles := (ao_tiles s)[idx := t],
                 ao_open_tiles := (if tile_is_full N t then bt_remove kind (ao_open_tiles s) else ao_open_tiles s)\<rparr>
           | None \<Rightarrow>
               let new_idx = length (ao_tiles s); t = tile_push tile_new kind e in
               s\<lparr>ao_tiles := ao_tiles s @ [t],
                 ao_open_tiles := (if \<not> tile_is_full N t then bt_insert kind new_idx (ao_open_tiles s) else ao_open_tiles s)\<rparr>) in
      s'\<lparr>ao_scope_entities := note_scope (ao_scope_entities s') e\<rparr>)"

definition aosoa_from_entries :: "nat \<Rightarrow> index_entry list \<Rightarrow> aosoa" where
  "aosoa_from_entries N es = foldl (aosoa_push N) aosoa_new es"

fun aosoa_hits_entries :: "tile list \<Rightarrow> (EventKind \<Rightarrow> bool) \<Rightarrow> query_hit list" where
  "aosoa_hits_entries [] P = []"
| "aosoa_hits_entries (t # ts) P =
     (if tile_len t = 0 then aosoa_hits_entries ts P
      else if \<not> P (tile_kinds t ! 0) then aosoa_hits_entries ts P
      else map query_hit_from_entry (take (tile_len t) (tile_entries t)) @ aosoa_hits_entries ts P)"

definition aosoa_hits_by_scope :: "aosoa \<Rightarrow> string \<Rightarrow> query_hit list" where
  "aosoa_hits_by_scope s scope =
     (case bt_get (ao_scope_entities s) scope of
        None \<Rightarrow> []
      | Some entities \<Rightarrow>
          concat (map (\<lambda>t. map query_hit_from_entry
            (filter (\<lambda>e. entity_of e \<in> set entities) (take (tile_len t) (tile_entries t)))) (ao_tiles s)))"

definition aosoa_candidates :: "aosoa \<Rightarrow> EntryQuery \<Rightarrow> query_hit list" where
  "aosoa_candidates s q =
     (case q of
        KindQuery k \<Rightarrow> aosoa_hits_entries (ao_tiles s) (\<lambda>kind. kind = k)
      | CategoryQuery c \<Rightarrow> aosoa_hits_entries (ao_tiles s) (\<lambda>kind. category kind = c)
      | ScopeQuery scope \<Rightarrow> aosoa_hits_by_scope s scope)"

section \<open>Groups per entity\<close>

text \<open>Rust's type identifiers, the keys of the cached projections, are natural numbers.\<close>

record cached_projection_slot =
  cp_bytes :: bytes
  cp_watermark :: u64
  cp_generation :: u64

record entity_group =
  eg_kinds :: "EventKind list"
  eg_entries :: "index_entry list"
  eg_generation :: u64
  eg_cached_projections :: "(nat, cached_projection_slot) btree"

record soaos =
  so_groups :: "(string, entity_group) btree"
  so_scope_entities :: scope_map

definition soaos_new :: soaos where
  "soaos_new = \<lparr>so_groups = [], so_scope_entities = []\<rparr>"

definition entity_group_new :: entity_group where
  "entity_group_new = \<lparr>eg_kinds = [], eg_entries = [], eg_generation = 0, eg_cached_projections = []\<rparr>"

definition soaos_push :: "soaos \<Rightarrow> index_entry \<Rightarrow> soaos" where
  "soaos_push s e =
     \<lparr>so_groups = bt_update (entity_of e) entity_group_new
        (\<lambda>g. g\<lparr>eg_kinds := eg_kinds g @ [ie_kind e], eg_entries := eg_entries g @ [e],
               eg_generation := saturating_add (eg_generation g) 1\<rparr>) (so_groups s),
      so_scope_entities = note_scope (so_scope_entities s) e\<rparr>"

definition group_hits :: "entity_group \<Rightarrow> (EventKind \<Rightarrow> bool) \<Rightarrow> query_hit list" where
  "group_hits g P =
     map (\<lambda>(i, _). query_hit_from_entry (eg_entries g ! i))
       (filter (\<lambda>(_, kind). P kind) (enumerate 0 (eg_kinds g)))"

definition soaos_hits_entries :: "soaos \<Rightarrow> (EventKind \<Rightarrow> bool) \<Rightarrow> query_hit list" where
  "soaos_hits_entries s P = concat (map (\<lambda>(_, g). group_hits g P) (so_groups s))"

definition soaos_hits_by_scope :: "soaos \<Rightarrow> string \<Rightarrow> query_hit list" where
  "soaos_hits_by_scope s scope =
     (case bt_get (so_scope_entities s) scope of
        None \<Rightarrow> []
      | Some entities \<Rightarrow>
          concat (map (\<lambda>entity. case bt_get (so_groups s) entity of
            None \<Rightarrow> [] | Some g \<Rightarrow> map query_hit_from_entry (eg_entries g)) entities))"

definition soaos_candidates :: "soaos \<Rightarrow> EntryQuery \<Rightarrow> query_hit list" where
  "soaos_candidates s q =
     (case q of
        KindQuery k \<Rightarrow> soaos_hits_entries s (\<lambda>kind. kind = k)
      | CategoryQuery c \<Rightarrow> soaos_hits_entries s (\<lambda>kind. category kind = c)
      | ScopeQuery scope \<Rightarrow> soaos_hits_by_scope s scope)"

definition projection_kind_matches :: "EventKind list \<Rightarrow> EventKind \<Rightarrow> bool" where
  "projection_kind_matches relevant_kinds kind =
     (case relevant_kinds of
        [] \<Rightarrow> True
      | [only] \<Rightarrow> only = kind
      | [a, b] \<Rightarrow> a = kind \<or> b = kind
      | many \<Rightarrow> kind \<in> set many)"

definition soaos_entity_generation :: "soaos \<Rightarrow> string \<Rightarrow> u64 option" where
  "soaos_entity_generation s entity = map_option eg_generation (bt_get (so_groups s) entity)"

definition soaos_projection_candidates ::
  "soaos \<Rightarrow> string \<Rightarrow> EventKind list \<Rightarrow> (u64 \<times> u64 \<times> query_hit list) option" where
  "soaos_projection_candidates s entity relevant_kinds =
     (case bt_get (so_groups s) entity of
        None \<Rightarrow> None
      | Some g \<Rightarrow>
          (case foldl (\<lambda>(watermark, candidates) (kind, e).
                  if projection_kind_matches relevant_kinds kind
                  then (Some (ie_global_sequence e), candidates @ [query_hit_from_entry e]) else (watermark, candidates))
                (None, []) (zip (eg_kinds g) (eg_entries g)) of
             (None, _) \<Rightarrow> None
           | (Some watermark, candidates) \<Rightarrow> Some (watermark, eg_generation g, candidates)))"

definition soaos_cached_projection :: "soaos \<Rightarrow> string \<Rightarrow> nat \<Rightarrow> cached_projection_slot option" where
  "soaos_cached_projection s entity tid =
     (case bt_get (so_groups s) entity of None \<Rightarrow> None | Some g \<Rightarrow> bt_get (eg_cached_projections g) tid)"

definition soaos_store_cached_projection ::
  "soaos \<Rightarrow> string \<Rightarrow> nat \<Rightarrow> bytes \<Rightarrow> u64 \<Rightarrow> bool \<times> soaos" where
  "soaos_store_cached_projection s entity tid bs watermark =
     (case bt_get (so_groups s) entity of
        None \<Rightarrow> (False, s)
      | Some g \<Rightarrow> (True, s\<lparr>so_groups := bt_insert entity
          (g\<lparr>eg_cached_projections := bt_insert tid
             \<lparr>cp_bytes = bs, cp_watermark = watermark, cp_generation = eg_generation g\<rparr> (eg_cached_projections g)\<rparr>)
          (so_groups s)\<rparr>))"

section \<open>The scan index\<close>

text \<open>The tiles of the scan index hold 64 entries.\<close>

record scan_index =
  si_by_fact :: "(EventKind, (ClockKey, index_entry) btree) btree"
  si_scope_entities :: scope_map
  si_soa :: "soa option"
  si_entity_groups :: "soaos option"
  si_tiles64 :: "aosoa option"

definition scan_for_config :: "bool \<Rightarrow> bool \<Rightarrow> bool \<Rightarrow> scan_index" where
  "scan_for_config soa entity_groups tiles64 =
     \<lparr>si_by_fact = [], si_scope_entities = [], si_soa = (if soa then Some soa_new else None),
      si_entity_groups = (if entity_groups then Some soaos_new else None),
      si_tiles64 = (if tiles64 then Some aosoa_new else None)\<rparr>"

definition scan_insert_base :: "scan_index \<Rightarrow> index_entry \<Rightarrow> scan_index" where
  "scan_insert_base s e =
     s\<lparr>si_by_fact := bt_update (ie_kind e) [] (bt_insert (clock_key e) e) (si_by_fact s),
       si_scope_entities := note_scope (si_scope_entities s) e\<rparr>"

definition scan_insert :: "scan_index \<Rightarrow> index_entry \<Rightarrow> scan_index" where
  "scan_insert s e =
     (let b = scan_insert_base s e in
      b\<lparr>si_soa := map_option (\<lambda>i. soa_push i e) (si_soa b),
        si_entity_groups := map_option (\<lambda>i. soaos_push i e) (si_entity_groups b),
        si_tiles64 := map_option (\<lambda>i. aosoa_push 64 i e) (si_tiles64 b)\<rparr>)"

definition scope_entity_set :: "scan_index \<Rightarrow> string \<Rightarrow> string list option" where
  "scope_entity_set s scope = bt_get (si_scope_entities s) scope"

datatype ScanRoute = BaseAoS | SoA | SoAoS | AoSoA64

definition route_by_kind :: "scan_index \<Rightarrow> ScanRoute" where
  "route_by_kind s =
     (if si_soa s \<noteq> None then SoA else if si_tiles64 s \<noteq> None then AoSoA64
      else if si_entity_groups s \<noteq> None then SoAoS else BaseAoS)"

definition route_by_scope :: "scan_index \<Rightarrow> ScanRoute" where
  "route_by_scope s =
     (if si_entity_groups s \<noteq> None then SoAoS else if si_soa s \<noteq> None then SoA
      else if si_tiles64 s \<noteq> None then AoSoA64 else BaseAoS)"

definition route_by_category :: "scan_index \<Rightarrow> ScanRoute" where
  "route_by_category s =
     (if si_soa s \<noteq> None then SoA else if si_tiles64 s \<noteq> None then AoSoA64
      else if si_entity_groups s \<noteq> None then SoAoS else BaseAoS)"

abbreviation by_sequence :: "query_hit list \<Rightarrow> query_hit list" where
  "by_sequence \<equiv> sort_key qh_global_sequence"

definition query_base_hits_by_kind :: "scan_index \<Rightarrow> EventKind \<Rightarrow> query_hit list" where
  "query_base_hits_by_kind s kind =
     by_sequence (case bt_get (si_by_fact s) kind of
       None \<Rightarrow> [] | Some m \<Rightarrow> map (\<lambda>(_, e). query_hit_from_entry e) m)"

definition query_base_hits_by_category :: "scan_index \<Rightarrow> u8 \<Rightarrow> query_hit list" where
  "query_base_hits_by_category s cat =
     by_sequence (concat (map (\<lambda>(_, m). map (\<lambda>(_, e). query_hit_from_entry e) m)
       (filter (\<lambda>(k, _). category k = cat) (si_by_fact s))))"

definition base_hits :: "scan_index \<Rightarrow> EntryQuery \<Rightarrow> query_hit list" where
  "base_hits s q =
     (case q of
        KindQuery kind \<Rightarrow> query_base_hits_by_kind s kind
      | CategoryQuery cat \<Rightarrow> query_base_hits_by_category s cat
      | ScopeQuery _ \<Rightarrow> [])"

definition query_hits_route :: "scan_index \<Rightarrow> ScanRoute \<Rightarrow> EntryQuery \<Rightarrow> query_hit list" where
  "query_hits_route s route q =
     (case route of
        BaseAoS \<Rightarrow> base_hits s q
      | SoA \<Rightarrow> (case si_soa s of None \<Rightarrow> base_hits s q | Some i \<Rightarrow> by_sequence (soa_candidates i q))
      | SoAoS \<Rightarrow> (case si_entity_groups s of None \<Rightarrow> base_hits s q | Some i \<Rightarrow> by_sequence (soaos_candidates i q))
      | AoSoA64 \<Rightarrow> (case si_tiles64 s of None \<Rightarrow> base_hits s q | Some i \<Rightarrow> by_sequence (aosoa_candidates i q)))"

definition scan_hits_by_kind :: "scan_index \<Rightarrow> EventKind \<Rightarrow> query_hit list" where
  "scan_hits_by_kind s kind = query_hits_route s (route_by_kind s) (KindQuery kind)"

definition scan_hits_by_category :: "scan_index \<Rightarrow> u8 \<Rightarrow> query_hit list" where
  "scan_hits_by_category s cat = query_hits_route s (route_by_category s) (CategoryQuery cat)"

definition scan_hits_by_scope :: "scan_index \<Rightarrow> string \<Rightarrow> query_hit list" where
  "scan_hits_by_scope s scope = query_hits_route s (route_by_scope s) (ScopeQuery scope)"

definition scan_entity_generation :: "scan_index \<Rightarrow> string \<Rightarrow> u64 option" where
  "scan_entity_generation s entity =
     (case si_entity_groups s of None \<Rightarrow> None | Some i \<Rightarrow> soaos_entity_generation i entity)"

definition scan_projection_candidates ::
  "scan_index \<Rightarrow> string \<Rightarrow> EventKind list \<Rightarrow> (u64 \<times> u64 \<times> query_hit list) option" where
  "scan_projection_candidates s entity relevant_kinds =
     (case si_entity_groups s of None \<Rightarrow> None | Some i \<Rightarrow> soaos_projection_candidates i entity relevant_kinds)"

datatype ProjectionCacheStoreStatus = Stored | MissingEntity | UnsupportedTopology

definition scan_cached_projection :: "scan_index \<Rightarrow> string \<Rightarrow> nat \<Rightarrow> cached_projection_slot option" where
  "scan_cached_projection s entity tid =
     (case si_entity_groups s of None \<Rightarrow> None | Some i \<Rightarrow> soaos_cached_projection i entity tid)"

definition scan_store_cached_projection ::
  "scan_index \<Rightarrow> string \<Rightarrow> nat \<Rightarrow> bytes \<Rightarrow> u64 \<Rightarrow> ProjectionCacheStoreStatus \<times> scan_index" where
  "scan_store_cached_projection s entity tid bs watermark =
     (case si_entity_groups s of
        None \<Rightarrow> (UnsupportedTopology, s)
      | Some i \<Rightarrow>
          (case soaos_store_cached_projection i entity tid bs watermark of
             (stored, i') \<Rightarrow> ((if stored then Stored else MissingEntity), s\<lparr>si_entity_groups := Some i'\<rparr>)))"

definition topology_name :: "scan_index \<Rightarrow> string" where
  "topology_name s =
     (case (si_soa s \<noteq> None, si_entity_groups s \<noteq> None, si_tiles64 s \<noteq> None) of
        (False, False, False) \<Rightarrow> ''aos''
      | (True, False, False) \<Rightarrow> ''scan''
      | (False, True, False) \<Rightarrow> ''entity-local''
      | (False, False, True) \<Rightarrow> ''tiled''
      | (True, True, True) \<Rightarrow> ''all''
      | _ \<Rightarrow> ''hybrid'')"

definition tile_count :: "scan_index \<Rightarrow> nat" where
  "tile_count s = (case si_tiles64 s of None \<Rightarrow> 0 | Some i \<Rightarrow> length (ao_tiles i))"

definition scan_clear :: "scan_index \<Rightarrow> scan_index" where
  "scan_clear s =
     \<lparr>si_by_fact = [], si_scope_entities = [], si_soa = map_option (\<lambda>_. soa_new) (si_soa s),
      si_entity_groups = map_option (\<lambda>_. soaos_new) (si_entity_groups s),
      si_tiles64 = map_option (\<lambda>_. aosoa_new) (si_tiles64 s)\<rparr>"

section \<open>The layout interface\<close>

text \<open>
  What a query selects among the inserted entries. A scope selects every entry of the entities
  that have an entry in it; the caller filters the scope itself.
\<close>

definition selects :: "index_entry list \<Rightarrow> EntryQuery \<Rightarrow> index_entry \<Rightarrow> bool" where
  "selects es q e =
     (case q of
        KindQuery k \<Rightarrow> ie_kind e = k
      | CategoryQuery c \<Rightarrow> category (ie_kind e) = c
      | ScopeQuery scope \<Rightarrow> (\<exists>e' \<in> set es. scope_of e' = scope \<and> entity_of e' = entity_of e))"

text \<open>
  A layout starts empty, takes entries one at a time, and answers a query it supports with the
  hits of exactly the selected entries, in any order, each as often as it was inserted.
\<close>

locale scan_layout =
  fixes empty :: 's
    and push :: "'s \<Rightarrow> index_entry \<Rightarrow> 's"
    and candidates :: "'s \<Rightarrow> EntryQuery \<Rightarrow> query_hit list"
    and holds :: "index_entry list \<Rightarrow> 's \<Rightarrow> bool"
    and fresh :: "index_entry list \<Rightarrow> index_entry \<Rightarrow> bool"
    and supports :: "EntryQuery \<Rightarrow> bool"
  assumes holds_empty: "holds [] empty"
    and holds_push: "holds es s \<Longrightarrow> fresh es e \<Longrightarrow> holds (es @ [e]) (push s e)"
    and holds_exact: "holds es s \<Longrightarrow> supports q \<Longrightarrow>
      mset (candidates s q) = mset (map query_hit_from_entry (filter (selects es q) es))"
begin

lemma sorted_answer:
  assumes "holds es s" and "supports q" and "distinct (map ie_global_sequence es)"
  shows "by_sequence (candidates s q) = by_sequence (map query_hit_from_entry (filter (selects es q) es))"
proof (rule sort_key_inj_key_eq)
  show "mset (candidates s q) = mset (by_sequence (map query_hit_from_entry (filter (selects es q) es)))"
    using holds_exact [OF assms(1,2)] by simp
  have "inj_on qh_global_sequence (query_hit_from_entry ` set es)"
    using assms(3) by (auto simp: inj_on_def distinct_map query_hit_from_entry_def)
  moreover have "set (candidates s q) \<subseteq> query_hit_from_entry ` set es"
    using arg_cong [OF holds_exact [OF assms(1,2)], of set_mset] by auto
  ultimately show "inj_on qh_global_sequence (set (candidates s q))"
    by (rule inj_on_subset)
qed simp

end

section \<open>The scope map\<close>

lemma note_scope_get:
  "bt_get (note_scope m e) scope =
    (if scope_of e = scope then Some (List.insert (entity_of e) (case bt_get m scope of None \<Rightarrow> [] | Some L \<Rightarrow> L))
     else bt_get m scope)"
  by (auto simp: note_scope_def)

lemma scope_map_get:
  "case bt_get (foldl note_scope [] es) scope of
     None \<Rightarrow> (\<forall>e \<in> set es. scope_of e \<noteq> scope)
   | Some L \<Rightarrow> set L = entity_of ` {e \<in> set es. scope_of e = scope} \<and> distinct L"
proof (induction es rule: rev_induct)
  case (snoc e es)
  have new: "{e' \<in> set (es @ [e]). scope_of e' = scope} =
      (if scope_of e = scope then insert e {e' \<in> set es. scope_of e' = scope} else {e' \<in> set es. scope_of e' = scope})"
    by auto
  show ?case
  proof (cases "bt_get (foldl note_scope [] es) scope")
    case None
    with snoc have old: "\<forall>e' \<in> set es. scope_of e' \<noteq> scope" by simp
    show ?thesis
    proof (cases "scope_of e = scope")
      case True
      with None old show ?thesis by (auto simp: note_scope_get new simp del: set_append)
    qed (use None old in \<open>simp add: note_scope_get\<close>)
  next
    case (Some L)
    with snoc show ?thesis by (simp add: note_scope_get new del: set_append)
  qed
qed simp

lemma scope_selected:
  "selects es (ScopeQuery scope) e \<longleftrightarrow>
    (case bt_get (foldl note_scope [] es) scope of None \<Rightarrow> False | Some L \<Rightarrow> entity_of e \<in> set L)"
proof (cases "bt_get (foldl note_scope [] es) scope")
  case None
  then show ?thesis using scope_map_get [of es scope] by (auto simp: selects_def)
next
  case (Some L)
  then have "set L = entity_of ` {e' \<in> set es. scope_of e' = scope}"
    using scope_map_get [of es scope] by simp
  then have "entity_of e \<in> set L \<longleftrightarrow> (\<exists>e' \<in> set es. scope_of e' = scope \<and> entity_of e' = entity_of e)"
    by (simp add: image_iff Bex_def eq_commute conj_assoc)
  with Some show ?thesis by (simp add: selects_def)
qed

lemma filter_scope:
  "filter (selects es (ScopeQuery scope)) xs =
    (case bt_get (foldl note_scope [] es) scope of None \<Rightarrow> [] | Some L \<Rightarrow> filter (\<lambda>e. entity_of e \<in> set L) xs)"
  by (cases "bt_get (foldl note_scope [] es) scope") (simp_all add: scope_selected [abs_def])

lemma filter_kind:
  "filter (selects es (KindQuery k)) xs = filter (\<lambda>e. ie_kind e = k) xs"
  "filter (selects es (CategoryQuery c)) xs = filter (\<lambda>e. category (ie_kind e) = c) xs"
  by (simp_all add: selects_def [abs_def])

section \<open>The layouts meet the interface\<close>

lemma soa_push_from: "soa_push (soa_from_entries es) e = soa_from_entries (es @ [e])"
  by (simp add: soa_push_def soa_from_entries_def)

lemma zip_kinds: "filter (\<lambda>(k, _). P k) (zip (map ie_kind es) es) = map (\<lambda>e. (ie_kind e, e)) (filter (\<lambda>e. P (ie_kind e)) es)"
  by (induction es) auto

interpretation soa: scan_layout soa_new soa_push soa_candidates "\<lambda>es s. s = soa_from_entries es" "\<lambda>_ _. True" "\<lambda>_. True"
proof
  show "soa_new = soa_from_entries []" by (simp add: soa_new_def soa_from_entries_def)
  show "s = soa_from_entries es \<Longrightarrow> soa_push s e = soa_from_entries (es @ [e])" for es s e
    by (simp add: soa_push_from)
  show "mset (soa_candidates s q) = mset (map query_hit_from_entry (filter (selects es q) es))"
    if "s = soa_from_entries es" for es s q
  proof (cases q)
    case (ScopeQuery scope)
    with that show ?thesis
      by (simp add: soa_candidates_def soa_hits_by_scope_def soa_from_entries_def filter_scope split: option.splits)
  qed (simp_all add: that soa_candidates_def soa_hits_entries_def soa_from_entries_def zip_kinds selects_def comp_def)
qed

text \<open>Tiles: every entry is in one tile, and the entries of a tile have one kind.\<close>

definition tile_inv :: "tile \<Rightarrow> bool" where
  "tile_inv t \<longleftrightarrow> tile_entries t \<noteq> [] \<and> tile_len t = length (tile_entries t) \<and>
     tile_kinds t = map ie_kind (tile_entries t) \<and> (\<forall>e \<in> set (tile_entries t). ie_kind e = tile_kinds t ! 0)"

definition aosoa_inv :: "index_entry list \<Rightarrow> aosoa \<Rightarrow> bool" where
  "aosoa_inv es s \<longleftrightarrow> (\<forall>t \<in> set (ao_tiles s). tile_inv t) \<and>
     (\<forall>k i. bt_get (ao_open_tiles s) k = Some i \<longrightarrow> i < length (ao_tiles s) \<and> tile_kinds (ao_tiles s ! i) ! 0 = k) \<and>
     mset (concat (map tile_entries (ao_tiles s))) = mset es \<and> ao_scope_entities s = foldl note_scope [] es"

lemma mset_concat_update:
  "i < length ts \<Longrightarrow> f t = f (ts ! i) @ [e] \<Longrightarrow>
   mset (concat (map f (ts[i := t]))) = add_mset e (mset (concat (map f ts)))"
proof (induction ts arbitrary: i)
  case (Cons u ts)
  then show ?case by (cases i) auto
qed simp

lemma tile_inv_push:
  assumes "tile_inv t" and "tile_kinds t ! 0 = ie_kind e"
  shows "tile_inv (tile_push t (ie_kind e) e)" and "tile_kinds (tile_push t (ie_kind e) e) ! 0 = ie_kind e"
proof -
  have "tile_kinds t \<noteq> []" using assms(1) by (auto simp: tile_inv_def)
  with assms show "tile_inv (tile_push t (ie_kind e) e)" "tile_kinds (tile_push t (ie_kind e) e) ! 0 = ie_kind e"
    by (auto simp: tile_inv_def tile_push_def nth_append)
qed

lemma aosoa_inv_push:
  assumes "aosoa_inv es s"
  shows "aosoa_inv (es @ [e]) (aosoa_push N s e)"
proof (cases "bt_get (ao_open_tiles s) (ie_kind e)")
  case None
  have "tile_inv (tile_push tile_new (ie_kind e) e)" by (simp add: tile_inv_def tile_push_def tile_new_def)
  with None assms show ?thesis
    by (auto simp: aosoa_inv_def aosoa_push_def Let_def nth_append tile_push_def tile_new_def intro: less_SucI)
next
  case (Some i)
  with assms have i: "i < length (ao_tiles s)" "tile_kinds (ao_tiles s ! i) ! 0 = ie_kind e" "tile_inv (ao_tiles s ! i)"
    by (auto simp: aosoa_inv_def)
  let ?t = "tile_push (ao_tiles s ! i) (ie_kind e) e"
  have t: "tile_inv ?t" "tile_kinds ?t ! 0 = ie_kind e" using tile_inv_push [OF i(3,2)] by auto
  have tiles: "\<forall>u \<in> set ((ao_tiles s)[i := ?t]). tile_inv u"
    using assms t(1) set_update_subset_insert [of "ao_tiles s" i ?t] by (auto simp: aosoa_inv_def)
  have "\<forall>k j. bt_get (ao_open_tiles s) k = Some j \<longrightarrow>
      j < length (ao_tiles s) \<and> tile_kinds ((ao_tiles s)[i := ?t] ! j) ! 0 = k"
    using assms i t(2) by (auto simp: aosoa_inv_def nth_list_update)
  moreover have "mset (concat (map tile_entries ((ao_tiles s)[i := ?t]))) = mset (es @ [e])"
    using mset_concat_update [OF i(1), of tile_entries ?t e] assms by (simp add: tile_push_def aosoa_inv_def)
  ultimately show ?thesis
    using tiles assms Some by (auto simp: aosoa_inv_def aosoa_push_def Let_def bt_get_remove)
qed

lemma aosoa_new_inv: "aosoa_inv [] aosoa_new"
  by (simp add: aosoa_inv_def aosoa_new_def)

lemma aosoa_hits_tiles:
  "\<forall>t \<in> set ts. tile_inv t \<Longrightarrow>
   aosoa_hits_entries ts P = map query_hit_from_entry (filter (\<lambda>e. P (ie_kind e)) (concat (map tile_entries ts)))"
proof (induction ts)
  case (Cons t ts)
  then have t: "tile_inv t" by simp
  then have "\<forall>e \<in> set (tile_entries t). P (ie_kind e) = P (tile_kinds t ! 0)"
    unfolding tile_inv_def by metis
  then have "filter (\<lambda>e. P (ie_kind e)) (tile_entries t) = (if P (tile_kinds t ! 0) then tile_entries t else [])"
    by (simp add: filter_id_conv filter_empty_conv)
  moreover have "tile_len t \<noteq> 0" and "take (tile_len t) (tile_entries t) = tile_entries t"
    using t by (simp_all add: tile_inv_def)
  ultimately show ?case using Cons by simp
qed simp

lemma aosoa_scope_tiles:
  assumes "aosoa_inv es s"
  shows "aosoa_hits_by_scope s scope = map query_hit_from_entry (filter (selects es (ScopeQuery scope)) (concat (map tile_entries (ao_tiles s))))"
proof -
  have "map (\<lambda>t. map query_hit_from_entry (filter P (take (tile_len t) (tile_entries t)))) ts =
      map (\<lambda>t. map query_hit_from_entry (filter P (tile_entries t))) ts" if "\<forall>t \<in> set ts. tile_inv t" for P ts
    using that by (simp add: tile_inv_def)
  note whole = this
  have tiles: "\<forall>t \<in> set (ao_tiles s). tile_inv t" and scopes: "ao_scope_entities s = foldl note_scope [] es"
    using assms by (simp_all add: aosoa_inv_def)
  show ?thesis
    by (cases "bt_get (foldl note_scope [] es) scope")
      (simp_all only: aosoa_hits_by_scope_def filter_scope scopes whole [OF tiles] option.case filter_concat map_concat
        map_map comp_def list.map concat_map_singleton map_replicate_const, simp_all)
qed

lemma aosoa_exact:
  assumes inv: "aosoa_inv es s"
  shows "mset (aosoa_candidates s q) = mset (map query_hit_from_entry (filter (selects es q) es))"
proof -
  have m: "mset (map query_hit_from_entry (filter P (concat (map tile_entries (ao_tiles s))))) =
      mset (map query_hit_from_entry (filter P es))" for P
    using inv by (simp add: aosoa_inv_def)
  have tiles: "\<forall>t \<in> set (ao_tiles s). tile_inv t" using inv by (simp add: aosoa_inv_def)
  show ?thesis
    by (cases q) (simp_all only: aosoa_candidates_def EntryQuery.case aosoa_hits_tiles [OF tiles]
      aosoa_scope_tiles [OF inv] m filter_kind)
qed

interpretation aosoa: scan_layout aosoa_new "aosoa_push N" aosoa_candidates aosoa_inv "\<lambda>_ _. True" "\<lambda>_. True" for N
  by unfold_locales (simp_all only: aosoa_new_inv aosoa_inv_push aosoa_exact)

text \<open>Entity groups: a group per entity that has entries, holding exactly those, in order.\<close>

definition group_of :: "index_entry list \<Rightarrow> string \<Rightarrow> entity_group option \<Rightarrow> bool" where
  "group_of es n og \<longleftrightarrow>
     (case og of
        None \<Rightarrow> filter (\<lambda>e. entity_of e = n) es = []
      | Some g \<Rightarrow> eg_entries g = filter (\<lambda>e. entity_of e = n) es \<and> eg_kinds g = map ie_kind (eg_entries g))"

definition soaos_inv :: "index_entry list \<Rightarrow> soaos \<Rightarrow> bool" where
  "soaos_inv es s \<longleftrightarrow> bt_wf (so_groups s) \<and> so_scope_entities s = foldl note_scope [] es \<and>
     (\<forall>n. group_of es n (bt_get (so_groups s) n))"

lemma soaos_push_group:
  "group_of es n (bt_get (so_groups s) n) \<Longrightarrow> group_of (es @ [e]) n (bt_get (so_groups (soaos_push s e)) n)"
  by (cases "bt_get (so_groups s) n"; cases "entity_of e = n")
    (simp_all add: soaos_push_def group_of_def entity_group_new_def)

lemma soaos_inv_push:
  assumes "soaos_inv es s"
  shows "soaos_inv (es @ [e]) (soaos_push s e)"
proof -
  have "bt_wf (so_groups (soaos_push s e))"
    and "so_scope_entities (soaos_push s e) = foldl note_scope [] (es @ [e])"
    using assms by (simp_all add: soaos_inv_def soaos_push_def)
  then show ?thesis using assms soaos_push_group by (simp add: soaos_inv_def)
qed

lemma soaos_new_inv: "soaos_inv [] soaos_new"
  by (simp add: soaos_inv_def soaos_new_def group_of_def)

lemma soaos_inv_cached:
  assumes "soaos_inv es s"
  shows "soaos_inv es (snd (soaos_store_cached_projection s entity tid bs watermark))"
proof (cases "bt_get (so_groups s) entity")
  case (Some g)
  with assms have "group_of es entity (Some g)" unfolding soaos_inv_def by metis
  with Some assms show ?thesis by (simp add: soaos_inv_def soaos_store_cached_projection_def group_of_def)
qed (use assms in \<open>simp add: soaos_store_cached_projection_def\<close>)

lemma mset_partition:
  "distinct ns \<Longrightarrow>
   mset (concat (map (\<lambda>n. filter (\<lambda>e. key e = n) es) ns)) = mset (filter (\<lambda>e. key e \<in> set ns) es)"
proof (induction ns)
  case (Cons n ns)
  have "mset (filter (\<lambda>e. key e = n \<or> key e \<in> set ns) es) =
      mset (filter (\<lambda>e. key e = n) es) + mset (filter (\<lambda>e. key e \<in> set ns) es)" if "n \<notin> set ns"
    using that by (induction es) auto
  with Cons show ?case by simp
qed simp

lemma group_hits_filter:
  "eg_kinds g = map ie_kind (eg_entries g) \<Longrightarrow>
   group_hits g P = map query_hit_from_entry (filter (\<lambda>e. P (ie_kind e)) (eg_entries g))"
proof -
  have "map (\<lambda>(i, _). query_hit_from_entry ((ys @ xs) ! i)) (filter (\<lambda>(_, kind). P kind) (enumerate (length ys) (map ie_kind xs))) =
      map query_hit_from_entry (filter (\<lambda>e. P (ie_kind e)) xs)" for xs ys :: "index_entry list"
  proof (induction xs arbitrary: ys)
    case (Cons x xs)
    then show ?case using Cons.IH [of "ys @ [x]"] by (simp add: nth_append)
  qed simp
  from this [of "[]"] show "eg_kinds g = map ie_kind (eg_entries g) \<Longrightarrow> ?thesis" by (simp add: group_hits_def)
qed

lemma soaos_hits_kinds:
  assumes "soaos_inv es s"
  shows "mset (soaos_hits_entries s P) = mset (map query_hit_from_entry (filter (\<lambda>e. P (ie_kind e)) es))"
proof -
  let ?xs = "filter (\<lambda>e. P (ie_kind e)) es"
  have "group_hits g P = map query_hit_from_entry (filter (\<lambda>e. entity_of e = n) ?xs)" if "(n, g) \<in> set (so_groups s)" for n g
  proof -
    have "bt_get (so_groups s) n = Some g" using assms that by (simp add: soaos_inv_def bt_wf_distinct)
    with assms have "group_of es n (Some g)" unfolding soaos_inv_def by metis
    then show ?thesis by (simp add: group_of_def group_hits_filter conj_commute)
  qed
  then have "map (\<lambda>(_, g). group_hits g P) (so_groups s) =
      map (\<lambda>(n, _). map query_hit_from_entry (filter (\<lambda>e. entity_of e = n) ?xs)) (so_groups s)"
    by (intro map_cong) auto
  then have "soaos_hits_entries s P = map query_hit_from_entry
      (concat (map (\<lambda>n. filter (\<lambda>e. entity_of e = n) ?xs) (map fst (so_groups s))))"
    by (simp only: soaos_hits_entries_def map_concat map_map comp_def split_def)
  moreover have "mset (concat (map (\<lambda>n. filter (\<lambda>e. entity_of e = n) ?xs) (map fst (so_groups s)))) =
      mset (filter (\<lambda>e. entity_of e \<in> set (map fst (so_groups s))) ?xs)"
    using assms by (intro mset_partition) (simp add: soaos_inv_def bt_wf_distinct)
  moreover have "filter (\<lambda>e. entity_of e \<in> set (map fst (so_groups s))) ?xs = ?xs"
  proof -
    have "entity_of e \<in> set (map fst (so_groups s))" if "e \<in> set es" for e
    proof (rule ccontr)
      assume "entity_of e \<notin> set (map fst (so_groups s))"
      then have "bt_get (so_groups s) (entity_of e) = None" by (simp add: map_of_eq_None_iff)
      with assms have "group_of es (entity_of e) None" unfolding soaos_inv_def by metis
      with that show False by (auto simp: group_of_def filter_empty_conv)
    qed
    then show ?thesis by (auto simp: filter_id_conv simp del: filter_filter set_map)
  qed
  ultimately show ?thesis by (simp only: mset_map)
qed

lemma soaos_hits_scope:
  assumes "soaos_inv es s"
  shows "mset (soaos_hits_by_scope s scope) = mset (map query_hit_from_entry (filter (selects es (ScopeQuery scope)) es))"
proof (cases "bt_get (foldl note_scope [] es) scope")
  case None
  with assms show ?thesis by (simp add: soaos_hits_by_scope_def filter_scope soaos_inv_def)
next
  case (Some L)
  have "(case bt_get (so_groups s) n of None \<Rightarrow> [] | Some g \<Rightarrow> map query_hit_from_entry (eg_entries g)) =
      map query_hit_from_entry (filter (\<lambda>e. entity_of e = n) es)" for n
  proof -
    have "group_of es n (bt_get (so_groups s) n)" using assms by (simp add: soaos_inv_def)
    then show ?thesis by (simp add: group_of_def split: option.splits)
  qed
  with Some assms have "soaos_hits_by_scope s scope =
      map query_hit_from_entry (concat (map (\<lambda>n. filter (\<lambda>e. entity_of e = n) es) L))"
    by (simp add: soaos_hits_by_scope_def soaos_inv_def map_concat comp_def)
  moreover have "distinct L" using scope_map_get [of es scope] Some by simp
  ultimately show ?thesis using Some by (simp only: mset_map mset_partition filter_scope option.case)
qed

lemma soaos_exact:
  assumes "soaos_inv es s"
  shows "mset (soaos_candidates s q) = mset (map query_hit_from_entry (filter (selects es q) es))"
  using assms
  by (cases q) (simp_all only: soaos_candidates_def EntryQuery.case soaos_hits_kinds soaos_hits_scope filter_kind)

interpretation soaos: scan_layout soaos_new soaos_push soaos_candidates soaos_inv "\<lambda>_ _. True" "\<lambda>_. True"
  by unfold_locales (simp_all only: soaos_new_inv soaos_inv_push soaos_exact)

text \<open>
  Maps of clock-ordered buckets: a bucket per key that has entries, holding exactly those by
  clock key. The base maps are grouped by kind, the streams of the store index by entity.
\<close>

definition bucket :: "(index_entry \<Rightarrow> 'k) \<Rightarrow> index_entry list \<Rightarrow> 'k \<Rightarrow> (ClockKey, index_entry) btree option \<Rightarrow> bool" where
  "bucket key es k om \<longleftrightarrow>
     (case om of
        None \<Rightarrow> filter (\<lambda>e. key e = k) es = []
      | Some m \<Rightarrow> mset (map snd m) = mset (filter (\<lambda>e. key e = k) es) \<and> map fst m = map (clock_key \<circ> snd) m)"

definition grouped :: "(index_entry \<Rightarrow> 'k::linorder) \<Rightarrow> index_entry list \<Rightarrow> ('k, (ClockKey, index_entry) btree) btree \<Rightarrow> bool" where
  "grouped key es M \<longleftrightarrow> bt_wf M \<and> (\<forall>k. bucket key es k (bt_get M k))"

lemma grouped_Nil [simp]: "grouped key [] []"
  by (simp add: grouped_def bucket_def)

lemma bt_insert_fresh:
  "k \<notin> fst ` set m \<Longrightarrow> mset (map snd (bt_insert k v m)) = add_mset v (mset (map snd m))"
  by (induction k v m rule: bt_insert.induct) auto

lemma bt_insert_keys:
  "map fst m = map (f \<circ> snd) m \<Longrightarrow> k = f v \<Longrightarrow> map fst (bt_insert k v m) = map (f \<circ> snd) (bt_insert k v m)"
  by (induction k v m rule: bt_insert.induct) auto

lemma bucket_insert:
  assumes bucket: "bucket key es k (bt_get m k)" and fresh: "clock_key e \<notin> clock_key ` set es"
  shows "bucket key (es @ [e]) k (bt_get (bt_update (key e) [] (bt_insert (clock_key e) e) m) k)"
proof (cases "bt_get m k")
  case None
  have "filter (\<lambda>e'. key e' = key e) es = []" if "key e = k"
    using bucket None that by (simp add: bucket_def)
  then have "mset (filter (\<lambda>e'. key e' = key e) es) = {#}" if "key e = k"
    using that by simp
  with None bucket show ?thesis by (auto simp: bucket_def filter_empty_conv)
next
  case (Some b)
  have "clock_key e \<notin> fst ` set b"
  proof -
    have "set (map snd b) \<subseteq> set es"
      using bucket Some mset_eq_setD [of "map snd b" "filter (\<lambda>e. key e = k) es"] by (simp add: bucket_def)
    moreover have "set (map fst b) = clock_key ` set (map snd b)"
      using bucket Some arg_cong [of "map fst b" "map (clock_key \<circ> snd) b" set] by (auto simp: bucket_def image_comp)
    ultimately show ?thesis using fresh by auto
  qed
  moreover have "bucket key es k (Some b)" using bucket Some by simp
  ultimately have "bucket key (es @ [e]) k (Some (bt_insert (clock_key e) e b))" if "key e = k"
    using that bt_insert_fresh [of "clock_key e" b e] bt_insert_keys [of b clock_key "clock_key e" e]
    by (simp add: bucket_def del: map_eq_conv)
  moreover have "bucket key (es @ [e]) k (Some b)" if "key e \<noteq> k"
    using bucket Some that by (simp add: bucket_def)
  ultimately show ?thesis using Some by (cases "key e = k") (simp_all add: fun_upd_apply)
qed

lemma grouped_insert:
  assumes "grouped key es M" and "clock_key e \<notin> clock_key ` set es"
  shows "grouped key (es @ [e]) (bt_update (key e) [] (bt_insert (clock_key e) e) M)"
  using assms unfolding grouped_def by (intro conjI allI bucket_insert bt_wf_update) auto

lemma grouped_get:
  assumes "grouped key es M"
  shows "mset (case bt_get M k of None \<Rightarrow> [] | Some m \<Rightarrow> map snd m) = mset (filter (\<lambda>e. key e = k) es)"
proof -
  have "bucket key es k (bt_get M k)" using assms by (simp add: grouped_def)
  then show ?thesis by (cases "bt_get M k") (simp_all add: bucket_def del: mset_filter)
qed

lemma grouped_keys:
  assumes "grouped key es M" and "e \<in> set es"
  shows "key e \<in> fst ` set M"
proof (rule ccontr)
  assume "key e \<notin> fst ` set M"
  then have "bt_get M (key e) = None" by (simp add: map_of_eq_None_iff)
  with assms(1) have "bucket key es (key e) None" unfolding grouped_def by metis
  with assms(2) show False by (auto simp: bucket_def filter_empty_conv)
qed

lemma grouped_concat:
  assumes M: "grouped key es M"
  shows "mset (concat (map (\<lambda>(_, m). map snd m) (filter (\<lambda>(k, _). P k) M))) = mset (filter (\<lambda>e. P (key e)) es)"
proof -
  let ?ks = "map fst (filter (\<lambda>(k, _). P k) M)"
  have "mset (map snd m) = mset (filter (\<lambda>e. key e = k) es)" if "(k, m) \<in> set M" for k m
  proof -
    have "bt_get M k = Some m" using M that by (simp add: grouped_def bt_wf_distinct)
    then show ?thesis using grouped_get [OF M, of k] by simp
  qed
  then have "mset (concat (map (\<lambda>(_, m). map snd m) (filter (\<lambda>(k, _). P k) ms))) =
      mset (concat (map (\<lambda>k. filter (\<lambda>e. key e = k) es) (map fst (filter (\<lambda>(k, _). P k) ms))))"
    if "set ms \<subseteq> set M" for ms
    using that by (induction ms) auto
  then have "mset (concat (map (\<lambda>(_, m). map snd m) (filter (\<lambda>(k, _). P k) M))) =
      mset (concat (map (\<lambda>k. filter (\<lambda>e. key e = k) es) ?ks))" by simp
  also have "\<dots> = mset (filter (\<lambda>e. key e \<in> set ?ks) es)"
    using M by (intro mset_partition) (simp add: grouped_def bt_wf_distinct distinct_map_filter)
  also have "filter (\<lambda>e. key e \<in> set ?ks) es = filter (\<lambda>e. P (key e)) es"
    using grouped_keys [OF M] by (intro filter_cong) force+
  finally show ?thesis .
qed

definition base_inv :: "index_entry list \<Rightarrow> scan_index \<Rightarrow> bool" where
  "base_inv es s \<longleftrightarrow> grouped ie_kind es (si_by_fact s)"

lemma base_inv_insert:
  "base_inv es s \<Longrightarrow> clock_key e \<notin> clock_key ` set es \<Longrightarrow> base_inv (es @ [e]) (scan_insert_base s e)"
  by (simp add: base_inv_def scan_insert_base_def grouped_insert)

lemma base_new_inv: "base_inv [] (scan_for_config a b c)"
  by (simp add: base_inv_def scan_for_config_def)

lemma mset_map_cong: "mset xs = mset ys \<Longrightarrow> mset (map f xs) = mset (map f ys)"
  by simp

lemma base_kind_facts:
  assumes "base_inv es s"
  shows "mset (base_hits s (KindQuery k)) = mset (map query_hit_from_entry (filter (\<lambda>e. ie_kind e = k) es))"
proof -
  have "mset (base_hits s (KindQuery k)) =
      mset (map query_hit_from_entry (case bt_get (si_by_fact s) k of None \<Rightarrow> [] | Some m \<Rightarrow> map snd m))"
    by (cases "bt_get (si_by_fact s) k") (simp_all add: base_hits_def query_base_hits_by_kind_def split_def comp_def)
  also have "\<dots> = mset (map query_hit_from_entry (filter (\<lambda>e. ie_kind e = k) es))"
    using assms by (intro mset_map_cong grouped_get) (simp add: base_inv_def)
  finally show ?thesis .
qed

lemma base_category_facts:
  assumes "base_inv es s"
  shows "mset (base_hits s (CategoryQuery c)) = mset (map query_hit_from_entry (filter (\<lambda>e. category (ie_kind e) = c) es))"
proof -
  have "mset (base_hits s (CategoryQuery c)) = mset (map query_hit_from_entry
      (concat (map (\<lambda>(_, m). map snd m) (filter (\<lambda>(k, _). category k = c) (si_by_fact s)))))"
    by (simp add: base_hits_def query_base_hits_by_category_def map_concat comp_def split_def)
  also have "\<dots> = mset (map query_hit_from_entry (filter (\<lambda>e. category (ie_kind e) = c) es))"
    using assms by (intro mset_map_cong grouped_concat) (simp add: base_inv_def)
  finally show ?thesis .
qed

definition no_scope :: "EntryQuery \<Rightarrow> bool" where
  "no_scope q \<longleftrightarrow> (\<forall>scope. q \<noteq> ScopeQuery scope)"

interpretation base: scan_layout "scan_for_config a b c" scan_insert_base base_hits base_inv
  "\<lambda>es e. clock_key e \<notin> clock_key ` set es" no_scope for a b c
proof
  show "mset (base_hits s q) = mset (map query_hit_from_entry (filter (selects es q) es))"
    if "base_inv es s" and "no_scope q" for es s q
    using that by (cases q) (simp_all only: base_kind_facts base_category_facts filter_kind no_scope_def EntryQuery.inject, blast)
qed (rule base_new_inv, rule base_inv_insert)

section \<open>Every topology gives the same answer\<close>

text \<open>The index holds entries when the base maps and every layout it has hold them.\<close>

definition scan_holds :: "index_entry list \<Rightarrow> scan_index \<Rightarrow> bool" where
  "scan_holds es s \<longleftrightarrow> base_inv es s \<and> si_scope_entities s = foldl note_scope [] es \<and>
     (case si_soa s of None \<Rightarrow> True | Some i \<Rightarrow> i = soa_from_entries es) \<and>
     (case si_entity_groups s of None \<Rightarrow> True | Some i \<Rightarrow> soaos_inv es i) \<and>
     (case si_tiles64 s of None \<Rightarrow> True | Some i \<Rightarrow> aosoa_inv es i)"

lemma base_inv_cong: "si_by_fact s = si_by_fact s' \<Longrightarrow> base_inv es s = base_inv es s'"
  by (simp add: base_inv_def)

lemma scan_holds_new: "scan_holds [] (scan_for_config a b c)"
  using base_new_inv [of a b c]
  by (simp add: scan_holds_def scan_for_config_def soa.holds_empty soaos_new_inv aosoa_new_inv)

lemma scan_holds_insert:
  assumes "scan_holds es s" and "clock_key e \<notin> clock_key ` set es"
  shows "scan_holds (es @ [e]) (scan_insert s e)"
proof -
  have "base_inv (es @ [e]) (scan_insert s e)"
    using base_inv_insert [of es s e] base_inv_cong [of "scan_insert s e" "scan_insert_base s e"] assms
    by (simp add: scan_holds_def scan_insert_def Let_def)
  with assms(1) show ?thesis
    by (auto simp: scan_holds_def scan_insert_def scan_insert_base_def Let_def soa_push_from soaos_inv_push
        aosoa_inv_push split: option.splits)
qed

lemma scan_holds_cached:
  assumes "scan_holds es s"
  shows "scan_holds es (snd (scan_store_cached_projection s entity tid bs watermark))"
proof (cases "si_entity_groups s")
  case (Some i)
  with assms have "soaos_inv es (snd (soaos_store_cached_projection i entity tid bs watermark))"
    by (simp add: scan_holds_def soaos_inv_cached)
  with Some assms show ?thesis
    by (auto simp: scan_holds_def scan_store_cached_projection_def base_inv_def split: prod.splits)
qed (use assms in \<open>simp add: scan_store_cached_projection_def\<close>)

lemma scan_holds_clear: "scan_holds [] (scan_clear s)"
  by (simp add: scan_holds_def scan_clear_def base_inv_def soa.holds_empty soaos_new_inv aosoa_new_inv
      split: option.split)

lemma scan_holds_inserts:
  "distinct (map clock_key es) \<Longrightarrow> scan_holds es (foldl scan_insert (scan_for_config a b c) es)"
proof (induction es rule: rev_induct)
  case Nil
  show ?case by (simp add: scan_holds_new)
qed (simp add: scan_holds_insert)

lemma scan_insert_layouts:
  "si_soa (foldl scan_insert s es) = None \<longleftrightarrow> si_soa s = None"
  "si_entity_groups (foldl scan_insert s es) = None \<longleftrightarrow> si_entity_groups s = None"
  "si_tiles64 (foldl scan_insert s es) = None \<longleftrightarrow> si_tiles64 s = None"
  by (induction es arbitrary: s) (simp_all add: scan_insert_def scan_insert_base_def Let_def)

lemma base_hits_sorted: "by_sequence (base_hits s q) = base_hits s q"
  by (simp add: base_hits_def query_base_hits_by_kind_def query_base_hits_by_category_def sort_key_id_if_sorted
      split: EntryQuery.splits)

lemma route_exact:
  assumes s: "scan_holds es s" and seqs: "distinct (map ie_global_sequence es)"
    and route: "no_scope q \<or> (route = SoA \<and> si_soa s \<noteq> None) \<or> (route = SoAoS \<and> si_entity_groups s \<noteq> None) \<or>
      (route = AoSoA64 \<and> si_tiles64 s \<noteq> None)"
  shows "query_hits_route s route q = by_sequence (map query_hit_from_entry (filter (selects es q) es))"
proof -
  have base: "base_hits s q = by_sequence (map query_hit_from_entry (filter (selects es q) es))" if "no_scope q"
    using base.sorted_answer [of es s q] that s seqs by (simp only: base_hits_sorted scan_holds_def)
  show ?thesis
    using route base s soa.sorted_answer [OF _ _ seqs] soaos.sorted_answer [OF _ _ seqs]
      aosoa.sorted_answer [OF _ _ seqs]
    by (cases route) (auto simp: query_hits_route_def scan_holds_def split: option.splits)
qed

lemma kind_hits_exact:
  assumes "scan_holds es s" and "distinct (map ie_global_sequence es)"
  shows "scan_hits_by_kind s k = by_sequence (map query_hit_from_entry (filter (\<lambda>e. ie_kind e = k) es))"
    and "scan_hits_by_category s c = by_sequence (map query_hit_from_entry (filter (\<lambda>e. category (ie_kind e) = c) es))"
  by (simp_all add: scan_hits_by_kind_def scan_hits_by_category_def route_exact [OF assms] no_scope_def filter_kind)

lemma scope_hits_exact:
  assumes "scan_holds es s" and "distinct (map ie_global_sequence es)"
  shows "scan_hits_by_scope s scope =
    (if si_soa s = None \<and> si_entity_groups s = None \<and> si_tiles64 s = None then []
     else by_sequence (map query_hit_from_entry (filter (selects es (ScopeQuery scope)) es)))"
proof (cases "si_soa s = None \<and> si_entity_groups s = None \<and> si_tiles64 s = None")
  case True
  then show ?thesis by (simp add: scan_hits_by_scope_def route_by_scope_def query_hits_route_def base_hits_def)
next
  case False
  then have "query_hits_route s (route_by_scope s) (ScopeQuery scope) =
      by_sequence (map query_hit_from_entry (filter (selects es (ScopeQuery scope)) es))"
    by (intro route_exact [OF assms]) (auto simp: route_by_scope_def)
  with False show ?thesis by (simp only: scan_hits_by_scope_def if_False)
qed


definition sample_entry :: "nat \<Rightarrow> EventKind \<Rightarrow> string \<Rightarrow> string \<Rightarrow> index_entry" where
  "sample_entry n kind entity scope =
     \<lparr>ie_event_id = of_nat n, ie_correlation_id = of_nat n, ie_causation_id = None,
      ie_coord = \<lparr>coord_entity = entity, coord_scope = scope\<rparr>, ie_entity_id = 0, ie_scope_id = 0, ie_kind = kind,
      ie_wall_ms = of_nat n, ie_clock = 0, ie_dag_lane = 0, ie_dag_depth = 0,
      ie_hash_chain = \<lparr>prev_hash = [], event_hash = []\<rparr>,
      ie_disk_pos = \<lparr>pos_segment = 1, pos_offset = 0, pos_length = 0\<rparr>,
      ie_global_sequence = of_nat n, ie_receipt_extensions = []\<rparr>"


end
