(* ===== verification/Interner.thy ===== *)
theory Interner
  imports Errors "HOL-Library.List_Lexorder" "HOL-Library.Char_ord"
begin

text \<open>
  The string interner (\<^verbatim>\<open>store/index/interner.rs\<close>): a table of strings with 32-bit identifiers,
  the empty string first. The two locked tables and the counter are one record; every call runs
  under the forward lock, so a call is one state transformer.
\<close>

section \<open>State and operations\<close>

record interner =
  in_forward :: "(string, u32) btree"
  in_reverse :: "string list"
  in_next_id :: u32

definition interner_new :: interner where
  "interner_new = \<lparr>in_forward = bt_insert '''' 0 [], in_reverse = [''''], in_next_id = 1\<rparr>"

text \<open>The counter is checked after both tables hold the string.\<close>

definition intern :: "interner \<Rightarrow> string \<Rightarrow> (StoreError, u32) result \<times> interner" where
  "intern i s =
     (case bt_get (in_forward i) s of
        Some key \<Rightarrow> (Inr key, i)
      | None \<Rightarrow>
          let raw = in_next_id i;
              i1 = i\<lparr>in_forward := bt_insert s raw (in_forward i), in_reverse := in_reverse i @ [s]\<rparr> in
          case checked_add raw 1 of
            None \<Rightarrow> (Inl (InternerExhausted (ucast raw)), i1)
          | Some next_id \<Rightarrow> (Inr raw, i1\<lparr>in_next_id := next_id\<rparr>))"

definition interner_get :: "interner \<Rightarrow> string \<Rightarrow> u32 option" where
  "interner_get i s = bt_get (in_forward i) s"

definition interner_len :: "interner \<Rightarrow> nat" where
  "interner_len i = unat (saturating_sub (in_next_id i) 1)"

definition to_snapshot :: "interner \<Rightarrow> string list" where
  "to_snapshot i = drop 1 (in_reverse i)"

text \<open>The loop of \<^verbatim>\<open>install_snapshot_iter\<close>: the next position, the maps built so far and the rest.\<close>

fun install_loop :: "nat \<Rightarrow> string list \<Rightarrow> (string, u32) btree \<times> string list \<Rightarrow>
  (StoreError, (string, u32) btree \<times> string list) result" where
  "install_loop idx [] tables = Inr tables"
| "install_loop idx (s # ss) (forward_map, reverse) =
     (if idx + 1 \<ge> 2 ^ 32 then Inl (InternerExhausted (of_nat (idx + 1)))
      else install_loop (idx + 1) ss (bt_insert s (of_nat (idx + 1)) forward_map, reverse @ [s]))"

definition install_snapshot_iter :: "interner \<Rightarrow> string list \<Rightarrow> (StoreError, unit) result \<times> interner" where
  "install_snapshot_iter i strings =
     (case install_loop 0 strings (bt_insert '''' 0 [], ['''']) of
        Inl e \<Rightarrow> (Inl e, i)
      | Inr (forward_map, reverse) \<Rightarrow>
          if length reverse \<ge> 2 ^ 32 then (Inl (InternerExhausted (of_nat (length reverse))), i)
          else (Inr (), \<lparr>in_forward = forward_map, in_reverse = reverse, in_next_id = of_nat (length reverse)\<rparr>))"

definition replace_from_full_snapshot :: "interner \<Rightarrow> string list \<Rightarrow> (StoreError, unit) result \<times> interner" where
  "replace_from_full_snapshot i strings = install_snapshot_iter i (drop 1 strings)"

section \<open>The tables are inverse to each other\<close>

definition interner_inv :: "interner \<Rightarrow> bool" where
  "interner_inv i \<longleftrightarrow> bt_wf (in_forward i) \<and> in_reverse i \<noteq> [] \<and> in_reverse i ! 0 = '''' \<and> distinct (in_reverse i) \<and>
     length (in_reverse i) < 2 ^ 32 \<and> in_next_id i = of_nat (length (in_reverse i)) \<and>
     (\<forall>s key. bt_get (in_forward i) s = Some key \<longleftrightarrow> unat key < length (in_reverse i) \<and> in_reverse i ! unat key = s)"

lemma interner_new_inv: "interner_inv interner_new"
  by (auto simp: interner_inv_def interner_new_def unat_eq_0)

lemma forward_None_iff: "interner_inv i \<Longrightarrow> bt_get (in_forward i) s = None \<longleftrightarrow> s \<notin> set (in_reverse i)"
proof -
  assume i: "interner_inv i"
  have "s \<in> set (in_reverse i) \<longleftrightarrow> (\<exists>key :: u32. unat key < length (in_reverse i) \<and> in_reverse i ! unat key = s)"
  proof
    assume "s \<in> set (in_reverse i)"
    then obtain n where n: "n < length (in_reverse i)" "in_reverse i ! n = s" by (auto simp: in_set_conv_nth)
    then have "unat (of_nat n :: u32) = n" using i by (simp add: interner_inv_def unat_of_nat)
    with n show "\<exists>key :: u32. unat key < length (in_reverse i) \<and> in_reverse i ! unat key = s" by metis
  qed auto
  then show ?thesis using i unfolding interner_inv_def by (metis not_None_eq)
qed

lemma intern_known:
  "interner_inv i \<Longrightarrow> bt_get (in_forward i) s = Some key \<Longrightarrow> intern i s = (Inr key, i)"
  by (simp add: intern_def)

lemma intern_fresh:
  assumes inv: "interner_inv i" and fresh: "s \<notin> set (in_reverse i)" and room: "length (in_reverse i) + 1 < 2 ^ 32"
  defines "i' \<equiv> \<lparr>in_forward = bt_insert s (in_next_id i) (in_forward i), in_reverse = in_reverse i @ [s],
    in_next_id = in_next_id i + 1\<rparr>"
  shows "intern i s = (Inr (in_next_id i), i')" and "interner_inv i'"
proof -
  let ?n = "length (in_reverse i)"
  have raw: "unat (in_next_id i) = ?n" using inv room by (simp add: interner_inv_def unat_of_nat)
  have add: "checked_add (in_next_id i) 1 = Some (in_next_id i + 1)"
    using raw room by (simp add: checked_add_def)
  show "intern i s = (Inr (in_next_id i), i')"
    using fresh inv add by (simp add: intern_def forward_None_iff [THEN iffD2] i'_def Let_def)
  have "bt_get (bt_insert s (in_next_id i) (in_forward i)) t = Some key \<longleftrightarrow>
      unat key < ?n + 1 \<and> (in_reverse i @ [s]) ! unat key = t" for t key
  proof (cases "unat key < ?n")
    case True
    then have "bt_get (in_forward i) t = Some key \<longleftrightarrow> in_reverse i ! unat key = t"
      using inv by (simp add: interner_inv_def)
    moreover have "in_reverse i ! unat key \<noteq> s" using True fresh by (metis nth_mem)
    moreover have "key \<noteq> in_next_id i" using True raw by auto
    ultimately show ?thesis using True by (auto simp: nth_append)
  next
    case False
    then have "bt_get (in_forward i) t \<noteq> Some key" using inv by (simp add: interner_inv_def)
    moreover have "unat key < ?n + 1 \<longleftrightarrow> key = in_next_id i"
      using False raw by (auto simp: word_unat_eq_iff)
    ultimately show ?thesis using raw by (auto simp: nth_append)
  qed
  then show "interner_inv i'"
    using inv fresh room unfolding interner_inv_def i'_def by (simp add: nth_append del: bt_get_insert)
qed

lemma forward_eqI:
  assumes "interner_inv i" and "interner_inv j" and "in_reverse i = in_reverse j"
  shows "interner_get i = interner_get j"
proof
  fix s
  have "interner_get i s = Some key \<longleftrightarrow> interner_get j s = Some key" for key
    using assms unfolding interner_inv_def interner_get_def by metis
  then show "interner_get i s = interner_get j s" by (metis not_None_eq)
qed

lemma interner_get_inj:
  "interner_inv i \<Longrightarrow> interner_get i s = Some key \<Longrightarrow> interner_get i t = Some key \<Longrightarrow> t = s"
  unfolding interner_inv_def interner_get_def by metis

lemma install_loop_ok:
  assumes "interner_inv \<lparr>in_forward = f, in_reverse = r, in_next_id = of_nat (length r)\<rparr>"
    and "distinct (r @ ss)" and "length (r @ ss) < 2 ^ 32" and "length r = idx + 1"
  shows "\<exists>f'. install_loop idx ss (f, r) = Inr (f', r @ ss) \<and>
    interner_inv \<lparr>in_forward = f', in_reverse = r @ ss, in_next_id = of_nat (length (r @ ss))\<rparr>"
  using assms
proof (induction ss arbitrary: f r idx)
  case (Cons s ss)
  let ?f = "bt_insert s (of_nat (length r)) f"
  have "interner_inv \<lparr>in_forward = ?f, in_reverse = r @ [s], in_next_id = of_nat (length (r @ [s]))\<rparr>"
    using intern_fresh(2) [OF Cons.prems(1), of s] Cons.prems(2,3) by (simp add: add.commute)
  from Cons.IH [OF this, of "idx + 1"] Cons.prems(2-4) show ?case by auto
qed auto

lemma snapshot_restores:
  assumes "interner_inv i"
  shows "\<exists>j. replace_from_full_snapshot k ('''' # to_snapshot i) = (Inr (), j) \<and> interner_inv j \<and>
    interner_get j = interner_get i \<and> in_reverse j = in_reverse i"
proof -
  have rev: "in_reverse i = '''' # to_snapshot i"
    using assms by (cases "in_reverse i") (auto simp: interner_inv_def to_snapshot_def)
  obtain f' where "install_loop 0 (to_snapshot i) (bt_insert '''' 0 [], ['''']) = Inr (f', in_reverse i)"
    and j: "interner_inv \<lparr>in_forward = f', in_reverse = in_reverse i, in_next_id = of_nat (length (in_reverse i))\<rparr>"
    using install_loop_ok [of "bt_insert '''' 0 []" "['''']" "to_snapshot i" 0] interner_new_inv assms rev
    by (auto simp: interner_new_def interner_inv_def [of i])
  with assms show ?thesis
    using forward_eqI [OF j assms] by (simp add: replace_from_full_snapshot_def install_snapshot_iter_def interner_inv_def [of i])
qed

text \<open>
  Interning is a stable bijection. While the 32-bit counter has room, a string gets an
  identifier that names it and no other string, every identifier given out before keeps its
  string, a string seen before gets its old identifier and changes nothing, and replaying the
  snapshot of the table into any interner gives the same identifiers.
\<close>

theorem intern_exact:
  assumes "interner_inv i" and "length (in_reverse i) + 1 < 2 ^ 32"
  shows "\<exists>key i'. intern i s = (Inr key, i') \<and> interner_inv i' \<and>
    (\<forall>t. interner_get i' t = Some key \<longleftrightarrow> t = s) \<and>
    (\<forall>t k. interner_get i t = Some k \<longrightarrow> interner_get i' t = Some k \<and> (t = s \<longrightarrow> i' = i)) \<and>
    (\<exists>j'. replace_from_full_snapshot j ('''' # to_snapshot i') = (Inr (), j') \<and> interner_get j' = interner_get i')"
proof (cases "bt_get (in_forward i) s")
  case None
  define i' where "i' = \<lparr>in_forward = bt_insert s (in_next_id i) (in_forward i), in_reverse = in_reverse i @ [s],
    in_next_id = in_next_id i + 1\<rparr>"
  have fresh: "s \<notin> set (in_reverse i)" using None assms(1) by (simp add: forward_None_iff)
  have run: "intern i s = (Inr (in_next_id i), i')" and inv: "interner_inv i'"
    unfolding i'_def by (rule intern_fresh [OF assms(1) fresh assms(2)])+
  have get: "interner_get i' t = (if t = s then Some (in_next_id i) else interner_get i t)" for t
    by (simp add: interner_get_def i'_def)
  have "interner_get i' t = Some (in_next_id i) \<longleftrightarrow> t = s" for t
    using interner_get_inj [OF inv, of s "in_next_id i" t] get [of s] by (cases "t = s") auto
  moreover have "interner_get i s = None" using None by (simp add: interner_get_def)
  ultimately show ?thesis
    using run inv get snapshot_restores [OF inv, of j] by (metis option.distinct(1))
next
  case (Some key)
  then have "interner_get i t = Some key \<longleftrightarrow> t = s" for t
    using interner_get_inj [OF assms(1), of s key t] by (auto simp: interner_get_def)
  moreover have "intern i s = (Inr key, i)" using Some by (simp add: intern_def)
  ultimately show ?thesis using snapshot_restores [OF assms(1), of j] assms(1) by metis
qed

theorem intern_exact_witness:
  "\<exists>key i'. intern (snd (intern interner_new ''a'')) ''b'' = (Inr key, i') \<and> interner_get i' ''a'' = Some 1"
proof -
  let ?i = "snd (intern interner_new ''a'')"
  have i: "?i = \<lparr>in_forward = [('''', 0), (''a'', 1)], in_reverse = ['''', ''a''], in_next_id = 2\<rparr>"
    by (simp add: intern_def interner_new_def checked_add_def less_list_code)
  have "interner_inv ?i"
    using intern_fresh [OF interner_new_inv, of "''a''"] by (simp add: interner_new_def)
  then obtain key i' where "intern ?i ''b'' = (Inr key, i')"
    and "\<forall>t k. interner_get ?i t = Some k \<longrightarrow> interner_get i' t = Some k"
    using intern_exact [of ?i "''b''" interner_new] by (auto simp: i)
  moreover have "interner_get ?i ''a'' = Some 1" by (simp add: i interner_get_def)
  ultimately show ?thesis by blast
qed

text \<open>
  The exhausted interner hands one identifier to two strings. With the counter at its
  maximum a new string is refused, but it is stored under the maximal identifier before the
  check, so the next call with it succeeds; a second new string is stored under the same
  identifier, and from then on both intern successfully to it.
\<close>

theorem intern_exhausted_aliases:
  assumes "in_next_id i = 0xFFFFFFFF" and "interner_get i s = None" and "interner_get i t = None" and "s \<noteq> t"
  defines "i2 \<equiv> snd (intern (snd (intern i s)) t)"
  shows "fst (intern i s) = Inl (InternerExhausted (ucast (0xFFFFFFFF :: u32))) \<and>
    fst (intern (snd (intern i s)) t) = Inl (InternerExhausted (ucast (0xFFFFFFFF :: u32))) \<and>
    intern i2 s = (Inr 0xFFFFFFFF, i2) \<and> intern i2 t = (Inr 0xFFFFFFFF, i2)"
proof -
  have "checked_add (0xFFFFFFFF :: u32) 1 = None" by (simp add: checked_add_def)
  then show ?thesis using assms(1-4) by (simp add: i2_def intern_def interner_get_def Let_def)
qed

theorem intern_exhausted_aliases_witness:
  "\<exists>i. fst (intern (snd (intern (snd (intern i ''s'')) ''t'')) ''t'') = Inr 0xFFFFFFFF \<and>
    fst (intern (snd (intern (snd (intern i ''s'')) ''t'')) ''s'') = Inr 0xFFFFFFFF"
  using intern_exhausted_aliases [of "interner_new\<lparr>in_next_id := 0xFFFFFFFF\<rparr>" "''s''" "''t''"]
  by (intro exI [of _ "interner_new\<lparr>in_next_id := 0xFFFFFFFF\<rparr>"]) (simp add: interner_new_def interner_get_def)

end
