(* ===== verification/Index.thy ===== *)
theory Index
  imports Columnar Interner Visibility Idempotency "HOL-Library.Product_Lexorder"
begin

text \<open>
  The store index (\<^verbatim>\<open>store/index/mod.rs\<close>, \<^verbatim>\<open>query.rs\<close>, \<^verbatim>\<open>projection_bridge.rs\<close>): the streams
  per entity, the scan index, the map by event id, the heads per entity and lane, the sequence
  gate, the interner and the idempotency store, with every query over them. The concurrent maps
  are ordered maps: every region query sorts its answer, so their iteration order shows only in
  the rebuild of the scan index after a compaction, where the model takes the order of the ids. A call that takes the swap gate is one atomic transformer. The interning that
  \<^verbatim>\<open>insert_inner\<close> repeats inside debug assertions is left out.
\<close>

section \<open>State\<close>

record index_config =
  cfg_soa :: bool
  cfg_entity_groups :: bool
  cfg_tiles64 :: bool
  cfg_retention :: IdempotencyRetention
  cfg_overflow :: OverflowPolicy

type_synonym stream_map = "(string, (ClockKey, index_entry) btree) btree"

record store_index =
  ix_streams :: stream_map
  ix_scan :: scan_index
  ix_by_id :: "(u128, index_entry) btree"
  ix_latest :: "(u32 \<times> u32, index_entry) btree"
  ix_sequence :: sequence_gate
  ix_len :: nat
  ix_interner :: interner
  ix_idemp :: idemp_store

definition with_config :: "index_config \<Rightarrow> store_index" where
  "with_config config =
     \<lparr>ix_streams = [], ix_scan = scan_for_config (cfg_soa config) (cfg_entity_groups config) (cfg_tiles64 config),
      ix_by_id = [], ix_latest = [], ix_sequence = gate_new, ix_len = 0, ix_interner = interner_new,
      ix_idemp = idemp_new (cfg_retention config) (cfg_overflow config)\<rparr>"

definition lane_visible_from_entries :: "index_entry list \<Rightarrow> (u32, u64) btree" where
  "lane_visible_from_entries es =
     foldl (\<lambda>lanes e.
       let visible = saturating_add (ie_global_sequence e) 1 in
       bt_update (ie_dag_lane e) visible (\<lambda>current. max current visible) lanes) [] es"

section \<open>Insertion\<close>

definition index_reserve_sequences :: "store_index \<Rightarrow> u64 \<Rightarrow> u64 \<times> store_index" where
  "index_reserve_sequences s n =
     (case reserve (ix_sequence s) n of (start, g) \<Rightarrow> (start, s\<lparr>ix_sequence := g\<rparr>))"

definition insert_inner :: "store_index \<Rightarrow> index_entry \<Rightarrow> store_index" where
  "insert_inner s e =
     s\<lparr>ix_streams := bt_update (entity_of e) [] (bt_insert (clock_key e) e) (ix_streams s),
       ix_scan := scan_insert (ix_scan s) e,
       ix_by_id := bt_insert (ie_event_id e) e (ix_by_id s),
       ix_latest := bt_insert (ie_entity_id e, ie_dag_lane e) e (ix_latest s),
       ix_len := ix_len s + 1\<rparr>"

definition index_insert :: "store_index \<Rightarrow> index_entry \<Rightarrow> store_index" where
  "index_insert s e = (let s' = insert_inner s e in s'\<lparr>ix_sequence := advance (ix_sequence s')\<rparr>)"

definition insert_batch :: "store_index \<Rightarrow> index_entry list \<Rightarrow> store_index" where
  "insert_batch s es = (if es = [] then s else foldl insert_inner s es)"

section \<open>The gate and the idempotency store behind the index\<close>

definition index_global_sequence :: "store_index \<Rightarrow> u64" where
  "index_global_sequence s = allocated (ix_sequence s)"

definition index_publish :: "store_index \<Rightarrow> u64 \<Rightarrow> string \<Rightarrow> (StoreError, store_index) result" where
  "index_publish s up_to operation =
     bind_result (publish (ix_sequence s) up_to operation) (\<lambda>g. Inr (s\<lparr>ix_sequence := g\<rparr>))"

definition index_publish_on_lanes ::
  "store_index \<Rightarrow> u64 \<Rightarrow> (u32 \<times> u64) list \<Rightarrow> string \<Rightarrow> (StoreError, store_index) result" where
  "index_publish_on_lanes s global_up_to lanes operation =
     bind_result (publish_on_lanes (ix_sequence s) global_up_to lanes operation) (\<lambda>g. Inr (s\<lparr>ix_sequence := g\<rparr>))"

definition index_note_fence_progress :: "store_index \<Rightarrow> u64 \<Rightarrow> u64 \<Rightarrow> u64 \<Rightarrow> (StoreError, store_index) result" where
  "index_note_fence_progress s token start end =
     bind_result (note_fence_progress (ix_sequence s) token start end) (\<lambda>g. Inr (s\<lparr>ix_sequence := g\<rparr>))"

definition index_finish_fence_on_lanes ::
  "store_index \<Rightarrow> u64 \<Rightarrow> u64 option \<Rightarrow> (u32 \<times> u64) list \<Rightarrow> (StoreError, store_index) result" where
  "index_finish_fence_on_lanes s token publish_to lanes =
     bind_result (finish_fence_on_lanes (ix_sequence s) token publish_to lanes) (\<lambda>g. Inr (s\<lparr>ix_sequence := g\<rparr>))"

definition fenced_lane_ranges :: "store_index \<Rightarrow> (u32, ranges) btree" where
  "fenced_lane_ranges s =
     (case active_fence_range (ix_sequence s) of
        None \<Rightarrow> []
      | Some (start, end) \<Rightarrow>
          foldl (\<lambda>lanes (_, e).
            if ie_global_sequence e \<ge> start \<and> ie_global_sequence e < end
            then bt_update (ie_dag_lane e) []
              (\<lambda>rs. rs @ [(ie_global_sequence e, saturating_add (ie_global_sequence e) 1)]) lanes
            else lanes) [] (ix_by_id s))"

definition cancel_visibility_fence :: "store_index \<Rightarrow> u64 \<Rightarrow> (StoreError, store_index) result" where
  "cancel_visibility_fence s token =
     bind_result (cancel_fence (ix_sequence s) token (fenced_lane_ranges s)) (\<lambda>g. Inr (s\<lparr>ix_sequence := g\<rparr>))"

definition mark_idemp_evicted_against_live :: "store_index \<Rightarrow> store_index" where
  "mark_idemp_evicted_against_live s =
     s\<lparr>ix_idemp := mark_evicted (ix_idemp s) (\<lambda>event_id. bt_get (ix_by_id s) event_id \<noteq> None)\<rparr>"

section \<open>Point queries\<close>

definition all_entries :: "store_index \<Rightarrow> index_entry list" where
  "all_entries s = map snd (ix_by_id s)"

definition visible_entries :: "store_index \<Rightarrow> index_entry list" where
  "visible_entries s =
     (let visibility = snapshot (ix_sequence s) in
      map snd (filter (\<lambda>(_, e). is_visible_on_lane visibility (ie_global_sequence e) (ie_dag_lane e)) (ix_by_id s)))"

definition hlc_for_global_sequence :: "store_index \<Rightarrow> u64 \<Rightarrow> HlcPoint option" where
  "hlc_for_global_sequence s sequence =
     map_option (\<lambda>(_, e). HlcPoint (ie_wall_ms e) sequence)
       (List.find (\<lambda>(_, e). ie_global_sequence e = sequence) (ix_by_id s))"

definition option_filter :: "('a \<Rightarrow> bool) \<Rightarrow> 'a option \<Rightarrow> 'a option" where
  "option_filter P x = (case x of None \<Rightarrow> None | Some a \<Rightarrow> if P a then Some a else None)"

definition get_by_id :: "store_index \<Rightarrow> u128 \<Rightarrow> index_entry option" where
  "get_by_id s event_id =
     (let visibility = snapshot (ix_sequence s) in
      option_filter (\<lambda>e. is_visible visibility (ie_global_sequence e)) (bt_get (ix_by_id s) event_id))"

definition upgrade_hit_with_visibility :: "store_index \<Rightarrow> visibility_snapshot \<Rightarrow> query_hit \<Rightarrow> index_entry option" where
  "upgrade_hit_with_visibility s visibility hit =
     option_filter (\<lambda>e. is_visible visibility (ie_global_sequence e)) (bt_get (ix_by_id s) (qh_event_id hit))"

definition upgrade_hit :: "store_index \<Rightarrow> query_hit \<Rightarrow> index_entry option" where
  "upgrade_hit s hit = upgrade_hit_with_visibility s (snapshot (ix_sequence s)) hit"

definition upgrade_hit_visible_on_lane ::
  "store_index \<Rightarrow> visibility_snapshot \<Rightarrow> query_hit \<Rightarrow> index_entry option" where
  "upgrade_hit_visible_on_lane s visibility hit =
     option_filter (\<lambda>e. is_visible_on_lane visibility (ie_global_sequence e) (ie_dag_lane e))
       (upgrade_hit_with_visibility s visibility hit)"

definition get_latest_committed :: "store_index \<Rightarrow> string \<Rightarrow> u32 \<Rightarrow> index_entry option" where
  "get_latest_committed s entity lane =
     (case interner_get (ix_interner s) entity of
        None \<Rightarrow> None
      | Some entity_id \<Rightarrow> bt_get (ix_latest s) (entity_id, lane))"

definition get_latest :: "store_index \<Rightarrow> string \<Rightarrow> u32 \<Rightarrow> index_entry option" where
  "get_latest s entity lane =
     (let visibility = snapshot (ix_sequence s) in
      case interner_get (ix_interner s) entity of
        None \<Rightarrow> None
      | Some entity_id \<Rightarrow>
          option_filter (\<lambda>e. is_visible_on_lane visibility (ie_global_sequence e) lane)
            (bt_get (ix_latest s) (entity_id, lane)))"

definition extend_visible_entries :: "index_entry list \<Rightarrow> visibility_snapshot \<Rightarrow> index_entry list" where
  "extend_visible_entries es visibility = filter (\<lambda>e. is_visible visibility (ie_global_sequence e)) es"

definition stream :: "store_index \<Rightarrow> string \<Rightarrow> index_entry list" where
  "stream s entity =
     (case bt_get (ix_streams s) entity of
        None \<Rightarrow> []
      | Some m \<Rightarrow> extend_visible_entries (map snd m) (snapshot (ix_sequence s)))"

definition stream_lane :: "store_index \<Rightarrow> string \<Rightarrow> u32 \<Rightarrow> index_entry list" where
  "stream_lane s entity lane =
     (let visibility = snapshot (ix_sequence s) in
      case bt_get (ix_streams s) entity of
        None \<Rightarrow> []
      | Some m \<Rightarrow> filter (\<lambda>e. ie_dag_lane e = lane \<and> is_visible_on_lane visibility (ie_global_sequence e) lane) (map snd m))"

section \<open>Region queries\<close>

definition stream_hits_matching :: "store_index \<Rightarrow> region \<Rightarrow> (index_entry \<Rightarrow> bool) \<Rightarrow> query_hit list" where
  "stream_hits_matching s region include_entry =
     concat (map (\<lambda>(_, m). map query_hit_from_entry (filter include_entry (map snd m)))
       (filter (\<lambda>(entity, _). matches_entity region entity) (ix_streams s)))"

definition all_stream_hits_where :: "store_index \<Rightarrow> (index_entry \<Rightarrow> bool) \<Rightarrow> query_hit list" where
  "all_stream_hits_where s include_entry =
     concat (map (\<lambda>(_, m). map query_hit_from_entry (filter include_entry (map snd m))) (ix_streams s))"

definition query_candidate_hits :: "store_index \<Rightarrow> region \<Rightarrow> (index_entry \<Rightarrow> bool) \<Rightarrow> query_hit list" where
  "query_candidate_hits s region include_entry =
     (if rg_entity_prefix region \<noteq> None then stream_hits_matching s region include_entry
      else case rg_scope region of
        Some scope \<Rightarrow>
          let scan_hits = scan_hits_by_scope (ix_scan s) scope in
          if scan_hits \<noteq> [] then scan_hits
          else (case scope_entity_set (ix_scan s) scope of
              None \<Rightarrow> []
            | Some entities \<Rightarrow>
                concat (map (\<lambda>entity. case bt_get (ix_streams s) entity of
                  None \<Rightarrow> []
                | Some m \<Rightarrow> map query_hit_from_entry (filter include_entry (map snd m))) entities))
      | None \<Rightarrow>
          (case rg_fact region of
             Some (Exact k) \<Rightarrow> scan_hits_by_kind (ix_scan s) k
           | Some (Category c) \<Rightarrow> scan_hits_by_category (ix_scan s) c
           | Some Any \<Rightarrow> all_stream_hits_where s include_entry
           | None \<Rightarrow> all_stream_hits_where s include_entry))"

definition region_hit_ok :: "store_index \<Rightarrow> region \<Rightarrow> visibility_snapshot \<Rightarrow> query_hit \<Rightarrow> bool" where
  "region_hit_ok s region visibility h =
     (if (case rg_lane region of
            Some lane \<Rightarrow> qh_dag_lane h \<noteq> lane \<or> \<not> is_visible_on_lane visibility (qh_global_sequence h) lane
          | None \<Rightarrow> \<not> is_visible visibility (qh_global_sequence h)) then False
      else if (case rg_scope region of
            Some scope \<Rightarrow>
              (case bt_get (ix_by_id s) (qh_event_id h) of Some e \<Rightarrow> scope_of e \<noteq> scope | None \<Rightarrow> True)
          | None \<Rightarrow> False) then False
      else if (case rg_fact region of
            Some (Exact k) \<Rightarrow> qh_kind h \<noteq> k
          | Some (Category c) \<Rightarrow> category (qh_kind h) \<noteq> c
          | Some Any \<Rightarrow> False
          | None \<Rightarrow> False) then False
      else (case rg_clock_range region of
            Some cr \<Rightarrow> \<not> (qh_clock h < cr_start cr \<or> qh_clock h > cr_end cr)
          | None \<Rightarrow> True))"

definition filter_region_hits ::
  "store_index \<Rightarrow> region \<Rightarrow> visibility_snapshot \<Rightarrow> query_hit list \<Rightarrow> query_hit list" where
  "filter_region_hits s region visibility hits = filter (region_hit_ok s region visibility) hits"

definition query_hits_with_visibility :: "store_index \<Rightarrow> region \<Rightarrow> visibility_snapshot \<Rightarrow> query_hit list" where
  "query_hits_with_visibility s region visibility =
     by_sequence (filter_region_hits s region visibility (query_candidate_hits s region (\<lambda>_. True)))"

definition query_hits_with_snapshot :: "store_index \<Rightarrow> region \<Rightarrow> query_hit list \<times> visibility_snapshot" where
  "query_hits_with_snapshot s region =
     (let visibility = snapshot (ix_sequence s) in (query_hits_with_visibility s region visibility, visibility))"

definition query :: "store_index \<Rightarrow> region \<Rightarrow> index_entry list" where
  "query s region =
     (case query_hits_with_snapshot s region of
        (hits, visibility) \<Rightarrow> List.map_filter (upgrade_hit_with_visibility s visibility) hits)"

section \<open>Pages\<close>

text \<open>
  The buffer of \<^verbatim>\<open>query_any_hits_after\<close> is sorted and cut to the page size whenever it reaches
  the threshold. Lengths are machine words of 64 bits: the threshold saturates.
\<close>

definition trim_threshold :: "nat \<Rightarrow> nat" where
  "trim_threshold limit = min (max (min (limit * 2) (2 ^ 64 - 1)) (min (limit + 1) (2 ^ 64 - 1))) (2 ^ 20)"

definition trim :: "nat \<Rightarrow> query_hit list \<Rightarrow> query_hit list" where
  "trim limit buf = take limit (by_sequence buf)"

definition any_hit_ok :: "region \<Rightarrow> visibility_snapshot \<Rightarrow> (u64 \<Rightarrow> bool) \<Rightarrow> index_entry \<Rightarrow> bool" where
  "any_hit_ok region visibility seq_ok e =
     (if \<not> seq_ok (ie_global_sequence e) then False
      else if (case rg_lane region of
            Some lane \<Rightarrow> ie_dag_lane e \<noteq> lane \<or> \<not> is_visible_on_lane visibility (ie_global_sequence e) lane
          | None \<Rightarrow> \<not> is_visible visibility (ie_global_sequence e)) then False
      else (case rg_clock_range region of
            Some cr \<Rightarrow> \<not> (ie_clock e < cr_start cr \<or> ie_clock e > cr_end cr)
          | None \<Rightarrow> True))"

definition any_push :: "(index_entry \<Rightarrow> bool) \<Rightarrow> nat \<Rightarrow> query_hit list \<Rightarrow> index_entry \<Rightarrow> query_hit list" where
  "any_push ok limit buf e =
     (if \<not> ok e then buf
      else let buf' = buf @ [query_hit_from_entry e] in
        if length buf' \<ge> trim_threshold limit then trim limit buf' else buf')"

definition query_any_hits_after ::
  "store_index \<Rightarrow> region \<Rightarrow> visibility_snapshot \<Rightarrow> (u64 \<Rightarrow> bool) \<Rightarrow> nat \<Rightarrow> query_hit list" where
  "query_any_hits_after s region visibility seq_ok limit =
     trim limit (foldl (\<lambda>buf (_, m). foldl (any_push (any_hit_ok region visibility seq_ok) limit) buf (map snd m))
       [] (ix_streams s))"

definition query_hits_after :: "store_index \<Rightarrow> region \<Rightarrow> u64 \<Rightarrow> bool \<Rightarrow> nat \<Rightarrow> query_hit list" where
  "query_hits_after s region after_seq started limit =
     (let visibility = snapshot (ix_sequence s); seq_ok = (\<lambda>seq. \<not> started \<or> seq > after_seq) in
      if rg_entity_prefix region = None \<and> rg_scope region = None \<and> rg_fact region = Some Any
      then query_any_hits_after s region visibility seq_ok limit
      else
        let hits = filter_region_hits s region visibility
              (query_candidate_hits s region (\<lambda>e. seq_ok (ie_global_sequence e)));
            hits' = (if started then filter (\<lambda>h. qh_global_sequence h > after_seq) hits else hits) in
        take limit (by_sequence hits'))"

section \<open>Projection plans\<close>

record projection_replay_item =
  ri_global_sequence :: u64
  ri_lane :: u32
  ri_point :: HlcPoint
  ri_disk_pos :: disk_pos

record projection_replay_plan_data =
  pl_watermark :: u64
  pl_generation :: u64
  pl_items :: "projection_replay_item list"

definition replay_item_from_entry :: "index_entry \<Rightarrow> projection_replay_item" where
  "replay_item_from_entry e =
     \<lparr>ri_global_sequence = ie_global_sequence e, ri_lane = ie_dag_lane e,
      ri_point = HlcPoint (ie_wall_ms e) (ie_global_sequence e), ri_disk_pos = ie_disk_pos e\<rparr>"

definition index_entity_generation :: "store_index \<Rightarrow> string \<Rightarrow> u64 option" where
  "index_entity_generation s entity =
     (case scan_entity_generation (ix_scan s) entity of
        Some g \<Rightarrow> Some g
      | None \<Rightarrow> map_option (\<lambda>m. of_nat (length m)) (bt_get (ix_streams s) entity))"

definition index_store_cached_projection ::
  "store_index \<Rightarrow> string \<Rightarrow> nat \<Rightarrow> bytes \<Rightarrow> u64 \<Rightarrow> ProjectionCacheStoreStatus \<times> store_index" where
  "index_store_cached_projection s entity tid bs watermark =
     (case scan_store_cached_projection (ix_scan s) entity tid bs watermark of
        (status, scan) \<Rightarrow> (status, s\<lparr>ix_scan := scan\<rparr>))"

definition stream_replay :: "visibility_snapshot \<Rightarrow> EventKind list \<Rightarrow> index_entry list \<Rightarrow>
  u64 option \<times> projection_replay_item list" where
  "stream_replay visibility relevant_kinds es =
     foldl (\<lambda>(watermark, items) e.
       if \<not> projection_kind_matches relevant_kinds (ie_kind e) then (watermark, items)
       else if \<not> is_visible_on_lane visibility (ie_global_sequence e) (ie_dag_lane e)
         then (Some (ie_global_sequence e), items)
       else (Some (ie_global_sequence e), items @ [replay_item_from_entry e])) (None, []) es"

definition projection_replay_plan ::
  "store_index \<Rightarrow> string \<Rightarrow> EventKind list \<Rightarrow> projection_replay_plan_data option" where
  "projection_replay_plan s entity relevant_kinds =
     (let visibility = snapshot (ix_sequence s) in
      case scan_projection_candidates (ix_scan s) entity relevant_kinds of
        Some (watermark, generation, hits) \<Rightarrow>
          Some \<lparr>pl_watermark = watermark, pl_generation = generation,
            pl_items = map replay_item_from_entry (List.map_filter (upgrade_hit_visible_on_lane s visibility) hits)\<rparr>
      | None \<Rightarrow>
          (case bt_get (ix_streams s) entity of
             None \<Rightarrow> None
           | Some m \<Rightarrow>
               (case stream_replay visibility relevant_kinds (map snd m) of
                  (None, _) \<Rightarrow> None
                | (Some watermark, items) \<Rightarrow>
                    Some \<lparr>pl_watermark = watermark, pl_generation = of_nat (length m), pl_items = items\<rparr>)))"

section \<open>Swapping in a rebuilt index\<close>

definition replace_contents_from_fresh :: "store_index \<Rightarrow> store_index \<Rightarrow> (StoreError, unit) result \<times> store_index" where
  "replace_contents_from_fresh s fresh =
     (let s1 = s\<lparr>ix_streams := [], ix_scan := scan_clear (ix_scan s), ix_by_id := [], ix_latest := [],
            ix_sequence := gate_clear (ix_sequence s), ix_len := 0\<rparr>;
          interner_full = [] # to_snapshot (ix_interner fresh) in
      case replace_from_full_snapshot (ix_interner s1) interner_full of
        (Inl e, i) \<Rightarrow> (Inl e, s1\<lparr>ix_interner := i\<rparr>)
      | (Inr _, i) \<Rightarrow>
          let s2 = s1\<lparr>ix_interner := i, ix_streams := bt_collect (ix_streams fresh),
                ix_by_id := bt_collect (ix_by_id fresh), ix_latest := bt_collect (ix_latest fresh)\<rparr>;
              s3 = s2\<lparr>ix_scan := foldl scan_insert (ix_scan s2) (map snd (ix_by_id s2)),
                ix_sequence := restore_allocator (ix_sequence s2) (allocated (ix_sequence fresh))\<rparr> in
          case publish (ix_sequence s3) (visible (ix_sequence fresh)) ''replace_contents_from_fresh'' of
            Inl e \<Rightarrow> (Inl e, s3)
          | Inr g \<Rightarrow>
              (Inr (), s3\<lparr>ix_sequence := restore_cancelled_ranges (restore_lane_visible g (lane_visible (ix_sequence fresh)))
                  (cancelled_ranges_snapshot (ix_sequence fresh)),
                ix_len := length (ix_by_id s3)\<rparr>))"

section \<open>What the index holds\<close>

text \<open>
  \<open>index_holds es s\<close>: the index was built from the entries \<open>es\<close>, in this order, with distinct
  ids and sequence numbers and interned entities.
\<close>

definition index_holds :: "index_entry list \<Rightarrow> store_index \<Rightarrow> bool" where
  "index_holds es s \<longleftrightarrow> distinct (map ie_event_id es) \<and> distinct (map ie_global_sequence es) \<and>
     scan_holds es (ix_scan s) \<and> grouped (\<lambda>e. entity_of e) es (ix_streams s) \<and>
     bt_wf (ix_by_id s) \<and> (\<forall>i e. bt_get (ix_by_id s) i = Some e \<longleftrightarrow> e \<in> set es \<and> ie_event_id e = i) \<and>
     ix_len s = length es"

lemma with_config_holds: "index_holds [] (with_config config)"
  by (simp add: index_holds_def with_config_def scan_holds_new)

lemma clock_key_fresh: "ie_event_id e \<notin> ie_event_id ` set es \<Longrightarrow> clock_key e \<notin> clock_key ` set es"
  by (auto simp: clock_key_def)

lemma insert_inner_holds:
  assumes s: "index_holds es s"
    and e: "ie_event_id e \<notin> ie_event_id ` set es" "ie_global_sequence e \<notin> ie_global_sequence ` set es"
  shows "index_holds (es @ [e]) (insert_inner s e)"
proof -
  have by_id: "bt_get (bt_insert (ie_event_id e) e (ix_by_id s)) i = Some d \<longleftrightarrow>
      d \<in> set (es @ [e]) \<and> ie_event_id d = i" for i d
    using s e(1) unfolding index_holds_def image_iff by auto
  have "grouped (\<lambda>e. entity_of e) (es @ [e]) (bt_update (entity_of e) [] (bt_insert (clock_key e) e) (ix_streams s))"
    using grouped_insert [where key = "\<lambda>e. entity_of e", of es "ix_streams s" e] s e(1)
    by (simp add: index_holds_def clock_key_fresh)
  then show ?thesis
    using s e by_id unfolding index_holds_def insert_inner_def
    by (simp add: scan_holds_insert clock_key_fresh del: bt_get_insert)
qed

lemma index_holds_sequence [simp]: "index_holds es (s\<lparr>ix_sequence := g\<rparr>) = index_holds es s"
  by (simp add: index_holds_def)

lemma index_insert_holds:
  "index_holds es s \<Longrightarrow> ie_event_id e \<notin> ie_event_id ` set es \<Longrightarrow> ie_global_sequence e \<notin> ie_global_sequence ` set es \<Longrightarrow>
   index_holds (es @ [e]) (index_insert s e)"
  by (simp add: index_insert_def Let_def insert_inner_holds)

lemma insert_batch_holds:
  "index_holds es s \<Longrightarrow> distinct (map ie_event_id (es @ ds)) \<Longrightarrow> distinct (map ie_global_sequence (es @ ds)) \<Longrightarrow>
   index_holds (es @ ds) (insert_batch s ds)"
proof -
  have "index_holds es s \<Longrightarrow> distinct (map ie_event_id (es @ ds)) \<Longrightarrow> distinct (map ie_global_sequence (es @ ds)) \<Longrightarrow>
      index_holds (es @ ds) (foldl insert_inner s ds)"
  proof (induction ds arbitrary: es s)
    case (Cons d ds)
    from Cons.prems have "index_holds (es @ [d]) (insert_inner s d)"
      by (intro insert_inner_holds) (auto simp: image_iff)
    from Cons.IH [OF this] Cons.prems show ?case by simp
  qed simp
  then show "index_holds es s \<Longrightarrow> distinct (map ie_event_id (es @ ds)) \<Longrightarrow> distinct (map ie_global_sequence (es @ ds)) \<Longrightarrow> ?thesis"
    by (simp add: insert_batch_def)
qed

lemma cached_projection_holds:
  "index_holds es s \<Longrightarrow> index_holds es (snd (index_store_cached_projection s entity tid bs watermark))"
  using scan_holds_cached [of es "ix_scan s" entity tid bs watermark]
  by (auto simp: index_store_cached_projection_def index_holds_def split: prod.splits)

section \<open>Queries are exact\<close>

text \<open>Which entries a region selects, by the matching that subscriptions use.\<close>

definition in_clock_range :: "region \<Rightarrow> u32 \<Rightarrow> bool" where
  "in_clock_range region clock =
     (case rg_clock_range region of None \<Rightarrow> True | Some cr \<Rightarrow> cr_start cr \<le> clock \<and> clock \<le> cr_end cr)"

definition region_selects :: "region \<Rightarrow> index_entry \<Rightarrow> bool" where
  "region_selects region e \<longleftrightarrow>
     matches_event_on_lane region (entity_of e) (scope_of e) (ie_kind e) (Some (ie_dag_lane e)) \<and>
     in_clock_range region (ie_clock e)"

definition region_visible :: "region \<Rightarrow> visibility_snapshot \<Rightarrow> index_entry \<Rightarrow> bool" where
  "region_visible region visibility e =
     (case rg_lane region of
        None \<Rightarrow> is_visible visibility (ie_global_sequence e)
      | Some lane \<Rightarrow> is_visible_on_lane visibility (ie_global_sequence e) lane)"

lemma by_id_get: "index_holds es s \<Longrightarrow> e \<in> set es \<Longrightarrow> bt_get (ix_by_id s) (ie_event_id e) = Some e"
  by (simp add: index_holds_def)

lemma region_hit_ok_entry:
  assumes "index_holds es s" and "e \<in> set es"
  shows "region_hit_ok s region visibility (query_hit_from_entry e) \<and> matches_entity region (entity_of e) \<longleftrightarrow>
    region_selects region e \<and> region_visible region visibility e"
proof -
  show ?thesis
    using by_id_get [OF assms]
    by (auto simp: region_hit_ok_def query_hit_from_entry_def region_selects_def region_visible_def
        matches_event_on_lane_def in_clock_range_def not_less split: option.splits KindFilter.splits)
qed

text \<open>
  Candidates are the hits of some entries, among them every entry that the region selects and
  the caller's filter admits; where the caller filters by sequence, it filters the hits again.
\<close>

lemma mset_filter_cong: "mset xs = mset ys \<Longrightarrow> mset (map f (filter P xs)) = mset (map f (filter P ys))"
  by simp

lemma stream_hits:
  assumes "index_holds es s"
  shows "mset (stream_hits_matching s region ok) =
      mset (map query_hit_from_entry (filter (\<lambda>e. ok e \<and> matches_entity region (entity_of e)) es))"
    and "mset (all_stream_hits_where s ok) = mset (map query_hit_from_entry (filter ok es))"
proof -
  have hits: "concat (map (\<lambda>(_, m). map query_hit_from_entry (filter ok (map snd m))) L) =
      map query_hit_from_entry (filter ok (concat (map (\<lambda>(_, m). map snd m) L)))"
    for L :: "(string \<times> (ClockKey, index_entry) btree) list"
    by (simp add: filter_concat map_concat comp_def split_def)
  have M: "grouped (\<lambda>e. entity_of e) es (ix_streams s)" using assms by (simp add: index_holds_def)
  show "mset (stream_hits_matching s region ok) =
      mset (map query_hit_from_entry (filter (\<lambda>e. ok e \<and> matches_entity region (entity_of e)) es))"
    unfolding stream_hits_matching_def hits
    using mset_filter_cong [OF grouped_concat [OF M, of "matches_entity region"], of query_hit_from_entry ok]
    by (simp only: filter_filter conj_commute)
  show "mset (all_stream_hits_where s ok) = mset (map query_hit_from_entry (filter ok es))"
    unfolding all_stream_hits_where_def hits
    using grouped_concat [OF M, of "\<lambda>_. True"] by (simp add: split_def)
qed

lemma scope_stream_hits:
  assumes s: "index_holds es s" and L: "distinct L"
  shows "mset (concat (map (\<lambda>n. case bt_get (ix_streams s) n of
      None \<Rightarrow> [] | Some m \<Rightarrow> map query_hit_from_entry (filter ok (map snd m))) L)) =
    mset (map query_hit_from_entry (filter (\<lambda>e. entity_of e \<in> set L \<and> ok e) es))"
proof -
  let ?b = "\<lambda>n. case bt_get (ix_streams s) n of None \<Rightarrow> [] | Some m \<Rightarrow> map snd m"
  have "(case bt_get (ix_streams s) n of None \<Rightarrow> [] | Some m \<Rightarrow> map query_hit_from_entry (filter ok (map snd m))) =
      map query_hit_from_entry (filter ok (?b n))" for n
    by (cases "bt_get (ix_streams s) n") simp_all
  then have "mset (concat (map (\<lambda>n. case bt_get (ix_streams s) n of
      None \<Rightarrow> [] | Some m \<Rightarrow> map query_hit_from_entry (filter ok (map snd m))) L)) =
      mset (map query_hit_from_entry (filter ok (concat (map ?b L))))"
    by (simp add: map_concat filter_concat comp_def)
  also have "mset (concat (map ?b L)) = mset (concat (map (\<lambda>n. filter (\<lambda>e. entity_of e = n) es) L))"
  proof -
    have "mset (?b n) = mset (filter (\<lambda>e. entity_of e = n) es)" for n
      using s by (intro grouped_get) (simp add: index_holds_def)
    then show ?thesis by (induction L) simp_all
  qed
  then have "mset (map query_hit_from_entry (filter ok (concat (map ?b L)))) =
      mset (map query_hit_from_entry (filter ok (filter (\<lambda>e. entity_of e \<in> set L) es)))"
    using L by (intro mset_filter_cong) (simp only: mset_partition)
  finally show ?thesis by (simp only: filter_filter)
qed

definition covers :: "region \<Rightarrow> (index_entry \<Rightarrow> bool) \<Rightarrow> index_entry list \<Rightarrow> query_hit list \<Rightarrow> bool" where
  "covers region ok es hits \<longleftrightarrow>
     (\<exists>P. mset hits = mset (map query_hit_from_entry (filter P es)) \<and>
        (\<forall>e \<in> set es. region_selects region e \<and> ok e \<longrightarrow> P e) \<and> (\<forall>e \<in> set es. P e \<longrightarrow> matches_entity region (entity_of e)))"

lemma coversI:
  "mset hits = mset (map query_hit_from_entry (filter P es)) \<Longrightarrow> (\<And>e. region_selects region e \<Longrightarrow> ok e \<Longrightarrow> P e) \<Longrightarrow>
   (\<And>e. P e \<Longrightarrow> matches_entity region (entity_of e)) \<Longrightarrow> covers region ok es hits"
  unfolding covers_def by blast

lemma selects_scope_refl: "e \<in> set es \<Longrightarrow> selects es (ScopeQuery (scope_of e)) e"
  by (auto simp: selects_def)

lemma scope_candidates_cover:
  assumes s: "index_holds es s" and region: "rg_entity_prefix region = None" "rg_scope region = Some scope"
  shows "covers region ok es (query_candidate_hits s region ok)"
proof (cases "scan_hits_by_scope (ix_scan s) scope = []")
  case False
  have "scan_hits_by_scope (ix_scan s) scope =
      by_sequence (map query_hit_from_entry (filter (selects es (ScopeQuery scope)) es))"
    using scope_hits_exact [of es "ix_scan s" scope] s False by (auto simp: index_holds_def split: if_splits)
  then have "mset (query_candidate_hits s region ok) = mset (map query_hit_from_entry (filter (selects es (ScopeQuery scope)) es))"
    using False region by (simp add: query_candidate_hits_def)
  moreover have "selects es (ScopeQuery scope) e" if "e \<in> set es" "region_selects region e" for e
    using that region selects_scope_refl [of e es]
    by (auto simp: region_selects_def matches_event_on_lane_def split: if_splits)
  ultimately show ?thesis using region unfolding covers_def matches_entity_def by auto
next
  case True
  show ?thesis
  proof (cases "bt_get (foldl note_scope [] es) scope")
    case None
    then have "\<forall>e \<in> set es. \<not> region_selects region e"
      using scope_map_get [of es scope] region
      by (auto simp: region_selects_def matches_event_on_lane_def split: if_splits)
    with None True s region show ?thesis
      by (auto simp: covers_def query_candidate_hits_def scope_entity_set_def index_holds_def scan_holds_def
          intro!: exI [of _ "\<lambda>_. False"])
  next
    case (Some L)
    then have L: "distinct L" "set L = entity_of ` {e \<in> set es. scope_of e = scope}"
      using scope_map_get [of es scope] by simp_all
    have "mset (query_candidate_hits s region ok) =
        mset (map query_hit_from_entry (filter (\<lambda>e. entity_of e \<in> set L \<and> ok e) es))"
      using scope_stream_hits [OF s L(1), of ok] Some True s region
      by (simp add: query_candidate_hits_def scope_entity_set_def index_holds_def scan_holds_def)
    moreover have "entity_of e \<in> set L" if "e \<in> set es" "region_selects region e" for e
      using that region unfolding L(2) by (auto simp: region_selects_def matches_event_on_lane_def split: if_splits)
    ultimately show ?thesis using region unfolding covers_def matches_entity_def by auto
  qed
qed

lemma candidates_cover:
  assumes s: "index_holds es s"
  shows "covers region ok es (query_candidate_hits s region ok)"
proof (cases "rg_entity_prefix region")
  case (Some pfx)
  then show ?thesis
    using stream_hits(1) [OF s, of region ok]
    by (intro coversI [where P = "\<lambda>e. ok e \<and> matches_entity region (entity_of e)"])
      (auto simp: query_candidate_hits_def region_selects_def matches_event_on_lane_def split: if_splits)
next
  case entity: None
  have all: "matches_entity region n" for n using entity by (simp add: matches_entity_def)
  show ?thesis
  proof (cases "rg_scope region")
    case (Some scope)
    with s entity show ?thesis by (rule scope_candidates_cover)
  next
    case None
    have kinds: "scan_hits_by_kind (ix_scan s) k = by_sequence (map query_hit_from_entry (filter (\<lambda>e. ie_kind e = k) es))"
      "scan_hits_by_category (ix_scan s) c = by_sequence (map query_hit_from_entry (filter (\<lambda>e. category (ie_kind e) = c) es))"
      for k c using s by (simp_all add: kind_hits_exact index_holds_def)
    show ?thesis
    proof (cases "rg_fact region")
      case None
      with entity \<open>rg_scope region = None\<close> show ?thesis
        using stream_hits(2) [OF s, of ok] all by (intro coversI [where P = ok]) (simp_all add: query_candidate_hits_def)
    next
      case (Some f)
      with entity \<open>rg_scope region = None\<close> show ?thesis
        using stream_hits(2) [OF s, of ok] all kinds
        by (intro coversI [where P = "\<lambda>e. case f of Exact k \<Rightarrow> ie_kind e = k | Category c \<Rightarrow> category (ie_kind e) = c | Any \<Rightarrow> ok e"])
          (auto simp: query_candidate_hits_def region_selects_def matches_event_on_lane_def split: KindFilter.splits if_splits)
    qed
  qed
qed

lemma sort_key_map: "sort_key f (map g xs) = map g (sort_key (\<lambda>x. f (g x)) xs)"
proof (induction xs)
  case (Cons x xs)
  have "insort_key f (g x) (map g ys) = map g (insort_key (\<lambda>x. f (g x)) x ys)" for ys by (induction ys) simp_all
  with Cons show ?case by simp
qed simp

lemma hit_sequence [simp]: "qh_global_sequence (query_hit_from_entry e) = ie_global_sequence e"
  by (simp add: query_hit_from_entry_def)

lemma sorted_hits:
  assumes "index_holds es s" and "mset hits = mset (map query_hit_from_entry (filter P es))"
  shows "by_sequence hits = map query_hit_from_entry (sort_key ie_global_sequence (filter P es))"
proof -
  have "by_sequence hits = by_sequence (map query_hit_from_entry (filter P es))"
  proof (rule sort_key_inj_key_eq)
    have "inj_on qh_global_sequence (query_hit_from_entry ` set es)"
      using assms(1) by (auto simp: index_holds_def inj_on_def distinct_map)
    moreover have "set hits \<subseteq> query_hit_from_entry ` set es"
      using mset_eq_setD [OF assms(2)] by auto
    ultimately show "inj_on qh_global_sequence (set hits)" by (rule inj_on_subset)
  qed (simp_all add: assms(2))
  then show ?thesis by (simp add: sort_key_map)
qed

lemma region_hits_exact:
  assumes s: "index_holds es s" and cover: "covers region ok es hits" and R: "\<And>e. R (query_hit_from_entry e) = ok e"
  shows "by_sequence (filter R (filter_region_hits s region visibility hits)) =
    map query_hit_from_entry (sort_key ie_global_sequence
      (filter (\<lambda>e. region_selects region e \<and> region_visible region visibility e \<and> ok e) es))"
proof -
  obtain P where P: "mset hits = mset (map query_hit_from_entry (filter P es))"
    "\<forall>e \<in> set es. region_selects region e \<and> ok e \<longrightarrow> P e" "\<forall>e \<in> set es. P e \<longrightarrow> matches_entity region (entity_of e)"
    using cover unfolding covers_def by blast
  have "mset (filter R (filter_region_hits s region visibility hits)) =
      mset (filter R (filter (region_hit_ok s region visibility) (map query_hit_from_entry (filter P es))))"
    using P(1) by (simp only: mset_filter filter_region_hits_def)
  also have "\<dots> = mset (map query_hit_from_entry
      (filter (\<lambda>e. P e \<and> region_hit_ok s region visibility (query_hit_from_entry e) \<and> ok e) es))"
    by (simp only: filter_map filter_filter comp_def R conj_assoc conj_commute conj_left_commute)
  also have "filter (\<lambda>e. P e \<and> region_hit_ok s region visibility (query_hit_from_entry e) \<and> ok e) es =
      filter (\<lambda>e. region_selects region e \<and> region_visible region visibility e \<and> ok e) es"
    using P(2,3) region_hit_ok_entry [OF s] by (intro filter_cong) (auto, metis+)
  finally show ?thesis by (rule sorted_hits [OF s])
qed

lemma query_spec:
  assumes "index_holds es s"
  shows "query s region = sort_key ie_global_sequence
    (filter (\<lambda>e. region_selects region e \<and> is_visible (snapshot (ix_sequence s)) (ie_global_sequence e) \<and>
      region_visible region (snapshot (ix_sequence s)) e) es)"
proof -
  let ?v = "snapshot (ix_sequence s)"
  let ?sel = "filter (\<lambda>e. region_selects region e \<and> region_visible region ?v e) es"
  have up: "upgrade_hit_with_visibility s ?v (query_hit_from_entry e) =
      (if is_visible ?v (ie_global_sequence e) then Some e else None)" if "e \<in> set es" for e
    using by_id_get [OF assms that] by (simp add: upgrade_hit_with_visibility_def option_filter_def query_hit_from_entry_def)
  have "query_hits_with_visibility s region ?v = map query_hit_from_entry (sort_key ie_global_sequence ?sel)"
    using region_hits_exact [OF assms candidates_cover [OF assms], of "\<lambda>_. True" "\<lambda>_. True" region ?v]
    by (simp add: query_hits_with_visibility_def)
  then have "query s region = List.map_filter (upgrade_hit_with_visibility s ?v)
      (map query_hit_from_entry (sort_key ie_global_sequence ?sel))"
    by (simp add: query_def query_hits_with_snapshot_def Let_def)
  also have "\<dots> = filter (\<lambda>e. is_visible ?v (ie_global_sequence e)) (sort_key ie_global_sequence ?sel)"
  proof -
    have "List.map_filter (upgrade_hit_with_visibility s ?v) (map query_hit_from_entry xs) =
        filter (\<lambda>e. is_visible ?v (ie_global_sequence e)) xs" if "set xs \<subseteq> set es" for xs
      using that by (induction xs) (simp_all add: up map_filter_simps)
    then show ?thesis by auto
  qed
  also have "\<dots> = sort_key ie_global_sequence (filter (\<lambda>e. is_visible ?v (ie_global_sequence e)) ?sel)"
    by (simp only: filter_sort)
  finally show ?thesis by (simp add: conj_ac)
qed

text \<open>
  C33. A region query is exact. Over an index that holds some entries, whatever its topology, the
  query returns exactly the entries that the region's matcher selects (entity prefix, scope,
  kind, lane and clock range) and that are visible, each once, in order of sequence number: a
  visible prefix that no cancelled fence hides, and for a region with a lane also visible there.
\<close>

theorem query_exact:
  assumes "index_holds es s"
  shows "query s region = sort_key ie_global_sequence
    (filter (\<lambda>e. region_selects region e \<and> is_visible (snapshot (ix_sequence s)) (ie_global_sequence e) \<and>
      region_visible region (snapshot (ix_sequence s)) e) es)"
  using assms by (rule query_spec)

text \<open>An index with two published events of one entity, the second with the smaller id.\<close>

definition example_config :: index_config where
  "example_config = \<lparr>cfg_soa = False, cfg_entity_groups = True, cfg_tiles64 = False,
     cfg_retention = retention_default, cfg_overflow = Warn\<rparr>"

definition example_first :: index_entry where
  "example_first = (sample_entry 0 DATA ''a'' ''s'')\<lparr>ie_event_id := 9, ie_entity_id := 1\<rparr>"

definition example_second :: index_entry where
  "example_second = (sample_entry 1 DATA ''a'' ''s'')\<lparr>ie_event_id := 5, ie_entity_id := 1\<rparr>"

definition example_gate :: sequence_gate where
  "example_gate = gate_new\<lparr>allocated := 2, visible := 2, lane_visible := [(0, 2)]\<rparr>"

definition example_index :: store_index where
  "example_index = (insert_batch ((with_config example_config)\<lparr>ix_interner := snd (intern interner_new ''a'')\<rparr>)
     [example_first, example_second])\<lparr>ix_sequence := example_gate\<rparr>"

lemma example_distinct:
  "distinct (map ie_event_id [example_first, example_second])"
  "distinct (map ie_global_sequence [example_first, example_second])"
  by (simp_all add: example_first_def example_second_def sample_entry_def)

lemma example_holds: "index_holds [example_first, example_second] example_index"
proof -
  have "index_holds [] ((with_config example_config)\<lparr>ix_interner := snd (intern interner_new ''a'')\<rparr>)"
    using with_config_holds [of example_config] by (simp add: index_holds_def)
  from insert_batch_holds [OF this, of "[example_first, example_second]"] example_distinct show ?thesis
    by (simp add: example_index_def)
qed

lemma example_visible:
  "ix_sequence example_index = example_gate"
  "seq < 2 \<Longrightarrow> is_visible (snapshot example_gate) seq"
  "seq < 2 \<Longrightarrow> is_visible_on_lane (snapshot example_gate) seq 0"
  by (simp_all add: example_index_def example_gate_def gate_new_def snapshot_def is_visible_def is_visible_on_lane_def
      range_contains_def unwrap_or_zero_def)

theorem query_exact_witness:
  "query example_index (region_entity ''a'') = [example_first, example_second]"
proof -
  have "region_selects (region_entity ''a'') e \<longleftrightarrow> namespace_prefix_matches ''a'' (entity_of e)" for e
    by (simp add: region_selects_def matches_event_on_lane_def region_entity_def region_all_def matches_entity_def
        in_clock_range_def)
  moreover have "region_visible (region_entity ''a'') v e = is_visible v (ie_global_sequence e)" for v e
    by (simp add: region_visible_def region_entity_def region_all_def)
  ultimately show ?thesis
    using query_exact [OF example_holds, of "region_entity ''a''"] example_visible(2) [of 0] example_visible(2) [of 1]
    by (simp add: example_visible(1) example_first_def example_second_def sample_entry_def namespace_prefix_matches_iff)
qed

section \<open>Pages are exact\<close>

lemma insort_take:
  "sorted (map f zs) \<Longrightarrow> take n (insort_key f y (take n zs)) = take n (insort_key f y zs)"
proof (induction zs arbitrary: n)
  case (Cons z zs)
  then show ?case by (cases n) (auto simp: take_Cons')
qed simp

lemma sort_snoc_distinct:
  assumes "inj_on f (set (xs @ [y]))"
  shows "sort_key f (xs @ [y]) = insort_key f y (sort_key f xs)"
proof -
  have "sort_key f (xs @ [y]) = sort_key f (y # xs)"
    using assms by (intro sort_key_inj_key_eq sorted_sort_key) simp_all
  then show ?thesis by simp
qed

text \<open>The buffer and everything pushed so far have the same first page.\<close>

definition same_page :: "nat \<Rightarrow> query_hit list \<Rightarrow> query_hit list \<Rightarrow> bool" where
  "same_page limit buf acc \<longleftrightarrow> set buf \<subseteq> set acc \<and> trim limit buf = trim limit acc"

lemma same_page_push:
  assumes page: "same_page limit buf acc" and keys: "inj_on qh_global_sequence (set (acc @ [h]))"
  shows "same_page limit (buf @ [h]) (acc @ [h])"
proof -
  have sub: "inj_on qh_global_sequence (set (buf @ [h]))"
    using page by (intro inj_on_subset [OF keys]) (auto simp: same_page_def)
  have snoc: "trim limit (xs @ [h]) = take limit (insort_key qh_global_sequence h (trim limit xs))"
    if "inj_on qh_global_sequence (set (xs @ [h]))" for xs
    using sort_snoc_distinct [OF that] by (simp add: trim_def insort_take)
  show ?thesis
    using page snoc [OF sub] snoc [OF keys] by (auto simp: same_page_def)
qed

lemma same_page_trim: "same_page limit buf acc \<Longrightarrow> same_page limit (trim limit buf) acc"
proof -
  have "trim limit (trim limit buf) = trim limit buf"
    by (simp add: trim_def sort_key_id_if_sorted sorted_wrt_take flip: take_map)
  moreover have "set (trim limit buf) \<subseteq> set buf"
    using set_take_subset [of limit "by_sequence buf"] by (simp add: trim_def)
  ultimately show "same_page limit buf acc \<Longrightarrow> ?thesis" by (auto simp: same_page_def)
qed

lemma any_push_page:
  assumes "same_page limit buf (map query_hit_from_entry (filter ok xs))"
    and "inj_on ie_global_sequence (set (xs @ ys))"
  shows "same_page limit (foldl (any_push ok limit) buf ys) (map query_hit_from_entry (filter ok (xs @ ys)))"
  using assms
proof (induction ys arbitrary: buf xs)
  case (Cons y ys)
  have "same_page limit (any_push ok limit buf y) (map query_hit_from_entry (filter ok (xs @ [y])))"
  proof (cases "ok y")
    case True
    have "inj_on qh_global_sequence (set (map query_hit_from_entry (filter ok xs) @ [query_hit_from_entry y]))"
      using Cons.prems(2) by (auto simp: inj_on_def)
    from same_page_push [OF Cons.prems(1) this] True show ?thesis
      by (simp add: any_push_def Let_def same_page_trim)
  qed (use Cons.prems(1) in \<open>simp add: any_push_def\<close>)
  from Cons.IH [OF this] Cons.prems(2) show ?case by simp
qed simp

lemma any_hits_exact:
  assumes s: "index_holds es s"
  shows "query_any_hits_after s region visibility seq_ok limit =
    take limit (map query_hit_from_entry (sort_key ie_global_sequence (filter (any_hit_ok region visibility seq_ok) es)))"
proof -
  let ?ok = "any_hit_ok region visibility seq_ok"
  let ?all = "concat (map (\<lambda>(_, m). map snd m) (ix_streams s))"
  have all: "mset ?all = mset es"
    using grouped_concat [of "\<lambda>e. entity_of e" es "ix_streams s" "\<lambda>_. True"] s by (simp add: index_holds_def split_def)
  have "foldl (\<lambda>buf (_, m). foldl (any_push ?ok limit) buf (map snd m)) buf ms =
      foldl (any_push ?ok limit) buf (concat (map (\<lambda>(_, m). map snd m) ms))"
    for buf and ms :: "(string \<times> (ClockKey, index_entry) btree) list"
    by (induction ms arbitrary: buf) auto
  then have "query_any_hits_after s region visibility seq_ok limit = trim limit (foldl (any_push ?ok limit) [] ?all)"
    by (simp add: query_any_hits_after_def)
  also have "\<dots> = trim limit (map query_hit_from_entry (filter ?ok ?all))"
  proof -
    have "inj_on ie_global_sequence (set ?all)"
      using s mset_eq_setD [OF all] by (simp only: index_holds_def distinct_map)
    then have "same_page limit (foldl (any_push ?ok limit) [] ?all) (map query_hit_from_entry (filter ?ok ([] @ ?all)))"
      by (intro any_push_page) (simp_all add: same_page_def)
    then show ?thesis by (simp add: same_page_def)
  qed
  also have "mset (map query_hit_from_entry (filter ?ok ?all)) = mset (map query_hit_from_entry (filter ?ok es))"
    by (rule mset_filter_cong [OF all])
  from sorted_hits [OF s this] have "trim limit (map query_hit_from_entry (filter ?ok ?all)) =
    take limit (map query_hit_from_entry (sort_key ie_global_sequence (filter ?ok es)))"
    by (simp add: trim_def)
  finally show ?thesis .
qed

text \<open>
  Pages are exact. A page after a cursor is the first \<^verbatim>\<open>limit\<close> hits, in order of sequence
  number, of the selected visible entries past the cursor, for every region: the path that sorts
  all candidates, and the path for regions of any kind, whose bounded buffer is cut whenever it
  fills, give the same page.
\<close>

theorem page_exact:
  assumes "index_holds es s"
  shows "query_hits_after s region after_seq started limit = take limit (map query_hit_from_entry
    (filter (\<lambda>e. started \<longrightarrow> after_seq < ie_global_sequence e) (sort_key ie_global_sequence
      (filter (\<lambda>e. region_selects region e \<and> region_visible region (snapshot (ix_sequence s)) e) es))))"
proof -
  let ?v = "snapshot (ix_sequence s)"
  let ?seq = "\<lambda>seq. \<not> started \<or> after_seq < seq"
  let ?sel = "\<lambda>e. region_selects region e \<and> region_visible region ?v e \<and> ?seq (ie_global_sequence e)"
  have "query_hits_after s region after_seq started limit =
      take limit (map query_hit_from_entry (sort_key ie_global_sequence (filter ?sel es)))"
  proof (cases "rg_entity_prefix region = None \<and> rg_scope region = None \<and> rg_fact region = Some Any")
    case True
    then have "any_hit_ok region ?v ?seq = ?sel"
      by (auto simp: fun_eq_iff any_hit_ok_def region_selects_def region_visible_def matches_event_on_lane_def
          matches_entity_def in_clock_range_def not_less split: option.splits)
    with True any_hits_exact [OF assms, of region ?v ?seq limit] show ?thesis
      by (simp add: query_hits_after_def Let_def)
  next
    case False
    let ?ok = "\<lambda>e. ?seq (ie_global_sequence e)"
    have "(if started then filter (\<lambda>h. after_seq < qh_global_sequence h) xs else xs) =
        filter (\<lambda>h. ?seq (qh_global_sequence h)) xs" for xs :: "query_hit list"
      by simp
    then have "query_hits_after s region after_seq started limit = take limit (by_sequence
        (filter (\<lambda>h. ?seq (qh_global_sequence h)) (filter_region_hits s region ?v (query_candidate_hits s region ?ok))))"
      by (simp only: query_hits_after_def Let_def False if_False)
    moreover have "by_sequence (filter (\<lambda>h. ?seq (qh_global_sequence h))
        (filter_region_hits s region ?v (query_candidate_hits s region ?ok))) =
        map query_hit_from_entry (sort_key ie_global_sequence (filter ?sel es))"
      by (rule region_hits_exact [OF assms candidates_cover [OF assms]]) simp
    ultimately show ?thesis by (simp only:)
  qed
  also have "sort_key ie_global_sequence (filter ?sel es) = filter (\<lambda>e. started \<longrightarrow> after_seq < ie_global_sequence e)
      (sort_key ie_global_sequence (filter (\<lambda>e. region_selects region e \<and> region_visible region ?v e) es))"
    by (simp only: filter_sort filter_filter conj_assoc imp_conv_disj)
  finally show ?thesis .
qed

theorem page_exact_witness:
  "query_hits_after example_index (region_all\<lparr>rg_fact := Some Any\<rparr>) 0 True 5 = [query_hit_from_entry example_second]"
proof -
  let ?r = "region_all\<lparr>rg_fact := Some Any\<rparr>"
  have "region_selects ?r e \<and> region_visible ?r v e \<longleftrightarrow> is_visible v (ie_global_sequence e)" for v e
    by (simp add: region_selects_def matches_event_on_lane_def region_all_def matches_entity_def in_clock_range_def
        region_visible_def)
  then show ?thesis
    using page_exact [OF example_holds, of ?r 0 True 5] example_visible(2) [of 0] example_visible(2) [of 1]
    by (simp add: example_visible(1) example_first_def example_second_def sample_entry_def)
qed

section \<open>Heads\<close>

text \<open>The head of an entity on a lane is the last entry inserted for them.\<close>

definition last_option :: "'a list \<Rightarrow> 'a option" where
  "last_option xs = (if xs = [] then None else Some (last xs))"

lemma last_option_simps [simp]: "last_option [] = None" "last_option (xs @ [x]) = Some x"
  by (simp_all add: last_option_def)

definition heads_hold :: "index_entry list \<Rightarrow> store_index \<Rightarrow> bool" where
  "heads_hold es s \<longleftrightarrow> interner_inv (ix_interner s) \<and> bt_wf (ix_latest s) \<and>
     (\<forall>e \<in> set es. interner_get (ix_interner s) (entity_of e) = Some (ie_entity_id e)) \<and>
     (\<forall>i lane. bt_get (ix_latest s) (i, lane) = last_option (filter (\<lambda>e. ie_entity_id e = i \<and> ie_dag_lane e = lane) es))"

lemma with_config_heads: "heads_hold [] (with_config config)"
  by (simp add: heads_hold_def with_config_def interner_new_inv)

lemma insert_inner_heads:
  "heads_hold es s \<Longrightarrow> interner_get (ix_interner s) (entity_of e) = Some (ie_entity_id e) \<Longrightarrow>
   heads_hold (es @ [e]) (insert_inner s e)"
  by (auto simp: heads_hold_def insert_inner_def)

lemma latest_committed_exact:
  assumes "heads_hold es s"
  shows "get_latest_committed s entity lane = last_option (filter (\<lambda>e. entity_of e = entity \<and> ie_dag_lane e = lane) es)"
proof (cases "interner_get (ix_interner s) entity")
  case None
  then have "filter (\<lambda>e. entity_of e = entity \<and> ie_dag_lane e = lane) es = []"
    using assms by (auto simp: heads_hold_def filter_empty_conv)
  with None show ?thesis by (simp add: get_latest_committed_def)
next
  case (Some i)
  have "ie_entity_id e = i \<longleftrightarrow> entity_of e = entity" if "e \<in> set es" for e
  proof -
    have "interner_get (ix_interner s) (entity_of e) = Some (ie_entity_id e)" "interner_inv (ix_interner s)"
      using assms that by (auto simp: heads_hold_def)
    with Some show ?thesis using interner_get_inj by fastforce
  qed
  then have "filter (\<lambda>e. ie_entity_id e = i \<and> ie_dag_lane e = lane) es =
      filter (\<lambda>e. entity_of e = entity \<and> ie_dag_lane e = lane) es" by (intro filter_cong) auto
  with Some assms show ?thesis by (simp add: get_latest_committed_def heads_hold_def)
qed

end
