(* ===== verification/IndexSwap.thy ===== *)
theory IndexSwap
  imports Index HiddenRanges
begin

text \<open>
  Projection plans and the swap of a rebuilt index after a compaction
  (\<^verbatim>\<open>projection_bridge.rs\<close>, \<^verbatim>\<open>StoreIndex::replace_contents_from_fresh\<close>): what the swap keeps and
  what order the plans list events in, before and after.
\<close>

section \<open>The swapped index holds the same entries\<close>

lemma by_id_entries:
  assumes "index_holds es s"
  shows "mset (map snd (ix_by_id s)) = mset es"
proof -
  have wf: "bt_wf (ix_by_id s)" using assms by (simp add: index_holds_def)
  have member: "(i, e) \<in> set (ix_by_id s) \<longleftrightarrow> e \<in> set es \<and> ie_event_id e = i" for i e
    using assms map_of_eq_Some_iff [OF bt_wf_distinct [OF wf], of i e] by (simp add: index_holds_def)
  have "distinct (map snd (ix_by_id s))"
  proof (subst distinct_map, intro conjI)
    show "distinct (ix_by_id s)" using bt_wf_distinct [OF wf] by (simp add: distinct_map)
    show "inj_on snd (set (ix_by_id s))" using member by (auto simp: inj_on_def)
  qed
  moreover have "set (map snd (ix_by_id s)) = set es" using member by force
  moreover have "distinct es" using assms by (simp add: index_holds_def distinct_map)
  ultimately show ?thesis by (simp only: set_eq_iff_mset_eq_distinct)
qed

lemma grouped_perm:
  assumes "grouped key es M" and "mset ds = mset es"
  shows "grouped key ds M"
proof -
  have "mset (filter P ds) = mset (filter P es)" for P using assms(2) by simp
  moreover have "filter P ds = [] \<longleftrightarrow> filter P es = []" for P
    using mset_eq_setD [OF assms(2)] by (simp only: filter_empty_conv)
  ultimately show ?thesis using assms(1) unfolding grouped_def bucket_def by (simp only: simp_thms)
qed

lemma scan_holds_inserted:
  "scan_holds es s \<Longrightarrow> distinct (map clock_key (es @ ds)) \<Longrightarrow> scan_holds (es @ ds) (foldl scan_insert s ds)"
proof (induction ds arbitrary: es s)
  case (Cons d ds)
  then have "scan_holds (es @ [d]) (scan_insert s d)" by (intro scan_holds_insert) auto
  from Cons.IH [OF this] Cons.prems(2) show ?case by simp
qed simp

definition same_visibility :: "sequence_gate \<Rightarrow> sequence_gate \<Rightarrow> bool" where
  "same_visibility g g' \<longleftrightarrow>
     (\<forall>seq. is_visible (snapshot g) seq = is_visible (snapshot g') seq) \<and>
     (\<forall>seq lane. is_visible_on_lane (snapshot g) seq lane = is_visible_on_lane (snapshot g') seq lane)"

lemma restored_visibility:
  assumes "gate_inv g" and "visible g' = visible g" and "lane_visible g' = lane_visible g"
    and "cancelled_ranges g' = insert_ranges (cancelled_ranges g) []"
    and "lane_cancelled_ranges g' = insert_lane_ranges (lane_cancelled_ranges g) []"
  shows "same_visibility g' g"
proof -
  have "insert_ranges (cancelled_ranges g) [] = cancelled_ranges g"
    using assms(1) by (simp add: gate_inv_def insert_ranges_id)
  moreover have "lane_hidden (lane_cancelled_ranges g') lane x = lane_hidden (lane_cancelled_ranges g) lane x" for lane x
    using assms by (simp add: gate_inv_def restored_lanes_hidden)
  ultimately show ?thesis
    using assms(2-4) by (simp add: same_visibility_def is_visible_def is_visible_on_lane_def snapshot_def flip: lane_hidden_def)
qed

lemma swap_succeeds:
  assumes fresh: "index_holds es fresh" "heads_hold es fresh" and gate: "gate_inv (ix_sequence fresh)"
  obtains s' where "replace_contents_from_fresh s fresh = (Inr (), s')"
    and "index_holds (map snd (ix_by_id fresh)) s'" and "heads_hold es s'"
    and "same_visibility (ix_sequence s') (ix_sequence fresh)" and "ix_idemp s' = ix_idemp s"
    and "ix_scan s' = foldl scan_insert (scan_clear (ix_scan s)) (map snd (ix_by_id fresh))"
proof -
  let ?ds = "map snd (ix_by_id fresh)"
  let ?g = "ix_sequence fresh"
  have perm: "mset ?ds = mset es" by (rule by_id_entries [OF fresh(1)])
  have wf: "bt_wf (ix_streams fresh)" "bt_wf (ix_by_id fresh)" "bt_wf (ix_latest fresh)"
    using fresh by (simp_all add: index_holds_def grouped_def heads_hold_def)
  have "interner_inv (ix_interner fresh)" using fresh(2) by (simp add: heads_hold_def)
  from snapshot_restores [OF this, of "ix_interner s"] obtain i where
    i: "replace_from_full_snapshot (ix_interner s) ([] # to_snapshot (ix_interner fresh)) = (Inr (), i)"
    "interner_inv i" "interner_get i = interner_get (ix_interner fresh)" by blast
  define g' where "g' = restore_cancelled_ranges (restore_lane_visible (signal_visibility_change
      (restore_allocator (gate_clear (ix_sequence s)) (allocated ?g)\<lparr>visible := visible ?g\<rparr>)) (lane_visible ?g))
      (cancelled_ranges_snapshot ?g)"
  define s' where "s' = s\<lparr>ix_streams := ix_streams fresh, ix_scan := foldl scan_insert (scan_clear (ix_scan s)) ?ds,
    ix_by_id := ix_by_id fresh, ix_latest := ix_latest fresh, ix_sequence := g', ix_len := length (ix_by_id fresh),
    ix_interner := i\<rparr>"
  have "visible ?g \<le> allocated ?g" using gate by (simp add: gate_inv_def)
  then have run: "replace_contents_from_fresh s fresh = (Inr (), s')"
    by (simp add: replace_contents_from_fresh_def Let_def i wf bt_collect_id publish_def s'_def g'_def
        restore_allocator_def gate_clear_def)
  have ids: "distinct (map ie_event_id ?ds)" "distinct (map ie_global_sequence ?ds)"
    using fresh(1) perm unfolding index_holds_def by (metis distinct_map mset_eq_imp_distinct_iff mset_map)+
  then have "distinct (map clock_key ([] @ ?ds))" by (auto simp: distinct_map inj_on_def clock_key_def)
  from scan_holds_inserted [OF scan_holds_clear this]
  have "index_holds ?ds s'"
    using fresh(1) ids grouped_perm [OF _ perm, of "\<lambda>e. entity_of e"] mset_eq_setD [OF perm]
    unfolding index_holds_def by (simp add: s'_def)
  moreover have "heads_hold es s'" using fresh(2) i by (simp add: heads_hold_def s'_def)
  moreover have "same_visibility (ix_sequence s') ?g"
    by (rule restored_visibility [OF gate])
      (simp_all add: s'_def g'_def restore_cancelled_ranges_def restore_lane_visible_def signal_visibility_change_def
        restore_allocator_def gate_clear_def cancelled_ranges_snapshot_def)
  ultimately show ?thesis using that run by (simp add: s'_def)
qed

section \<open>Plans\<close>

lemma candidates_fold:
  "foldl (\<lambda>(watermark, candidates) (kind, e).
      if projection_kind_matches kinds kind
      then (Some (ie_global_sequence e), candidates @ [query_hit_from_entry e]) else (watermark, candidates))
     (w, c) (zip (map ie_kind es) es) =
   (let ms = filter (\<lambda>e. projection_kind_matches kinds (ie_kind e)) es in
    (if ms = [] then w else Some (ie_global_sequence (last ms)), c @ map query_hit_from_entry ms))"
proof (induction es arbitrary: w c)
  case (Cons e es)
  then show ?case by (auto simp: Let_def)
qed simp

definition relevant :: "string \<Rightarrow> EventKind list \<Rightarrow> index_entry list \<Rightarrow> index_entry list" where
  "relevant entity kinds es = filter (\<lambda>e. projection_kind_matches kinds (ie_kind e)) (filter (\<lambda>e. entity_of e = entity) es)"

definition replayable :: "sequence_gate \<Rightarrow> index_entry \<Rightarrow> bool" where
  "replayable g e \<longleftrightarrow> is_visible (snapshot g) (ie_global_sequence e) \<and>
     is_visible_on_lane (snapshot g) (ie_global_sequence e) (ie_dag_lane e)"

lemma scan_candidates_exact:
  assumes "soaos_inv es i"
  shows "map_option (\<lambda>(w, _, hits). (w, hits)) (soaos_projection_candidates i entity kinds) =
    (if relevant entity kinds es = [] then None
     else Some (ie_global_sequence (last (relevant entity kinds es)), map query_hit_from_entry (relevant entity kinds es)))"
proof (cases "bt_get (so_groups i) entity")
  case None
  with assms have "group_of es entity None" unfolding soaos_inv_def by metis
  with None show ?thesis by (simp add: soaos_projection_candidates_def group_of_def relevant_def)
next
  case (Some g)
  with assms have "group_of es entity (Some g)" unfolding soaos_inv_def by metis
  then have "eg_kinds g = map ie_kind (eg_entries g)" "eg_entries g = filter (\<lambda>e. entity_of e = entity) es"
    by (simp_all add: group_of_def)
  with Some show ?thesis by (simp add: soaos_projection_candidates_def candidates_fold Let_def relevant_def)
qed

lemma stream_replay_none:
  assumes "\<forall>e \<in> set es. \<not> projection_kind_matches kinds (ie_kind e)"
  shows "stream_replay v kinds es = (None, [])"
  using assms unfolding stream_replay_def by (induction es) auto

lemma plan_spec:
  assumes holds: "index_holds es s" and groups: "si_entity_groups (ix_scan s) \<noteq> None"
  shows "map_option (\<lambda>p. (pl_watermark p, pl_items p)) (projection_replay_plan s entity kinds) =
    (if relevant entity kinds es = [] then None
     else Some (ie_global_sequence (last (relevant entity kinds es)),
       map replay_item_from_entry (filter (replayable (ix_sequence s)) (relevant entity kinds es))))"
proof -
  obtain i where i: "si_entity_groups (ix_scan s) = Some i" "soaos_inv es i"
    using holds groups by (auto simp: index_holds_def scan_holds_def)
  have up: "List.map_filter (upgrade_hit_visible_on_lane s (snapshot (ix_sequence s))) (map query_hit_from_entry xs) =
      filter (replayable (ix_sequence s)) xs" if "set xs \<subseteq> set es" for xs
    using that
  proof (induction xs)
    case (Cons x xs)
    then have "bt_get (ix_by_id s) (ie_event_id x) = Some x" using by_id_get [OF holds] by simp
    with Cons show ?case
      by (simp add: map_filter_simps upgrade_hit_visible_on_lane_def upgrade_hit_with_visibility_def option_filter_def
          replayable_def query_hit_from_entry_def)
  qed (simp add: map_filter_simps)
  have sub: "set (relevant entity kinds es) \<subseteq> set es" by (auto simp: relevant_def)
  show ?thesis
  proof (cases "relevant entity kinds es = []")
    case True
    then have "scan_projection_candidates (ix_scan s) entity kinds = None"
      using scan_candidates_exact [OF i(2), of entity kinds] i(1) by (simp add: scan_projection_candidates_def)
    moreover have "stream_replay v kinds (map snd m) = (None, [])" if "bt_get (ix_streams s) entity = Some m" for v m
    proof (rule stream_replay_none)
      have "mset (map snd m) = mset (filter (\<lambda>e. entity_of e = entity) es)"
        using holds that grouped_get [of "\<lambda>e. entity_of e" es "ix_streams s" entity] by (simp add: index_holds_def)
      from mset_eq_setD [OF this] True
      show "\<forall>e \<in> set (map snd m). \<not> projection_kind_matches kinds (ie_kind e)"
        by (simp add: relevant_def filter_empty_conv)
    qed
    ultimately show ?thesis using True by (simp add: projection_replay_plan_def Let_def split: option.splits)
  next
    case False
    then obtain gen where "scan_projection_candidates (ix_scan s) entity kinds =
        Some (ie_global_sequence (last (relevant entity kinds es)), gen, map query_hit_from_entry (relevant entity kinds es))"
      using scan_candidates_exact [OF i(2), of entity kinds] i(1) by (auto simp: scan_projection_candidates_def)
    with False show ?thesis by (simp add: projection_replay_plan_def Let_def up [OF sub])
  qed
qed

lemma same_visibility_replayable: "same_visibility g g' \<Longrightarrow> replayable g = replayable g'"
  by (auto simp: same_visibility_def replayable_def)

lemma query_same:
  assumes "index_holds es s" and "index_holds ds s'" and "mset ds = mset es"
    and "same_visibility (ix_sequence s') (ix_sequence s)"
  shows "query s' region = query s region"
proof -
  let ?P = "\<lambda>s e. region_selects region e \<and> is_visible (snapshot (ix_sequence s)) (ie_global_sequence e) \<and>
    region_visible region (snapshot (ix_sequence s)) e"
  have "?P s' = ?P s" using assms(4) by (auto simp: same_visibility_def region_visible_def fun_eq_iff split: option.splits)
  moreover have "sort_key ie_global_sequence (filter (?P s) ds) = sort_key ie_global_sequence (filter (?P s) es)"
  proof (rule sort_key_inj_key_eq)
    show "inj_on ie_global_sequence (set (filter (?P s) ds))"
      using assms(2) by (auto simp: index_holds_def distinct_map inj_on_def)
  qed (use assms(3) in simp_all)
  ultimately show ?thesis using query_spec [OF assms(1), of region] query_spec [OF assms(2), of region] by (simp only:)
qed


lemma example_heads: "heads_hold [example_first, example_second] example_index"
proof -
  let ?s = "(with_config example_config)\<lparr>ix_interner := snd (intern interner_new ''a'')\<rparr>"
  have inv: "interner_inv (snd (intern interner_new ''a''))"
    using intern_fresh [OF interner_new_inv, of "''a''"] by (simp add: interner_new_def)
  have get: "interner_get (snd (intern interner_new ''a'')) ''a'' = Some 1"
    by (simp add: interner_get_def intern_def interner_new_def checked_add_def)
  have "heads_hold [] ?s"
    using with_config_heads [of example_config] inv by (simp add: heads_hold_def)
  from insert_inner_heads [OF this, of example_first]
  have "heads_hold [example_first] (insert_inner ?s example_first)"
    using get by (simp add: example_first_def sample_entry_def)
  from insert_inner_heads [OF this, of example_second]
  have "heads_hold [example_first, example_second] (insert_inner (insert_inner ?s example_first) example_second)"
    using get by (simp add: example_second_def sample_entry_def insert_inner_def [of ?s])
  then show ?thesis by (simp add: heads_hold_def example_index_def insert_batch_def)
qed

lemma example_by_id: "map snd (ix_by_id example_index) = [example_second, example_first]"
proof -
  have "ix_by_id example_index = bt_insert (ie_event_id example_second) example_second
      (bt_insert (ie_event_id example_first) example_first [])"
    by (simp add: example_index_def insert_batch_def insert_inner_def with_config_def)
  then show ?thesis by (simp add: example_first_def example_second_def sample_entry_def)
qed


end
