(* ===== verification/Segment.thy ===== *)
theory Segment
  imports Events
begin

text \<open>
  Segment files (\<^verbatim>\<open>store/segment/mod.rs\<close>, \<^verbatim>\<open>store/segment/id.rs\<close>): file names, the frame
  encoding, the active segment, and the search for decodable frames. A file is its bytes;
  offsets and lengths are natural numbers with the 64-bit overflow checks of the source
  written out. Reads are exact reads of that byte list, and the operating system's calls
  succeed. The payload encoder and the checksum are the parameters \<open>to_bytes\<close> and \<open>crc\<close>.
\<close>

section \<open>File names\<close>

fun digits_fuel :: "nat \<Rightarrow> nat \<Rightarrow> string" where
  "digits_fuel 0 n = []"
| "digits_fuel (Suc fuel) n =
     (if n < 10 then [char_of (48 + n)] else digits_fuel fuel (n div 10) @ [char_of (48 + n mod 10)])"

text \<open>A 64-bit number has at most twenty decimal digits.\<close>

definition decimal :: "u64 \<Rightarrow> string" where
  "decimal n = digits_fuel 20 (unat n)"

definition segment_filename :: "u64 \<Rightarrow> string" where
  "segment_filename segment_id =
     replicate (6 - length (decimal segment_id)) CHR ''0'' @ decimal segment_id @ ''.fbat''"

datatype SegmentNameError = EmptyStem | NotAnInteger string

fun parse_digits :: "nat \<Rightarrow> string \<Rightarrow> nat option" where
  "parse_digits acc [] = Some acc"
| "parse_digits acc (c # cs) =
     (let d = of_char c :: nat in
      if 48 \<le> d \<and> d \<le> 57 \<and> acc * 10 + (d - 48) < 2 ^ 64 then parse_digits (acc * 10 + (d - 48)) cs else None)"

text \<open>\<^verbatim>\<open>str::parse::<u64>\<close>: an optional plus sign, then at least one digit, without overflow.\<close>

definition parse_u64 :: "string \<Rightarrow> u64 option" where
  "parse_u64 s =
     (let ds = (case s of [] \<Rightarrow> [] | c # cs \<Rightarrow> if c = CHR ''+'' then cs else s) in
      if ds = [] then None else map_option of_nat (parse_digits 0 ds))"

definition from_stem :: "string \<Rightarrow> (SegmentNameError, u64) result" where
  "from_stem stem =
     (if stem = [] then Inl EmptyStem
      else case parse_u64 stem of Some n \<Rightarrow> Inr n | None \<Rightarrow> Inl (NotAnInteger stem))"

text \<open>The stem of a file name: everything before its last dot, the whole name if it has none.\<close>

definition file_stem :: "string \<Rightarrow> string" where
  "file_stem name =
     (let before = rev (tl (dropWhile (\<lambda>c. c \<noteq> CHR ''.'') (rev name))) in
      if CHR ''.'' \<in> set name \<and> before \<noteq> [] then before else name)"

definition from_filename :: "string \<Rightarrow> (SegmentNameError, u64) result" where
  "from_filename name = from_stem (file_stem name)"

section \<open>Frames\<close>

definition SEGMENT_MAGIC :: bytes where
  "SEGMENT_MAGIC = [0x46, 0x42, 0x41, 0x54]"

definition MAX_FRAME_PAYLOAD :: nat where
  "MAX_FRAME_PAYLOAD = 256 * 1024 * 1024"

definition MAX_SEGMENT_HEADER :: nat where
  "MAX_SEGMENT_HEADER = 64 * 1024"

definition frame_encode :: "('d \<Rightarrow> bytes option) \<Rightarrow> (bytes \<Rightarrow> u32) \<Rightarrow> 'd \<Rightarrow> (StoreError, bytes) result" where
  "frame_encode to_bytes crc data =
     (case to_bytes data of
        None \<Rightarrow> Inl Serialization
      | Some msgpack \<Rightarrow>
          if length msgpack < 2 ^ 32
          then Inr (to_be (of_nat (length msgpack) :: u32) @ to_be (crc msgpack) @ msgpack)
          else Inl Serialization)"

datatype FrameDecodeError =
    FrameTooShort
  | FrameTruncated nat nat
  | FrameCrcMismatch u32 u32

definition frame_decode :: "(bytes \<Rightarrow> u32) \<Rightarrow> bytes \<Rightarrow> (FrameDecodeError, bytes \<times> nat) result" where
  "frame_decode crc buf =
     (if length buf < 8 then Inl FrameTooShort
      else
        let len = unat (from_be [buf ! 0, buf ! 1, buf ! 2, buf ! 3] :: u32);
            expected_crc = from_be [buf ! 4, buf ! 5, buf ! 6, buf ! 7] :: u32 in
        if 8 + len \<ge> 2 ^ 64 then Inl (FrameTruncated (2 ^ 64 - 1) (length buf))
        else
          let expected_len = 8 + len in
          if length buf < expected_len then Inl (FrameTruncated expected_len (length buf))
          else
            let msgpack = take len (drop 8 buf); actual_crc = crc msgpack in
            if actual_crc \<noteq> expected_crc then Inl (FrameCrcMismatch expected_crc actual_crc)
            else Inr (msgpack, expected_len))"

section \<open>The active segment\<close>

record segment_header =
  sh_version :: u16
  sh_flags :: u16
  sh_created_ns :: i64
  sh_segment_id :: u64

record segment =
  seg_header :: segment_header
  seg_file :: "bytes option"
  written_bytes :: u64

definition create_with_created_ns ::
  "(segment_header \<Rightarrow> bytes option) \<Rightarrow> u64 \<Rightarrow> i64 \<Rightarrow> (StoreError, segment) result" where
  "create_with_created_ns to_bytes segment_id created_ns =
     (let header = \<lparr>sh_version = 1, sh_flags = 0, sh_created_ns = created_ns, sh_segment_id = segment_id\<rparr> in
      case to_bytes header of
        None \<Rightarrow> Inl Serialization
      | Some header_bytes \<Rightarrow>
          if length header_bytes < 2 ^ 32
          then Inr \<lparr>seg_header = header,
                    seg_file = Some (SEGMENT_MAGIC @ to_be (of_nat (length header_bytes) :: u32) @ header_bytes),
                    written_bytes = of_nat (4 + 4 + length header_bytes)\<rparr>
          else Inl Serialization)"

definition write_frame :: "segment \<Rightarrow> bytes \<Rightarrow> u64 \<times> segment" where
  "write_frame seg frame =
     (written_bytes seg,
      seg\<lparr>seg_file := map_option (\<lambda>f. f @ frame) (seg_file seg),
          written_bytes := written_bytes seg + of_nat (length frame)\<rparr>)"

definition needs_rotation :: "segment \<Rightarrow> u64 \<Rightarrow> bool" where
  "needs_rotation seg max_bytes \<longleftrightarrow> written_bytes seg \<ge> max_bytes"

definition seal :: "segment \<Rightarrow> segment" where
  "seal seg = seg\<lparr>seg_file := None\<rparr>"

section \<open>Finding frames\<close>

definition read_exact :: "bytes \<Rightarrow> nat \<Rightarrow> nat \<Rightarrow> bytes option" where
  "read_exact source at n = (if at + n \<le> length source then Some (take n (drop at source)) else None)"

definition try_decode_frame_at :: "(bytes \<Rightarrow> u32) \<Rightarrow> bytes \<Rightarrow> nat \<Rightarrow> nat \<Rightarrow> nat option" where
  "try_decode_frame_at crc source at file_len =
     (if file_len - at < 8 then None
      else case read_exact source at 8 of
          None \<Rightarrow> None
        | Some header \<Rightarrow>
            let claimed_len = unat (from_be [header ! 0, header ! 1, header ! 2, header ! 3] :: u32) in
            if claimed_len = 0 \<or> claimed_len > MAX_FRAME_PAYLOAD then None
            else if at + 8 \<ge> 2 ^ 64 \<or> at + 8 + claimed_len \<ge> 2 ^ 64 then None
            else if at + 8 + claimed_len > file_len then None
            else case read_exact source (at + 8) claimed_len of
                None \<Rightarrow> None
              | Some payload \<Rightarrow>
                  (case frame_decode crc (header @ payload) of
                     Inr (_, frame_size) \<Rightarrow> Some frame_size
                   | Inl _ \<Rightarrow> None))"

function crc_valid_frame_exists_after :: "(bytes \<Rightarrow> u32) \<Rightarrow> bytes \<Rightarrow> nat \<Rightarrow> nat \<Rightarrow> bool" where
  "crc_valid_frame_exists_after crc source probe file_len =
     (if file_len - probe \<ge> 8
      then if try_decode_frame_at crc source probe file_len \<noteq> None then True
           else crc_valid_frame_exists_after crc source (probe + 1) file_len
      else False)"
  by pat_completeness auto
termination
  by (relation "measure (\<lambda>(crc, source, probe, file_len). file_len - probe)") auto

declare crc_valid_frame_exists_after.simps [simp del]

section \<open>Frame lemmas\<close>

lemma from_be_take4: "length bs = 4 \<Longrightarrow> from_be [bs ! 0, bs ! 1, bs ! 2, bs ! 3] = from_be bs"
  using list_of_length_4 [of bs] by auto

lemma frame_head:
  "[(to_be (l :: u32) @ rest) ! 0, (to_be l @ rest) ! 1, (to_be l @ rest) ! 2, (to_be l @ rest) ! 3] = to_be l"
  using list_of_length_4 [OF length_to_be(2) [of l]] by auto

lemma frame_crc_bytes:
  "[(to_be (l :: u32) @ to_be (c :: u32) @ rest) ! 4, (to_be l @ to_be c @ rest) ! 5,
    (to_be l @ to_be c @ rest) ! 6, (to_be l @ to_be c @ rest) ! 7] = to_be c"
proof -
  obtain l0 l1 l2 l3 where l: "to_be l = [l0, l1, l2, l3]"
    using list_of_length_4 [OF length_to_be(2) [of l]] by blast
  obtain c0 c1 c2 c3 where c: "to_be c = [c0, c1, c2, c3]"
    using list_of_length_4 [OF length_to_be(2) [of c]] by blast
  show ?thesis by (simp add: l c)
qed

text \<open>The bytes of a frame around a payload, and what a file holds at an offset.\<close>

definition frame_bytes :: "(bytes \<Rightarrow> u32) \<Rightarrow> bytes \<Rightarrow> bytes" where
  "frame_bytes crc msgpack = to_be (of_nat (length msgpack) :: u32) @ to_be (crc msgpack) @ msgpack"

lemma length_frame_bytes [simp]: "length (frame_bytes crc m) = 8 + length m"
  by (simp add: frame_bytes_def)

lemma frame_encode_ok:
  "frame_encode to_bytes crc d = Inr f \<longleftrightarrow>
     (\<exists>m. to_bytes d = Some m \<and> length m < 2 ^ 32 \<and> f = frame_bytes crc m)"
  by (auto simp: frame_encode_def frame_bytes_def split: option.splits)

lemma frame_decode_bytes:
  assumes "length m < 2 ^ 32"
  shows "frame_decode crc (frame_bytes crc m @ rest) = Inr (m, 8 + length m)"
proof -
  have "unat (of_nat (length m) :: u32) = length m" using assms by (simp add: unat_of_nat)
  then show ?thesis
    using assms
    by (simp add: frame_decode_def frame_bytes_def frame_head frame_crc_bytes Let_def del: One_nat_def)
qed

lemma frame_decode_sound:
  assumes "frame_decode crc buf = Inr (m, n)"
  shows "n = 8 + length m \<and> length m < 2 ^ 32 \<and> buf = frame_bytes crc m @ drop n buf"
proof -
  let ?len = "unat (from_be [buf ! 0, buf ! 1, buf ! 2, buf ! 3] :: u32)"
  have l: "8 \<le> length buf" "8 + ?len \<le> length buf" "m = take ?len (drop 8 buf)" "n = 8 + ?len"
    and c: "crc m = from_be [buf ! 4, buf ! 5, buf ! 6, buf ! 7]"
    using assms by (auto simp: frame_decode_def Let_def split: if_splits)
  have m: "length m = ?len" using l by simp
  have "buf = [buf ! 0, buf ! 1, buf ! 2, buf ! 3] @ [buf ! 4, buf ! 5, buf ! 6, buf ! 7] @ drop 8 buf"
    using l(1) Cons_nth_drop_Suc [of 0 buf] by (simp add: numeral_eq_Suc Cons_nth_drop_Suc less_eq_Suc_le)
  moreover have "drop 8 buf = m @ drop n buf"
    using append_take_drop_id [of ?len "drop 8 buf"] unfolding l(3,4) drop_drop add.commute [of ?len 8] by simp
  moreover have "to_be (from_be [buf ! 0, buf ! 1, buf ! 2, buf ! 3] :: u32) = [buf ! 0, buf ! 1, buf ! 2, buf ! 3]"
    "to_be (crc m) = [buf ! 4, buf ! 5, buf ! 6, buf ! 7]"
    unfolding c by (simp_all add: to_be_def from_be_def)
  moreover have "(of_nat ?len :: u32) = from_be [buf ! 0, buf ! 1, buf ! 2, buf ! 3]" by simp
  ultimately have "buf = frame_bytes crc m @ drop n buf"
    unfolding frame_bytes_def m by (metis append.assoc)
  then show ?thesis using m l(4) unsigned_less [of "from_be [buf ! 0, buf ! 1, buf ! 2, buf ! 3] :: u32"] by simp
qed

text \<open>A nonempty, bounded frame with a matching checksum stands at an offset of a file.\<close>

definition frame_at :: "(bytes \<Rightarrow> u32) \<Rightarrow> bytes \<Rightarrow> nat \<Rightarrow> bytes \<Rightarrow> bool" where
  "frame_at crc source at m \<longleftrightarrow> m \<noteq> [] \<and> length m \<le> MAX_FRAME_PAYLOAD \<and>
     at + 8 + length m \<le> length source \<and> take (8 + length m) (drop at source) = frame_bytes crc m"

lemma MAX_FRAME_PAYLOAD_lt: "MAX_FRAME_PAYLOAD < 2 ^ 32"
  by (simp add: MAX_FRAME_PAYLOAD_def)

lemma frame_at_reads:
  assumes "frame_at crc source at m"
  obtains h where "read_exact source at 8 = Some h"
    and "unat (from_be [h ! 0, h ! 1, h ! 2, h ! 3] :: u32) = length m"
    and "read_exact source (at + 8) (length m) = Some m"
    and "frame_decode crc (h @ m) = Inr (m, 8 + length m)"
proof
  from assms have m: "length m \<le> MAX_FRAME_PAYLOAD" "at + 8 + length m \<le> length source"
    and b: "take (8 + length m) (drop at source) = frame_bytes crc m"
    by (auto simp: frame_at_def)
  have lt: "length m < 2 ^ 32" using m(1) MAX_FRAME_PAYLOAD_lt by simp
  define h where "h = take 8 (drop at source)"
  have h: "h = take 8 (frame_bytes crc m)" by (simp flip: b add: take_take h_def)
  have "take (length m) (drop (at + 8) source) = drop 8 (take (8 + length m) (drop at source))"
    by (simp add: drop_take add.commute)
  then have "take (length m) (drop (at + 8) source) = m" by (simp add: b frame_bytes_def)
  then show "read_exact source at 8 = Some h" "read_exact source (at + 8) (length m) = Some m"
    using m(2) by (simp_all add: read_exact_def h_def)
  have "from_be [h ! 0, h ! 1, h ! 2, h ! 3] = (of_nat (length m) :: u32)"
    unfolding h by (simp add: frame_bytes_def frame_head del: One_nat_def)
  then show "unat (from_be [h ! 0, h ! 1, h ! 2, h ! 3] :: u32) = length m"
    using lt by (simp add: unat_of_nat)
  have "h @ m = frame_bytes crc m @ []" unfolding h by (simp add: frame_bytes_def)
  then show "frame_decode crc (h @ m) = Inr (m, 8 + length m)"
    using frame_decode_bytes [OF lt, of crc "[]"] by simp
qed

lemma frame_at_length:
  assumes "length source < 2 ^ 64" and "frame_at crc source at m"
  shows "try_decode_frame_at crc source at (length source) = Some (8 + length m)"
proof -
  have m: "m \<noteq> []" "length m \<le> MAX_FRAME_PAYLOAD" "at + 8 + length m \<le> length source"
    using assms(2) by (auto simp: frame_at_def)
  obtain h where "read_exact source at 8 = Some h"
    "unat (from_be [h ! 0, h ! 1, h ! 2, h ! 3] :: u32) = length m"
    "read_exact source (at + 8) (length m) = Some m" "frame_decode crc (h @ m) = Inr (m, 8 + length m)"
    using frame_at_reads [OF assms(2)] .
  with m assms(1) show ?thesis
    by (simp add: try_decode_frame_at_def Let_def del: One_nat_def)
qed

lemma decoded_frame_at:
  assumes "read_exact source at 8 = Some h"
    and "read_exact source (at + 8) (unat (from_be [h ! 0, h ! 1, h ! 2, h ! 3] :: u32)) = Some p"
    and dec: "frame_decode crc (h @ p) = Inr (m, n)"
  shows "n = 8 + length m" and "at + n \<le> length source"
    and "length m = unat (from_be [h ! 0, h ! 1, h ! 2, h ! 3] :: u32)"
    and "m \<noteq> [] \<Longrightarrow> length m \<le> MAX_FRAME_PAYLOAD \<Longrightarrow> frame_at crc source at m"
proof -
  define len where "len = unat (from_be [h ! 0, h ! 1, h ! 2, h ! 3] :: u32)"
  have h: "h = take 8 (drop at source)" "p = take len (drop (at + 8) source)" and b: "at + 8 + len \<le> length source"
    using assms(1,2) by (auto simp: read_exact_def len_def split: if_splits)
  have lens: "length h = 8" "length p = len" using b by (simp_all add: h)
  have "len = unat (from_be [(h @ p) ! 0, (h @ p) ! 1, (h @ p) ! 2, (h @ p) ! 3] :: u32)"
    using lens(1) by (simp add: nth_append len_def)
  then have "n = 8 + len" using dec by (auto simp: frame_decode_def Let_def split: if_splits)
  moreover from frame_decode_sound [OF dec] show n: "n = 8 + length m" by simp
  moreover from frame_decode_sound [OF dec] have "h @ p = frame_bytes crc m @ drop n (h @ p)" by simp
  ultimately have m: "length m = len" "h @ p = frame_bytes crc m"
    using lens by auto
  show "at + n \<le> length source" "length m = unat (from_be [h ! 0, h ! 1, h ! 2, h ! 3] :: u32)"
    using n m(1) b by (simp_all add: len_def)
  have "take (8 + len) (drop at source) = h @ p"
    unfolding take_add h drop_drop add.commute [of 8 at] ..
  with m b show "m \<noteq> [] \<Longrightarrow> length m \<le> MAX_FRAME_PAYLOAD \<Longrightarrow> frame_at crc source at m"
    by (simp add: frame_at_def)
qed

lemma try_decode_frame_at_sound:
  assumes "try_decode_frame_at crc source at (length source) = Some n"
  shows "\<exists>m. frame_at crc source at m \<and> n = 8 + length m"
proof -
  obtain h where h: "read_exact source at 8 = Some h"
    using assms by (auto simp: try_decode_frame_at_def split: if_splits option.splits)
  define len where "len = unat (from_be [h ! 0, h ! 1, h ! 2, h ! 3] :: u32)"
  obtain p m where b: "len \<noteq> 0" "len \<le> MAX_FRAME_PAYLOAD" and p: "read_exact source (at + 8) len = Some p"
    and dec: "frame_decode crc (h @ p) = Inr (m, n)"
    using assms h
    by (auto simp: try_decode_frame_at_def Let_def simp flip: len_def simp del: One_nat_def
        split: if_splits sum.splits option.splits)
  note d = decoded_frame_at [OF h p [unfolded len_def] dec]
  have "length m = len" using d(3) by (simp only: len_def)
  then have "m \<noteq> []" "length m \<le> MAX_FRAME_PAYLOAD" using b by auto
  with d(1,4) show ?thesis by blast
qed

lemma frame_decode_size: "frame_decode crc buf = Inr (m, n) \<Longrightarrow> 8 \<le> n"
  using frame_decode_sound [of crc buf m n] by simp

lemma try_decode_size: "try_decode_frame_at crc source at file_len = Some n \<Longrightarrow> 8 \<le> n"
  by (auto simp: try_decode_frame_at_def Let_def split: option.splits if_splits sum.splits dest: frame_decode_size)

lemma try_decode_iff:
  "length source < 2 ^ 64 \<Longrightarrow>
   try_decode_frame_at crc source at (length source) = Some n \<longleftrightarrow> (\<exists>m. frame_at crc source at m \<and> n = 8 + length m)"
  using frame_at_length try_decode_frame_at_sound by blast

lemma frame_exists_iff:
  "crc_valid_frame_exists_after crc source from file_len \<longleftrightarrow>
     (\<exists>at \<ge> from. try_decode_frame_at crc source at file_len \<noteq> None)"
proof (induction crc source "from" file_len rule: crc_valid_frame_exists_after.induct)
  case (1 crc source probe file_len)
  have short: "try_decode_frame_at crc source at file_len = None" if "file_len - at < 8" for at
    using that by (simp add: try_decode_frame_at_def)
  show ?case
  proof (cases "file_len - probe \<ge> 8 \<and> try_decode_frame_at crc source probe file_len = None")
    case True
    then have "crc_valid_frame_exists_after crc source probe file_len \<longleftrightarrow>
        (\<exists>at \<ge> probe + 1. try_decode_frame_at crc source at file_len \<noteq> None)"
      using 1 by (subst crc_valid_frame_exists_after.simps) simp
    also have "\<dots> \<longleftrightarrow> (\<exists>at \<ge> probe. try_decode_frame_at crc source at file_len \<noteq> None)"
      using True by (metis Suc_eq_plus1 Suc_le_eq le_neq_implies_less less_imp_le)
    finally show ?thesis .
  next
    case False
    then show ?thesis
      by (subst crc_valid_frame_exists_after.simps) (auto intro!: short)
  qed
qed

section \<open>Name lemmas\<close>

lemma digit_char [simp]: "n < 10 \<Longrightarrow> of_char (char_of (48 + n) :: char) = (48 + n :: nat)"
  by simp

lemma parse_digits_append:
  "parse_digits acc (s @ t) = (case parse_digits acc s of None \<Rightarrow> None | Some a \<Rightarrow> parse_digits a t)"
  by (induction s arbitrary: acc) (auto simp: Let_def)

lemma parse_digits_fuel:
  "n < 10 ^ fuel \<Longrightarrow> 0 < fuel \<Longrightarrow> n < 2 ^ 64 \<Longrightarrow> parse_digits 0 (digits_fuel fuel n) = Some n"
proof (induction fuel n rule: digits_fuel.induct)
  case (2 fuel n)
  show ?case
  proof (cases "n < 10")
    case False
    then have "0 < fuel" using "2.prems"(1) by (cases fuel) auto
    then have "parse_digits 0 (digits_fuel fuel (n div 10)) = Some (n div 10)"
      using False "2.IH" "2.prems" by (simp add: div_less_iff_less_mult mult.commute)
    moreover have "of_char (char_of (48 + n mod 10) :: char) = (48 + n mod 10 :: nat)" by (rule digit_char) simp
    ultimately show ?thesis
      using False "2.prems"(3) by (simp add: parse_digits_append Let_def div_mult_mod_eq del: char_of_mod_256)
  qed (use "2.prems" in \<open>simp add: Let_def\<close>)
qed simp

lemma parse_digits_zeros: "parse_digits 0 (replicate k CHR ''0'' @ s) = parse_digits 0 s"
  by (induction k) (auto simp: Let_def)

lemma decimal_digits: "c \<in> set (digits_fuel fuel n) \<Longrightarrow> 48 \<le> (of_char c :: nat) \<and> (of_char c :: nat) \<le> 57"
proof (induction fuel n rule: digits_fuel.induct)
  case (2 fuel n)
  then show ?case using digit_char [of n] digit_char [of "n mod 10"] by (auto split: if_splits)
qed simp

lemma decimal_nonempty: "decimal n \<noteq> []"
proof -
  have "0 < fuel \<Longrightarrow> digits_fuel fuel k \<noteq> []" for fuel k by (cases fuel) simp_all
  then show ?thesis by (simp add: decimal_def)
qed

lemma parse_decimal: "parse_digits 0 (decimal n) = Some (unat n)"
  unfolding decimal_def using unsigned_less [of n] by (intro parse_digits_fuel) simp_all

lemma file_stem_snoc: "CHR ''.'' \<notin> set ext \<Longrightarrow> stem \<noteq> [] \<Longrightarrow> file_stem (stem @ CHR ''.'' # ext) = stem"
proof -
  assume "CHR ''.'' \<notin> set ext" "stem \<noteq> []"
  then have "dropWhile (\<lambda>c. c \<noteq> CHR ''.'') (rev ext @ CHR ''.'' # rev stem) = CHR ''.'' # rev stem"
    by (subst dropWhile_append2) auto
  with \<open>stem \<noteq> []\<close> show ?thesis by (simp add: file_stem_def Let_def)
qed

section \<open>Properties\<close>

text \<open>
  Segment names round trip: the name made for a segment id parses back to that id, so
  distinct segments never share a file.
\<close>

theorem segment_name_roundtrip: "from_filename (segment_filename n) = Inr n"
proof -
  define stem where "stem = replicate (6 - length (decimal n)) CHR ''0'' @ decimal n"
  have ne: "stem \<noteq> []" by (simp add: stem_def decimal_nonempty)
  have "file_stem (stem @ CHR ''.'' # ''fbat'') = stem" by (rule file_stem_snoc) (simp_all add: ne)
  then have "file_stem (segment_filename n) = stem" by (simp add: segment_filename_def stem_def)
  moreover have "hd stem \<noteq> CHR ''+''"
    using ne decimal_digits [of "hd stem" 20 "unat n"] hd_in_set [OF ne] by (auto simp: stem_def decimal_def)
  then have "(case stem of [] \<Rightarrow> [] | c # cs \<Rightarrow> if c = CHR ''+'' then cs else stem) = stem"
    using ne by (cases stem) auto
  moreover have "parse_digits 0 stem = Some (unat n)"
    unfolding stem_def parse_digits_zeros by (rule parse_decimal)
  ultimately show ?thesis
    using ne by (simp add: from_filename_def from_stem_def parse_u64_def Let_def)
qed

text \<open>
  C21. Frames round trip and nothing else decodes. Decoding an encoded frame, whatever
  follows it, returns its payload and length; and a buffer that decodes starts with exactly
  the frame encoding of the payload that is returned, checksum and length included.
\<close>

theorem frame_roundtrip:
  "(frame_encode to_bytes crc d = Inr f \<longrightarrow>
      (\<exists>m. to_bytes d = Some m \<and> frame_decode crc (f @ rest) = Inr (m, length f))) \<and>
   (frame_decode crc buf = Inr (m, n) \<longrightarrow>
      n = 8 + length m \<and> buf = frame_bytes crc m @ drop n buf \<and>
      (to_bytes d = Some m \<longrightarrow> frame_encode to_bytes crc d = Inr (take n buf)))"
proof (intro conjI impI)
  assume "frame_encode to_bytes crc d = Inr f"
  then show "\<exists>m. to_bytes d = Some m \<and> frame_decode crc (f @ rest) = Inr (m, length f)"
    by (auto simp: frame_encode_ok frame_decode_bytes)
next
  assume dec: "frame_decode crc buf = Inr (m, n)"
  from frame_decode_sound [OF dec] have n: "n = 8 + length m" "length m < 2 ^ 32"
    and buf: "buf = frame_bytes crc m @ drop n buf" by auto
  show "n = 8 + length m" "buf = frame_bytes crc m @ drop n buf" using n buf by auto
  have "take n buf = frame_bytes crc m"
    by (subst buf) (simp add: n(1))
  then show "to_bytes d = Some m \<Longrightarrow> frame_encode to_bytes crc d = Inr (take n buf)"
    using n(2) by (simp add: frame_encode_ok)
qed

theorem frame_roundtrip_witness:
  "frame_decode (\<lambda>_. 9) ([0, 0, 0, 1, 0, 0, 0, 9, 0x42] @ [7]) = Inr ([0x42], 9)"
proof -
  have "frame_encode Some (\<lambda>_. 9) [0x42] = Inr [0, 0, 0, 1, 0, 0, 0, 9, 0x42 :: byte]"
    by (simp add: frame_encode_def to_be_def to_le_def le_nat_numeral)
  with frame_roundtrip [of Some "\<lambda>_. 9" "[0x42]" "[0, 0, 0, 1, 0, 0, 0, 9, 0x42]" "[7]"]
  show ?thesis by simp
qed

text \<open>
  Searching for frames is exact: a frame is reported at an offset exactly when a
  nonempty frame within the payload bound, with a matching checksum, stands there inside
  the file, with that frame's length; and the forward search answers yes exactly when such
  a frame stands at some offset from the start on.
\<close>

theorem frame_search_exact:
  assumes "length source < 2 ^ 64"
  shows "(try_decode_frame_at crc source at (length source) = Some n \<longleftrightarrow>
      (\<exists>m. frame_at crc source at m \<and> n = 8 + length m)) \<and>
    (crc_valid_frame_exists_after crc source from (length source) \<longleftrightarrow>
      (\<exists>at' m. from \<le> at' \<and> frame_at crc source at' m))"
  using try_decode_iff [OF assms] by (fastforce simp: frame_exists_iff)

theorem frame_search_exact_witness:
  "crc_valid_frame_exists_after (\<lambda>_. 9) [5, 0, 0, 0, 1, 0, 0, 0, 9, 0x42] 0 10"
proof -
  have "frame_at (\<lambda>_. 9) [5, 0, 0, 0, 1, 0, 0, 0, 9, 0x42] 1 [0x42 :: byte]"
    by (simp add: frame_at_def frame_bytes_def MAX_FRAME_PAYLOAD_def to_be_def to_le_def le_nat_numeral)
  moreover have len: "length [5, 0, 0, 0, 1, 0, 0, 0, 9, 0x42 :: byte] = 10" by simp
  ultimately show ?thesis
    using frame_search_exact [of "[5, 0, 0, 0, 1, 0, 0, 0, 9, 0x42]" "\<lambda>_. 9" 1 9 0, unfolded len] by auto
qed

end
