(* ===== verification/Sidx.thy ===== *)
theory Sidx
  imports Segment "HOL-Library.AList"
begin

text \<open>
  The segment index footer (\<^verbatim>\<open>store/segment/sidx.rs\<close>, \<^verbatim>\<open>store/segment/sidx/footer.rs\<close>) and the
  boundary detection of \<^verbatim>\<open>store/segment/mod.rs\<close>: the fixed 162-byte entry, the collector that
  interns names while a segment is written, the footer it appends when the segment is sealed,
  and the readers of that footer. The chunked checksum of the source is the checksum of the
  concatenated chunks.
\<close>

section \<open>Entries\<close>

definition SIDX_MAGIC :: bytes where
  "SIDX_MAGIC = [0x53, 0x44, 0x58, 0x33]"

definition SIDX_MAGIC_LEGACY_SDX2 :: bytes where
  "SIDX_MAGIC_LEGACY_SDX2 = [0x53, 0x44, 0x58, 0x32]"

definition ENTRY_SIZE :: nat where
  "ENTRY_SIZE = 162"

record sidx_entry =
  se_event_id :: u128
  se_entity_idx :: u32
  se_scope_idx :: u32
  se_kind :: u16
  se_wall_ms :: u64
  se_clock :: u32
  se_dag_lane :: u32
  se_dag_depth :: u32
  se_prev_hash :: bytes
  se_event_hash :: bytes
  se_frame_offset :: u64
  se_frame_length :: u32
  se_global_sequence :: u64
  se_correlation_id :: u128
  se_causation_id :: u128

definition to_disk_pos :: "sidx_entry \<Rightarrow> u64 \<Rightarrow> disk_pos" where
  "to_disk_pos e segment_id =
     \<lparr>pos_segment = segment_id, pos_offset = se_frame_offset e, pos_length = se_frame_length e\<rparr>"

definition encode_into :: "sidx_entry \<Rightarrow> bytes" where
  "encode_into e =
     to_le (se_event_id e) @ to_le (se_entity_idx e) @ to_le (se_scope_idx e) @ to_le (se_kind e) @
     to_le (se_wall_ms e) @ to_le (se_clock e) @ to_le (se_dag_lane e) @ to_le (se_dag_depth e) @
     se_prev_hash e @ se_event_hash e @ to_le (se_frame_offset e) @ to_le (se_frame_length e) @
     to_le (se_global_sequence e) @ to_le (se_correlation_id e) @ to_le (se_causation_id e)"

text \<open>\<open>field p n\<close> is the source's read of \<open>n\<close> bytes at cursor \<open>p\<close>.\<close>

definition field :: "bytes \<Rightarrow> nat \<Rightarrow> nat \<Rightarrow> bytes" where
  "field buf p n = take n (drop p buf)"

definition decode_from :: "bytes \<Rightarrow> u64 \<Rightarrow> (StoreError, sidx_entry) result" where
  "decode_from buf segment_id =
     (if length buf \<noteq> ENTRY_SIZE then Inl (CorruptSegment segment_id (EntryBufferLen (length buf)))
      else Inr \<lparr>se_event_id = from_le (field buf 0 16), se_entity_idx = from_le (field buf 16 4),
                se_scope_idx = from_le (field buf 20 4), se_kind = from_le (field buf 24 2),
                se_wall_ms = from_le (field buf 26 8), se_clock = from_le (field buf 34 4),
                se_dag_lane = from_le (field buf 38 4), se_dag_depth = from_le (field buf 42 4),
                se_prev_hash = field buf 46 32, se_event_hash = field buf 78 32,
                se_frame_offset = from_le (field buf 110 8), se_frame_length = from_le (field buf 118 4),
                se_global_sequence = from_le (field buf 122 8),
                se_correlation_id = from_le (field buf 130 16),
                se_causation_id = from_le (field buf 146 16)\<rparr>)"

section \<open>The collector\<close>

record sidx_collector =
  col_entries :: "sidx_entry list"
  col_strings :: "string list"
  col_string_map :: "(string \<times> u32) list"

definition collector_new :: sidx_collector where
  "collector_new = \<lparr>col_entries = [], col_strings = [], col_string_map = []\<rparr>"

definition collector_intern :: "sidx_collector \<Rightarrow> string \<Rightarrow> (StoreError, u32 \<times> sidx_collector) result" where
  "collector_intern c s =
     (case map_of (col_string_map c) s of
        Some idx \<Rightarrow> Inr (idx, c)
      | None \<Rightarrow>
          if length (col_strings c) < 2 ^ 32
          then let idx = of_nat (length (col_strings c)) in
            Inr (idx, c\<lparr>col_strings := col_strings c @ [s],
                        col_string_map := AList.update s idx (col_string_map c)\<rparr>)
          else Inl (InternerExhausted (of_nat (length (col_strings c)))))"

text \<open>
  An interning that fails leaves what was interned before it in the collector and pushes no
  entry; the error carries no collector, so that residue is not represented.
\<close>

definition collector_record ::
  "sidx_collector \<Rightarrow> sidx_entry \<Rightarrow> string \<Rightarrow> string \<Rightarrow> (StoreError, sidx_collector) result" where
  "collector_record c entry entity scope =
     bind_result (collector_intern c entity) (\<lambda>(entity_idx, c1).
     bind_result (collector_intern c1 scope) (\<lambda>(scope_idx, c2).
       Inr (c2\<lparr>col_entries := col_entries c2 @
         [entry\<lparr>se_entity_idx := entity_idx, se_scope_idx := scope_idx\<rparr>]\<rparr>)))"

text \<open>Appending the footer to a file whose write position is its end.\<close>

definition write_footer ::
  "(string list \<Rightarrow> bytes option) \<Rightarrow> (bytes \<Rightarrow> u32) \<Rightarrow> sidx_collector \<Rightarrow> bytes \<Rightarrow> u64 \<Rightarrow>
   (StoreError, bytes) result" where
  "write_footer to_bytes crc c writer segment_id =
     (case to_bytes (col_strings c) of
        None \<Rightarrow> Inl Serialization
      | Some string_table_bytes \<Rightarrow>
          let string_table_offset = of_nat (length writer) :: u64 in
          if length (col_entries c) < 2 ^ 32
          then let entry_count = of_nat (length (col_entries c)) :: u32;
                   covered = string_table_bytes @ concat (map encode_into (col_entries c)) in
            Inr (writer @ covered @ to_le (crc covered) @ to_le string_table_offset @ to_le entry_count @ SIDX_MAGIC)
          else Inl (SegmentTooManyEntries segment_id (of_nat (length (col_entries c)))))"

section \<open>Reading a footer\<close>

definition TRAILER_SIZE :: nat where
  "TRAILER_SIZE = 16"

definition SIDX_CRC_LEN :: nat where
  "SIDX_CRC_LEN = 4"

record footer_layout =
  fl_string_table_offset :: nat
  fl_string_table_len :: nat
  fl_entry_count :: nat

text \<open>The last sixteen bytes: table offset, entry count, magic.\<close>

definition trailer :: "bytes \<Rightarrow> bytes" where
  "trailer reader = drop (length reader - TRAILER_SIZE) reader"

definition trailer_offset :: "bytes \<Rightarrow> nat" where
  "trailer_offset reader = unat (from_le (take 8 (trailer reader)) :: u64)"

definition trailer_count :: "bytes \<Rightarrow> nat" where
  "trailer_count reader = unat (from_le (take 4 (drop 8 (trailer reader))) :: u32)"

definition trailer_magic :: "bytes \<Rightarrow> bytes" where
  "trailer_magic reader = take 4 (drop 12 (trailer reader))"

definition read_layout :: "(bytes \<Rightarrow> u32) \<Rightarrow> bytes \<Rightarrow> u64 \<Rightarrow> (StoreError, footer_layout option) result" where
  "read_layout crc reader segment_id =
     (let file_len = length reader in
      if file_len < TRAILER_SIZE then Inr None
      else if trailer_magic reader \<noteq> SIDX_MAGIC then Inr None
      else
        let string_table_offset = trailer_offset reader; entry_count = trailer_count reader;
            entries_block_len = entry_count * ENTRY_SIZE in
        if entries_block_len \<ge> 2 ^ 64 then Inl (CorruptSegment segment_id EntriesOverflow)
        else if file_len < TRAILER_SIZE + SIDX_CRC_LEN + entries_block_len
          then Inl (CorruptSegment segment_id EntriesBeforeStart)
        else
          let entries_start = file_len - TRAILER_SIZE - SIDX_CRC_LEN - entries_block_len in
          if string_table_offset > entries_start
            then Inl (CorruptSegment segment_id
              (TableOffsetPastEntries (of_nat string_table_offset) (of_nat entries_start)))
          else
            let string_table_len = entries_start - string_table_offset;
                covered_end = entries_start + entries_block_len;
                covered_len = string_table_len + entries_block_len in
            case (read_exact reader string_table_offset covered_len, read_exact reader covered_end 4) of
              (Some covered, Some stored_crc) \<Rightarrow>
                if crc covered \<noteq> from_le stored_crc then Inr None
                else Inr (Some \<lparr>fl_string_table_offset = string_table_offset,
                  fl_string_table_len = string_table_len, fl_entry_count = entry_count\<rparr>)
            | _ \<Rightarrow> Inl Io)"

definition authenticated_string_table_offset ::
  "(bytes \<Rightarrow> u32) \<Rightarrow> bytes \<Rightarrow> u64 \<Rightarrow> (StoreError, nat option) result" where
  "authenticated_string_table_offset crc reader segment_id =
     (case read_layout crc reader segment_id of
        Inr (Some layout) \<Rightarrow> Inr (Some (fl_string_table_offset layout))
      | Inr None \<Rightarrow> Inr None
      | Inl e \<Rightarrow> if e = Io then Inl Io else Inr None)"

fun read_entries_loop :: "bytes \<Rightarrow> u64 \<Rightarrow> nat \<Rightarrow> nat \<Rightarrow> sidx_entry list \<Rightarrow> sidx_entry list" where
  "read_entries_loop reader segment_id at 0 entries = entries"
| "read_entries_loop reader segment_id at (Suc n) entries =
     (case read_exact reader at ENTRY_SIZE of
        None \<Rightarrow> []
      | Some buf \<Rightarrow>
          (case decode_from buf segment_id of
             Inr entry \<Rightarrow> read_entries_loop reader segment_id (at + ENTRY_SIZE) n (entries @ [entry])
           | Inl _ \<Rightarrow> []))"

definition read_entries_unauthenticated :: "bytes \<Rightarrow> u64 \<Rightarrow> (StoreError, sidx_entry list) result" where
  "read_entries_unauthenticated reader segment_id =
     (let file_len = length reader in
      if file_len < TRAILER_SIZE then Inr []
      else if trailer_magic reader \<noteq> SIDX_MAGIC \<and> trailer_magic reader \<noteq> SIDX_MAGIC_LEGACY_SDX2 then Inr []
      else
        let string_table_offset = trailer_offset reader; entry_count = trailer_count reader;
            entries_block_len = entry_count * ENTRY_SIZE in
        if entries_block_len \<ge> 2 ^ 64 then Inr []
        else if file_len < TRAILER_SIZE + SIDX_CRC_LEN + entries_block_len then Inr []
        else
          let entries_start = file_len - TRAILER_SIZE - SIDX_CRC_LEN - entries_block_len in
          if string_table_offset > entries_start then Inr []
          else Inr (read_entries_loop reader segment_id entries_start entry_count []))"

text \<open>The entry loop of the footer reader: \<open>i\<close> counts up, \<open>n\<close> entries remain.\<close>

fun read_footer_entries ::
  "bytes \<Rightarrow> u64 \<Rightarrow> string list \<Rightarrow> nat \<Rightarrow> nat \<Rightarrow> nat \<Rightarrow> sidx_entry list \<Rightarrow> (StoreError, sidx_entry list) result" where
  "read_footer_entries file segment_id strings at i 0 entries = Inr entries"
| "read_footer_entries file segment_id strings at i (Suc n) entries =
     (case read_exact file at ENTRY_SIZE of
        None \<Rightarrow> Inl (CorruptSegment segment_id (EntryTruncated i))
      | Some entry_buf \<Rightarrow>
          bind_result (decode_from entry_buf segment_id) (\<lambda>entry.
            if unat (se_entity_idx entry) \<ge> length strings
              then Inl (CorruptSegment segment_id (EntityIdxRange i (se_entity_idx entry)))
            else if unat (se_scope_idx entry) \<ge> length strings
              then Inl (CorruptSegment segment_id (ScopeIdxRange i (se_scope_idx entry)))
            else read_footer_entries file segment_id strings (at + ENTRY_SIZE) (i + 1) n (entries @ [entry])))"

definition read_footer ::
  "(bytes \<Rightarrow> string list option) \<Rightarrow> (bytes \<Rightarrow> u32) \<Rightarrow> string \<Rightarrow> bytes \<Rightarrow>
   (StoreError, (sidx_entry list \<times> string list) option) result" where
  "read_footer from_bytes crc name file =
     (let segment_id = (case from_filename name of Inr n \<Rightarrow> n | Inl _ \<Rightarrow> 0) in
      bind_result (read_layout crc file segment_id) (\<lambda>layout_opt.
        case layout_opt of
          None \<Rightarrow> Inr None
        | Some layout \<Rightarrow>
            (case read_exact file (fl_string_table_offset layout) (fl_string_table_len layout) of
               None \<Rightarrow> Inl Io
             | Some string_table_buf \<Rightarrow>
                 (case from_bytes string_table_buf of
                    None \<Rightarrow> Inl Serialization
                  | Some strings \<Rightarrow>
                      bind_result (read_footer_entries file segment_id strings
                          (fl_string_table_offset layout + fl_string_table_len layout) 0 (fl_entry_count layout) [])
                        (\<lambda>entries. Inr (Some (entries, strings)))))))"

section \<open>The frame boundary\<close>

record sidx_boundary =
  frames_end :: nat
  trusted :: bool

definition detect_sidx_boundary ::
  "(bytes \<Rightarrow> u32) \<Rightarrow> bytes \<Rightarrow> u64 \<Rightarrow> (StoreError, sidx_boundary option) result" where
  "detect_sidx_boundary crc source segment_id =
     (let file_len = length source in
      if file_len < TRAILER_SIZE then Inr None
      else if trailer_magic source \<noteq> SIDX_MAGIC \<and> trailer_magic source \<noteq> SIDX_MAGIC_LEGACY_SDX2 then Inr None
      else
        let string_table_offset = trailer_offset source in
        bind_result (authenticated_string_table_offset crc source segment_id) (\<lambda>auth.
          let trusted = (auth = Some string_table_offset); max_offset = file_len - TRAILER_SIZE in
          if trusted \<and> string_table_offset > max_offset
            then Inl (CorruptSegment segment_id (PastFrameRegion (of_nat string_table_offset) (of_nat max_offset)))
          else Inr (Some \<lparr>frames_end = string_table_offset, trusted = trusted\<rparr>)))"

section \<open>The entry codec\<close>

definition sidx_entry_ok :: "sidx_entry \<Rightarrow> bool" where
  "sidx_entry_ok e \<longleftrightarrow> length (se_prev_hash e) = 32 \<and> length (se_event_hash e) = 32"

lemma encode_into_length: "sidx_entry_ok e \<Longrightarrow> length (encode_into e) = ENTRY_SIZE"
  by (simp add: encode_into_def sidx_entry_ok_def ENTRY_SIZE_def)

lemma decode_encode_entry: "sidx_entry_ok e \<Longrightarrow> decode_from (encode_into e) segment_id = Inr e"
  by (simp add: decode_from_def encode_into_length field_def)
    (simp add: encode_into_def sidx_entry_ok_def)

lemma field_length: "p + n \<le> length buf \<Longrightarrow> length (field buf p n) = n"
  by (simp add: field_def)

lemma field_append: "field buf p n @ field buf (p + n) k = field buf p (n + k)"
  unfolding field_def take_add drop_drop add.commute [of n p] ..

lemma encode_decode_entry:
  assumes "decode_from buf segment_id = Inr e"
  shows "encode_into e = buf \<and> sidx_entry_ok e"
proof -
  have len: "length buf = 162" using assms by (simp add: decode_from_def ENTRY_SIZE_def split: if_splits)
  have "encode_into e = field buf 0 16 @ field buf 16 4 @ field buf 20 4 @ field buf 24 2 @ field buf 26 8 @
      field buf 34 4 @ field buf 38 4 @ field buf 42 4 @ field buf 46 32 @ field buf 78 32 @ field buf 110 8 @
      field buf 118 4 @ field buf 122 8 @ field buf 130 16 @ field buf 146 16"
    using assms len by (auto simp: decode_from_def ENTRY_SIZE_def encode_into_def field_length)
  also have "\<dots> = field buf 0 162"
    using field_append [of buf 130 16 16] field_append [of buf 122 8 32] field_append [of buf 118 4 40]
      field_append [of buf 110 8 44] field_append [of buf 78 32 52] field_append [of buf 46 32 84]
      field_append [of buf 42 4 116] field_append [of buf 38 4 120] field_append [of buf 34 4 124]
      field_append [of buf 26 8 128] field_append [of buf 24 2 136] field_append [of buf 20 4 138]
      field_append [of buf 16 4 142] field_append [of buf 0 16 146] by simp
  also have "\<dots> = buf" using len by (simp add: field_def)
  finally have "encode_into e = buf" .
  moreover have "sidx_entry_ok e"
    using assms len by (auto simp: decode_from_def ENTRY_SIZE_def sidx_entry_ok_def field_length)
  ultimately show ?thesis ..
qed

definition decode_entry :: "bytes \<Rightarrow> sidx_entry option" where
  "decode_entry buf = (case decode_from buf 0 of Inr e \<Rightarrow> Some e | Inl _ \<Rightarrow> None)"

interpretation entry: fixed_codec ENTRY_SIZE sidx_entry_ok encode_into decode_entry
proof
  show "sidx_entry_ok x \<Longrightarrow> length (encode_into x) = ENTRY_SIZE" for x by (rule encode_into_length)
  show "sidx_entry_ok x \<Longrightarrow> decode_entry (encode_into x) = Some x" for x
    by (simp add: decode_entry_def decode_encode_entry)
  show "decode_entry bs = Some x \<Longrightarrow> encode_into x = bs \<and> sidx_entry_ok x" for bs x
    using encode_decode_entry [of bs 0 x] by (auto simp: decode_entry_def split: sum.splits)
qed

section \<open>The collector\<close>

definition collector_inv :: "sidx_collector \<Rightarrow> bool" where
  "collector_inv c \<longleftrightarrow> length (col_strings c) \<le> 2 ^ 32 \<and> distinct (col_strings c) \<and>
     (\<forall>s i. map_of (col_string_map c) s = Some i \<longleftrightarrow> unat i < length (col_strings c) \<and> col_strings c ! unat i = s) \<and>
     (\<forall>e \<in> set (col_entries c). sidx_entry_ok e \<and> unat (se_entity_idx e) < length (col_strings c) \<and>
        unat (se_scope_idx e) < length (col_strings c))"

lemma collector_new_inv: "collector_inv collector_new"
  by (simp add: collector_inv_def collector_new_def)

lemma intern_inv:
  assumes inv: "collector_inv c" and ok: "collector_intern c s = Inr (i, c')"
  shows "collector_inv c' \<and> col_entries c' = col_entries c \<and> unat i < length (col_strings c') \<and>
    col_strings c' ! unat i = s \<and> (\<exists>t. col_strings c' = col_strings c @ t)"
proof (cases "map_of (col_string_map c) s")
  case (Some j)
  with ok have "c' = c" "i = j" by (auto simp: collector_intern_def)
  with inv Some show ?thesis by (auto simp: collector_inv_def)
next
  case None
  let ?n = "length (col_strings c)"
  have lt: "?n < 2 ^ 32" and i: "i = of_nat ?n"
    and c': "c' = c\<lparr>col_strings := col_strings c @ [s], col_string_map := AList.update s (of_nat ?n) (col_string_map c)\<rparr>"
    using ok None by (auto simp: collector_intern_def Let_def split: if_splits)
  have n: "unat i = ?n" using lt by (simp add: i unat_of_nat)
  have fresh: "s \<notin> set (col_strings c)"
  proof
    assume "s \<in> set (col_strings c)"
    then obtain k where k: "k < ?n" "col_strings c ! k = s" by (auto simp: in_set_conv_nth)
    have "unat (of_nat k :: u32) = k" using k lt by (simp add: unat_of_nat)
    then have "map_of (col_string_map c) s = Some (of_nat k)" using inv k by (simp add: collector_inv_def)
    with None show False by simp
  qed
  have "map_of (col_string_map c') t = Some j \<longleftrightarrow> unat j < length (col_strings c') \<and> col_strings c' ! unat j = t" for t j
  proof (cases "t = s")
    case True
    have "unat j = ?n \<longleftrightarrow> j = i" using n by (metis word_unat_eq_iff)
    with True fresh n show ?thesis
      by (auto simp: c' update_conv nth_append i [symmetric] in_set_conv_nth less_Suc_eq)
  next
    case False
    with inv show ?thesis
      by (auto simp: c' update_conv collector_inv_def nth_append less_Suc_eq)
  qed
  with inv lt fresh show ?thesis
    by (auto simp: collector_inv_def c' n nth_append less_Suc_eq)
qed

lemma record_inv_entry:
  assumes "collector_inv c" and "collector_record c entry entity scope = Inr c'" and "sidx_entry_ok entry"
  shows "collector_inv c' \<and> (\<exists>t. col_strings c' = col_strings c @ t) \<and>
    (\<exists>e. col_entries c' = col_entries c @ [e] \<and> e = entry\<lparr>se_entity_idx := se_entity_idx e, se_scope_idx := se_scope_idx e\<rparr> \<and>
      col_strings c' ! unat (se_entity_idx e) = entity \<and> col_strings c' ! unat (se_scope_idx e) = scope)"
proof -
  from assms(2) obtain i c1 j c2 where i: "collector_intern c entity = Inr (i, c1)"
    and j: "collector_intern c1 scope = Inr (j, c2)"
    and c': "c' = c2\<lparr>col_entries := col_entries c2 @ [entry\<lparr>se_entity_idx := i, se_scope_idx := j\<rparr>]\<rparr>"
    by (auto simp: collector_record_def)
  note A = intern_inv [OF assms(1) i] and B = intern_inv [OF conjunct1 [OF intern_inv [OF assms(1) i]] j]
  then obtain t u where "col_strings c1 = col_strings c @ t" "col_strings c2 = col_strings c1 @ u" by blast
  with A B assms(3) show ?thesis
    by (auto simp: collector_inv_def c' sidx_entry_ok_def nth_append
        intro!: exI [of _ "entry\<lparr>se_entity_idx := i, se_scope_idx := j\<rparr>"])
qed

section \<open>Reading back\<close>

lemma read_exact_mid: "n = length b \<Longrightarrow> at = length a \<Longrightarrow> read_exact (a @ b @ c) at n = Some b"
  by (simp add: read_exact_def)

lemma read_exact_some: "read_exact source at n = Some b \<Longrightarrow> length b = n \<and> at + n \<le> length source"
  by (auto simp: read_exact_def split: if_splits)

lemma read_entries_loop_block:
  "\<forall>e \<in> set es. sidx_entry_ok e \<Longrightarrow>
   read_entries_loop (pre @ concat (map encode_into es) @ post) segment_id (length pre) (length es) acc = acc @ es"
proof (induction es arbitrary: pre acc)
  case (Cons e es)
  have "read_exact (pre @ encode_into e @ (concat (map encode_into es) @ post)) (length pre) ENTRY_SIZE = Some (encode_into e)"
    using Cons.prems by (intro read_exact_mid) (simp_all add: encode_into_length)
  moreover have "read_entries_loop ((pre @ encode_into e) @ concat (map encode_into es) @ post) segment_id
      (length (pre @ encode_into e)) (length es) (acc @ [e]) = (acc @ [e]) @ es"
    using Cons by (intro Cons.IH) simp
  ultimately show ?case
    using Cons.prems by (simp add: decode_encode_entry encode_into_length)
qed simp

lemma read_footer_entries_block:
  "\<forall>e \<in> set es. sidx_entry_ok e \<and> unat (se_entity_idx e) < length strings \<and> unat (se_scope_idx e) < length strings \<Longrightarrow>
   read_footer_entries (pre @ concat (map encode_into es) @ post) segment_id strings (length pre) i (length es) acc =
     Inr (acc @ es)"
proof (induction es arbitrary: pre acc i)
  case (Cons e es)
  have "read_exact (pre @ encode_into e @ (concat (map encode_into es) @ post)) (length pre) ENTRY_SIZE = Some (encode_into e)"
    using Cons.prems by (intro read_exact_mid) (simp_all add: encode_into_length)
  moreover have "read_footer_entries ((pre @ encode_into e) @ concat (map encode_into es) @ post) segment_id strings
      (length (pre @ encode_into e)) (i + 1) (length es) (acc @ [e]) = Inr ((acc @ [e]) @ es)"
    using Cons by (intro Cons.IH) simp
  ultimately show ?case
    using Cons.prems by (simp add: decode_encode_entry encode_into_length)
qed simp

lemma trailer_parts:
  assumes "length magic = 4"
  shows "trailer (xs @ to_le (off :: u64) @ to_le (cnt :: u32) @ magic) = to_le off @ to_le cnt @ magic"
    and "trailer_offset (xs @ to_le off @ to_le cnt @ magic) = unat off"
    and "trailer_count (xs @ to_le off @ to_le cnt @ magic) = unat cnt"
    and "trailer_magic (xs @ to_le off @ to_le cnt @ magic) = magic"
proof -
  show *: "trailer (xs @ to_le off @ to_le cnt @ magic) = to_le off @ to_le cnt @ magic"
    using assms by (simp add: trailer_def TRAILER_SIZE_def)
  show "trailer_offset (xs @ to_le off @ to_le cnt @ magic) = unat off"
    "trailer_count (xs @ to_le off @ to_le cnt @ magic) = unat cnt"
    "trailer_magic (xs @ to_le off @ to_le cnt @ magic) = magic"
    unfolding trailer_offset_def trailer_count_def trailer_magic_def * using assms by simp_all
qed

text \<open>The footer that writing appends, by its parts.\<close>

lemma write_footer_ok:
  assumes "write_footer to_bytes crc c writer segment_id = Inr out"
  obtains table where "to_bytes (col_strings c) = Some table" and "length (col_entries c) < 2 ^ 32"
    and "out = writer @ table @ concat (map encode_into (col_entries c)) @
      to_le (crc (table @ concat (map encode_into (col_entries c)))) @ to_le (of_nat (length writer) :: u64) @
      to_le (of_nat (length (col_entries c)) :: u32) @ SIDX_MAGIC"
  using assms by (auto simp: write_footer_def Let_def split: option.splits if_splits)

lemma read_layout_written:
  assumes inv: "\<forall>e \<in> set es. sidx_entry_ok e" and len: "length writer < 2 ^ 64" "length es < 2 ^ 32"
    and out: "out = writer @ table @ concat (map encode_into es) @
      to_le (crc (table @ concat (map encode_into es))) @ to_le (of_nat (length writer) :: u64) @
      to_le (of_nat (length es) :: u32) @ SIDX_MAGIC"
  shows "read_layout crc out segment_id = Inr (Some \<lparr>fl_string_table_offset = length writer,
    fl_string_table_len = length table, fl_entry_count = length es\<rparr>)"
proof -
  let ?block = "concat (map encode_into es)" and ?magic = SIDX_MAGIC
  let ?crc = "to_le (crc (table @ ?block))"
  have magic: "length ?magic = 4" by (simp add: SIDX_MAGIC_def)
  have block: "length ?block = length es * ENTRY_SIZE" by (rule entry.block_length [OF inv])
  have cnt: "unat (of_nat (length es) :: u32) = length es" using len by (simp add: unat_of_nat)
  have off: "unat (of_nat (length writer) :: u64) = length writer" using len by (simp add: unat_of_nat)
  have out': "out = (writer @ table @ ?block @ ?crc) @ to_le (of_nat (length writer) :: u64) @
      to_le (of_nat (length es) :: u32) @ ?magic" by (simp add: out)
  note tr = trailer_parts [OF magic, of "writer @ table @ ?block @ ?crc" "of_nat (length writer)" "of_nat (length es)",
      folded out', unfolded cnt off]
  have l: "length out = length writer + length table + length es * ENTRY_SIZE + 20"
    by (simp add: out block magic)
  have small: "length es * ENTRY_SIZE < 2 ^ 64" using len(2) by (simp add: ENTRY_SIZE_def)
  have "read_exact out (length writer) (length table + length es * ENTRY_SIZE) = Some (table @ ?block)"
    using read_exact_mid [of _ "table @ ?block" "length writer" writer] by (simp add: out block)
  moreover have "read_exact out (length writer + length table + length es * ENTRY_SIZE) 4 = Some ?crc"
    using read_exact_mid [of 4 ?crc _ "writer @ table @ ?block"] by (simp add: out block add.assoc)
  ultimately show ?thesis
    unfolding read_layout_def Let_def tr
    using small by (simp add: l TRAILER_SIZE_def SIDX_CRC_LEN_def)
qed

lemma detect_written:
  assumes "\<forall>e \<in> set es. sidx_entry_ok e" and "length writer < 2 ^ 64" "length es < 2 ^ 32"
    and out: "out = writer @ table @ concat (map encode_into es) @
      to_le (crc (table @ concat (map encode_into es))) @ to_le (of_nat (length writer) :: u64) @
      to_le (of_nat (length es) :: u32) @ SIDX_MAGIC"
  shows "detect_sidx_boundary crc out segment_id = Inr (Some \<lparr>frames_end = length writer, trusted = True\<rparr>)"
proof -
  have magic: "length SIDX_MAGIC = 4" by (simp add: SIDX_MAGIC_def)
  note tr = trailer_parts [OF magic, of "writer @ table @ concat (map encode_into es) @
      to_le (crc (table @ concat (map encode_into es)))" "of_nat (length writer)" "of_nat (length es)",
      simplified append_assoc, folded out]
  show ?thesis
    using assms(2) by (simp add: detect_sidx_boundary_def authenticated_string_table_offset_def
        read_layout_written [where crc = crc, OF assms] tr Let_def unat_of_nat)
      (simp add: out TRAILER_SIZE_def magic)
qed

text \<open>Recording a whole segment's entries with their names.\<close>

fun record_all :: "sidx_collector \<Rightarrow> (sidx_entry \<times> string \<times> string) list \<Rightarrow> (StoreError, sidx_collector) result" where
  "record_all c [] = Inr c"
| "record_all c ((e, entity, scope) # items) =
     bind_result (collector_record c e entity scope) (\<lambda>c'. record_all c' items)"

text \<open>An entry of the collector stands for the recorded one, with indexes that name its strings.\<close>

definition resolves :: "string list \<Rightarrow> sidx_entry \<times> string \<times> string \<Rightarrow> sidx_entry \<Rightarrow> bool" where
  "resolves strings item r \<longleftrightarrow> (case item of (e, entity, scope) \<Rightarrow>
     r = e\<lparr>se_entity_idx := se_entity_idx r, se_scope_idx := se_scope_idx r\<rparr> \<and>
     unat (se_entity_idx r) < length strings \<and> strings ! unat (se_entity_idx r) = entity \<and>
     unat (se_scope_idx r) < length strings \<and> strings ! unat (se_scope_idx r) = scope)"

lemma resolves_append: "resolves strings item r \<Longrightarrow> resolves (strings @ t) item r"
  by (auto simp: resolves_def nth_append)

lemma record_all_inv:
  assumes "collector_inv c" and "record_all c items = Inr c'" and "\<forall>(e, _) \<in> set items. sidx_entry_ok e"
    and "list_all2 (resolves (col_strings c)) done (col_entries c)"
  shows "collector_inv c' \<and> list_all2 (resolves (col_strings c')) (done @ items) (col_entries c')"
  using assms
proof (induction c items arbitrary: "done" rule: record_all.induct)
  case (2 c e entity scope items)
  from "2.prems"(2) obtain c1 where c1: "collector_record c e entity scope = Inr c1"
    and rest: "record_all c1 items = Inr c'" by auto
  have "sidx_entry_ok e" using "2.prems"(3) by auto
  from record_inv_entry [OF "2.prems"(1) c1 this] obtain t r where inv: "collector_inv c1"
    and t: "col_strings c1 = col_strings c @ t" and r: "col_entries c1 = col_entries c @ [r]"
    and eq: "r = e\<lparr>se_entity_idx := se_entity_idx r, se_scope_idx := se_scope_idx r\<rparr>"
      "col_strings c1 ! unat (se_entity_idx r) = entity" "col_strings c1 ! unat (se_scope_idx r) = scope" by blast
  have "resolves (col_strings c1) (e, entity, scope) r"
    using eq inv r by (auto simp: resolves_def collector_inv_def)
  moreover have "list_all2 (resolves (col_strings c1)) done (col_entries c)"
    using "2.prems"(4) unfolding t by (rule list_all2_mono) (rule resolves_append)
  ultimately have "list_all2 (resolves (col_strings c1)) (done @ [(e, entity, scope)]) (col_entries c1)"
    by (simp add: r list_all2_appendI)
  from "2.IH" [OF inv rest _ this] "2.prems"(3) show ?case by simp
qed simp

lemma read_footer_written:
  assumes codec: "\<And>ss bs. to_bytes ss = Some bs \<Longrightarrow> from_bytes bs = Some ss"
    and rec: "record_all collector_new items = Inr c" and ok: "\<forall>(e, _) \<in> set items. sidx_entry_ok e"
    and out: "write_footer to_bytes crc c frames segment_id = Inr file" and len: "length frames < 2 ^ 64"
  shows "read_footer from_bytes crc name file = Inr (Some (col_entries c, col_strings c))"
    and "list_all2 (resolves (col_strings c)) items (col_entries c)"
    and "detect_sidx_boundary crc file sid = Inr (Some \<lparr>frames_end = length frames, trusted = True\<rparr>)"
    and "trailer_magic file = SIDX_MAGIC" and "trailer_offset file = length frames" and "16 \<le> length file"
    and "take (length frames) file = frames"
proof -
  have inv: "collector_inv c" and res: "list_all2 (resolves (col_strings c)) items (col_entries c)"
    using record_all_inv [OF collector_new_inv rec ok, of "[]"] by (simp_all add: collector_new_def)
  obtain table where table: "to_bytes (col_strings c) = Some table" and n: "length (col_entries c) < 2 ^ 32"
    and contents: "file = frames @ table @ concat (map encode_into (col_entries c)) @
      to_le (crc (table @ concat (map encode_into (col_entries c)))) @ to_le (of_nat (length frames) :: u64) @
      to_le (of_nat (length (col_entries c)) :: u32) @ SIDX_MAGIC"
    using out by (rule write_footer_ok)
  have ents: "\<forall>e \<in> set (col_entries c). sidx_entry_ok e" using inv by (simp add: collector_inv_def)
  note layout = read_layout_written [where crc = crc, OF ents len n contents]
  have t: "read_exact file (length frames) (length table) = Some table"
    by (simp add: contents read_exact_mid)
  have "read_footer_entries ((frames @ table) @ concat (map encode_into (col_entries c)) @
      to_le (crc (table @ concat (map encode_into (col_entries c)))) @ to_le (of_nat (length frames) :: u64) @
      to_le (of_nat (length (col_entries c)) :: u32) @ SIDX_MAGIC) sid (col_strings c)
      (length (frames @ table)) 0 (length (col_entries c)) [] = Inr ([] @ col_entries c)" for sid
    using inv by (intro read_footer_entries_block) (simp add: collector_inv_def)
  then have "read_footer_entries file sid (col_strings c) (length frames + length table) 0 (length (col_entries c)) [] =
      Inr (col_entries c)" for sid
    by (simp add: contents)
  then show "read_footer from_bytes crc name file = Inr (Some (col_entries c, col_strings c))"
    by (simp add: read_footer_def Let_def layout t codec [OF table])
  show "detect_sidx_boundary crc file sid = Inr (Some \<lparr>frames_end = length frames, trusted = True\<rparr>)"
    by (rule detect_written [where crc = crc, OF ents len n contents])
  have magic: "length SIDX_MAGIC = 4" by (simp add: SIDX_MAGIC_def)
  have src: "file = (frames @ table @ concat (map encode_into (col_entries c)) @
      to_le (crc (table @ concat (map encode_into (col_entries c))))) @ to_le (of_nat (length frames) :: u64) @
      to_le (of_nat (length (col_entries c)) :: u32) @ SIDX_MAGIC" by (simp add: contents)
  note tr = trailer_parts [OF magic, of "frames @ table @ concat (map encode_into (col_entries c)) @
      to_le (crc (table @ concat (map encode_into (col_entries c))))" "of_nat (length frames)" "of_nat (length (col_entries c))",
      folded src]
  show "trailer_magic file = SIDX_MAGIC" "trailer_offset file = length frames"
    using tr len by (simp_all add: unat_of_nat)
  show "16 \<le> length file" "take (length frames) file = frames" by (simp_all add: contents magic)
  show "list_all2 (resolves (col_strings c)) items (col_entries c)" by (rule res)
qed

section \<open>Properties\<close>

text \<open>
  The index entry codec is exact: encoding any entry with two 32-byte hashes gives 162
  bytes that decode to the entry; a buffer that decodes is the encoding of the result; and a
  buffer of any other length is refused with its length.
\<close>

theorem sidx_entry_codec:
  "(sidx_entry_ok e \<longrightarrow> length (encode_into e) = ENTRY_SIZE \<and> decode_from (encode_into e) segment_id = Inr e) \<and>
   (decode_from buf segment_id = Inr e' \<longrightarrow> encode_into e' = buf \<and> sidx_entry_ok e') \<and>
   (length buf \<noteq> ENTRY_SIZE \<longrightarrow>
      decode_from buf segment_id = Inl (CorruptSegment segment_id (EntryBufferLen (length buf))))"
  using encode_into_length decode_encode_entry encode_decode_entry by (auto simp: decode_from_def)

theorem sidx_entry_codec_witness:
  "decode_from [1, 2] 7 = Inl (CorruptSegment 7 (EntryBufferLen 2))"
  using sidx_entry_codec [of undefined 7 "[1, 2]" undefined] by (simp add: ENTRY_SIZE_def)

text \<open>
  C22. The segment index survives sealing. For any entries recorded in a fresh collector with
  their names, the file with the appended footer reads back (for a string-table codec that
  decodes what it encodes) the same entries in order, each resolving to the names it was
  recorded with; and the boundary detected in the sealed file is trusted and is exactly
  where the frames ended.
\<close>

theorem sidx_footer_roundtrip:
  assumes codec: "\<And>ss bs. to_bytes ss = Some bs \<Longrightarrow> from_bytes bs = Some ss"
    and rec: "record_all collector_new items = Inr c" and ok: "\<forall>(e, _) \<in> set items. sidx_entry_ok e"
    and out: "write_footer to_bytes crc c frames segment_id = Inr file" and len: "length frames < 2 ^ 64"
  shows "read_footer from_bytes crc name file = Inr (Some (col_entries c, col_strings c)) \<and>
    list_all2 (resolves (col_strings c)) items (col_entries c) \<and>
    detect_sidx_boundary crc file segment_id = Inr (Some \<lparr>frames_end = length frames, trusted = True\<rparr>)"
  using read_footer_written(1-3) [where to_bytes = to_bytes and from_bytes = from_bytes, OF codec rec ok out len] by blast

theorem sidx_footer_roundtrip_witness:
  "\<exists>file. write_footer (\<lambda>ss. if ss = [] then Some [0x90] else None) (\<lambda>_. 5) collector_new [1, 2, 3] 4 = Inr file \<and>
     read_footer (\<lambda>bs. if bs = [0x90] then Some [] else None) (\<lambda>_. 5) ''000004.fbat'' file = Inr (Some ([], [])) \<and>
     detect_sidx_boundary (\<lambda>_. 5) file 4 = Inr (Some \<lparr>frames_end = 3, trusted = True\<rparr>)"
proof -
  let ?to = "\<lambda>ss :: string list. if ss = [] then Some [0x90 :: byte] else None"
  let ?from = "\<lambda>bs. if bs = [0x90 :: byte] then Some ([] :: string list) else None"
  have codec: "?from bs = Some ss" if "?to ss = Some bs" for ss bs using that by (simp split: if_splits)
  obtain out where out: "write_footer ?to (\<lambda>_. 5) collector_new [1, 2, 3] 4 = Inr out"
    by (simp add: write_footer_def collector_new_def Let_def)
  have rec: "record_all collector_new [] = Inr collector_new" by simp
  from sidx_footer_roundtrip [of ?to ?from "[]" collector_new "\<lambda>_. 5" "[1, 2, 3]" 4 out "''000004.fbat''",
      OF codec rec _ out]
  show ?thesis using out by (simp add: collector_new_def)
qed

text \<open>
  C23. A footer is believed only when it fits: whenever a layout is accepted, the string
  table, the entries, the checksum and the trailer tile the end of the file exactly, the
  trailer carries the current magic, and the checksum over table and entries matches. A
  trusted boundary never lies past the file.
\<close>

theorem read_layout_sound:
  "(read_layout crc reader segment_id = Inr (Some l) \<longrightarrow>
      fl_string_table_offset l + fl_string_table_len l + fl_entry_count l * ENTRY_SIZE + 20 = length reader \<and>
      trailer_magic reader = SIDX_MAGIC \<and>
      crc (take (fl_string_table_len l + fl_entry_count l * ENTRY_SIZE) (drop (fl_string_table_offset l) reader)) =
        from_le (take 4 (drop (length reader - 20) reader))) \<and>
   (detect_sidx_boundary crc reader segment_id = Inr (Some b) \<and> trusted b \<longrightarrow> frames_end b + 20 \<le> length reader)"
proof (intro conjI impI)
  show sound: "fl_string_table_offset l + fl_string_table_len l + fl_entry_count l * ENTRY_SIZE + 20 = length reader"
    "trailer_magic reader = SIDX_MAGIC"
    "crc (take (fl_string_table_len l + fl_entry_count l * ENTRY_SIZE) (drop (fl_string_table_offset l) reader)) =
        from_le (take 4 (drop (length reader - 20) reader))"
    if "read_layout crc reader segment_id = Inr (Some l)" for l
    using that by (auto simp: read_layout_def read_exact_def Let_def TRAILER_SIZE_def SIDX_CRC_LEN_def
        split: if_splits)
  assume "detect_sidx_boundary crc reader segment_id = Inr (Some b) \<and> trusted b"
  then have b: "detect_sidx_boundary crc reader segment_id = Inr (Some b)" "trusted b" by auto
  then obtain l where "read_layout crc reader segment_id = Inr (Some l)" "frames_end b = fl_string_table_offset l"
    by (auto simp: detect_sidx_boundary_def authenticated_string_table_offset_def Let_def
        split: if_splits sum.splits option.splits)
  with sound(1) show "frames_end b + 20 \<le> length reader" by force
qed

theorem read_layout_sound_witness:
  "\<exists>reader. read_layout (\<lambda>_. 5) reader 4 = Inr (Some \<lparr>fl_string_table_offset = 0, fl_string_table_len = 1,
      fl_entry_count = 0\<rparr>) \<and> 0 + 1 + 0 * ENTRY_SIZE + 20 = length reader"
proof -
  define reader where "reader = [] @ [0x90 :: byte] @ concat (map encode_into []) @
    to_le ((\<lambda>_. 5) ([0x90 :: byte] @ concat (map encode_into [])) :: u32) @ to_le (of_nat (length ([] :: bytes)) :: u64) @
    to_le (of_nat (length ([] :: sidx_entry list)) :: u32) @ SIDX_MAGIC"
  have "read_layout (\<lambda>_. 5) reader 4 = Inr (Some \<lparr>fl_string_table_offset = length ([] :: bytes),
      fl_string_table_len = length [0x90 :: byte], fl_entry_count = length ([] :: sidx_entry list)\<rparr>)"
    by (rule read_layout_written [where crc = "\<lambda>_. 5", OF _ _ _ reader_def]) simp_all
  then have l: "read_layout (\<lambda>_. 5) reader 4 = Inr (Some \<lparr>fl_string_table_offset = 0, fl_string_table_len = 1,
      fl_entry_count = 0\<rparr>)" by simp
  moreover from l have "0 + 1 + 0 * ENTRY_SIZE + 20 = length reader"
    using read_layout_sound [of "\<lambda>_. 5" reader 4 "\<lparr>fl_string_table_offset = 0, fl_string_table_len = 1,
      fl_entry_count = 0\<rparr>" undefined] by simp
  ultimately show ?thesis by blast
qed

end
