(* ===== verification/Manifest.thy ===== *)
theory Manifest
  imports Sidx
begin

text \<open>
  Recovery of a segment whose footer cannot be trusted
  (\<^verbatim>\<open>store/segment/recovery_manifest.rs\<close>) and the compaction copy that relies on it
  (\<^verbatim>\<open>append_frames_from_segment\<close> of \<^verbatim>\<open>store/segment/mod.rs\<close>): the walk over checksummed frames,
  the refusal to cut a segment short when a good frame follows a bad one, and the
  corroboration of the unauthenticated index entries. \<open>decode_chain\<close> is the decoder of the
  part of a frame payload that carries the hash chain: \<open>None\<close> when it does not decode.
\<close>

section \<open>Walking the frames\<close>

record recovered_frame =
  rf_frame_length :: u32
  rf_event_hash :: "bytes option"

type_synonym recovered_map = "(nat, recovered_frame) btree"

datatype UntrustedRecovery = RecoverPrefix nat | RecoveryFailClosed

definition read_frame_event_hash ::
  "(bytes \<Rightarrow> u32) \<Rightarrow> (bytes \<Rightarrow> hash_chain option option) \<Rightarrow> bytes \<Rightarrow> nat \<Rightarrow> nat \<Rightarrow> bytes option" where
  "read_frame_event_hash crc decode_chain source at frame_size =
     (if frame_size < 8 then None
      else case read_exact source at frame_size of
          None \<Rightarrow> None
        | Some frame \<Rightarrow>
            (case frame_decode crc frame of
               Inl _ \<Rightarrow> None
             | Inr (msgpack, _) \<Rightarrow>
                 (case decode_chain msgpack of
                    None \<Rightarrow> None
                  | Some chain \<Rightarrow> map_option event_hash chain)))"

function frames_end_loop ::
  "(bytes \<Rightarrow> u32) \<Rightarrow> (bytes \<Rightarrow> hash_chain option option) \<Rightarrow> bytes \<Rightarrow> nat \<Rightarrow> u64 \<Rightarrow> nat \<Rightarrow> recovered_map \<Rightarrow>
   (StoreError, nat \<times> recovered_map) result" where
  "frames_end_loop crc decode_chain source file_len segment_id cursor recovered =
     (if cursor \<ge> file_len then Inr (file_len, recovered)
      else case try_decode_frame_at crc source cursor file_len of
          Some frame_size \<Rightarrow>
            let hash = read_frame_event_hash crc decode_chain source cursor frame_size;
                recovered' = (if frame_size < 2 ^ 32
                  then bt_insert cursor \<lparr>rf_frame_length = of_nat frame_size, rf_event_hash = hash\<rparr> recovered
                  else recovered) in
            if cursor + frame_size \<ge> 2 ^ 64 then Inr (cursor, recovered')
            else frames_end_loop crc decode_chain source file_len segment_id (cursor + frame_size) recovered'
        | None \<Rightarrow>
            if cursor + 1 \<ge> 2 ^ 64 then Inr (cursor, recovered)
            else if crc_valid_frame_exists_after crc source (cursor + 1) file_len
              then Inl (CorruptSegment segment_id (MidStreamCorruption cursor file_len))
            else Inr (cursor, recovered))"
  by pat_completeness auto
termination
  by (relation "measure (\<lambda>(crc, dc, source, file_len, sid, cursor, rec). file_len - cursor)")
    (auto dest: try_decode_size)

declare frames_end_loop.simps [simp del]

definition crc_valid_frames_end_with_map ::
  "(bytes \<Rightarrow> u32) \<Rightarrow> (bytes \<Rightarrow> hash_chain option option) \<Rightarrow> bytes \<Rightarrow> nat \<Rightarrow> nat \<Rightarrow> u64 \<Rightarrow>
   (StoreError, nat \<times> recovered_map) result" where
  "crc_valid_frames_end_with_map crc decode_chain source frames_start file_len segment_id =
     frames_end_loop crc decode_chain source file_len segment_id frames_start []"

section \<open>Corroboration\<close>

definition is_corroborated :: "recovered_map \<Rightarrow> sidx_entry \<Rightarrow> bool" where
  "is_corroborated recovered entry =
     (case bt_get recovered (unat (se_frame_offset entry)) of
        Some frame \<Rightarrow> rf_frame_length frame = se_frame_length entry \<and>
          rf_event_hash frame = Some (se_event_hash entry)
      | None \<Rightarrow> False)"

fun check_attested :: "recovered_map \<Rightarrow> nat \<Rightarrow> sidx_entry list \<Rightarrow> UntrustedRecovery" where
  "check_attested recovered recovery_stop [] = RecoverPrefix recovery_stop"
| "check_attested recovered recovery_stop (entry # entries) =
     (if unat (se_frame_offset entry) \<ge> recovery_stop \<and> \<not> is_corroborated recovered entry
      then RecoveryFailClosed else check_attested recovered recovery_stop entries)"

definition corroborate_untrusted_entries :: "sidx_entry list \<Rightarrow> recovered_map \<Rightarrow> nat \<Rightarrow> UntrustedRecovery" where
  "corroborate_untrusted_entries entries recovered recovery_stop =
     (if \<not> list_ex (is_corroborated recovered) entries then RecoverPrefix recovery_stop
      else check_attested recovered recovery_stop entries)"

definition resolve_untrusted_frames_end ::
  "(bytes \<Rightarrow> u32) \<Rightarrow> (bytes \<Rightarrow> hash_chain option option) \<Rightarrow> bytes \<Rightarrow> nat \<Rightarrow> nat \<Rightarrow> u64 \<Rightarrow> (StoreError, nat) result" where
  "resolve_untrusted_frames_end crc decode_chain source frames_start file_len segment_id =
     bind_result (read_entries_unauthenticated source segment_id) (\<lambda>entries.
     bind_result (crc_valid_frames_end_with_map crc decode_chain source frames_start file_len segment_id)
       (\<lambda>(recovery_stop, recovered).
         case corroborate_untrusted_entries entries recovered recovery_stop of
           RecoverPrefix end \<Rightarrow> Inr end
         | RecoveryFailClosed \<Rightarrow> Inl (CorruptSegment segment_id (ManifestFrameMissing recovery_stop file_len))))"

section \<open>The compaction copy\<close>

definition append_frames_from_segment ::
  "(bytes \<Rightarrow> u32) \<Rightarrow> (bytes \<Rightarrow> hash_chain option option) \<Rightarrow> segment \<Rightarrow> bytes \<Rightarrow> (StoreError, u64 \<times> segment) result" where
  "append_frames_from_segment crc decode_chain seg source =
     (case read_exact source 0 4 of
        None \<Rightarrow> Inl Io
      | Some magic \<Rightarrow>
          if magic \<noteq> SEGMENT_MAGIC then Inl (CorruptSegment 0 BadMagic)
          else case read_exact source 4 4 of
              None \<Rightarrow> Inl Io
            | Some header_len_buf \<Rightarrow>
                let header_len = unat (from_be header_len_buf :: u32);
                    frames_start = 8 + header_len; file_len = length source in
                bind_result (detect_sidx_boundary crc source 0) (\<lambda>boundary.
                  let frames_end' = (case boundary of None \<Rightarrow> file_len | Some b \<Rightarrow> frames_end b);
                      untrusted_boundary = (case boundary of None \<Rightarrow> False | Some b \<Rightarrow> \<not> trusted b) in
                  if \<not> untrusted_boundary \<and> frames_end' < frames_start
                    then Inl (CorruptSegment 0 (BelowFrameRegion (of_nat frames_end') (of_nat frames_start)))
                  else
                    bind_result
                      (if untrusted_boundary
                       then resolve_untrusted_frames_end crc decode_chain source frames_start file_len 0
                       else Inr frames_end')
                      (\<lambda>copy_end.
                        let bytes_to_copy = copy_end - frames_start;
                            copied = take bytes_to_copy (drop frames_start source) in
                        Inr (written_bytes seg,
                          case seg_file seg of
                            None \<Rightarrow> seg
                          | Some f \<Rightarrow> seg\<lparr>seg_file := Some (f @ copied),
                                          written_bytes := written_bytes seg + of_nat (length copied)\<rparr>))))"

section \<open>What the walk recovers\<close>

text \<open>The frames of a list of payloads, one after the other, and the offset of each.\<close>

definition frame_stream :: "(bytes \<Rightarrow> u32) \<Rightarrow> bytes list \<Rightarrow> bytes" where
  "frame_stream crc ms = concat (map (frame_bytes crc) ms)"

fun frame_offsets :: "nat \<Rightarrow> bytes list \<Rightarrow> nat list" where
  "frame_offsets at [] = []"
| "frame_offsets at (m # ms) = at # frame_offsets (at + 8 + length m) ms"

definition payload_ok :: "bytes \<Rightarrow> bool" where
  "payload_ok m \<longleftrightarrow> m \<noteq> [] \<and> length m \<le> MAX_FRAME_PAYLOAD"

text \<open>A stream of good frames lies between two offsets of a file.\<close>

definition stream_between :: "(bytes \<Rightarrow> u32) \<Rightarrow> bytes \<Rightarrow> nat \<Rightarrow> bytes list \<Rightarrow> nat \<Rightarrow> bool" where
  "stream_between crc source start ms stop \<longleftrightarrow> (\<forall>m \<in> set ms. payload_ok m) \<and>
     stop = start + length (frame_stream crc ms) \<and> stop \<le> length source \<and>
     take (length (frame_stream crc ms)) (drop start source) = frame_stream crc ms"

lemma stream_between_Nil [simp]: "stream_between crc source start [] stop \<longleftrightarrow> stop = start \<and> start \<le> length source"
  by (auto simp: stream_between_def frame_stream_def)

lemma stream_between_Cons:
  "stream_between crc source start (m # ms) stop \<longleftrightarrow>
     frame_at crc source start m \<and> stream_between crc source (start + 8 + length m) ms stop"
proof -
  have "take (8 + length m + k) (drop start source) = frame_bytes crc m @ s \<longleftrightarrow>
      take (8 + length m) (drop start source) = frame_bytes crc m \<and> take k (drop (start + 8 + length m) source) = s"
    if "start + 8 + length m \<le> length source" for k s
    using that unfolding take_add [of "8 + length m" k] drop_drop
    by (subst append_eq_append_conv) (simp_all add: add.commute add.left_commute)
  then show ?thesis
    by (auto simp: stream_between_def frame_stream_def frame_at_def payload_ok_def add.assoc)
qed

lemma frames_end_sound:
  assumes "frames_end_loop crc dc source (length source) sid cursor rec = Inr (stop, rec')"
    and "length source < 2 ^ 64" and "cursor \<le> length source"
  shows "(\<exists>ms. stream_between crc source cursor ms stop \<and>
      fst ` set rec' = fst ` set rec \<union> set (frame_offsets cursor ms)) \<and>
    (\<forall>at \<ge> stop. \<forall>m. \<not> frame_at crc source at m)"
  using assms
proof (induction crc dc source "length source" sid cursor rec rule: frames_end_loop.induct)
  case (1 crc dc source sid cursor rec)
  have past: "\<not> frame_at crc source at m" if "length source \<le> at" for at m
    using that by (simp add: frame_at_def)
  show ?case
  proof (cases "cursor \<ge> length source")
    case True
    with "1.prems" have "stop = length source" "rec' = rec" "cursor = length source"
      by (auto simp: frames_end_loop.simps [of crc dc source "length source"])
    then show ?thesis using past by (intro conjI exI [of _ "[]"]) auto
  next
    case False
    show ?thesis
    proof (cases "try_decode_frame_at crc source cursor (length source)")
      case None
      then have nx: "\<not> crc_valid_frame_exists_after crc source (cursor + 1) (length source)" "stop = cursor" "rec' = rec"
        using "1.prems" False by (auto simp: frames_end_loop.simps [of crc dc source "length source"] split: if_splits)
      have "\<not> frame_at crc source at m" if "at \<ge> cursor" for at m
      proof (cases "at = cursor")
        case True
        with None frame_at_length [OF "1.prems"(2)] show ?thesis by fastforce
      next
        case False
        with that nx(1) frame_at_length [OF "1.prems"(2)] show ?thesis by (force simp: frame_exists_iff)
      qed
      with nx "1.prems"(3) show ?thesis by (intro conjI exI [of _ "[]"]) auto
    next
      case (Some n)
      from try_decode_frame_at_sound [OF Some] obtain m where m: "frame_at crc source cursor m" "n = 8 + length m" by blast
      have n: "cursor + n \<le> length source" "n < 2 ^ 32"
        using m MAX_FRAME_PAYLOAD_lt by (auto simp: frame_at_def MAX_FRAME_PAYLOAD_def)
      let ?rec = "bt_insert cursor \<lparr>rf_frame_length = of_nat n,
        rf_event_hash = read_frame_event_hash crc dc source cursor n\<rparr> rec"
      have loop: "frames_end_loop crc dc source (length source) sid (cursor + n) ?rec = Inr (stop, rec')"
        using "1.prems" False Some n
        by (simp add: frames_end_loop.simps [of crc dc source "length source" sid cursor] Let_def)
      then have "(\<exists>ms. stream_between crc source (cursor + n) ms stop \<and>
          fst ` set rec' = fst ` set ?rec \<union> set (frame_offsets (cursor + n) ms)) \<and>
          (\<forall>at \<ge> stop. \<forall>m. \<not> frame_at crc source at m)"
        using "1.hyps" [OF False Some refl refl] n "1.prems"(2) by (simp add: Let_def)
      then obtain ms where "stream_between crc source (cursor + n) ms stop"
        "fst ` set rec' = insert cursor (fst ` set rec) \<union> set (frame_offsets (cursor + n) ms)"
        "\<forall>at \<ge> stop. \<forall>m. \<not> frame_at crc source at m" by (auto simp: keys_bt_insert)
      with m show ?thesis
        by (intro conjI exI [of _ "m # ms"]) (auto simp: stream_between_Cons add.assoc)
    qed
  qed
qed

lemma frames_end_complete:
  assumes "stream_between crc source cursor ms stop" and "length source < 2 ^ 64"
    and "\<forall>at \<ge> stop. \<forall>m. \<not> frame_at crc source at m"
  shows "\<exists>rec'. frames_end_loop crc dc source (length source) sid cursor rec = Inr (stop, rec')"
  using assms
proof (induction ms arbitrary: cursor rec)
  case Nil
  then have c: "cursor = stop" "stop \<le> length source" by auto
  have dec: "try_decode_frame_at crc source at (length source) = None" if "stop \<le> at" for at
  proof (rule ccontr)
    assume "try_decode_frame_at crc source at (length source) \<noteq> None"
    then obtain n where "try_decode_frame_at crc source at (length source) = Some n" by blast
    from try_decode_frame_at_sound [OF this] Nil.prems(3) that show False by blast
  qed
  have "\<not> crc_valid_frame_exists_after crc source (stop + 1) (length source)"
    using dec by (simp add: frame_exists_iff)
  then show ?case
    using c dec [of stop] by (subst frames_end_loop.simps) auto
next
  case (Cons m ms)
  from Cons.prems(1) have m: "frame_at crc source cursor m"
    and rest: "stream_between crc source (cursor + (8 + length m)) ms stop"
    by (simp_all add: stream_between_Cons add.assoc)
  have "cursor + 8 + length m \<le> length source" using m by (simp add: frame_at_def)
  then have "cursor < length source" "cursor + (8 + length m) < 2 ^ 64" using Cons.prems(2) by linarith+
  then show ?case
    using frame_at_length [OF Cons.prems(2) m] Cons.IH [OF rest Cons.prems(2,3)]
    by (subst frames_end_loop.simps) (simp add: Let_def)
qed

lemma frames_end_error:
  "frames_end_loop crc dc source file_len sid cursor rec = Inl e \<Longrightarrow>
   \<exists>at. e = CorruptSegment sid (MidStreamCorruption at file_len)"
proof (induction crc dc source file_len sid cursor rec rule: frames_end_loop.induct)
  case (1 crc dc source file_len sid cursor rec)
  show ?case
  proof (cases "try_decode_frame_at crc source cursor file_len")
    case None
    with "1.prems" show ?thesis
      by (auto simp: frames_end_loop.simps [of crc dc source file_len sid cursor] split: if_splits)
  next
    case (Some n)
    with "1.prems" show ?thesis
      using "1.IH" [of n, OF _ Some refl refl]
      by (simp add: frames_end_loop.simps [of crc dc source file_len sid cursor] Let_def split: if_splits)
  qed
qed

lemma frame_offsets_bound: "k \<in> set (frame_offsets at ms) \<Longrightarrow> k < at + length (frame_stream crc ms)"
  by (induction ms arbitrary: at) (fastforce simp: frame_stream_def)+

lemma check_attested_ok:
  "check_attested recovered stop es = RecoverPrefix end \<longleftrightarrow> end = stop \<and>
     (\<forall>e \<in> set es. stop \<le> unat (se_frame_offset e) \<longrightarrow> is_corroborated recovered e)"
  by (induction es) auto

lemma corroborated_below:
  assumes "is_corroborated recovered e" and "\<forall>k \<in> fst ` set recovered. k < stop"
  shows "unat (se_frame_offset e) < stop"
  using assms by (force simp: is_corroborated_def split: option.splits dest: map_of_SomeD)

section \<open>Properties\<close>

text \<open>
  C24. The walk over an untrusted segment is exact and refuses to lose frames. It stops at an
  offset exactly when good frames tile the region up to it and no good frame stands at any
  later offset; in every other case it reports mid-stream corruption. It always returns.
\<close>

theorem untrusted_walk_exact:
  assumes "length source < 2 ^ 64" and "start \<le> length source"
  shows "((\<exists>recovered. crc_valid_frames_end_with_map crc dc source start (length source) sid = Inr (stop, recovered)) \<longleftrightarrow>
      (\<exists>ms. stream_between crc source start ms stop \<and> (\<forall>at \<ge> stop. \<forall>m. \<not> frame_at crc source at m))) \<and>
    (crc_valid_frames_end_with_map crc dc source start (length source) sid = Inl e \<longrightarrow>
      (\<exists>at. e = CorruptSegment sid (MidStreamCorruption at (length source))))"
  unfolding crc_valid_frames_end_with_map_def
proof (intro conjI iffI impI)
  assume "\<exists>recovered. frames_end_loop crc dc source (length source) sid start [] = Inr (stop, recovered)"
  then obtain recovered where "frames_end_loop crc dc source (length source) sid start [] = Inr (stop, recovered)" by blast
  from frames_end_sound [OF this assms]
  show "\<exists>ms. stream_between crc source start ms stop \<and> (\<forall>at \<ge> stop. \<forall>m. \<not> frame_at crc source at m)" by auto
next
  assume "\<exists>ms. stream_between crc source start ms stop \<and> (\<forall>at \<ge> stop. \<forall>m. \<not> frame_at crc source at m)"
  then obtain ms where "stream_between crc source start ms stop" "\<forall>at \<ge> stop. \<forall>m. \<not> frame_at crc source at m" by blast
  from frames_end_complete [OF this(1) assms(1) this(2)]
  show "\<exists>recovered. frames_end_loop crc dc source (length source) sid start [] = Inr (stop, recovered)" .
qed (rule frames_end_error)

theorem untrusted_walk_exact_witness:
  "\<exists>recovered. crc_valid_frames_end_with_map (\<lambda>_. 9) (\<lambda>_. None) [0, 0, 0, 1, 0, 0, 0, 9, 0x42, 7] 0
     (length [0, 0, 0, 1, 0, 0, 0, 9, 0x42, 7 :: byte]) 3 = Inr (9, recovered)"
proof -
  let ?s = "[0, 0, 0, 1, 0, 0, 0, 9, 0x42, 7 :: byte]"
  have "stream_between (\<lambda>_. 9) ?s 0 [[0x42]] 9"
    by (simp add: stream_between_Cons frame_at_def frame_bytes_def MAX_FRAME_PAYLOAD_def to_be_def to_le_def le_nat_numeral)
  moreover have "\<forall>at \<ge> 9. \<forall>m. \<not> frame_at (\<lambda>_. 9) ?s at m"
    by (auto simp: frame_at_def)
  ultimately show ?thesis
    using untrusted_walk_exact [of ?s 0 "\<lambda>_. 9" "\<lambda>_. None" 3 9] by auto
qed

text \<open>
  Corroborated manifests are honoured. When recovery under an untrusted footer accepts a
  prefix and some entry of the unauthenticated index matches a recovered frame, every frame
  that the index attests lies inside the accepted prefix; otherwise recovery fails closed.
\<close>

theorem attested_frames_kept:
  assumes "length source < 2 ^ 64" and "start \<le> length source"
    and "read_entries_unauthenticated source sid = Inr entries"
    and "crc_valid_frames_end_with_map crc dc source start (length source) sid = Inr (stop', recovered)"
    and "\<exists>e \<in> set entries. is_corroborated recovered e"
  shows "resolve_untrusted_frames_end crc dc source start (length source) sid =
    (if \<forall>e \<in> set entries. unat (se_frame_offset e) < stop' then Inr stop'
     else Inl (CorruptSegment sid (ManifestFrameMissing stop' (length source))))"
proof -
  from frames_end_sound [OF assms(4) [unfolded crc_valid_frames_end_with_map_def] assms(1,2)]
  obtain ms where ms: "stream_between crc source start ms stop'" "fst ` set recovered = set (frame_offsets start ms)" by auto
  then have "\<forall>k \<in> fst ` set recovered. k < stop'"
    by (auto simp: stream_between_def dest: frame_offsets_bound [where crc = crc])
  then have "(\<forall>e \<in> set entries. stop' \<le> unat (se_frame_offset e) \<longrightarrow> is_corroborated recovered e) \<longleftrightarrow>
      (\<forall>e \<in> set entries. unat (se_frame_offset e) < stop')"
    using corroborated_below leD by (metis not_le_imp_less)
  then have chk: "check_attested recovered stop' entries = RecoverPrefix end \<longleftrightarrow>
      end = stop' \<and> (\<forall>e \<in> set entries. unat (se_frame_offset e) < stop')" for "end"
    by (simp add: check_attested_ok)
  have "list_ex (is_corroborated recovered) entries" using assms(5) by (simp add: list_ex_iff)
  then show ?thesis
    using chk by (cases "check_attested recovered stop' entries")
      (auto simp: resolve_untrusted_frames_end_def assms(3,4) corroborate_untrusted_entries_def)
qed

text \<open>
  A concrete segment for the statement above: one frame around the byte 0x42, and an index of
  one entry that attests it under a footer without a valid checksum.
\<close>

definition example_crc :: "bytes \<Rightarrow> u32" where
  "example_crc m = (if m = [0x42] then 9 else 0xFFFFFFFF)"

definition example_attest :: sidx_entry where
  "example_attest = \<lparr>se_event_id = 0, se_entity_idx = 0, se_scope_idx = 0, se_kind = 0, se_wall_ms = 0, se_clock = 0,
     se_dag_lane = 0, se_dag_depth = 0, se_prev_hash = ZERO_HASH, se_event_hash = ZERO_HASH, se_frame_offset = 0,
     se_frame_length = 9, se_global_sequence = 0, se_correlation_id = 0, se_causation_id = 0\<rparr>"

definition example_rest :: bytes where
  "example_rest = encode_into example_attest @ [0, 0, 0, 0] @ to_le (9 :: u64) @ to_le (1 :: u32) @ SIDX_MAGIC"

definition example_source :: bytes where
  "example_source = frame_bytes example_crc [0x42] @ example_rest"

lemma example_rest_bytes: "x \<in> set example_rest \<Longrightarrow> x \<noteq> 0x42 \<and> x \<noteq> 0xFF"
  by (auto simp: example_rest_def encode_into_def example_attest_def ZERO_HASH_def SIDX_MAGIC_def to_le_def le_nat_numeral)

lemma example_no_frame:
  assumes "9 \<le> at"
  shows "\<not> frame_at example_crc example_source at m"
proof
  assume f: "frame_at example_crc example_source at m"
  have rest: "drop at example_source = drop (at - 9) example_rest"
    using assms by (simp add: example_source_def drop_append)
  then have "set (take (8 + length m) (drop at example_source)) \<subseteq> set example_rest"
    using set_take_subset set_drop_subset by (metis subset_trans)
  then have "set (frame_bytes example_crc m) \<subseteq> set example_rest" using f by (simp add: frame_at_def)
  moreover have "0x42 \<in> set (frame_bytes example_crc m) \<or> 0xFF \<in> set (frame_bytes example_crc m)"
    by (cases "m = [0x42]") (auto simp: frame_bytes_def example_crc_def to_be_def to_le_def le_nat_numeral)
  ultimately show False using example_rest_bytes by blast
qed

lemma example_walk:
  "crc_valid_frames_end_with_map example_crc (\<lambda>_. Some (Some hash_chain_default)) example_source 0
     (length example_source) 3 =
   Inr (9, [(0, \<lparr>rf_frame_length = 9, rf_event_hash = Some ZERO_HASH\<rparr>)])"
proof -
  let ?s = example_source
  have len: "length ?s < 2 ^ 64" "9 < length ?s"
    using encode_into_length [of example_attest]
    by (simp_all add: example_source_def example_rest_def example_attest_def sidx_entry_ok_def ZERO_HASH_def
        ENTRY_SIZE_def SIDX_MAGIC_def)
  have f: "frame_at example_crc ?s 0 [0x42]"
    using len by (simp add: frame_at_def MAX_FRAME_PAYLOAD_def example_source_def)
  have "read_exact ?s 0 9 = Some (frame_bytes example_crc [0x42])" using len by (simp add: read_exact_def example_source_def)
  then have h: "read_frame_event_hash example_crc (\<lambda>_. Some (Some hash_chain_default)) ?s 0 9 = Some ZERO_HASH"
    using frame_decode_bytes [of "[0x42]" example_crc "[]"]
    by (simp add: read_frame_event_hash_def hash_chain_default_def)
  have none: "try_decode_frame_at example_crc ?s at (length ?s) = None" if "9 \<le> at" for at
    using try_decode_iff [OF len(1)] example_no_frame [OF that] by (metis not_Some_eq)
  have "\<not> crc_valid_frame_exists_after example_crc ?s 10 (length ?s)" using none by (simp add: frame_exists_iff)
  with none [of 9] len have "frames_end_loop example_crc (\<lambda>_. Some (Some hash_chain_default)) ?s (length ?s) 3 9 r = Inr (9, r)" for r
    by (subst frames_end_loop.simps) simp
  then show ?thesis
    unfolding crc_valid_frames_end_with_map_def
    using frame_at_length [OF len(1) f] h len by (subst frames_end_loop.simps) (auto simp: Let_def)
qed

lemma example_entries: "read_entries_unauthenticated example_source 3 = Inr [example_attest]"
proof -
  have ok: "sidx_entry_ok example_attest" by (simp add: sidx_entry_ok_def example_attest_def ZERO_HASH_def)
  have magic: "length SIDX_MAGIC = 4" by (simp add: SIDX_MAGIC_def)
  have src: "example_source = (frame_bytes example_crc [0x42] @ encode_into example_attest @ [0, 0, 0, 0]) @
      to_le (9 :: u64) @ to_le (1 :: u32) @ SIDX_MAGIC" by (simp add: example_source_def example_rest_def)
  note tr = trailer_parts [OF magic, of "frame_bytes example_crc [0x42] @ encode_into example_attest @ [0, 0, 0, 0]" 9 1,
      folded src]
  have len: "length example_source = 191"
    using encode_into_length [OF ok] by (simp add: src magic ENTRY_SIZE_def)
  have "read_entries_loop (frame_bytes example_crc [0x42] @ concat (map encode_into [example_attest]) @
      ([0, 0, 0, 0] @ to_le (9 :: u64) @ to_le (1 :: u32) @ SIDX_MAGIC)) 3 (length (frame_bytes example_crc [0x42]))
      (length [example_attest]) [] = [] @ [example_attest]"
    by (rule read_entries_loop_block) (simp add: ok)
  then have "read_entries_loop example_source 3 9 1 [] = [example_attest]" by (simp add: src)
  then show ?thesis
    by (simp add: read_entries_unauthenticated_def Let_def tr len TRAILER_SIZE_def SIDX_CRC_LEN_def ENTRY_SIZE_def)
qed

theorem attested_frames_kept_witness:
  "resolve_untrusted_frames_end example_crc (\<lambda>_. Some (Some hash_chain_default)) example_source 0
     (length example_source) 3 = Inr 9"
proof -
  have "length example_source < 2 ^ 64"
    using encode_into_length [of example_attest]
    by (simp add: example_source_def example_rest_def example_attest_def sidx_entry_ok_def ZERO_HASH_def
        ENTRY_SIZE_def SIDX_MAGIC_def)
  from attested_frames_kept [OF this _ example_entries example_walk] show ?thesis
    by (simp add: is_corroborated_def example_attest_def)
qed

text \<open>
  Compaction copies every frame of a sealed segment and nothing else. For a segment file
  made of the magic, a header and the frame region, sealed with the footer of any recorded
  entries, the copy appends exactly the frame region to the destination and reports the
  offset at which it starts there.
\<close>

theorem compaction_copy_lossless:
  assumes src: "body = SEGMENT_MAGIC @ to_be (of_nat (length header) :: u32) @ header @ frames"
    and hl: "length header < 2 ^ 32" and len: "length body < 2 ^ 64"
    and rec: "record_all collector_new items = Inr c" and ok: "\<forall>(e, _) \<in> set items. sidx_entry_ok e"
    and out: "write_footer to_bytes crc c body sid = Inr source" and dst: "seg_file seg = Some f"
  shows "append_frames_from_segment crc dc seg source =
    Inr (written_bytes seg, seg\<lparr>seg_file := Some (f @ frames),
      written_bytes := written_bytes seg + of_nat (length frames)\<rparr>)"
proof -
  have inv: "collector_inv c"
    using record_all_inv [OF collector_new_inv rec ok, of "[]"] by (simp add: collector_new_def)
  then have ents: "\<forall>e \<in> set (col_entries c). sidx_entry_ok e" by (simp add: collector_inv_def)
  obtain table where n: "length (col_entries c) < 2 ^ 32"
    and contents: "source = body @ table @ concat (map encode_into (col_entries c)) @
      to_le (crc (table @ concat (map encode_into (col_entries c)))) @ to_le (of_nat (length body) :: u64) @
      to_le (of_nat (length (col_entries c)) :: u32) @ SIDX_MAGIC"
    using out by (rule write_footer_ok)
  have boundary: "detect_sidx_boundary crc source 0 = Inr (Some \<lparr>frames_end = length body, trusted = True\<rparr>)"
    by (rule detect_written [where crc = crc, OF ents len n contents])
  have m: "length SEGMENT_MAGIC = 4" by (simp add: SEGMENT_MAGIC_def)
  have r: "read_exact source 0 4 = Some SEGMENT_MAGIC"
    "read_exact source 4 4 = Some (to_be (of_nat (length header) :: u32))"
    by (simp_all add: contents src read_exact_def m)
  have h: "unat (of_nat (length header) :: u32) = length header" using hl by (simp add: unat_of_nat)
  have "length body = 8 + length header + length frames" by (simp add: src m)
  moreover have "take (length frames) (drop (8 + length header) source) = frames"
    "min (length source - (8 + length header)) (length frames) = length frames"
    by (simp_all add: contents src m)
  ultimately show ?thesis
    by (simp add: append_frames_from_segment_def r h boundary Let_def dst)
qed

theorem compaction_copy_lossless_witness:
  "\<exists>source. write_footer (\<lambda>ss. Some []) (\<lambda>_. 5) collector_new (SEGMENT_MAGIC @ to_be (0 :: u32) @ [1, 2, 3]) 4 = Inr source \<and>
     append_frames_from_segment (\<lambda>_. 5) (\<lambda>_. None)
       \<lparr>seg_header = \<lparr>sh_version = 1, sh_flags = 0, sh_created_ns = 0, sh_segment_id = 9\<rparr>, seg_file = Some [7], written_bytes = 1\<rparr>
       source = Inr (1, \<lparr>seg_header = \<lparr>sh_version = 1, sh_flags = 0, sh_created_ns = 0, sh_segment_id = 9\<rparr>,
         seg_file = Some [7, 1, 2, 3], written_bytes = 4\<rparr>)"
proof -
  let ?p = "SEGMENT_MAGIC @ to_be (of_nat (length ([] :: bytes)) :: u32) @ [] @ [1, 2, 3 :: byte]"
  let ?seg = "\<lparr>seg_header = \<lparr>sh_version = 1, sh_flags = 0, sh_created_ns = 0, sh_segment_id = 9\<rparr>,
    seg_file = Some [7], written_bytes = 1\<rparr>"
  obtain out where out: "write_footer (\<lambda>ss. Some []) (\<lambda>_. 5) collector_new ?p 4 = Inr out"
    by (simp add: write_footer_def collector_new_def Let_def)
  have rec: "record_all collector_new [] = Inr collector_new" by simp
  have "append_frames_from_segment (\<lambda>_. 5) (\<lambda>_. None) ?seg out =
      Inr (written_bytes ?seg, ?seg\<lparr>seg_file := Some ([7] @ [1, 2, 3]),
        written_bytes := written_bytes ?seg + of_nat (length [1, 2, 3 :: byte])\<rparr>)"
    by (rule compaction_copy_lossless [OF refl _ _ rec _ out]) (simp_all add: SEGMENT_MAGIC_def)
  with out show ?thesis by simp
qed

end
