(* ===== verification/ColdStart.thy ===== *)
theory ColdStart
  imports Sidx
begin

text \<open>
  Index rows rebuilt without reading frames (\<^verbatim>\<open>store/cold_start/row.rs\<close> and
  \<^verbatim>\<open>to_cold_start_row\<close> of \<^verbatim>\<open>store/segment/sidx.rs\<close>): the decoding of raw event kinds with the
  statistics of reserved kinds that had to be replaced, and the rows with their conversion to
  index entries and event headers. Counters of \<^verbatim>\<open>usize\<close> are natural numbers.
\<close>

unbundle bit_operations_syntax

section \<open>Reserved kinds\<close>

definition SYSTEM_INIT :: EventKind where "SYSTEM_INIT = EventKind 0x0001"
definition SYSTEM_SHUTDOWN :: EventKind where "SYSTEM_SHUTDOWN = EventKind 0x0002"
definition SYSTEM_HEARTBEAT :: EventKind where "SYSTEM_HEARTBEAT = EventKind 0x0003"
definition SYSTEM_CONFIG_CHANGE :: EventKind where "SYSTEM_CONFIG_CHANGE = EventKind 0x0004"
definition SYSTEM_CHECKPOINT :: EventKind where "SYSTEM_CHECKPOINT = EventKind 0x0005"
definition SYSTEM_OPEN_COMPLETED :: EventKind where "SYSTEM_OPEN_COMPLETED = EventKind 0x0008"
definition SYSTEM_CLOSE_COMPLETED :: EventKind where "SYSTEM_CLOSE_COMPLETED = EventKind 0x0009"
definition SYSTEM_DENIAL :: EventKind where "SYSTEM_DENIAL = EventKind 0x000F"
definition EFFECT_ERROR :: EventKind where "EFFECT_ERROR = EventKind 0xD001"
definition EFFECT_RETRY :: EventKind where "EFFECT_RETRY = EventKind 0xD002"
definition EFFECT_ACK :: EventKind where "EFFECT_ACK = EventKind 0xD004"
definition EFFECT_BACKPRESSURE :: EventKind where "EFFECT_BACKPRESSURE = EventKind 0xD005"
definition EFFECT_CANCEL :: EventKind where "EFFECT_CANCEL = EventKind 0xD006"
definition EFFECT_CONFLICT :: EventKind where "EFFECT_CONFLICT = EventKind 0xD007"
definition TOMBSTONE :: EventKind where "TOMBSTONE = EventKind 0x0FFE"

lemmas kind_consts = DATA_def SYSTEM_BATCH_BEGIN_def SYSTEM_BATCH_COMMIT_def SYSTEM_INIT_def
  SYSTEM_SHUTDOWN_def SYSTEM_HEARTBEAT_def SYSTEM_CONFIG_CHANGE_def SYSTEM_CHECKPOINT_def
  SYSTEM_OPEN_COMPLETED_def SYSTEM_CLOSE_COMPLETED_def SYSTEM_DENIAL_def EFFECT_ERROR_def EFFECT_RETRY_def
  EFFECT_ACK_def EFFECT_BACKPRESSURE_def EFFECT_CANCEL_def EFFECT_CONFLICT_def TOMBSTONE_def

record reserved_stats =
  rk_system :: nat
  rk_effect :: nat
  rk_system_histogram :: "(u16, nat) btree"
  rk_effect_histogram :: "(u16, nat) btree"

definition reserved_stats_default :: reserved_stats where
  "reserved_stats_default =
     \<lparr>rk_system = 0, rk_effect = 0, rk_system_histogram = [], rk_effect_histogram = []\<rparr>"

definition record_system :: "reserved_stats \<Rightarrow> u16 \<Rightarrow> reserved_stats" where
  "record_system stats raw = stats\<lparr>rk_system := rk_system stats + 1,
     rk_system_histogram := bt_update raw 0 (\<lambda>n. n + 1) (rk_system_histogram stats)\<rparr>"

definition record_effect :: "reserved_stats \<Rightarrow> u16 \<Rightarrow> reserved_stats" where
  "record_effect stats raw = stats\<lparr>rk_effect := rk_effect stats + 1,
     rk_effect_histogram := bt_update raw 0 (\<lambda>n. n + 1) (rk_effect_histogram stats)\<rparr>"

definition merge_histogram :: "(u16, nat) btree \<Rightarrow> (u16, nat) btree \<Rightarrow> (u16, nat) btree" where
  "merge_histogram m other = fold (\<lambda>(raw, count). bt_update raw 0 (\<lambda>n. n + count)) other m"

definition merge_from :: "reserved_stats \<Rightarrow> reserved_stats \<Rightarrow> reserved_stats" where
  "merge_from stats other =
     \<lparr>rk_system = rk_system stats + rk_system other, rk_effect = rk_effect stats + rk_effect other,
      rk_system_histogram = merge_histogram (rk_system_histogram stats) (rk_system_histogram other),
      rk_effect_histogram = merge_histogram (rk_effect_histogram stats) (rk_effect_histogram other)\<rparr>"

text \<open>
  The last branch is the call of \<^verbatim>\<open>EventKind::custom\<close>, whose assertions hold there
  (lemma \<open>raw_custom_total\<close> below); its value is written out.
\<close>

definition raw_to_kind_impl :: "u16 \<Rightarrow> reserved_stats option \<Rightarrow> EventKind \<times> reserved_stats option" where
  "raw_to_kind_impl raw counts =
     (let cat = ucast (drop_bit 12 raw) :: u8 in
      if cat = 0x0 then
        (if raw = 0x0001 then (SYSTEM_INIT, counts)
         else if raw = 0x0002 then (SYSTEM_SHUTDOWN, counts)
         else if raw = 0x0003 then (SYSTEM_HEARTBEAT, counts)
         else if raw = 0x0004 then (SYSTEM_CONFIG_CHANGE, counts)
         else if raw = 0x0005 then (SYSTEM_CHECKPOINT, counts)
         else if raw = 0x0006 then (SYSTEM_BATCH_BEGIN, counts)
         else if raw = 0x0007 then (SYSTEM_BATCH_COMMIT, counts)
         else if raw = 0x0008 then (SYSTEM_OPEN_COMPLETED, counts)
         else if raw = 0x0009 then (SYSTEM_CLOSE_COMPLETED, counts)
         else if raw = 0x000F then (SYSTEM_DENIAL, counts)
         else if raw = 0x0FFE then (TOMBSTONE, counts)
         else if raw = 0x0000 then (DATA, counts)
         else (DATA, map_option (\<lambda>c. record_system c raw) counts))
      else if cat = 0xD then
        (if raw = 0xD001 then (EFFECT_ERROR, counts)
         else if raw = 0xD002 then (EFFECT_RETRY, counts)
         else if raw = 0xD004 then (EFFECT_ACK, counts)
         else if raw = 0xD005 then (EFFECT_BACKPRESSURE, counts)
         else if raw = 0xD006 then (EFFECT_CANCEL, counts)
         else if raw = 0xD007 then (EFFECT_CONFLICT, counts)
         else (EFFECT_ERROR, map_option (\<lambda>c. record_effect c raw) counts))
      else (EventKind (push_bit 12 (ucast cat) OR (raw AND 0x0FFF)), counts))"

definition raw_to_kind_counted :: "u16 \<Rightarrow> reserved_stats \<Rightarrow> EventKind \<times> reserved_stats" where
  "raw_to_kind_counted raw counts =
     (case raw_to_kind_impl raw (Some counts) of (k, c) \<Rightarrow> (k, case c of Some c' \<Rightarrow> c' | None \<Rightarrow> counts))"

definition kind_to_raw :: "EventKind \<Rightarrow> u16" where
  "kind_to_raw k = as_raw_u16 k"

section \<open>Cold-start rows\<close>

datatype ColdStartSource = Checkpoint | MmapIndex | SidxFooter

record cold_start_row =
  cr_source :: ColdStartSource
  cr_event_id :: u128
  cr_correlation_id :: u128
  cr_causation_id :: "u128 option"
  cr_entity_id :: u32
  cr_scope_id :: u32
  cr_kind :: EventKind
  cr_wall_ms :: u64
  cr_clock :: u32
  cr_dag_lane :: u32
  cr_dag_depth :: u32
  cr_hash_chain :: hash_chain
  cr_disk_pos :: disk_pos
  cr_global_sequence :: u64

definition to_cold_start_row_counted ::
  "sidx_entry \<Rightarrow> u64 \<Rightarrow> reserved_stats \<Rightarrow> cold_start_row \<times> reserved_stats" where
  "to_cold_start_row_counted e segment_id counts =
     (case raw_to_kind_counted (se_kind e) counts of (kind, counts') \<Rightarrow>
       (\<lparr>cr_source = SidxFooter, cr_event_id = se_event_id e, cr_correlation_id = se_correlation_id e,
         cr_causation_id = (if se_causation_id e \<noteq> 0 then Some (se_causation_id e) else None),
         cr_entity_id = se_entity_idx e, cr_scope_id = se_scope_idx e, cr_kind = kind,
         cr_wall_ms = se_wall_ms e, cr_clock = se_clock e, cr_dag_lane = se_dag_lane e, cr_dag_depth = se_dag_depth e,
         cr_hash_chain = \<lparr>prev_hash = se_prev_hash e, event_hash = se_event_hash e\<rparr>,
         cr_disk_pos = to_disk_pos e segment_id, cr_global_sequence = se_global_sequence e\<rparr>, counts'))"

definition to_cold_start_row :: "sidx_entry \<Rightarrow> u64 \<Rightarrow> cold_start_row" where
  "to_cold_start_row e segment_id = fst (to_cold_start_row_counted e segment_id reserved_stats_default)"

definition resolve_part :: "string list \<Rightarrow> u32 \<Rightarrow> (StoreError, string) result" where
  "resolve_part interner_strings iid =
     (if unat iid < length interner_strings then Inr (interner_strings ! unat iid) else Inl Serialization)"

definition resolve_strings :: "cold_start_row \<Rightarrow> string list \<Rightarrow> (StoreError, string \<times> string) result" where
  "resolve_strings row interner_strings =
     bind_result (resolve_part interner_strings (cr_entity_id row)) (\<lambda>entity.
     bind_result (resolve_part interner_strings (cr_scope_id row)) (\<lambda>scope. Inr (entity, scope)))"

text \<open>\<^verbatim>\<open>Coordinate::new(..)?\<close> converts its error with \<open>store_error_of_coordinate\<close>.\<close>

definition to_index_entry :: "cold_start_row \<Rightarrow> string list \<Rightarrow> (StoreError, index_entry) result" where
  "to_index_entry row interner_strings =
     bind_result (resolve_part interner_strings (cr_entity_id row)) (\<lambda>entity.
     bind_result (resolve_part interner_strings (cr_scope_id row)) (\<lambda>scope.
       case coordinate_new entity scope of
         Inl e \<Rightarrow> Inl (store_error_of_coordinate e)
       | Inr coord \<Rightarrow> Inr
           \<lparr>ie_event_id = cr_event_id row, ie_correlation_id = cr_correlation_id row,
            ie_causation_id = cr_causation_id row, ie_coord = coord, ie_entity_id = cr_entity_id row,
            ie_scope_id = cr_scope_id row, ie_kind = cr_kind row, ie_wall_ms = cr_wall_ms row,
            ie_clock = cr_clock row, ie_dag_lane = cr_dag_lane row, ie_dag_depth = cr_dag_depth row,
            ie_hash_chain = cr_hash_chain row, ie_disk_pos = cr_disk_pos row,
            ie_global_sequence = cr_global_sequence row, ie_receipt_extensions = []\<rparr>))"

definition wall_us_saturating :: "cold_start_row \<Rightarrow> i64" where
  "wall_us_saturating row =
     (case checked_mul (cr_wall_ms row) 1000 of
        Some us \<Rightarrow> if unat us < 2 ^ 63 then us else word_of_int (2 ^ 63 - 1)
      | None \<Rightarrow> word_of_int (2 ^ 63 - 1))"

definition to_event_header :: "cold_start_row \<Rightarrow> event_header" where
  "to_event_header row =
     event_header_new (cr_event_id row) (cr_correlation_id row) (cr_causation_id row) (wall_us_saturating row)
       (with_hlc (cr_wall_ms row) 0 (cr_dag_depth row) (cr_dag_lane row) (cr_clock row)) 0 (cr_kind row)"

section \<open>Lemmas\<close>

text \<open>The statistics count what their histograms hold.\<close>

definition hist_total :: "(u16, nat) btree \<Rightarrow> nat" where
  "hist_total m = sum_list (map snd m)"

definition stats_inv :: "reserved_stats \<Rightarrow> bool" where
  "stats_inv s \<longleftrightarrow> bt_wf (rk_system_histogram s) \<and> bt_wf (rk_effect_histogram s) \<and>
     rk_system s = hist_total (rk_system_histogram s) \<and> rk_effect s = hist_total (rk_effect_histogram s)"

lemma hist_total_insert:
  "bt_wf m \<Longrightarrow> hist_total (bt_insert k v m) + (case bt_get m k of None \<Rightarrow> 0 | Some n \<Rightarrow> n) = hist_total m + v"
proof (induction k v m rule: bt_insert.induct)
  case (2 k v e m)
  have "map_of m k = None" if "k \<le> fst e"
    using "2.prems" that by (force simp: bt_wf_Cons map_of_eq_None_iff)
  with 2 show ?case by (cases e) (auto simp: hist_total_def bt_wf_Cons)
qed (simp add: hist_total_def)

lemma hist_total_update: "bt_wf m \<Longrightarrow> hist_total (bt_update k 0 (\<lambda>n. n + c) m) = hist_total m + c"
  using hist_total_insert [of m k "(case bt_get m k of None \<Rightarrow> 0 | Some n \<Rightarrow> n) + c"]
  by (simp add: bt_update_def)

lemma merge_histogram_ok:
  "bt_wf m \<Longrightarrow> bt_wf (merge_histogram m other) \<and> hist_total (merge_histogram m other) = hist_total m + hist_total other"
proof (induction other arbitrary: m)
  case (Cons e other)
  from Cons.IH [of "bt_update (fst e) 0 (\<lambda>n. n + snd e) m"] Cons.prems show ?case
    using hist_total_update [of m "fst e" "snd e"]
    by (simp add: merge_histogram_def hist_total_def case_prod_unfold)
qed (simp add: merge_histogram_def hist_total_def)

lemma stats_inv_record:
  "stats_inv s \<Longrightarrow> stats_inv (record_system s raw) \<and> stats_inv (record_effect s raw)"
  using hist_total_update [where c = 1]
  by (simp add: stats_inv_def record_system_def record_effect_def)

lemma stats_inv_merge: "stats_inv s \<Longrightarrow> stats_inv s' \<Longrightarrow> stats_inv (merge_from s s')"
  using merge_histogram_ok by (simp add: stats_inv_def merge_from_def)

lemma nibble_split: "push_bit 12 (ucast (ucast (drop_bit 12 raw) :: u8)) OR (raw AND 0x0FFF) = (raw :: u16)"
proof -
  have "(0x0FFF :: u16) = mask 12" by (simp add: mask_eq_exp_minus_1)
  then have m: "raw AND 0x0FFF = take_bit 12 raw" by (simp only: take_bit_eq_mask)
  show ?thesis unfolding m by (intro bit_word_eqI) (auto simp: bit_simps)
qed

lemma raw_custom_total:
  fixes raw :: u16
  defines "cat \<equiv> ucast (drop_bit 12 raw) :: u8"
  assumes "cat \<noteq> 0" and "cat \<noteq> 0xD"
  shows "custom cat (raw AND 0x0FFF) = Some (EventKind (push_bit 12 (ucast cat) OR (raw AND 0x0FFF)))"
proof -
  have "unat raw < 2 ^ LENGTH(16)" by (rule unsigned_less)
  then have "unat raw < 65536" by simp
  then have "unat (drop_bit 12 raw) < 16"
    by (simp add: drop_bit_eq_div unat_div less_mult_imp_div_less)
  then have "cat < 16"
    by (simp add: cat_def word_less_nat_alt unsigned_ucast_eq take_bit_nat_eq_self)
  moreover have "raw AND 0x0FFF < 0x1000"
    using word_and_le1 [of raw "0x0FFF"] by (rule le_less_trans) simp
  ultimately show ?thesis using assms by (simp add: custom_def)
qed

lemma sint_wall_us: "sint (wall_us_saturating row) = min (int (unat (cr_wall_ms row)) * 1000) (2 ^ 63 - 1)"
proof -
  have small: "sint w = int (unat w)" if "unat w < 2 ^ 63" for w :: i64
  proof -
    have u: "int (unat w) = uint w" by simp
    have "int (unat w) < int (2 ^ 63)" using that by (simp only: of_nat_less_iff)
    then have lt: "uint w < 2 ^ 63" using u by simp
    have "sint w = signed_take_bit 63 (uint w)" by (simp add: sint_uint)
    also have "... = uint w" using lt uint_ge_0 [of w] by (intro signed_take_bit_int_eq_self) linarith+
    finally show ?thesis using u by simp
  qed
  have top: "sint (word_of_int (2 ^ 63 - 1) :: i64) = 2 ^ 63 - 1" by (rule sint_word_of_int_i64) simp_all
  show ?thesis
  proof (cases "checked_mul (cr_wall_ms row) 1000")
    case None
    then have "2 ^ 64 \<le> unat (cr_wall_ms row) * 1000" by (simp add: checked_mul_def split: if_splits)
    then have "int (2 ^ 64) \<le> int (unat (cr_wall_ms row) * 1000)" by (simp only: of_nat_le_iff)
    then have "2 ^ 63 - 1 \<le> int (unat (cr_wall_ms row)) * 1000" by simp
    with None top show ?thesis by (simp add: wall_us_saturating_def)
  next
    case (Some us)
    then have "unat us = unat (cr_wall_ms row) * 1000" by (auto dest: checked_mul_SomeD)
    then have n: "int (unat us) = int (unat (cr_wall_ms row)) * 1000" by simp
    show ?thesis
    proof (cases "unat us < 2 ^ 63")
      case True
      then have "int (unat us) < int (2 ^ 63)" by (simp only: of_nat_less_iff)
      with Some True small [of us] n show ?thesis by (simp add: wall_us_saturating_def)
    next
      case False
      then have "int (2 ^ 63) \<le> int (unat us)" by (simp only: of_nat_le_iff not_less)
      with Some False n top show ?thesis by (simp add: wall_us_saturating_def)
    qed
  qed
qed

section \<open>Properties\<close>

text \<open>
  Decoding a raw event kind loses nothing silently. Every kind outside the reserved
  categories, and every reserved kind the library defines, comes back as itself and leaves the
  statistics alone. Every other reserved value except 0 becomes the documented stand-in of its
  category and is counted exactly once, in the total and under its raw value; the raw value 0
  becomes \<^verbatim>\<open>DATA\<close> without being counted.
\<close>

theorem raw_to_kind_exact:
  "raw_to_kind_counted raw stats =
    (if raw = 0 then (DATA, stats)
     else if is_reserved (EventKind raw) \<and> EventKind raw \<notin>
         {SYSTEM_INIT, SYSTEM_SHUTDOWN, SYSTEM_HEARTBEAT, SYSTEM_CONFIG_CHANGE, SYSTEM_CHECKPOINT,
          SYSTEM_BATCH_BEGIN, SYSTEM_BATCH_COMMIT, SYSTEM_OPEN_COMPLETED, SYSTEM_CLOSE_COMPLETED,
          SYSTEM_DENIAL, TOMBSTONE, EFFECT_ERROR, EFFECT_RETRY, EFFECT_ACK, EFFECT_BACKPRESSURE,
          EFFECT_CANCEL, EFFECT_CONFLICT}
       then
         (if is_system (EventKind raw)
          then (DATA, stats\<lparr>rk_system := rk_system stats + 1,
            rk_system_histogram := bt_update raw 0 Suc (rk_system_histogram stats)\<rparr>)
          else (EFFECT_ERROR, stats\<lparr>rk_effect := rk_effect stats + 1,
            rk_effect_histogram := bt_update raw 0 Suc (rk_effect_histogram stats)\<rparr>))
     else (EventKind raw, stats))"
proof (cases "is_reserved (EventKind raw)")
  case False
  then have "raw \<noteq> 0" by (auto simp: is_reserved_def is_system_def category_def)
  with False nibble_split [of raw] show ?thesis
    by (auto simp: raw_to_kind_counted_def raw_to_kind_impl_def Let_def is_reserved_def is_system_def is_effect_def category_def)
next
  case True
  then consider "category (EventKind raw) = 0" | "category (EventKind raw) = 0xD"
    by (auto simp: is_reserved_def is_system_def is_effect_def)
  then show ?thesis
  proof cases
    case 1
    then show ?thesis
      by (auto simp: raw_to_kind_counted_def raw_to_kind_impl_def Let_def is_reserved_def is_system_def is_effect_def category_def
          record_system_def kind_consts)
  next
    case 2
    then show ?thesis
      by (auto simp: raw_to_kind_counted_def raw_to_kind_impl_def Let_def is_reserved_def is_system_def is_effect_def category_def
          record_effect_def kind_consts)
  qed
qed

end
