(* ===== verification/Recovery.thy ===== *)
theory Recovery
  imports Manifest ColdStart
begin

text \<open>
  The recovery scan of a segment (\<^verbatim>\<open>store/segment/scan/recovery.rs\<close> and its submodules
  \<^verbatim>\<open>batch.rs\<close>, \<^verbatim>\<open>tail.rs\<close>, \<^verbatim>\<open>sidx_fast_path.rs\<close>, with \<^verbatim>\<open>validate.rs\<close> and the helpers of
  \<^verbatim>\<open>scan/mod.rs\<close>): the frame loop with its tail policy, the staging of batches between their
  markers, and the fast path over a sealed segment's footer. The caller's sink is a function on
  a state of its own that may fail; every scan returns that state, the batch state and the error
  that ended it, if any. \<open>decode_payload\<close> decodes the index part of a frame payload and
  \<open>from_header\<close> a segment header; either is \<open>None\<close> when the bytes do not decode.
\<close>

section \<open>Scanned entries and checks\<close>

record scanned_index_entry =
  sc_header :: event_header
  sc_entity :: string
  sc_scope :: string
  sc_hash_chain :: hash_chain
  sc_segment_id :: u64
  sc_offset :: u64
  sc_length :: u32
  sc_receipt_extensions :: extensions
  sc_global_sequence :: "u64 option"

definition from_cold_start_row :: "cold_start_row \<Rightarrow> string list \<Rightarrow> (StoreError, scanned_index_entry) result" where
  "from_cold_start_row row interner_strings =
     bind_result (resolve_strings row interner_strings) (\<lambda>(entity, scope). Inr
       \<lparr>sc_header = to_event_header row, sc_entity = entity, sc_scope = scope, sc_hash_chain = cr_hash_chain row,
        sc_segment_id = pos_segment (cr_disk_pos row), sc_offset = pos_offset (cr_disk_pos row),
        sc_length = pos_length (cr_disk_pos row), sc_receipt_extensions = [],
        sc_global_sequence = Some (cr_global_sequence row)\<rparr>)"

record index_scan_payload =
  isp_header :: event_header
  isp_hash_chain :: "hash_chain option"
  isp_entity :: string
  isp_scope :: string
  isp_receipt_extensions :: extensions

datatype FrameScanTailPolicy = FailClosed | RecoverTornTail

definition can_recover_torn_tail :: "FrameScanTailPolicy \<Rightarrow> bool" where
  "can_recover_torn_tail policy \<longleftrightarrow> policy = RecoverTornTail"

definition MAX_BATCH_RECOVERY_ITEMS :: u32 where
  "MAX_BATCH_RECOVERY_ITEMS = 1000000"

definition read_frame_header_or_clean_eof :: "bytes \<Rightarrow> nat \<Rightarrow> bytes option" where
  "read_frame_header_or_clean_eof file at = read_exact file at 8"

definition payload_len_exceeds_max :: "nat \<Rightarrow> bool" where
  "payload_len_exceeds_max payload_len \<longleftrightarrow> payload_len > MAX_FRAME_PAYLOAD"

definition checked_header_len :: "u64 \<Rightarrow> nat \<Rightarrow> (StoreError, nat) result" where
  "checked_header_len segment_id header_len =
     (if header_len > MAX_SEGMENT_HEADER then Inl (CorruptSegment segment_id (HeaderTooLong header_len))
      else Inr header_len)"

definition checked_batch_count :: "u64 \<Rightarrow> u64 \<Rightarrow> u32 \<Rightarrow> (StoreError, u32) result" where
  "checked_batch_count segment_id off batch_count =
     (if batch_count = 0 \<or> batch_count > MAX_BATCH_RECOVERY_ITEMS
      then Inl (CorruptSegment segment_id (InvalidBatchCount batch_count off)) else Inr batch_count)"

definition required_index_hash_chain ::
  "index_scan_payload \<Rightarrow> u64 \<Rightarrow> u64 \<Rightarrow> (StoreError, hash_chain) result" where
  "required_index_hash_chain p segment_id off =
     (case isp_hash_chain p of
        Some chain \<Rightarrow> Inr chain
      | None \<Rightarrow>
          if eh_event_kind (isp_header p) \<in> {SYSTEM_BATCH_BEGIN, SYSTEM_BATCH_COMMIT}
          then Inl (CorruptSegment segment_id (MarkerHashChain off))
          else Inl (CorruptSegment segment_id (MissingHashChain off)))"

definition frame_decode_error :: "u64 \<Rightarrow> u64 \<Rightarrow> FrameDecodeError \<Rightarrow> StoreError" where
  "frame_decode_error segment_id off e =
     (case e of
        FrameCrcMismatch _ _ \<Rightarrow> CrcMismatch segment_id off
      | _ \<Rightarrow> CorruptSegment segment_id (CorruptAfterRead off))"

text \<open>
  An exact read of a file in memory fails only at the end of the file, which is the first
  branch of the classification: \<open>None\<close> stops the scan at a torn tail.
\<close>

definition classify_payload_read_error :: "u64 \<Rightarrow> FrameScanTailPolicy \<Rightarrow> StoreError option" where
  "classify_payload_read_error segment_id tail_policy =
     (if can_recover_torn_tail tail_policy then None else Some (CorruptSegment segment_id PayloadEndedEarly))"

section \<open>Batch staging\<close>

record batch_recovery_state =
  staged :: "scanned_index_entry list"
  remaining :: u32
  started_count :: u32
  in_batch :: bool

definition batch_recovery_default :: batch_recovery_state where
  "batch_recovery_default = \<lparr>staged = [], remaining = 0, started_count = 0, in_batch = False\<rparr>"

definition stage_entry :: "batch_recovery_state \<Rightarrow> scanned_index_entry \<Rightarrow> bool \<times> batch_recovery_state" where
  "stage_entry b e =
     (if remaining b = 0 then (False, b)
      else (True, b\<lparr>staged := staged b @ [e], remaining := remaining b - 1\<rparr>))"

definition discard_incomplete :: "batch_recovery_state \<Rightarrow> batch_recovery_state" where
  "discard_incomplete b = b\<lparr>in_batch := False, remaining := 0, started_count := 0, staged := []\<rparr>"

section \<open>One frame\<close>

type_synonym 's sink = "scanned_index_entry \<Rightarrow> 's \<Rightarrow> 's \<times> StoreError option"

type_synonym 's scan = "'s \<times> batch_recovery_state \<times> StoreError option"

fun sink_all :: "'s sink \<Rightarrow> scanned_index_entry list \<Rightarrow> 's \<Rightarrow> 's \<times> StoreError option" where
  "sink_all sink [] s = (s, None)"
| "sink_all sink (e # es) s =
     (case sink e s of (s', Some err) \<Rightarrow> (s', Some err) | (s', None) \<Rightarrow> sink_all sink es s')"

definition scanned_of_frame ::
  "index_scan_payload \<Rightarrow> u64 \<Rightarrow> u64 \<Rightarrow> nat \<Rightarrow> (StoreError, scanned_index_entry) result" where
  "scanned_of_frame p segment_id frame_offset frame_size =
     bind_result (required_index_hash_chain p segment_id frame_offset) (\<lambda>chain.
       if frame_size \<ge> 2 ^ 32 then Inl (CorruptFrame segment_id frame_offset (FrameSizeOverflow frame_size))
       else Inr
         \<lparr>sc_header = isp_header p, sc_entity = isp_entity p, sc_scope = isp_scope p, sc_hash_chain = chain,
          sc_segment_id = segment_id, sc_offset = frame_offset, sc_length = of_nat frame_size,
          sc_receipt_extensions = isp_receipt_extensions p, sc_global_sequence = None\<rparr>)"

definition open_batch :: "u64 \<Rightarrow> u64 \<Rightarrow> u32 \<Rightarrow> 's \<Rightarrow> batch_recovery_state \<Rightarrow> 's scan" where
  "open_batch segment_id frame_offset count s b =
     (case checked_batch_count segment_id frame_offset count of
        Inl err \<Rightarrow> (s, b, Some err)
      | Inr batch_count \<Rightarrow> (s, b\<lparr>in_batch := True, remaining := batch_count, started_count := batch_count\<rparr>, None))"

definition nested_batch :: "u64 \<Rightarrow> u64 \<Rightarrow> u32 \<Rightarrow> 's \<Rightarrow> batch_recovery_state \<Rightarrow> 's scan" where
  "nested_batch segment_id frame_offset count s b =
     (case checked_batch_count segment_id frame_offset count of
        Inl err \<Rightarrow> (s, b, Some err)
      | Inr batch_count \<Rightarrow> (s, b\<lparr>remaining := batch_count, started_count := batch_count, staged := []\<rparr>, None))"

definition close_batch :: "'s sink \<Rightarrow> 's \<Rightarrow> batch_recovery_state \<Rightarrow> 's scan" where
  "close_batch sink s b =
     (if remaining b = 0
      then case sink_all sink (staged b) s of
          (s', Some err) \<Rightarrow> (s', b\<lparr>staged := []\<rparr>, Some err)
        | (s', None) \<Rightarrow> (s', b\<lparr>in_batch := False, staged := []\<rparr>, None)
      else (s, b\<lparr>in_batch := False, staged := []\<rparr>, None))"

definition recover_frame ::
  "'s sink \<Rightarrow> u64 \<Rightarrow> u64 \<Rightarrow> nat \<Rightarrow> index_scan_payload \<Rightarrow> 's \<Rightarrow> batch_recovery_state \<Rightarrow> 's scan" where
  "recover_frame sink segment_id frame_offset frame_size p s b =
     (let kind = eh_event_kind (isp_header p) in
      if \<not> in_batch b then
        (if kind = SYSTEM_BATCH_BEGIN
           then open_batch segment_id frame_offset (eh_payload_size (isp_header p)) s b
         else if kind = SYSTEM_BATCH_COMMIT then (s, b, None)
         else case scanned_of_frame p segment_id frame_offset frame_size of
             Inl err \<Rightarrow> (s, b, Some err)
           | Inr e \<Rightarrow> (case sink e s of (s', err) \<Rightarrow> (s', b, err)))
      else if kind = SYSTEM_BATCH_COMMIT then close_batch sink s b
      else if kind = SYSTEM_BATCH_BEGIN
        then nested_batch segment_id frame_offset (eh_payload_size (isp_header p)) s b
      else case scanned_of_frame p segment_id frame_offset frame_size of
          Inl err \<Rightarrow> (s, b, Some err)
        | Inr e \<Rightarrow>
            (case stage_entry b e of
               (True, b') \<Rightarrow> (s, b', None)
             | (False, b') \<Rightarrow> (s, discard_incomplete b', None)))"

section \<open>The frame loop\<close>

text \<open>Before an unreadable frame is reported, the batch it interrupts is dropped.\<close>

definition drop_batch :: "batch_recovery_state \<Rightarrow> batch_recovery_state" where
  "drop_batch b = (if in_batch b then b\<lparr>staged := [], in_batch := False\<rparr> else b)"

function scan_frames ::
  "(bytes \<Rightarrow> u32) \<Rightarrow> (bytes \<Rightarrow> index_scan_payload option) \<Rightarrow> 's sink \<Rightarrow> FrameScanTailPolicy \<Rightarrow>
   bytes \<Rightarrow> u64 \<Rightarrow> nat \<Rightarrow> nat \<Rightarrow> 's \<Rightarrow> batch_recovery_state \<Rightarrow> 's scan" where
  "scan_frames crc decode_payload sink tail_policy file segment_id region_end cursor s b =
     (if cursor \<ge> region_end then (s, b, None)
      else case read_frame_header_or_clean_eof file cursor of
          None \<Rightarrow> (s, b, None)
        | Some frame_header \<Rightarrow>
            let payload_len = unat (from_be [frame_header ! 0, frame_header ! 1, frame_header ! 2, frame_header ! 3] :: u32);
                frame_offset = of_nat cursor :: u64 in
            if payload_len_exceeds_max payload_len then
              (if can_recover_torn_tail tail_policy then (s, b, None)
               else (s, b, Some (CorruptFrame segment_id frame_offset (PayloadTooLong payload_len))))
            else if cursor + 8 \<ge> 2 ^ 64 \<or> cursor + 8 + payload_len \<ge> 2 ^ 64
              then (s, b, Some (CorruptSegment segment_id FrameTailOverflow))
            else if cursor + 8 + payload_len > region_end then
              (if can_recover_torn_tail tail_policy \<and> region_end = length file then (s, b, None)
               else (s, b, Some (CorruptFrame segment_id frame_offset PayloadPastRegion)))
            else case read_exact file (cursor + 8) payload_len of
                None \<Rightarrow> (s, b, classify_payload_read_error segment_id tail_policy)
              | Some rest \<Rightarrow>
                  (case frame_decode crc (frame_header @ rest) of
                     Inl err \<Rightarrow> (s, drop_batch b, Some (frame_decode_error segment_id frame_offset err))
                   | Inr (msgpack, frame_size) \<Rightarrow>
                       (case decode_payload msgpack of
                          None \<Rightarrow> (s, drop_batch b, Some (CorruptSegment segment_id (UnreadablePayload frame_offset)))
                        | Some p \<Rightarrow>
                            (case recover_frame sink segment_id frame_offset frame_size p s b of
                               (s', b', Some err) \<Rightarrow> (s', b', Some err)
                             | (s', b', None) \<Rightarrow>
                                 scan_frames crc decode_payload sink tail_policy file segment_id region_end
                                   (cursor + frame_size) s' b'))))"
  by pat_completeness auto
termination
  by (relation "measure (\<lambda>(crc, dp, sink, pol, file, sid, fe, cursor, s, b). fe - cursor)")
    (auto dest!: frame_decode_size)

declare scan_frames.simps [simp del]

section \<open>Preparing the scan\<close>

text \<open>Where the frames of a segment file start and end.\<close>

definition locate_frames ::
  "(bytes \<Rightarrow> u32) \<Rightarrow> (bytes \<Rightarrow> segment_header option) \<Rightarrow> (bytes \<Rightarrow> hash_chain option option) \<Rightarrow> bytes \<Rightarrow> u64 \<Rightarrow>
   (StoreError, nat \<times> nat) result" where
  "locate_frames crc from_header decode_chain file segment_id =
     bind_result (detect_sidx_boundary crc file segment_id) (\<lambda>boundary.
       let file_len = length file;
           region_end = (case boundary of None \<Rightarrow> file_len | Some bd \<Rightarrow> frames_end bd);
           untrusted_boundary = (case boundary of None \<Rightarrow> False | Some bd \<Rightarrow> \<not> trusted bd) in
       case read_exact file 0 4 of
         None \<Rightarrow> Inl Io
       | Some magic \<Rightarrow>
           if magic \<noteq> SEGMENT_MAGIC then Inl (CorruptSegment segment_id BadMagic)
           else case read_exact file 4 4 of
               None \<Rightarrow> Inl Io
             | Some header_len_buf \<Rightarrow>
                 bind_result (checked_header_len segment_id (unat (from_be header_len_buf :: u32))) (\<lambda>header_len.
                   case read_exact file 8 header_len of
                     None \<Rightarrow> Inl Io
                   | Some header_buf \<Rightarrow>
                       (case from_header header_buf of
                          None \<Rightarrow> Inl Serialization
                        | Some header \<Rightarrow>
                            if sh_version header \<noteq> 1
                              then Inl (CorruptSegment segment_id (UnsupportedVersion (sh_version header)))
                            else
                              let cursor = 8 + header_len in
                              if \<not> untrusted_boundary \<and> region_end < cursor
                                then Inl (CorruptSegment segment_id (BelowFrameRegion (of_nat region_end) (of_nat cursor)))
                              else
                                bind_result
                                  (if untrusted_boundary
                                   then resolve_untrusted_frames_end crc decode_chain file cursor file_len segment_id
                                   else Inr region_end)
                                  (\<lambda>stop. Inr (cursor, stop)))))"

definition scan_segment_frames ::
  "(bytes \<Rightarrow> u32) \<Rightarrow> (bytes \<Rightarrow> segment_header option) \<Rightarrow> (bytes \<Rightarrow> hash_chain option option) \<Rightarrow>
   (bytes \<Rightarrow> index_scan_payload option) \<Rightarrow> 's sink \<Rightarrow> FrameScanTailPolicy \<Rightarrow> bytes \<Rightarrow> u64 \<Rightarrow> 's \<Rightarrow>
   batch_recovery_state \<Rightarrow> 's scan" where
  "scan_segment_frames crc from_header decode_chain decode_payload sink tail_policy file segment_id s b =
     (case locate_frames crc from_header decode_chain file segment_id of
        Inl err \<Rightarrow> (s, b, Some err)
      | Inr (cursor, stop) \<Rightarrow> scan_frames crc decode_payload sink tail_policy file segment_id stop cursor s b)"

section \<open>The footer fast path\<close>

datatype SidxTailCoverage = Complete | Incomplete | Unreadable

fun max_frame_tail :: "u64 \<Rightarrow> sidx_entry list \<Rightarrow> u64 option" where
  "max_frame_tail max_tail [] = Some max_tail"
| "max_frame_tail max_tail (e # es) =
     (case checked_add (se_frame_offset e) (ucast (se_frame_length e)) of
        None \<Rightarrow> None
      | Some tail \<Rightarrow> max_frame_tail (if tail > max_tail then tail else max_tail) es)"

definition sidx_covers_segment_tail :: "bytes \<Rightarrow> sidx_entry list \<Rightarrow> SidxTailCoverage" where
  "sidx_covers_segment_tail file sidx_entries =
     (if length file < 16 then Incomplete
      else if trailer_magic file \<noteq> SIDX_MAGIC then Unreadable
      else case max_frame_tail 0 sidx_entries of
          None \<Rightarrow> Incomplete
        | Some max_tail \<Rightarrow> if unat max_tail = trailer_offset file then Complete else Incomplete)"

fun sink_sidx_entries ::
  "'s sink \<Rightarrow> u64 \<Rightarrow> string list \<Rightarrow> sidx_entry list \<Rightarrow> 's \<Rightarrow> 's \<times> StoreError option" where
  "sink_sidx_entries sink segment_id strings [] s = (s, None)"
| "sink_sidx_entries sink segment_id strings (se # ses) s =
     (let row = to_cold_start_row se segment_id in
      if cr_kind row = SYSTEM_BATCH_BEGIN \<or> cr_kind row = SYSTEM_BATCH_COMMIT
      then sink_sidx_entries sink segment_id strings ses s
      else case from_cold_start_row row strings of
          Inl err \<Rightarrow> (s, Some err)
        | Inr e \<Rightarrow>
            (case sink e s of
               (s', Some err) \<Rightarrow> (s', Some err)
             | (s', None) \<Rightarrow> sink_sidx_entries sink segment_id strings ses s'))"

text \<open>The first component tells whether the fast path was taken.\<close>

definition try_sidx_fast_path ::
  "(bytes \<Rightarrow> u32) \<Rightarrow> (bytes \<Rightarrow> string list option) \<Rightarrow> u64 \<Rightarrow> 's sink \<Rightarrow> string \<Rightarrow> bytes \<Rightarrow> u64 \<Rightarrow> bool \<Rightarrow> 's \<Rightarrow>
   bool \<times> 's \<times> StoreError option" where
  "try_sidx_fast_path crc from_strings active_segment_id sink name file segment_id batch_in_progress s =
     (if active_segment_id = segment_id \<or> batch_in_progress then (False, s, None)
      else case read_footer from_strings crc name file of
          Inr (Some (sidx_entries, strings)) \<Rightarrow>
            if sidx_covers_segment_tail file sidx_entries = Complete
            then (case sink_sidx_entries sink segment_id strings sidx_entries s of (s', err) \<Rightarrow> (True, s', err))
            else (False, s, None)
        | _ \<Rightarrow> (False, s, None))"

text \<open>
  The whole scan. A file whose name is not a segment name is skipped. Without a caller's batch
  state the scan uses a fresh one and drops it at the end.
\<close>

definition scan_segment_index_into_with_tail_policy ::
  "(bytes \<Rightarrow> u32) \<Rightarrow> (bytes \<Rightarrow> string list option) \<Rightarrow> (bytes \<Rightarrow> segment_header option) \<Rightarrow>
   (bytes \<Rightarrow> hash_chain option option) \<Rightarrow> (bytes \<Rightarrow> index_scan_payload option) \<Rightarrow> u64 \<Rightarrow> 's sink \<Rightarrow>
   FrameScanTailPolicy \<Rightarrow> string \<Rightarrow> bytes \<Rightarrow> 's \<Rightarrow> batch_recovery_state option \<Rightarrow>
   's \<times> batch_recovery_state option \<times> StoreError option" where
  "scan_segment_index_into_with_tail_policy crc from_strings from_header decode_chain decode_payload
       active_segment_id sink tail_policy name file s batch_state =
     (case from_filename name of
        Inl _ \<Rightarrow> (s, batch_state, None)
      | Inr segment_id \<Rightarrow>
          let batch_in_progress = (case batch_state of None \<Rightarrow> False | Some b \<Rightarrow> in_batch b) in
          (case try_sidx_fast_path crc from_strings active_segment_id sink name file segment_id batch_in_progress s of
             (_, s', Some err) \<Rightarrow> (s', batch_state, Some err)
           | (True, s', None) \<Rightarrow> (s', batch_state, None)
           | (False, s', None) \<Rightarrow>
               (case scan_segment_frames crc from_header decode_chain decode_payload sink tail_policy file segment_id s'
                       (case batch_state of None \<Rightarrow> batch_recovery_default | Some b \<Rightarrow> b) of
                  (s'', b', err) \<Rightarrow> (s'', map_option (\<lambda>_. b') batch_state, err))))"

section \<open>The specification of batch recovery\<close>

text \<open>
  What a log means: an event outside a batch counts; the events between a begin marker for \<open>n\<close>
  events and the next commit marker count if they are exactly \<open>n\<close>; a batch that is cut short
  or interrupted by another begin marker counts for nothing. A batch with more than \<open>n\<close>
  events is abandoned at event \<open>n + 1\<close>, and reading goes on outside any batch.
\<close>

datatype mark = BeginMark u32 | CommitMark | ItemMark scanned_index_entry

fun is_item :: "mark \<Rightarrow> bool" where
  "is_item (ItemMark _) = True"
| "is_item _ = False"

fun item_entry :: "mark \<Rightarrow> scanned_index_entry list" where
  "item_entry (ItemMark e) = [e]"
| "item_entry _ = []"

lemma length_dropWhile_Cons: "dropWhile P xs = y # ys \<Longrightarrow> length ys < length xs"
  using length_dropWhile_le [of P xs] by simp

function committed :: "mark list \<Rightarrow> scanned_index_entry list" where
  "committed [] = []"
| "committed (ItemMark e # ms) = e # committed ms"
| "committed (CommitMark # ms) = committed ms"
| "committed (BeginMark n # ms) =
     (let items = takeWhile is_item ms in
      if length items > unat n then committed (drop (Suc (unat n)) ms)
      else case dropWhile is_item ms of
          CommitMark # rest \<Rightarrow> (if length items = unat n then concat (map item_entry items) else []) @ committed rest
        | rest \<Rightarrow> committed rest)"
  by pat_completeness auto
termination
  by (relation "measure length")
    (auto simp: le_imp_less_Suc length_dropWhile_le dest: length_dropWhile_Cons intro: less_SucI)

definition open_marks :: "batch_recovery_state \<Rightarrow> mark list" where
  "open_marks b = (if in_batch b then BeginMark (started_count b) # map ItemMark (staged b) else [])"

definition batch_inv :: "batch_recovery_state \<Rightarrow> bool" where
  "batch_inv b \<longleftrightarrow>
     (if in_batch b then length (staged b) + unat (remaining b) = unat (started_count b) \<and>
        0 < started_count b \<and> started_count b \<le> MAX_BATCH_RECOVERY_ITEMS
      else staged b = [])"

definition mark_of :: "u64 \<Rightarrow> u64 \<Rightarrow> nat \<Rightarrow> index_scan_payload \<Rightarrow> (StoreError, mark) result" where
  "mark_of segment_id off frame_size p =
     (let kind = eh_event_kind (isp_header p) in
      if kind = SYSTEM_BATCH_BEGIN
        then bind_result (checked_batch_count segment_id off (eh_payload_size (isp_header p))) (\<lambda>n. Inr (BeginMark n))
      else if kind = SYSTEM_BATCH_COMMIT then Inr CommitMark
      else bind_result (scanned_of_frame p segment_id off frame_size) (\<lambda>e. Inr (ItemMark e)))"

lemma takeWhile_items [simp]:
  "takeWhile is_item (map ItemMark es @ ms) = map ItemMark es @ takeWhile is_item ms"
  "dropWhile is_item (map ItemMark es @ ms) = dropWhile is_item ms"
  "takeWhile is_item (map ItemMark es) = map ItemMark es"
  "dropWhile is_item (map ItemMark es) = []"
  by (induction es) auto

lemma concat_items [simp]: "concat (map (item_entry \<circ> ItemMark) es) = es"
  by (induction es) auto

lemma committed_open [simp]: "batch_inv b \<Longrightarrow> committed (open_marks b) = []"
  by (auto simp: open_marks_def batch_inv_def Let_def split: if_splits)

text \<open>One frame refines the specification.\<close>

lemma unat_sub_1: "x \<noteq> 0 \<Longrightarrow> Suc (unat (x - 1)) = unat (x :: u32)"
  using unat_gt_0 [of x] by (simp add: unat_minus_one)

lemma sink_all_ok: "sink_all (\<lambda>e s. (f e s, None)) es s = (fold f es s, None)"
  by (induction es arbitrary: s) auto

lemma kinds_distinct: "SYSTEM_BATCH_BEGIN \<noteq> SYSTEM_BATCH_COMMIT"
  by (simp add: kind_consts)

lemma recover_frame_refines:
  assumes "batch_inv b" and "mark_of segment_id off frame_size p = Inr m"
  obtains es b' where "recover_frame (\<lambda>e s. (f e s, None)) segment_id off frame_size p s b = (fold f es s, b', None)"
    and "batch_inv b'" and "\<And>rest. committed (open_marks b @ m # rest) = es @ committed (open_marks b' @ rest)"
proof (cases m)
  case (BeginMark n)
  with assms(2) have k: "eh_event_kind (isp_header p) = SYSTEM_BATCH_BEGIN"
    and n: "checked_batch_count segment_id off (eh_payload_size (isp_header p)) = Inr n"
      "0 < n" "n \<le> MAX_BATCH_RECOVERY_ITEMS"
    by (auto simp: mark_of_def Let_def checked_batch_count_def word_neq_0_conv not_less split: if_splits)
  let ?b = "b\<lparr>staged := [], in_batch := True, remaining := n, started_count := n\<rparr>"
  show ?thesis
  proof (rule that [of "[]" ?b])
    have "b\<lparr>staged := [], remaining := n, started_count := n\<rparr> = ?b" if "in_batch b" using that by (cases b) simp
    moreover have "b\<lparr>in_batch := True, remaining := n, started_count := n\<rparr> = ?b" if "\<not> in_batch b"
      using that assms(1) by (cases b) (simp add: batch_inv_def)
    ultimately show "recover_frame (\<lambda>e s. (f e s, None)) segment_id off frame_size p s b = (fold f [] s, ?b, None)"
      using k n(1) kinds_distinct by (simp add: recover_frame_def Let_def open_batch_def nested_batch_def)
    show "batch_inv ?b" using n by (simp add: batch_inv_def)
    show "committed (open_marks b @ m # rest) = [] @ committed (open_marks ?b @ rest)" for rest
      using assms(1) by (simp add: open_marks_def BeginMark batch_inv_def Let_def split: if_splits)
  qed
next
  case CommitMark
  with assms(2) have k: "eh_event_kind (isp_header p) = SYSTEM_BATCH_COMMIT"
    by (auto simp: mark_of_def Let_def split: if_splits)
  let ?b = "if in_batch b then b\<lparr>in_batch := False, staged := []\<rparr> else b"
  let ?es = "if in_batch b \<and> remaining b = 0 then staged b else []"
  show ?thesis
  proof (rule that [of ?es ?b])
    show "recover_frame (\<lambda>e s. (f e s, None)) segment_id off frame_size p s b = (fold f ?es s, ?b, None)"
      using k kinds_distinct by (simp add: recover_frame_def Let_def close_batch_def sink_all_ok)
    show "batch_inv ?b" using assms(1) by (simp add: batch_inv_def)
    show "committed (open_marks b @ m # rest) = ?es @ committed (open_marks ?b @ rest)" for rest
      using assms(1) by (auto simp: open_marks_def CommitMark batch_inv_def Let_def unsigned_eq_0_iff split: if_splits)
  qed
next
  case (ItemMark e)
  with assms(2) have k: "eh_event_kind (isp_header p) \<noteq> SYSTEM_BATCH_COMMIT" "eh_event_kind (isp_header p) \<noteq> SYSTEM_BATCH_BEGIN"
    and e: "scanned_of_frame p segment_id off frame_size = Inr e"
    by (auto simp: mark_of_def Let_def split: if_splits)
  show ?thesis
  proof (cases "in_batch b")
    case False
    with k e assms(1) show ?thesis
      by (intro that [of "[e]" b]) (simp_all add: recover_frame_def Let_def open_marks_def ItemMark)
  next
    case True
    let ?b = "if remaining b = 0 then discard_incomplete b else b\<lparr>staged := staged b @ [e], remaining := remaining b - 1\<rparr>"
    show ?thesis
    proof (rule that [of "[]" ?b])
      show "recover_frame (\<lambda>e s. (f e s, None)) segment_id off frame_size p s b = (fold f [] s, ?b, None)"
        using k e True by (simp add: recover_frame_def Let_def stage_entry_def)
      show "batch_inv ?b"
        using assms(1) True by (auto simp: batch_inv_def discard_incomplete_def simp flip: unat_sub_1)
      show "committed (open_marks b @ m # rest) = [] @ committed (open_marks ?b @ rest)" for rest
      proof (cases "remaining b = 0")
        case full: True
        with assms(1) True show ?thesis
          by (simp add: open_marks_def ItemMark batch_inv_def Let_def discard_incomplete_def)
      next
        case False
        with True have "open_marks b @ m # rest = open_marks ?b @ rest" by (simp add: open_marks_def ItemMark)
        then show ?thesis by (simp only: append_Nil)
      qed
    qed
  qed
qed

section \<open>Scanning a stream of frames\<close>

text \<open>The frames of a stream as the scan sees them: offset, size and decoded payload.\<close>

fun marks_of ::
  "(bytes \<Rightarrow> index_scan_payload option) \<Rightarrow> u64 \<Rightarrow> nat \<Rightarrow> bytes list \<Rightarrow> mark list option" where
  "marks_of decode_payload segment_id at [] = Some []"
| "marks_of decode_payload segment_id at (m # ms) =
     (case decode_payload m of
        None \<Rightarrow> None
      | Some p \<Rightarrow>
          (case mark_of segment_id (of_nat at) (8 + length m) p of
             Inl _ \<Rightarrow> None
           | Inr mk \<Rightarrow> map_option (Cons mk) (marks_of decode_payload segment_id (at + 8 + length m) ms)))"

lemma scan_frames_frame:
  assumes "frame_at crc file cursor m" and "cursor + 8 + length m \<le> region_end" and "region_end < 2 ^ 64"
    and "decode_payload m = Some p"
  shows "scan_frames crc decode_payload sink pol file sid region_end cursor s b =
    (case recover_frame sink sid (of_nat cursor) (8 + length m) p s b of
       (s', b', Some err) \<Rightarrow> (s', b', Some err)
     | (s', b', None) \<Rightarrow> scan_frames crc decode_payload sink pol file sid region_end (cursor + (8 + length m)) s' b')"
proof -
  have m: "length m \<le> MAX_FRAME_PAYLOAD" using assms(1) by (simp add: frame_at_def)
  obtain h where "read_exact file cursor 8 = Some h"
    "unat (from_be [h ! 0, h ! 1, h ! 2, h ! 3] :: u32) = length m"
    "read_exact file (cursor + 8) (length m) = Some m" "frame_decode crc (h @ m) = Inr (m, 8 + length m)"
    using frame_at_reads [OF assms(1)] .
  with m assms(2-4) show ?thesis
    by (subst scan_frames.simps)
      (simp add: read_frame_header_or_clean_eof_def payload_len_exceeds_max_def Let_def del: One_nat_def)
qed

lemma scan_stream_refines:
  assumes "stream_between crc file cursor ms stop" and "stop \<le> region_end" and "region_end < 2 ^ 64"
    and "marks_of decode_payload sid cursor ms = Some mks" and "batch_inv b"
  obtains es b' where
    "scan_frames crc decode_payload (\<lambda>e s. (f e s, None)) pol file sid region_end cursor s b =
       scan_frames crc decode_payload (\<lambda>e s. (f e s, None)) pol file sid region_end stop (fold f es s) b'"
    and "batch_inv b'" and "\<And>rest. committed (open_marks b @ mks @ rest) = es @ committed (open_marks b' @ rest)"
  using assms
proof (induction ms arbitrary: cursor mks s b thesis)
  case Nil
  then show ?case by (intro Nil.prems(1) [of "[]" b]) auto
next
  case (Cons m ms)
  from Cons.prems(2) have at: "frame_at crc file cursor m"
    and st: "stream_between crc file (cursor + (8 + length m)) ms stop"
    by (simp_all add: stream_between_Cons add.assoc)
  from Cons.prems(5) obtain p mk mks' where p: "decode_payload m = Some p"
    and mk: "mark_of sid (of_nat cursor) (8 + length m) p = Inr mk"
    and mks': "marks_of decode_payload sid (cursor + (8 + length m)) ms = Some mks'" "mks = mk # mks'"
    by (auto simp: add.assoc split: option.splits sum.splits)
  have "cursor + 8 + length m \<le> region_end"
    using st Cons.prems(3) by (simp add: stream_between_def)
  note step = scan_frames_frame [where decode_payload = decode_payload, OF at this Cons.prems(4) p]
  obtain es b1 where r: "recover_frame (\<lambda>e s. (f e s, None)) sid (of_nat cursor) (8 + length m) p s b = (fold f es s, b1, None)"
    and b1: "batch_inv b1" "\<And>rest. committed (open_marks b @ mk # rest) = es @ committed (open_marks b1 @ rest)"
    using recover_frame_refines [OF Cons.prems(6) mk, of f s] by blast
  obtain es' b' where "scan_frames crc decode_payload (\<lambda>e s. (f e s, None)) pol file sid region_end (cursor + (8 + length m)) (fold f es s) b1 =
       scan_frames crc decode_payload (\<lambda>e s. (f e s, None)) pol file sid region_end stop (fold f es' (fold f es s)) b'"
    "batch_inv b'" "\<And>rest. committed (open_marks b1 @ mks' @ rest) = es' @ committed (open_marks b' @ rest)"
    using Cons.IH [OF _ st Cons.prems(3,4) mks'(1) b1(1), of "fold f es s"] by blast
  then show ?case using b1(2) by (intro Cons.prems(1) [of "es @ es'" b']) (simp_all add: step r mks'(2))
qed

text \<open>What a write cut short leaves behind: a proper initial part of one frame.\<close>

definition torn_tail :: "(bytes \<Rightarrow> u32) \<Rightarrow> bytes \<Rightarrow> bool" where
  "torn_tail crc torn \<longleftrightarrow>
     (\<exists>m. length m \<le> MAX_FRAME_PAYLOAD \<and> length torn < 8 + length m \<and> torn = take (length torn) (frame_bytes crc m))"

definition segment_file :: "(bytes \<Rightarrow> u32) \<Rightarrow> bytes \<Rightarrow> bytes list \<Rightarrow> bytes \<Rightarrow> bytes" where
  "segment_file crc header ms torn =
     SEGMENT_MAGIC @ to_be (of_nat (length header) :: u32) @ header @ frame_stream crc ms @ torn"

lemma scan_frames_torn:
  assumes "torn_tail crc torn" and "file = front @ torn" and "length file < 2 ^ 63"
  shows "scan_frames crc dp sink pol file sid (length file) (length front) s b =
    (s, b, if pol = FailClosed \<and> 8 \<le> length torn
      then Some (CorruptFrame sid (of_nat (length front)) PayloadPastRegion) else None)"
proof (cases "length torn < 8")
  case True
  with assms(2) show ?thesis
    by (subst scan_frames.simps) (simp add: read_frame_header_or_clean_eof_def read_exact_def)
next
  case False
  obtain m where m: "length m \<le> MAX_FRAME_PAYLOAD" "length torn < 8 + length m"
    "torn = take (length torn) (frame_bytes crc m)" using assms(1) by (auto simp: torn_tail_def)
  define h where "h = take 8 torn"
  have h: "h = take 8 (frame_bytes crc m)"
    using False by (subst h_def, subst m(3)) (simp add: take_take min_def)
  have lt: "length m < 2 ^ 32" using m(1) MAX_FRAME_PAYLOAD_lt by simp
  have "from_be [h ! 0, h ! 1, h ! 2, h ! 3] = (of_nat (length m) :: u32)"
    unfolding h by (simp add: frame_bytes_def frame_head del: One_nat_def)
  then have len: "unat (from_be [h ! 0, h ! 1, h ! 2, h ! 3] :: u32) = length m"
    using lt by (simp add: unat_of_nat)
  have rd: "read_exact file (length front) 8 = Some h" using False assms(2) by (simp add: read_exact_def h_def)
  have "length front + 8 + length m < 2 ^ 64" using assms(2,3) lt by simp
  moreover have "length front < length file" using assms(2) False by (cases torn) simp_all
  moreover have "length file = length front + length torn" using assms(2) by simp
  ultimately show ?thesis
    using False m(1,2)
    by (subst scan_frames.simps)
      (cases pol; simp add: Let_def read_frame_header_or_clean_eof_def rd len payload_len_exceeds_max_def can_recover_torn_tail_def
        del: One_nat_def)
qed

lemma locate_unsealed:
  assumes "file = segment_file crc header ms torn" and "length header \<le> MAX_SEGMENT_HEADER"
    and "from_header header = Some h" and "sh_version h = 1" and "detect_sidx_boundary crc file sid = Inr None"
  shows "locate_frames crc from_header dc file sid = Inr (8 + length header, length file)"
proof -
  have m: "length SEGMENT_MAGIC = 4" by (simp add: SEGMENT_MAGIC_def)
  have r: "read_exact file 0 4 = Some SEGMENT_MAGIC" "read_exact file 4 4 = Some (to_be (of_nat (length header) :: u32))"
    "read_exact file 8 (length header) = Some header" "8 + length header \<le> length file"
    by (simp_all add: assms(1) segment_file_def read_exact_def m)
  have "unat (of_nat (length header) :: u32) = length header"
    using assms(2) by (simp add: unat_of_nat MAX_SEGMENT_HEADER_def)
  then show ?thesis
    using assms(2-5) r by (simp add: locate_frames_def checked_header_len_def Let_def)
qed

lemma segment_file_stream:
  assumes "\<forall>m \<in> set ms. payload_ok m"
  shows "stream_between crc (segment_file crc header ms torn) (8 + length header) ms
    (length (segment_file crc header ms torn) - length torn)"
proof -
  have "length SEGMENT_MAGIC = 4" by (simp add: SEGMENT_MAGIC_def)
  with assms show ?thesis by (simp add: stream_between_def segment_file_def)
qed

text \<open>On any bytes, the scan stops where it is or consumes one good frame.\<close>

lemma scan_frames_cases:
  assumes "dp [] = None"
  obtains (stop) b1 err where "scan_frames crc dp sink pol src sid region_end cursor s b = (s, b1, err)"
      and "b1 = b \<or> b1 = drop_batch b"
  | (step) m p where "frame_at crc src cursor m" and "dp m = Some p"
      and "scan_frames crc dp sink pol src sid region_end cursor s b =
        (case recover_frame sink sid (of_nat cursor) (8 + length m) p s b of
           (s', b', Some err) \<Rightarrow> (s', b', Some err)
         | (s', b', None) \<Rightarrow> scan_frames crc dp sink pol src sid region_end (cursor + (8 + length m)) s' b')"
proof (cases "\<exists>h rest m n p. cursor < region_end \<and> read_exact src cursor 8 = Some h \<and>
    unat (from_be [h ! 0, h ! 1, h ! 2, h ! 3] :: u32) \<le> MAX_FRAME_PAYLOAD \<and>
    read_exact src (cursor + 8) (unat (from_be [h ! 0, h ! 1, h ! 2, h ! 3] :: u32)) = Some rest \<and>
    frame_decode crc (h @ rest) = Inr (m, n) \<and> dp m = Some p \<and>
    cursor + 8 + unat (from_be [h ! 0, h ! 1, h ! 2, h ! 3] :: u32) < 2 ^ 64 \<and>
    cursor + 8 + unat (from_be [h ! 0, h ! 1, h ! 2, h ! 3] :: u32) \<le> region_end")
  case True
  then obtain h rest m n p where c: "cursor < region_end" "read_exact src cursor 8 = Some h"
    "unat (from_be [h ! 0, h ! 1, h ! 2, h ! 3] :: u32) \<le> MAX_FRAME_PAYLOAD"
    "read_exact src (cursor + 8) (unat (from_be [h ! 0, h ! 1, h ! 2, h ! 3] :: u32)) = Some rest"
    "frame_decode crc (h @ rest) = Inr (m, n)" "dp m = Some p"
    "cursor + 8 + unat (from_be [h ! 0, h ! 1, h ! 2, h ! 3] :: u32) < 2 ^ 64"
    "cursor + 8 + unat (from_be [h ! 0, h ! 1, h ! 2, h ! 3] :: u32) \<le> region_end" by blast
  note d = decoded_frame_at [OF c(2,4,5)]
  have "m \<noteq> []" "length m \<le> MAX_FRAME_PAYLOAD" using assms c(3,6) d(3) by auto
  from d(4) [OF this] c(6) show thesis
  proof (rule step)
    show "scan_frames crc dp sink pol src sid region_end cursor s b =
        (case recover_frame sink sid (of_nat cursor) (8 + length m) p s b of
           (s', b', Some err) \<Rightarrow> (s', b', Some err)
         | (s', b', None) \<Rightarrow> scan_frames crc dp sink pol src sid region_end (cursor + (8 + length m)) s' b')"
      using c d(1) by (subst scan_frames.simps)
        (simp add: read_frame_header_or_clean_eof_def payload_len_exceeds_max_def Let_def not_less not_le del: One_nat_def)
  qed
next
  case False
  show thesis
  proof (rule stop)
    let ?r = "scan_frames crc dp sink pol src sid region_end cursor s b"
    have "fst ?r = s \<and> (fst (snd ?r) = b \<or> fst (snd ?r) = drop_batch b)"
      using False by (subst (1 2 3) scan_frames.simps)
        (auto simp: read_frame_header_or_clean_eof_def payload_len_exceeds_max_def Let_def not_less not_le
          simp del: One_nat_def split: option.splits sum.splits)
    then show "?r = (s, fst (snd ?r), snd (snd ?r))" "fst (snd ?r) = b \<or> fst (snd ?r) = drop_batch b"
      by (auto simp: prod_eq_iff)
  qed
qed

lemma batch_inv_drop: "batch_inv b \<Longrightarrow> batch_inv (drop_batch b)"
  by (simp add: batch_inv_def drop_batch_def)

lemma recover_frame_reject:
  "mark_of sid off n p = Inl e \<Longrightarrow> recover_frame sink sid off n p s b = (s, b, Some e)"
  using kinds_distinct
  by (auto simp: mark_of_def recover_frame_def Let_def open_batch_def nested_batch_def bind_result_eq_Inl split: if_splits sum.splits)

lemma scan_frames_sound:
  assumes "scan_frames crc dp (\<lambda>e s. (f e s, None)) pol src sid region_end cursor s b = (s', b', err)"
    and "batch_inv b" and "cursor \<le> length src" and "dp [] = None"
  shows "\<exists>ms stop marks. stream_between crc src cursor ms stop \<and> marks_of dp sid cursor ms = Some marks \<and>
    s' = fold f (committed (open_marks b @ marks)) s \<and> batch_inv b'"
  using assms(1-3)
proof (induction "length src - cursor" arbitrary: cursor s b rule: less_induct)
  case less
  have none: "\<exists>ms stop marks. stream_between crc src cursor ms stop \<and> marks_of dp sid cursor ms = Some marks \<and>
    s = fold f (committed (open_marks b @ marks)) s"
    using less.prems(2,3) by (intro exI [of _ "[]"] exI [of _ cursor]) auto
  from assms(4) show ?case
  proof (cases rule: scan_frames_cases [where crc = crc and sink = "\<lambda>e s. (f e s, None)" and pol = pol and src = src
        and sid = sid and region_end = region_end and cursor = cursor and s = s and b = b])
    case (stop b1 err1)
    with less.prems have "s' = s" "batch_inv b'" by (auto simp: batch_inv_drop)
    with none show ?thesis by blast
  next
    case (step m p)
    show ?thesis
    proof (cases "mark_of sid (of_nat cursor) (8 + length m) p")
      case (Inl e)
      with step(3) less.prems none show ?thesis by (auto simp: recover_frame_reject)
    next
      case (Inr mk)
      obtain es b1 where r: "recover_frame (\<lambda>e s. (f e s, None)) sid (of_nat cursor) (8 + length m) p s b = (fold f es s, b1, None)"
        and b1: "batch_inv b1" "\<And>rest. committed (open_marks b @ mk # rest) = es @ committed (open_marks b1 @ rest)"
        using recover_frame_refines [OF less.prems(2) Inr, of f s] by blast
      have at: "cursor + (8 + length m) \<le> length src" using step(1) by (simp add: frame_at_def)
      have "scan_frames crc dp (\<lambda>e s. (f e s, None)) pol src sid region_end (cursor + (8 + length m)) (fold f es s) b1 = (s', b', err)"
        using step(3) r less.prems(1) by simp
      from less.hyps [OF _ this b1(1) at] at obtain ms stop marks where
        "stream_between crc src (cursor + (8 + length m)) ms stop" "marks_of dp sid (cursor + (8 + length m)) ms = Some marks"
        "s' = fold f (committed (open_marks b1 @ marks)) (fold f es s)" "batch_inv b'" by force
      with step(1,2) Inr b1(2) show ?thesis
        by (intro exI [of _ "m # ms"] exI [of _ stop] exI [of _ "mk # marks"])
          (simp add: stream_between_Cons add.assoc)
    qed
  qed
qed

section \<open>The fast path on a sealed segment\<close>

definition is_marker_entry :: "sidx_entry \<Rightarrow> bool" where
  "is_marker_entry e \<longleftrightarrow> EventKind (se_kind e) \<in> {SYSTEM_BATCH_BEGIN, SYSTEM_BATCH_COMMIT}"

lemma marker_kind:
  "cr_kind (to_cold_start_row e sid) \<in> {SYSTEM_BATCH_BEGIN, SYSTEM_BATCH_COMMIT} \<longleftrightarrow> is_marker_entry e"
proof -
  have "fst (raw_to_kind_counted raw st) \<in> {SYSTEM_BATCH_BEGIN, SYSTEM_BATCH_COMMIT} \<longleftrightarrow>
      EventKind raw \<in> {SYSTEM_BATCH_BEGIN, SYSTEM_BATCH_COMMIT}" for raw st
    using nibble_split [of raw]
    by (auto simp: raw_to_kind_counted_def raw_to_kind_impl_def Let_def kind_consts split: if_splits)
  then show ?thesis
    by (simp add: to_cold_start_row_def to_cold_start_row_counted_def is_marker_entry_def case_prod_unfold)
qed

text \<open>The entry a recorded item stands for.\<close>

definition entry_of_item :: "u64 \<Rightarrow> sidx_entry \<times> string \<times> string \<Rightarrow> scanned_index_entry" where
  "entry_of_item sid item = (case item of (e, entity, scope) \<Rightarrow>
     \<lparr>sc_header = to_event_header (to_cold_start_row e sid), sc_entity = entity, sc_scope = scope,
      sc_hash_chain = \<lparr>prev_hash = se_prev_hash e, event_hash = se_event_hash e\<rparr>, sc_segment_id = sid,
      sc_offset = se_frame_offset e, sc_length = se_frame_length e, sc_receipt_extensions = [],
      sc_global_sequence = Some (se_global_sequence e)\<rparr>)"

lemma resolvesE:
  assumes "resolves strings (e, entity, scope) r"
  obtains i j where "r = e\<lparr>se_entity_idx := i, se_scope_idx := j\<rparr>" and "unat i < length strings" and "strings ! unat i = entity"
    and "unat j < length strings" and "strings ! unat j = scope"
  using assms by (auto simp: resolves_def)

lemma entry_of_resolved:
  assumes "resolves strings (e, entity, scope) r"
  shows "from_cold_start_row (to_cold_start_row r sid) strings = Inr (entry_of_item sid (e, entity, scope))"
    and "is_marker_entry r = is_marker_entry e"
proof -
  obtain i j where r: "r = e\<lparr>se_entity_idx := i, se_scope_idx := j\<rparr>" and ij: "unat i < length strings" "strings ! unat i = entity"
    "unat j < length strings" "strings ! unat j = scope"
    using assms by (rule resolvesE)
  show "from_cold_start_row (to_cold_start_row r sid) strings = Inr (entry_of_item sid (e, entity, scope))"
    using ij
    by (simp add: r from_cold_start_row_def resolve_strings_def resolve_part_def entry_of_item_def to_cold_start_row_def
        to_cold_start_row_counted_def to_disk_pos_def to_event_header_def wall_us_saturating_def case_prod_unfold)
  show "is_marker_entry r = is_marker_entry e" by (simp add: r is_marker_entry_def)
qed

lemma sink_sidx_entries_ok:
  assumes "list_all2 (resolves strings) items ses"
  shows "sink_sidx_entries (\<lambda>e s. (f e s, None)) sid strings ses s =
    (fold f (map (entry_of_item sid) (filter (\<lambda>(e, _). \<not> is_marker_entry e) items)) s, None)"
  using assms
proof (induction items ses arbitrary: s rule: list_all2_induct)
  case (Cons item items r ses)
  obtain e entity scope where i: "item = (e, entity, scope)" by (cases item)
  with Cons.hyps(1) have r: "resolves strings (e, entity, scope) r" by simp
  from entry_of_resolved(1) [OF r, of sid] entry_of_resolved(2) [OF r] marker_kind [of r sid] Cons.IH show ?case
    by (auto simp: i Let_def)
qed simp

lemma max_frame_tail_ge: "max_frame_tail t es = Some t' \<Longrightarrow> t \<le> t'"
  by (induction t es rule: max_frame_tail.induct) (auto split: option.splits if_splits)

lemma max_frame_tail_idx:
  "list_all2 (resolves strings) items es \<Longrightarrow> max_frame_tail t es = max_frame_tail t (map fst items)"
proof (induction items es arbitrary: t rule: list_all2_induct)
  case (Cons item items r es)
  obtain e entity scope where i: "item = (e, entity, scope)" by (cases item)
  with Cons.hyps(1) have "resolves strings (e, entity, scope) r" by simp
  then have "se_frame_offset r = se_frame_offset (fst item)" "se_frame_length r = se_frame_length (fst item)"
    by (auto elim!: resolvesE simp: i)
  with Cons.IH show ?case by (simp split: option.splits)
qed simp

section \<open>Properties\<close>

lemma crash_recovery:
  assumes "file = segment_file crc header ms torn" and "length file < 2 ^ 63"
    and "length header \<le> MAX_SEGMENT_HEADER" and "from_header header = Some h" and "sh_version h = 1"
    and "detect_sidx_boundary crc file sid = Inr None"
    and "\<forall>m \<in> set ms. payload_ok m" and "torn_tail crc torn"
    and "marks_of dp sid (8 + length header) ms = Some marks" and "batch_inv b"
  shows "\<exists>es b'. scan_segment_frames crc from_header dc dp (\<lambda>e s. (f e s, None)) pol file sid s b =
      (fold f es s, b', if pol = FailClosed \<and> 8 \<le> length torn
        then Some (CorruptFrame sid (of_nat (length file - length torn)) PayloadPastRegion) else None) \<and>
    batch_inv b' \<and>
    (\<forall>rest. committed (open_marks b @ marks @ rest) = es @ committed (open_marks b' @ rest))"
proof -
  define front where "front = take (length file - length torn) file"
  have f: "file = front @ torn" "length front = length file - length torn"
    by (simp_all add: front_def assms(1) segment_file_def)
  have "stream_between crc file (8 + length header) ms (length front)"
    using segment_file_stream [OF assms(7), of crc header torn] by (simp only: assms(1) [symmetric] f(2))
  moreover have "length front \<le> length file" "length file < 2 ^ 64" using assms(2) by (simp_all add: f(2))
  ultimately obtain es b' where
    "scan_frames crc dp (\<lambda>e s. (f e s, None)) pol file sid (length file) (8 + length header) s b =
       scan_frames crc dp (\<lambda>e s. (f e s, None)) pol file sid (length file) (length front) (fold f es s) b'"
    "batch_inv b'" "\<And>rest. committed (open_marks b @ marks @ rest) = es @ committed (open_marks b' @ rest)"
    using scan_stream_refines [OF _ _ _ assms(9,10), where f = f and s = s] by blast
  then show ?thesis
    unfolding scan_segment_frames_def locate_unsealed [where from_header = from_header, OF assms(1,3-6)] f(2) [symmetric]
    by (intro exI [of _ es] exI [of _ b']) (simp only: scan_frames_torn [OF assms(8) f(1) assms(2)] simp_thms sum.case prod.case)
qed

text \<open>
  C25. Crash recovery is exact. For a segment file that holds any frames followed by what a
  write cut short left behind, the scan under the torn-tail policy succeeds and hands the sink
  exactly the events that the specification counts, in order, whatever batch was open before
  and whatever follows in the next segment; under the strict policy it reports the cut frame
  as corrupt as soon as its header is complete.
\<close>

theorem crash_recovery_refines:
  assumes "file = segment_file crc header ms torn" and "length file < 2 ^ 63"
    and "length header \<le> MAX_SEGMENT_HEADER" and "from_header header = Some h" and "sh_version h = 1"
    and "detect_sidx_boundary crc file sid = Inr None"
    and "\<forall>m \<in> set ms. payload_ok m" and "torn_tail crc torn"
    and "marks_of dp sid (8 + length header) ms = Some marks" and "batch_inv b"
  shows "\<exists>es b'. scan_segment_frames crc from_header dc dp (\<lambda>e s. (f e s, None)) pol file sid s b =
      (fold f es s, b', if pol = FailClosed \<and> 8 \<le> length torn
        then Some (CorruptFrame sid (of_nat (length file - length torn)) PayloadPastRegion) else None) \<and>
    batch_inv b' \<and>
    (\<forall>rest. committed (open_marks b @ marks @ rest) = es @ committed (open_marks b' @ rest))"
  using assms by (rule crash_recovery)

text \<open>A batch of one event, then three bytes of a frame that was never finished.\<close>

definition example_payload :: "EventKind \<Rightarrow> u32 \<Rightarrow> index_scan_payload" where
  "example_payload kind n =
     \<lparr>isp_header = event_header_new 1 1 None 0 dag_root n kind, isp_hash_chain = Some hash_chain_default,
      isp_entity = ''a'', isp_scope = ''b'', isp_receipt_extensions = []\<rparr>"

definition example_decode :: "bytes \<Rightarrow> index_scan_payload option" where
  "example_decode m = (if m = [6] then Some (example_payload SYSTEM_BATCH_BEGIN 1)
     else if m = [7] then Some (example_payload SYSTEM_BATCH_COMMIT 1)
     else if m = [] then None else Some (example_payload DATA 0))"

definition example_header :: segment_header where
  "example_header = \<lparr>sh_version = 1, sh_flags = 0, sh_created_ns = 0, sh_segment_id = 3\<rparr>"

lemma example_segment:
  "segment_file (\<lambda>_. 9) [0x42] [[6], [1], [7]] [0, 0, 0] =
    [0x46, 0x42, 0x41, 0x54, 0, 0, 0, 1, 0x42, 0, 0, 0, 1, 0, 0, 0, 9, 6, 0, 0, 0, 1, 0, 0, 0, 9, 1,
     0, 0, 0, 1, 0, 0, 0, 9, 7, 0, 0, 0]"
  by (simp add: segment_file_def SEGMENT_MAGIC_def frame_stream_def frame_bytes_def to_be_def to_le_def le_nat_numeral)

theorem crash_recovery_refines_witness:
  "\<exists>e b'. scan_segment_frames (\<lambda>_. 9) (\<lambda>_. Some example_header) (\<lambda>_. None) example_decode (\<lambda>e s. (s @ [e], None))
     RecoverTornTail (segment_file (\<lambda>_. 9) [0x42] [[6], [1], [7]] [0, 0, 0]) 3 [] batch_recovery_default = ([e], b', None) \<and>
     sc_offset e = 18"
proof -
  let ?file = "segment_file (\<lambda>_. 9) [0x42] [[6], [1], [7]] [0, 0, 0]"
  have "detect_sidx_boundary (\<lambda>_. 9) ?file 3 = Inr None"
    by (simp add: example_segment detect_sidx_boundary_def trailer_magic_def trailer_def TRAILER_SIZE_def
        SIDX_MAGIC_def SIDX_MAGIC_LEGACY_SDX2_def)
  moreover have "torn_tail (\<lambda>_. 9) [0, 0, 0]"
    unfolding torn_tail_def
    by (rule exI [of _ "[1]"]) (simp add: frame_bytes_def to_be_def to_le_def le_nat_numeral MAX_FRAME_PAYLOAD_def)
  moreover obtain e where e: "marks_of example_decode 3 (8 + length [0x42 :: byte]) [[6], [1], [7]] =
      Some [BeginMark 1, ItemMark e, CommitMark]" "sc_offset e = 18"
    by (simp add: example_decode_def example_payload_def mark_of_def checked_batch_count_def MAX_BATCH_RECOVERY_ITEMS_def
        event_header_new_def scanned_of_frame_def required_index_hash_chain_def kind_consts)
  moreover have "batch_inv batch_recovery_default" by (simp add: batch_inv_def batch_recovery_default_def)
  moreover have "\<forall>m \<in> set [[6], [1], [7 :: byte]]. payload_ok m" by (simp add: payload_ok_def MAX_FRAME_PAYLOAD_def)
  ultimately obtain es b' where
    r: "scan_segment_frames (\<lambda>_. 9) (\<lambda>_. Some example_header) (\<lambda>_. None) example_decode (\<lambda>e s. (s @ [e], None))
      RecoverTornTail ?file 3 [] batch_recovery_default = (fold (\<lambda>e s. s @ [e]) es [], b', None)"
    and b: "batch_inv b'" "\<And>rest. committed (open_marks batch_recovery_default @ [BeginMark 1, ItemMark e, CommitMark] @ rest) =
      es @ committed (open_marks b' @ rest)"
    using crash_recovery_refines [of ?file "\<lambda>_. 9" "[0x42]" "[[6], [1], [7]]" "[0, 0, 0]" "\<lambda>_. Some example_header" example_header 3
        example_decode "[BeginMark 1, ItemMark e, CommitMark]" batch_recovery_default "\<lambda>_. None" "\<lambda>e s. s @ [e]" RecoverTornTail "[]"]
    by (auto simp: example_header_def MAX_SEGMENT_HEADER_def example_segment)
  have "open_marks batch_recovery_default = []" by (simp add: open_marks_def batch_recovery_default_def)
  then have "es = [e]" using b(2) [of "[]"] b(1) by simp
  with r e(2) show ?thesis by simp
qed

text \<open>
  The scan invents nothing. On any bytes whatsoever and with either outcome, what the sink
  received are the events that the specification counts in a run of frames with valid checksums
  that starts at the given offset of the file, and the batch state keeps its invariant.
\<close>

theorem scan_sound:
  assumes "scan_frames crc dp (\<lambda>e s. (f e s, None)) pol src sid region_end cursor s b = (s', b', err)"
    and "batch_inv b" and "cursor \<le> length src" and "dp [] = None"
  shows "\<exists>ms stop marks. stream_between crc src cursor ms stop \<and> marks_of dp sid cursor ms = Some marks \<and>
    s' = fold f (committed (open_marks b @ marks)) s \<and> batch_inv b'"
  by (rule scan_frames_sound [OF assms])

theorem scan_sound_witness:
  "\<exists>ms stop marks. stream_between (\<lambda>_. 9) [0, 0, 0, 1, 0, 0, 0, 9, 1] 0 ms stop \<and>
     marks_of example_decode 3 0 ms = Some marks \<and> committed (open_marks batch_recovery_default @ marks) \<noteq> []"
proof -
  let ?src = "[0, 0, 0, 1, 0, 0, 0, 9, 1 :: byte]"
  obtain e where "scan_frames (\<lambda>_. 9) example_decode (\<lambda>e s. (s @ [e], None)) FailClosed ?src 3 9 0 []
      batch_recovery_default = ([e], batch_recovery_default, None)"
    by (simp add: scan_frames.simps [of _ _ _ _ ?src 3 9 0] scan_frames.simps [of _ _ _ _ ?src 3 9 9] read_frame_header_or_clean_eof_def read_exact_def payload_len_exceeds_max_def
        MAX_FRAME_PAYLOAD_def frame_decode_def from_be_def from_le_def Let_def example_decode_def example_payload_def recover_frame_def
        batch_recovery_default_def event_header_new_def scanned_of_frame_def required_index_hash_chain_def kind_consts)
  from scan_sound [OF this] show ?thesis
    by (fastforce simp: batch_inv_def batch_recovery_default_def example_decode_def)
qed

text \<open>
  C26. The footer fast path gives the recorded index. For a sealed segment that is not active,
  with no batch open, whose recorded frames reach exactly the end of the frame region, the
  scan hands the sink the recorded events in order, without the batch markers, with their
  names, hashes, positions and sequence numbers, and touches no batch state.
\<close>

theorem fast_path_exact:
  assumes codec: "\<And>ss bs. to_strings ss = Some bs \<Longrightarrow> from_strings bs = Some ss"
    and rec: "record_all collector_new items = Inr c" and ok: "\<forall>(e, _) \<in> set items. sidx_entry_ok e"
    and out: "write_footer to_strings crc c frames sid = Inr source" and len: "length frames < 2 ^ 64"
    and tail: "max_frame_tail 0 (map fst items) = Some (of_nat (length frames))"
    and name: "from_filename name = Inr sid" and act: "active \<noteq> sid"
    and idle: "\<forall>b. batch_state = Some b \<longrightarrow> \<not> in_batch b"
  shows "scan_segment_index_into_with_tail_policy crc from_strings from_header dc dp active
      (\<lambda>e s. (f e s, None)) pol name source s batch_state =
    (fold f (map (entry_of_item sid) (filter (\<lambda>(e, _). \<not> is_marker_entry e) items)) s, batch_state, None)"
proof -
  note w = read_footer_written [where to_bytes = to_strings and from_bytes = from_strings, OF codec rec ok out len]
  have "max_frame_tail 0 (col_entries c) = Some (of_nat (length frames))"
    using max_frame_tail_idx [OF w(2)] tail by simp
  then have "sidx_covers_segment_tail source (col_entries c) = Complete"
    using w(4-6) len by (simp add: sidx_covers_segment_tail_def unat_of_nat)
  then have "try_sidx_fast_path crc from_strings active (\<lambda>e s. (f e s, None)) name source sid
      (case batch_state of None \<Rightarrow> False | Some b \<Rightarrow> in_batch b) s =
      (True, fold f (map (entry_of_item sid) (filter (\<lambda>(e, _). \<not> is_marker_entry e) items)) s, None)"
    using act idle w(1) sink_sidx_entries_ok [OF w(2), of f sid s]
    by (simp add: try_sidx_fast_path_def split: option.splits)
  then show ?thesis by (simp add: scan_segment_index_into_with_tail_policy_def name)
qed

theorem fast_path_exact_witness:
  "\<exists>c source. record_all collector_new [(example_attest, ''a'', ''a'')] = Inr c \<and>
     write_footer (\<lambda>ss. if ss = [''a''] then Some [1] else None) (\<lambda>_. 5) c (replicate 9 0) 4 = Inr source \<and>
     scan_segment_index_into_with_tail_policy (\<lambda>_. 5) (\<lambda>bs. if bs = [1] then Some [''a''] else None) (\<lambda>_. None) (\<lambda>_. None)
       (\<lambda>_. None) 9 (\<lambda>e s. (s @ [e], None)) FailClosed ''000004.fbat'' source [] None =
     ([entry_of_item 4 (example_attest, ''a'', ''a'')], None, None)"
proof -
  let ?to = "\<lambda>ss :: string list. if ss = [''a''] then Some [1 :: byte] else None"
  let ?from = "\<lambda>bs :: bytes. if bs = [1] then Some [''a''] else None"
  let ?items = "[(example_attest, ''a'', ''a'')]"
  have codec: "?from bs = Some ss" if "?to ss = Some bs" for ss bs using that by (simp split: if_splits)
  obtain c where rec: "record_all collector_new ?items = Inr c" and c: "col_strings c = [''a'']" "length (col_entries c) = 1"
    by (auto simp: collector_new_def collector_record_def collector_intern_def Let_def)
  obtain out where out: "write_footer ?to (\<lambda>_. 5) c (replicate 9 0) 4 = Inr out"
    using c by (simp add: write_footer_def Let_def)
  have ok: "\<forall>(e, _) \<in> set ?items. sidx_entry_ok e" by (simp add: example_attest_def sidx_entry_ok_def ZERO_HASH_def)
  have tail: "max_frame_tail 0 (map fst ?items) = Some (of_nat (length (replicate 9 (0 :: byte))))"
    by (simp add: example_attest_def checked_add_def)
  have name: "from_filename ''000004.fbat'' = Inr 4"
    by (simp add: from_filename_def file_stem_def from_stem_def parse_u64_def Let_def)
  have "\<not> is_marker_entry example_attest" by (simp add: is_marker_entry_def example_attest_def kind_consts)
  with fast_path_exact [where f = "\<lambda>e s. s @ [e]" and to_strings = ?to and from_strings = ?from and active = 9 and
      batch_state = None, OF codec rec ok out _ tail name]
    rec out show ?thesis by simp
qed

text \<open>
  An over-full batch is given up, but not as a whole. When a batch has all the events it
  declared and another event frame follows, the staged events and that one are dropped without
  reaching the sink, and the batch is closed; the next event frame of the same batch is then
  taken as an event of its own and handed to the sink.
\<close>

theorem overfull_batch_tail:
  assumes "in_batch b" and "remaining b = 0" and "mark_of sid off size1 p = Inr (ItemMark e)"
    and "mark_of sid off' size2 p' = Inr (ItemMark e')"
  shows "recover_frame sink sid off size1 p s b = (s, discard_incomplete b, None) \<and>
    recover_frame sink sid off' size2 p' s (discard_incomplete b) =
      (fst (sink e' s), discard_incomplete b, snd (sink e' s))"
proof -
  have k: "eh_event_kind (isp_header q) \<notin> {SYSTEM_BATCH_BEGIN, SYSTEM_BATCH_COMMIT} \<and> scanned_of_frame q sid a n = Inr x"
    if "mark_of sid a n q = Inr (ItemMark x)" for q a n x
    using that by (auto simp: mark_of_def Let_def split: if_splits)
  show ?thesis
    using k [OF assms(3)] k [OF assms(4)] assms(1,2)
    by (simp add: recover_frame_def stage_entry_def discard_incomplete_def split: prod.splits)
qed

theorem overfull_batch_tail_witness:
  "\<exists>e b1. recover_frame (\<lambda>e s. (s @ [e], None)) 3 0 9 (example_payload DATA 0) []
     \<lparr>staged = [], remaining = 0, started_count = 1, in_batch = True\<rparr> = ([], b1, None) \<and>
     recover_frame (\<lambda>e s. (s @ [e], None)) 3 9 9 (example_payload DATA 0) [] b1 = ([e], b1, None)"
proof -
  have m: "\<exists>e. mark_of 3 off 9 (example_payload DATA 0) = Inr (ItemMark e)" for off
    by (simp add: example_payload_def mark_of_def event_header_new_def scanned_of_frame_def required_index_hash_chain_def kind_consts)
  from m [of 0] m [of 9] obtain e1 e2 where "mark_of 3 0 9 (example_payload DATA 0) = Inr (ItemMark e1)"
    "mark_of 3 9 9 (example_payload DATA 0) = Inr (ItemMark e2)" by blast
  from overfull_batch_tail [of "\<lparr>staged = [], remaining = 0, started_count = 1, in_batch = True\<rparr>", OF _ _ this,
      of "\<lambda>e s. (s @ [e], None)" "[]"]
  show ?thesis by (intro exI [of _ e2] exI [of _ "discard_incomplete \<lparr>staged = [], remaining = 0, started_count = 1, in_batch = True\<rparr>"]) simp
qed



end
