(* ===== verification/Reader.thy ===== *)
theory Reader
  imports Recovery
begin

text \<open>
  Reading events back (\<^verbatim>\<open>store/segment/scan/mod.rs\<close>, \<^verbatim>\<open>point_read.rs\<close>, \<^verbatim>\<open>full_scan.rs\<close>,
  \<^verbatim>\<open>validate.rs\<close>) and the compaction that rewrites what it reads
  (\<^verbatim>\<open>store/lifecycle_compact.rs\<close>). Opening a segment file is the parameter \<open>open_file\<close>: the handle
  it gives, or \<open>None\<close> when opening fails; \<open>contents\<close> are the bytes behind a handle. A memory map
  is the bytes it maps. \<open>from_raw\<close> decodes a frame payload and \<open>from_value\<close> an event's payload.
\<close>

section \<open>Events in frames\<close>

record 'p event =
  ev_header :: event_header
  ev_payload :: 'p
  ev_hash_chain :: "hash_chain option"

record 'p frame_payload =
  fp_event :: "'p event"
  fp_entity :: string
  fp_scope :: string
  fp_receipt_extensions :: extensions

record 'p stored_event =
  st_coordinate :: coordinate
  st_event :: "'p event"

definition decode_frame_payload_raw ::
  "(bytes \<Rightarrow> bytes frame_payload option) \<Rightarrow> bytes \<Rightarrow> (StoreError, bytes frame_payload) result" where
  "decode_frame_payload_raw from_raw msgpack =
     (case from_raw msgpack of None \<Rightarrow> Inl Serialization | Some p \<Rightarrow> Inr p)"

definition decode_frame_payload_value ::
  "(bytes \<Rightarrow> bytes frame_payload option) \<Rightarrow> (bytes \<Rightarrow> 'v option) \<Rightarrow> 'v \<Rightarrow> bytes \<Rightarrow>
   (StoreError, 'v frame_payload) result" where
  "decode_frame_payload_value from_raw from_value null msgpack =
     bind_result (decode_frame_payload_raw from_raw msgpack) (\<lambda>payload.
       let ev = fp_event payload in
       bind_result
         (if eh_event_kind (ev_header ev) \<in> {SYSTEM_BATCH_BEGIN, SYSTEM_BATCH_COMMIT} then Inr null
          else case from_value (ev_payload ev) of None \<Rightarrow> Inl Serialization | Some v \<Rightarrow> Inr v)
         (\<lambda>decoded_payload. Inr
           \<lparr>fp_event = \<lparr>ev_header = ev_header ev, ev_payload = decoded_payload, ev_hash_chain = ev_hash_chain ev\<rparr>,
            fp_entity = fp_entity payload, fp_scope = fp_scope payload,
            fp_receipt_extensions = fp_receipt_extensions payload\<rparr>))"

section \<open>The reader\<close>

record 'h reader =
  rd_fds :: "(u64, 'h) btree"
  rd_order :: "u64 list"
  rd_budget :: nat
  rd_buffer_pool :: "bytes list"
  rd_sealed_maps :: "(u64, bytes) btree"
  rd_active_segment_id :: u64
  rd_mmap_admitted :: bool

definition reader_new :: "nat \<Rightarrow> bool \<Rightarrow> 'h reader" where
  "reader_new fd_budget mmap_admitted =
     \<lparr>rd_fds = [], rd_order = [], rd_budget = fd_budget, rd_buffer_pool = [], rd_sealed_maps = [],
      rd_active_segment_id = 0, rd_mmap_admitted = mmap_admitted\<rparr>"

definition set_active_segment :: "'h reader \<Rightarrow> u64 \<Rightarrow> 'h reader" where
  "set_active_segment rd sid = rd\<lparr>rd_active_segment_id := sid\<rparr>"

definition is_sealed :: "'h reader \<Rightarrow> u64 \<Rightarrow> bool" where
  "is_sealed rd segment_id \<longleftrightarrow> segment_id < rd_active_segment_id rd"

definition get_or_map_sealed ::
  "(u64 \<Rightarrow> 'h option) \<Rightarrow> ('h \<Rightarrow> bytes) \<Rightarrow> 'h reader \<Rightarrow> u64 \<Rightarrow> (StoreError, bytes option) result \<times> 'h reader" where
  "get_or_map_sealed open_file contents rd segment_id =
     (case bt_get (rd_sealed_maps rd) segment_id of
        Some mmap \<Rightarrow> (Inr (Some mmap), rd)
      | None \<Rightarrow>
          if \<not> rd_mmap_admitted rd then (Inr None, rd)
          else case open_file segment_id of
              None \<Rightarrow> (Inl Io, rd)
            | Some h \<Rightarrow>
                let rd' = rd\<lparr>rd_sealed_maps := bt_insert segment_id (contents h) (rd_sealed_maps rd)\<rparr> in
                (case bt_get (rd_sealed_maps rd') segment_id of
                   None \<Rightarrow> (Inl Io, rd')
                 | Some mmap \<Rightarrow> (Inr (Some mmap), rd')))"

definition acquire_buffer :: "'h reader \<Rightarrow> nat \<Rightarrow> bytes \<times> 'h reader" where
  "acquire_buffer rd min_size =
     (if rd_buffer_pool rd = [] then (replicate min_size 0, rd)
      else (let buf = last (rd_buffer_pool rd); cleared = take 0 buf in
            (cleared @ replicate (min_size - length cleared) 0, rd\<lparr>rd_buffer_pool := butlast (rd_buffer_pool rd)\<rparr>)))"

definition release_buffer :: "'h reader \<Rightarrow> bytes \<Rightarrow> 'h reader" where
  "release_buffer rd buf =
     (if length (rd_buffer_pool rd) < 16 then rd\<lparr>rd_buffer_pool := rd_buffer_pool rd @ [buf]\<rparr> else rd)"

definition evict_segment :: "'h reader \<Rightarrow> u64 \<Rightarrow> 'h reader" where
  "evict_segment rd segment_id =
     rd\<lparr>rd_sealed_maps := bt_remove segment_id (rd_sealed_maps rd),
        rd_fds := bt_remove segment_id (rd_fds rd),
        rd_order := filter (\<lambda>i. i \<noteq> segment_id) (rd_order rd)\<rparr>"

text \<open>The descriptor cache: the most recently used segment is last, the first is closed first.\<close>

definition with_fd ::
  "(u64 \<Rightarrow> 'h option) \<Rightarrow> 'h reader \<Rightarrow> u64 \<Rightarrow> ('h \<Rightarrow> (StoreError, 'a) result) \<Rightarrow> (StoreError, 'a) result \<times> 'h reader" where
  "with_fd open_file rd segment_id op =
     (let found =
        (if segment_id \<in> set (rd_order rd)
         then Inr (rd\<lparr>rd_order := remove1 segment_id (rd_order rd) @ [segment_id]\<rparr>)
         else case open_file segment_id of
             None \<Rightarrow> Inl Io
           | Some h \<Rightarrow>
               let rd1 =
                 (if length (rd_fds rd) \<ge> rd_budget rd
                  then case rd_order rd of
                      [] \<Rightarrow> rd
                    | oldest # younger \<Rightarrow> rd\<lparr>rd_fds := bt_remove oldest (rd_fds rd), rd_order := younger\<rparr>
                  else rd) in
               Inr (rd1\<lparr>rd_fds := bt_insert segment_id h (rd_fds rd1), rd_order := rd_order rd1 @ [segment_id]\<rparr>)) in
      case found of
        Inl e \<Rightarrow> (Inl e, rd)
      | Inr rd' \<Rightarrow>
          (case bt_get (rd_fds rd') segment_id of None \<Rightarrow> (Inl Io, rd') | Some h \<Rightarrow> (op h, rd')))"

section \<open>Point reads\<close>

definition checked_frame_len :: "u64 \<Rightarrow> u32 \<Rightarrow> (StoreError, nat) result" where
  "checked_frame_len segment_id len =
     (let frame_len = unat len in
      if frame_len < 8 \<or> frame_len > 8 + MAX_FRAME_PAYLOAD
      then Inl (CorruptSegment segment_id (FrameLenOutOfRange frame_len)) else Inr frame_len)"

definition checked_frame_range :: "u64 \<Rightarrow> u64 \<Rightarrow> u32 \<Rightarrow> nat \<Rightarrow> (StoreError, nat \<times> nat) result" where
  "checked_frame_range segment_id off len available_len =
     (let start = unat off in
      bind_result (checked_frame_len segment_id len) (\<lambda>frame_len.
        if start + frame_len \<ge> 2 ^ 64 then Inl (CorruptSegment segment_id FrameOffsetOverflow)
        else if start + frame_len > available_len then Inl (CorruptSegment segment_id UnexpectedEof)
        else Inr (start, start + frame_len)))"

text \<open>A positioned read fills the buffer, or reports how many bytes there were.\<close>

definition read_exact_at :: "bytes \<Rightarrow> nat \<Rightarrow> nat \<Rightarrow> nat + bytes" where
  "read_exact_at bs off n =
     (let got = take n (drop off bs) in if length got = n then Inr got else Inl (length got))"

definition read_active_frame_into ::
  "(u64 \<Rightarrow> 'h option) \<Rightarrow> ('h \<Rightarrow> bytes) \<Rightarrow> 'h reader \<Rightarrow> disk_pos \<Rightarrow> nat \<Rightarrow> (StoreError, bytes) result \<times> 'h reader" where
  "read_active_frame_into open_file contents rd pos n =
     with_fd open_file rd (pos_segment pos) (\<lambda>h.
       case read_exact_at (contents h) (unat (pos_offset pos)) n of
         Inr buf \<Rightarrow> Inr buf
       | Inl bytes_read \<Rightarrow>
           if bytes_read = 0 then Inl (CorruptSegment (pos_segment pos) UnexpectedEof)
           else Inl (CorruptSegment (pos_segment pos) ActiveReadEndedEarly))"

definition frame_decode_error_for_pos :: "disk_pos \<Rightarrow> FrameDecodeError \<Rightarrow> StoreError" where
  "frame_decode_error_for_pos pos e = frame_decode_error (pos_segment pos) (pos_offset pos) e"

definition decode_frame ::
  "(bytes \<Rightarrow> u32) \<Rightarrow> disk_pos \<Rightarrow> (bytes \<Rightarrow> (StoreError, 'p) result) \<Rightarrow> bytes \<Rightarrow> (StoreError, 'p) result" where
  "decode_frame crc pos decode buf =
     (case frame_decode crc buf of
        Inl e \<Rightarrow> Inl (frame_decode_error_for_pos pos e)
      | Inr (msgpack, _) \<Rightarrow> decode msgpack)"

text \<open>
  The read fills the buffer it is given; the model returns what the buffer then holds, which
  is what goes back to the pool.
\<close>

definition read_frame_payload_fd ::
  "(bytes \<Rightarrow> u32) \<Rightarrow> (u64 \<Rightarrow> 'h option) \<Rightarrow> ('h \<Rightarrow> bytes) \<Rightarrow> 'h reader \<Rightarrow> disk_pos \<Rightarrow>
   (bytes \<Rightarrow> (StoreError, 'p) result) \<Rightarrow> (StoreError, 'p) result \<times> 'h reader" where
  "read_frame_payload_fd crc open_file contents rd pos decode =
     (case checked_frame_len (pos_segment pos) (pos_length pos) of
        Inl e \<Rightarrow> (Inl e, rd)
      | Inr frame_len \<Rightarrow>
          (case acquire_buffer rd frame_len of (buf, rd1) \<Rightarrow>
            (case read_active_frame_into open_file contents rd1 pos (length buf) of
               (Inl e, rd2) \<Rightarrow> (Inl e, release_buffer rd2 buf)
             | (Inr filled, rd2) \<Rightarrow> (decode_frame crc pos decode filled, release_buffer rd2 filled))))"

definition read_frame_payload_mmap ::
  "(bytes \<Rightarrow> u32) \<Rightarrow> bytes \<Rightarrow> disk_pos \<Rightarrow> (bytes \<Rightarrow> (StoreError, 'p) result) \<Rightarrow> (StoreError, 'p) result" where
  "read_frame_payload_mmap crc mmap pos decode =
     bind_result (checked_frame_range (pos_segment pos) (pos_offset pos) (pos_length pos) (length mmap))
       (\<lambda>(start, stop). decode_frame crc pos decode (take (stop - start) (drop start mmap)))"

text \<open>
  Every point read of the source chooses its path the same way: a sealed segment is read
  through its memory map when one can be had, everything else through a descriptor.
\<close>

definition read_payload ::
  "(bytes \<Rightarrow> u32) \<Rightarrow> (u64 \<Rightarrow> 'h option) \<Rightarrow> ('h \<Rightarrow> bytes) \<Rightarrow> 'h reader \<Rightarrow> disk_pos \<Rightarrow>
   (bytes \<Rightarrow> (StoreError, 'p) result) \<Rightarrow> (StoreError, 'p) result \<times> 'h reader" where
  "read_payload crc open_file contents rd pos decode =
     (if is_sealed rd (pos_segment pos)
      then case get_or_map_sealed open_file contents rd (pos_segment pos) of
          (Inl e, rd') \<Rightarrow> (Inl e, rd')
        | (Inr None, rd') \<Rightarrow> read_frame_payload_fd crc open_file contents rd' pos decode
        | (Inr (Some mmap), rd') \<Rightarrow> (read_frame_payload_mmap crc mmap pos decode, rd')
      else read_frame_payload_fd crc open_file contents rd pos decode)"

definition stored_of_payload :: "'p frame_payload \<Rightarrow> (StoreError, 'p stored_event) result" where
  "stored_of_payload payload =
     (case coordinate_new (fp_entity payload) (fp_scope payload) of
        Inl e \<Rightarrow> Inl (Coordinate e)
      | Inr coord \<Rightarrow> Inr \<lparr>st_coordinate = coord, st_event = fp_event payload\<rparr>)"

definition read_entry ::
  "(bytes \<Rightarrow> u32) \<Rightarrow> (u64 \<Rightarrow> 'h option) \<Rightarrow> ('h \<Rightarrow> bytes) \<Rightarrow> (bytes \<Rightarrow> bytes frame_payload option) \<Rightarrow> (bytes \<Rightarrow> 'v option) \<Rightarrow> 'v \<Rightarrow>
   'h reader \<Rightarrow> disk_pos \<Rightarrow> (StoreError, 'v stored_event) result \<times> 'h reader" where
  "read_entry crc open_file contents from_raw from_value null rd pos =
     (case read_payload crc open_file contents rd pos (decode_frame_payload_value from_raw from_value null) of
        (r, rd') \<Rightarrow> (bind_result r stored_of_payload, rd'))"

definition read_entry_raw ::
  "(bytes \<Rightarrow> u32) \<Rightarrow> (u64 \<Rightarrow> 'h option) \<Rightarrow> ('h \<Rightarrow> bytes) \<Rightarrow> (bytes \<Rightarrow> bytes frame_payload option) \<Rightarrow>
   'h reader \<Rightarrow> disk_pos \<Rightarrow> (StoreError, bytes stored_event) result \<times> 'h reader" where
  "read_entry_raw crc open_file contents from_raw rd pos =
     (case read_payload crc open_file contents rd pos (decode_frame_payload_raw from_raw) of
        (r, rd') \<Rightarrow> (bind_result r stored_of_payload, rd'))"

definition read_event_only ::
  "(bytes \<Rightarrow> u32) \<Rightarrow> (u64 \<Rightarrow> 'h option) \<Rightarrow> ('h \<Rightarrow> bytes) \<Rightarrow> (bytes \<Rightarrow> bytes frame_payload option) \<Rightarrow> (bytes \<Rightarrow> 'v option) \<Rightarrow> 'v \<Rightarrow>
   'h reader \<Rightarrow> disk_pos \<Rightarrow> (StoreError, 'v event) result \<times> 'h reader" where
  "read_event_only crc open_file contents from_raw from_value null rd pos =
     (case read_payload crc open_file contents rd pos (decode_frame_payload_value from_raw from_value null) of
        (r, rd') \<Rightarrow> (bind_result r (\<lambda>p. Inr (fp_event p)), rd'))"

definition read_event_raw_only ::
  "(bytes \<Rightarrow> u32) \<Rightarrow> (u64 \<Rightarrow> 'h option) \<Rightarrow> ('h \<Rightarrow> bytes) \<Rightarrow> (bytes \<Rightarrow> bytes frame_payload option) \<Rightarrow>
   'h reader \<Rightarrow> disk_pos \<Rightarrow> (StoreError, bytes event) result \<times> 'h reader" where
  "read_event_raw_only crc open_file contents from_raw rd pos =
     (case read_payload crc open_file contents rd pos (decode_frame_payload_raw from_raw) of
        (r, rd') \<Rightarrow> (bind_result r (\<lambda>p. Inr (fp_event p)), rd'))"

definition read_receipt_extensions ::
  "(bytes \<Rightarrow> u32) \<Rightarrow> (u64 \<Rightarrow> 'h option) \<Rightarrow> ('h \<Rightarrow> bytes) \<Rightarrow> (bytes \<Rightarrow> bytes frame_payload option) \<Rightarrow>
   'h reader \<Rightarrow> disk_pos \<Rightarrow> (StoreError, extensions) result \<times> 'h reader" where
  "read_receipt_extensions crc open_file contents from_raw rd pos =
     (case read_payload crc open_file contents rd pos (decode_frame_payload_raw from_raw) of
        (r, rd') \<Rightarrow> (bind_result r (\<lambda>p. Inr (fp_receipt_extensions p)), rd'))"

fun read_batch_with ::
  "('h reader \<Rightarrow> disk_pos \<Rightarrow> (StoreError, 'a) result \<times> 'h reader) \<Rightarrow> disk_pos list \<Rightarrow> 'a list \<Rightarrow> 'h reader \<Rightarrow>
   (StoreError, 'a list) result \<times> 'h reader" where
  "read_batch_with read_one [] results rd = (Inr results, rd)"
| "read_batch_with read_one (pos # positions) results rd =
     (case read_one rd pos of
        (Inl e, rd') \<Rightarrow> (Inl e, rd')
      | (Inr r, rd') \<Rightarrow> read_batch_with read_one positions (results @ [r]) rd')"

section \<open>Full scans\<close>

record 'v scanned_entry =
  sn_event :: "'v event"
  sn_entity :: string
  sn_scope :: string
  sn_receipt_extensions :: extensions

function full_scan_frames ::
  "(bytes \<Rightarrow> u32) \<Rightarrow> (bytes \<Rightarrow> (StoreError, 'v frame_payload) result) \<Rightarrow> bytes \<Rightarrow> u64 \<Rightarrow> nat \<Rightarrow> nat \<Rightarrow>
   'v scanned_entry list \<Rightarrow> (StoreError, 'v scanned_entry list) result" where
  "full_scan_frames crc decode file segment_id region_end cursor entries =
     (if cursor \<ge> region_end then Inr entries
      else case read_frame_header_or_clean_eof file cursor of
          None \<Rightarrow> Inr entries
        | Some frame_header \<Rightarrow>
            let payload_len = unat (from_be [frame_header ! 0, frame_header ! 1, frame_header ! 2, frame_header ! 3] :: u32);
                frame_offset = of_nat cursor :: u64 in
            if payload_len_exceeds_max payload_len then Inl (CorruptSegment segment_id (PayloadTooLong payload_len))
            else if cursor + 8 \<ge> 2 ^ 64 \<or> cursor + 8 + payload_len \<ge> 2 ^ 64
              then Inl (CorruptSegment segment_id FrameTailOverflow)
            else if cursor + 8 + payload_len > region_end then Inl (CorruptSegment segment_id PayloadPastRegion)
            else case read_exact file (cursor + 8) payload_len of
                None \<Rightarrow> Inl (CorruptSegment segment_id PayloadEndedEarly)
              | Some rest \<Rightarrow>
                  (case frame_decode crc (frame_header @ rest) of
                     Inl err \<Rightarrow> Inl (frame_decode_error segment_id frame_offset err)
                   | Inr (msgpack, frame_size) \<Rightarrow>
                       (case decode msgpack of
                          Inl _ \<Rightarrow> Inl (CorruptSegment segment_id (UnreadablePayload frame_offset))
                        | Inr payload \<Rightarrow>
                            if eh_event_kind (ev_header (fp_event payload)) \<in> {SYSTEM_BATCH_BEGIN, SYSTEM_BATCH_COMMIT}
                            then full_scan_frames crc decode file segment_id region_end (cursor + frame_size) entries
                            else full_scan_frames crc decode file segment_id region_end (cursor + frame_size)
                              (entries @ [\<lparr>sn_event = fp_event payload, sn_entity = fp_entity payload,
                                sn_scope = fp_scope payload, sn_receipt_extensions = fp_receipt_extensions payload\<rparr>]))))"
  by pat_completeness auto
termination
  by (relation "measure (\<lambda>(crc, dp, file, sid, fe, cursor, es). fe - cursor)")
    (auto dest!: frame_decode_size)

declare full_scan_frames.simps [simp del]

definition scan_segment ::
  "(bytes \<Rightarrow> u32) \<Rightarrow> (bytes \<Rightarrow> segment_header option) \<Rightarrow> (bytes \<Rightarrow> hash_chain option option) \<Rightarrow>
   (bytes \<Rightarrow> (StoreError, 'v frame_payload) result) \<Rightarrow> string \<Rightarrow> bytes \<Rightarrow> (StoreError, 'v scanned_entry list) result" where
  "scan_segment crc from_header decode_chain decode name file =
     (let segment_id = (case from_filename name of Inr sid \<Rightarrow> sid | Inl _ \<Rightarrow> 0) in
      bind_result (locate_frames crc from_header decode_chain file segment_id) (\<lambda>(cursor, stop).
        full_scan_frames crc decode file segment_id stop cursor []))"

section \<open>Compaction\<close>

text \<open>
  The file system calls of a compaction are not modelled: the sealed segments are given by
  name and contents, in order, and the merged segment, returned before it is synced and its
  handle closed, is the one being filled. The predicates of the strategies may not panic.
\<close>

datatype 'v compaction_strategy =
    Merge
  | Retention "'v stored_event \<Rightarrow> bool"
  | Tombstone "'v stored_event \<Rightarrow> bool"

fun scan_sealed_entries ::
  "(string \<Rightarrow> bytes \<Rightarrow> (StoreError, 'v scanned_entry list) result) \<Rightarrow> (string \<times> bytes) list \<Rightarrow> 'v scanned_entry list \<Rightarrow>
   (StoreError, 'v scanned_entry list) result" where
  "scan_sealed_entries scan [] all_events = Inr all_events"
| "scan_sealed_entries scan ((name, file) # sealed) all_events =
     bind_result (scan name file) (\<lambda>entries. scan_sealed_entries scan sealed (all_events @ entries))"

definition scanned_entry_as_stored_event :: "'v scanned_entry \<Rightarrow> (StoreError, 'v stored_event) result" where
  "scanned_entry_as_stored_event entry =
     (case coordinate_new (sn_entity entry) (sn_scope entry) of
        Inl e \<Rightarrow> Inl (store_error_of_coordinate e)
      | Inr coord \<Rightarrow> Inr \<lparr>st_coordinate = coord, st_event = sn_event entry\<rparr>)"

definition write_scanned_entry ::
  "('v frame_payload \<Rightarrow> bytes option) \<Rightarrow> (bytes \<Rightarrow> u32) \<Rightarrow> segment \<Rightarrow> 'v scanned_entry \<Rightarrow> (StoreError, segment) result" where
  "write_scanned_entry to_bytes crc merged_segment entry =
     bind_result (frame_encode to_bytes crc
         \<lparr>fp_event = sn_event entry, fp_entity = sn_entity entry, fp_scope = sn_scope entry,
          fp_receipt_extensions = sn_receipt_extensions entry\<rparr>)
       (\<lambda>frame. Inr (snd (write_frame merged_segment frame)))"

fun retain_entries ::
  "('v frame_payload \<Rightarrow> bytes option) \<Rightarrow> (bytes \<Rightarrow> u32) \<Rightarrow> ('v stored_event \<Rightarrow> bool) \<Rightarrow> 'v scanned_entry list \<Rightarrow> segment \<Rightarrow>
   (StoreError, segment) result" where
  "retain_entries to_bytes crc predicate [] merged_segment = Inr merged_segment"
| "retain_entries to_bytes crc predicate (entry # entries) merged_segment =
     bind_result (scanned_entry_as_stored_event entry) (\<lambda>st.
       if predicate st
       then bind_result (write_scanned_entry to_bytes crc merged_segment entry)
              (retain_entries to_bytes crc predicate entries)
       else retain_entries to_bytes crc predicate entries merged_segment)"

fun tombstone_entries ::
  "('v frame_payload \<Rightarrow> bytes option) \<Rightarrow> (bytes \<Rightarrow> u32) \<Rightarrow> ('v stored_event \<Rightarrow> bool) \<Rightarrow> 'v scanned_entry list \<Rightarrow> segment \<Rightarrow>
   (StoreError, segment) result" where
  "tombstone_entries to_bytes crc predicate [] merged_segment = Inr merged_segment"
| "tombstone_entries to_bytes crc predicate (entry # entries) merged_segment =
     bind_result (scanned_entry_as_stored_event entry) (\<lambda>st.
       bind_result (write_scanned_entry to_bytes crc merged_segment
           (if predicate st then entry
            else entry\<lparr>sn_event := (sn_event entry)\<lparr>ev_header := (ev_header (sn_event entry))\<lparr>eh_event_kind := TOMBSTONE\<rparr>\<rparr>\<rparr>))
         (tombstone_entries to_bytes crc predicate entries))"

fun merge_segments ::
  "(bytes \<Rightarrow> u32) \<Rightarrow> (bytes \<Rightarrow> hash_chain option option) \<Rightarrow> (string \<times> bytes) list \<Rightarrow> segment \<Rightarrow> (StoreError, segment) result" where
  "merge_segments crc decode_chain [] merged_segment = Inr merged_segment"
| "merge_segments crc decode_chain ((name, file) # sealed) merged_segment =
     bind_result (append_frames_from_segment crc decode_chain merged_segment file)
       (\<lambda>(_, merged). merge_segments crc decode_chain sealed merged)"

definition materialize_compacted_segment ::
  "(bytes \<Rightarrow> u32) \<Rightarrow> (bytes \<Rightarrow> hash_chain option option) \<Rightarrow> ('v frame_payload \<Rightarrow> bytes option) \<Rightarrow>
   (string \<Rightarrow> bytes \<Rightarrow> (StoreError, 'v scanned_entry list) result) \<Rightarrow> 'v compaction_strategy \<Rightarrow>
   (string \<times> bytes) list \<Rightarrow> segment \<Rightarrow> (StoreError, segment) result" where
  "materialize_compacted_segment crc decode_chain to_bytes scan strategy sealed merged_segment =
     (case strategy of
        Merge \<Rightarrow> merge_segments crc decode_chain sealed merged_segment
      | Retention predicate \<Rightarrow>
          bind_result (scan_sealed_entries scan sealed []) (\<lambda>entries. retain_entries to_bytes crc predicate entries merged_segment)
      | Tombstone predicate \<Rightarrow>
          bind_result (scan_sealed_entries scan sealed []) (\<lambda>entries. tombstone_entries to_bytes crc predicate entries merged_segment))"

section \<open>Lemmas\<close>

text \<open>The cache and its use order name the same segments, within the budget.\<close>

definition fd_inv :: "'h reader \<Rightarrow> bool" where
  "fd_inv rd \<longleftrightarrow> bt_wf (rd_fds rd) \<and> distinct (rd_order rd) \<and> set (rd_order rd) = fst ` set (rd_fds rd) \<and>
     length (rd_order rd) \<le> max 1 (rd_budget rd) \<and> length (rd_buffer_pool rd) \<le> 16"

lemma fd_inv_length: "fd_inv rd \<Longrightarrow> length (rd_fds rd) = length (rd_order rd)"
  unfolding fd_inv_def by (metis bt_wf_distinct distinct_card length_map list.set_map)

lemma fd_inv_new: "fd_inv (reader_new budget m)"
  by (simp add: fd_inv_def reader_new_def)

lemma fd_inv_evict: "fd_inv rd \<Longrightarrow> fd_inv (evict_segment rd sid)"
  by (auto simp: fd_inv_def evict_segment_def bt_wf_remove keys_bt_remove intro: le_trans [OF length_filter_le])

lemma fd_inv_pool: "fd_inv rd \<Longrightarrow> fd_inv (release_buffer rd buf) \<and> fd_inv (snd (acquire_buffer rd n))"
  by (auto simp: fd_inv_def release_buffer_def acquire_buffer_def Let_def)

lemma fst_acquire_buffer [simp]: "fst (acquire_buffer rd n) = replicate n 0"
  by (simp add: acquire_buffer_def Let_def)

definition next_order :: "nat \<Rightarrow> u64 list \<Rightarrow> u64 \<Rightarrow> u64 list" where
  "next_order budget order sid =
     (if sid \<in> set order then remove1 sid order else if length order \<ge> budget then tl order else order) @ [sid]"

lemma with_fd_cases:
  assumes "fd_inv rd"
  shows "with_fd open_file rd sid op =
    (if sid \<notin> set (rd_order rd) \<and> open_file sid = None then (Inl Io, rd)
     else (op (case bt_get (rd_fds rd) sid of Some h \<Rightarrow> h | None \<Rightarrow> the (open_file sid)),
       rd\<lparr>rd_order := next_order (rd_budget rd) (rd_order rd) sid,
          rd_fds := (if sid \<in> set (rd_order rd) then rd_fds rd
            else bt_insert sid (the (open_file sid))
              (if length (rd_order rd) \<ge> rd_budget rd \<and> rd_order rd \<noteq> [] then bt_remove (hd (rd_order rd)) (rd_fds rd)
               else rd_fds rd))\<rparr>))"
proof (cases "sid \<in> set (rd_order rd)")
  case True
  then obtain h where "bt_get (rd_fds rd) sid = Some h"
    using assms by (metis fd_inv_def map_of_eq_None_iff not_Some_eq)
  with True show ?thesis by (simp add: with_fd_def next_order_def)
next
  case False
  then have "bt_get (rd_fds rd) sid = None" using assms by (simp add: fd_inv_def map_of_eq_None_iff)
  with False fd_inv_length [OF assms] show ?thesis
    by (cases "rd_order rd") (auto simp: with_fd_def next_order_def Let_def split: option.split)
qed

lemma fd_inv_with_fd:
  assumes "fd_inv rd"
  shows "fd_inv (snd (with_fd open_file rd sid op))"
proof -
  have r: "length (remove1 sid (rd_order rd)) = length (rd_order rd) - 1 \<and> 0 < length (rd_order rd)"
    if "sid \<in> set (rd_order rd)" using that by (auto simp: length_remove1 length_pos_if_in_set)
  show ?thesis
  proof (cases "sid \<in> set (rd_order rd)")
    case True
    with assms r show ?thesis
      by (auto simp: with_fd_cases [OF assms] next_order_def) (auto simp: fd_inv_def)
  next
    case False
    with assms show ?thesis
      by (cases "rd_order rd") (auto simp: with_fd_cases [OF assms] next_order_def fd_inv_def bt_wf_remove
          keys_bt_remove keys_bt_insert)
  qed
qed

lemma decode_frame_slice:
  assumes "frame_at crc src off m"
  shows "decode_frame crc pos decode (take (8 + length m) (drop off src)) = decode m"
proof -
  have b: "take (8 + length m) (drop off src) = frame_bytes crc m" and "length m \<le> MAX_FRAME_PAYLOAD"
    using assms by (simp_all add: frame_at_def)
  then have "length m < 2 ^ 32" using MAX_FRAME_PAYLOAD_lt by simp
  from frame_decode_bytes [OF this, of crc "[]"] show ?thesis by (simp add: decode_frame_def b)
qed

lemma frame_len_ok:
  assumes "frame_at crc src off m" and "unat len = 8 + length m"
  shows "checked_frame_len sid len = Inr (8 + length m)"
  using assms by (simp add: checked_frame_len_def frame_at_def)

lemma read_fd_exact:
  assumes "fd_inv rd" and "open_file (pos_segment pos) = Some h" and "contents h = src"
    and "\<forall>h'. bt_get (rd_fds rd) (pos_segment pos) = Some h' \<longrightarrow> contents h' = src"
    and "frame_at crc src (unat (pos_offset pos)) m" and "unat (pos_length pos) = 8 + length m"
  shows "fst (read_frame_payload_fd crc open_file contents rd pos decode) = decode m"
proof -
  obtain rd1 where acq: "acquire_buffer rd (8 + length m) = (replicate (8 + length m) 0, rd1)"
    using fst_acquire_buffer [of rd "8 + length m"] by (metis prod.collapse)
  have inv: "fd_inv rd1" using fd_inv_pool [OF assms(1), of "[]" "8 + length m"] by (simp add: acq)
  have fds: "rd_fds rd1 = rd_fds rd" using acq by (auto simp: acquire_buffer_def Let_def split: if_splits)
  have "contents (case bt_get (rd_fds rd1) (pos_segment pos) of Some h \<Rightarrow> h | None \<Rightarrow> the (open_file (pos_segment pos))) = src"
    using assms(2-4) by (simp add: fds split: option.splits)
  moreover have "read_exact_at src (unat (pos_offset pos)) (8 + length m) = Inr (take (8 + length m) (drop (unat (pos_offset pos)) src))"
    using assms(5) by (simp add: read_exact_at_def Let_def frame_at_def)
  ultimately have "fst (read_active_frame_into open_file contents rd1 pos (8 + length m)) =
      Inr (take (8 + length m) (drop (unat (pos_offset pos)) src))"
    using assms(2) by (simp add: read_active_frame_into_def with_fd_cases [OF inv])
  then obtain rd2 where "read_active_frame_into open_file contents rd1 pos (8 + length m) =
      (Inr (take (8 + length m) (drop (unat (pos_offset pos)) src)), rd2)" by (metis prod.collapse)
  then show ?thesis
    by (simp add: read_frame_payload_fd_def acq frame_len_ok [OF assms(5,6)] decode_frame_slice [OF assms(5)])
qed

lemma read_mmap_exact:
  assumes "frame_at crc src (unat (pos_offset pos)) m" and "unat (pos_length pos) = 8 + length m" and "length src < 2 ^ 64"
  shows "read_frame_payload_mmap crc src pos decode = decode m"
proof -
  have "unat (pos_offset pos) + (8 + length m) \<le> length src" using assms(1) by (simp add: frame_at_def)
  then have "checked_frame_range (pos_segment pos) (pos_offset pos) (pos_length pos) (length src) =
      Inr (unat (pos_offset pos), unat (pos_offset pos) + (8 + length m))"
    using assms(3) by (simp add: checked_frame_range_def frame_len_ok [OF assms(1,2)] Let_def)
  then show ?thesis by (simp add: read_frame_payload_mmap_def decode_frame_slice [OF assms(1)])
qed

section \<open>Properties\<close>

text \<open>
  The descriptor cache is a least-recently-used cache. Using a segment keeps the cache
  consistent and within its budget (at least one descriptor), fails only when the segment is
  not cached and cannot be opened, runs the operation on the cached handle if there is one,
  makes the segment the most recent, and closes only the least recently used one.
\<close>

theorem fd_cache_lru:
  assumes "fd_inv rd" and "with_fd open_file rd sid op = (r, rd')"
  shows "fd_inv rd' \<and>
    (if sid \<in> set (rd_order rd) \<or> open_file sid \<noteq> None
     then r = op (case bt_get (rd_fds rd) sid of Some h \<Rightarrow> h | None \<Rightarrow> the (open_file sid)) \<and>
       rd_order rd' = next_order (rd_budget rd) (rd_order rd) sid \<and>
       (\<forall>k \<in> set (rd_order rd') - {sid}. bt_get (rd_fds rd') k = bt_get (rd_fds rd) k)
     else r = Inl Io \<and> rd' = rd)"
proof -
  have "hd (rd_order rd) \<notin> set (tl (rd_order rd))" if "rd_order rd \<noteq> []"
    using that assms(1) by (cases "rd_order rd") (simp_all add: fd_inv_def)
  then show ?thesis
    using fd_inv_with_fd [OF assms(1), of open_file sid op] with_fd_cases [OF assms(1), of open_file sid op] assms(2)
    by (auto simp: next_order_def bt_get_remove split: if_splits)
qed

theorem fd_cache_lru_witness:
  "rd_order (snd (with_fd (\<lambda>i. Some (unat i)) \<lparr>rd_fds = [(1, 1), (2, 2)], rd_order = [2, 1], rd_budget = 2, rd_buffer_pool = [],
     rd_sealed_maps = [], rd_active_segment_id = 9, rd_mmap_admitted = True\<rparr> 7 (\<lambda>h. Inr h))) = [1, 7]"
proof -
  let ?rd = "\<lparr>rd_fds = [(1, 1), (2, 2)], rd_order = [2, 1], rd_budget = 2, rd_buffer_pool = [],
     rd_sealed_maps = [], rd_active_segment_id = 9, rd_mmap_admitted = True\<rparr> :: nat reader"
  have "fd_inv ?rd" by (auto simp: fd_inv_def bt_wf_def)
  from fd_cache_lru [OF this, of "\<lambda>i. Some (unat i)" 7 "\<lambda>h. Inr h"] show ?thesis
    by (cases "with_fd (\<lambda>i. Some (unat i)) ?rd 7 (\<lambda>h. Inr h)") (simp add: next_order_def)
qed

lemma point_read:
  assumes "fd_inv rd" and "open_file (pos_segment pos) = Some h" and "contents h = file"
    and "\<forall>h'. bt_get (rd_fds rd) (pos_segment pos) = Some h' \<longrightarrow> contents h' = file"
    and "\<forall>mmap. bt_get (rd_sealed_maps rd) (pos_segment pos) = Some mmap \<longrightarrow> mmap = file"
    and "frame_at crc file (unat (pos_offset pos)) m" and "unat (pos_length pos) = 8 + length m"
    and "length file < 2 ^ 64"
  shows "fst (read_payload crc open_file contents rd pos decode) = decode m"
proof -
  note fd = read_fd_exact [where open_file = open_file and contents = contents, OF assms(1-4,6,7)] and mm = read_mmap_exact [OF assms(6-8)]
  show ?thesis
  proof (cases "bt_get (rd_sealed_maps rd) (pos_segment pos)")
    case None
    then show ?thesis
      using fd [of decode] mm [of decode] assms(2,3) by (simp add: read_payload_def get_or_map_sealed_def Let_def)
  next
    case (Some mmap)
    then show ?thesis
      using fd [of decode] mm [of decode] assms(5) by (simp add: read_payload_def get_or_map_sealed_def)
  qed
qed

text \<open>
  C30. Reading an event does not depend on how it is read. For a frame that stands in the
  segment's file at the given position, every point read gives the decoded payload of that
  frame: through a descriptor or a memory map, cached or freshly opened, whatever the buffer
  pool holds, as long as what is cached for the segment is its file.
\<close>

theorem point_read_exact:
  assumes "fd_inv rd" and "open_file (pos_segment pos) = Some h" and "contents h = file"
    and "\<forall>h'. bt_get (rd_fds rd) (pos_segment pos) = Some h' \<longrightarrow> contents h' = file"
    and "\<forall>mmap. bt_get (rd_sealed_maps rd) (pos_segment pos) = Some mmap \<longrightarrow> mmap = file"
    and "frame_at crc file (unat (pos_offset pos)) m" and "unat (pos_length pos) = 8 + length m"
    and "length file < 2 ^ 64"
  shows "fst (read_payload crc open_file contents rd pos decode) = decode m"
  using assms by (rule point_read)

theorem point_read_exact_witness:
  "fst (read_payload (\<lambda>_. 9) (\<lambda>_. Some ()) (\<lambda>_. [0, 0, 0, 1, 0, 0, 0, 9, 0x42]) (reader_new 4 True)
     \<lparr>pos_segment = 3, pos_offset = 0, pos_length = 9\<rparr> (\<lambda>m. Inr m)) = Inr [0x42]"
  by (rule point_read_exact [where h = "()" and m = "[0x42]" and crc = "\<lambda>_. 9" and contents = "\<lambda>_. [0, 0, 0, 1, 0, 0, 0, 9, 0x42]", OF fd_inv_new _ refl])
    (simp_all add: reader_new_def frame_at_def frame_bytes_def MAX_FRAME_PAYLOAD_def to_be_def to_le_def le_nat_numeral)

definition scanned_of_payload :: "'v frame_payload \<Rightarrow> 'v scanned_entry" where
  "scanned_of_payload p = \<lparr>sn_event = fp_event p, sn_entity = fp_entity p, sn_scope = fp_scope p,
     sn_receipt_extensions = fp_receipt_extensions p\<rparr>"

text \<open>
  C31. A full scan ignores batches. On a stream of good frames whose payloads decode, it
  returns every event that is not a batch marker, in order, whether or not the batch it
  belongs to was ever committed.
\<close>

theorem full_scan_exact:
  assumes "stream_between crc src cursor ms stop" and "stop < 2 ^ 64" and "map decode ms = map Inr ps"
  shows "full_scan_frames crc decode src sid stop cursor entries =
    Inr (entries @ map scanned_of_payload
      (filter (\<lambda>p. eh_event_kind (ev_header (fp_event p)) \<notin> {SYSTEM_BATCH_BEGIN, SYSTEM_BATCH_COMMIT}) ps))"
  using assms(1,3)
proof (induction ms arbitrary: cursor entries ps)
  case Nil
  then show ?case by (simp add: full_scan_frames.simps [of _ _ _ _ cursor cursor])
next
  case (Cons m ms)
  obtain p ps' where ps: "ps = p # ps'" "decode m = Inr p" "map decode ms = map Inr ps'"
    using Cons.prems(2) by (cases ps) auto
  from Cons.prems(1) have at: "frame_at crc src cursor m"
    and st: "stream_between crc src (cursor + (8 + length m)) ms stop"
    by (simp_all add: stream_between_Cons add.assoc)
  have b: "length m \<le> MAX_FRAME_PAYLOAD" "cursor + 8 + length m \<le> stop"
    using at st by (simp_all add: frame_at_def stream_between_def)
  obtain h where "read_exact src cursor 8 = Some h"
    "unat (from_be [h ! 0, h ! 1, h ! 2, h ! 3] :: u32) = length m"
    "read_exact src (cursor + 8) (length m) = Some m" "frame_decode crc (h @ m) = Inr (m, 8 + length m)"
    using frame_at_reads [OF at] .
  then show ?case
    using b assms(2) ps(2) Cons.IH [OF st ps(3)]
    by (subst full_scan_frames.simps)
      (simp add: read_frame_header_or_clean_eof_def payload_len_exceeds_max_def Let_def ps(1) scanned_of_payload_def
        del: One_nat_def)
qed

text \<open>A begin marker and one event, with no commit marker.\<close>

definition example_frame :: "bytes \<Rightarrow> unit frame_payload" where
  "example_frame m =
     \<lparr>fp_event = \<lparr>ev_header = event_header_new 1 1 None 0 dag_root 1 (if m = [6] then SYSTEM_BATCH_BEGIN else DATA),
      ev_payload = (), ev_hash_chain = None\<rparr>, fp_entity = ''a'', fp_scope = ''b'', fp_receipt_extensions = []\<rparr>"

theorem full_scan_exact_witness:
  "full_scan_frames (\<lambda>_. 9) (\<lambda>m. Inr (example_frame m)) [0, 0, 0, 1, 0, 0, 0, 9, 6, 0, 0, 0, 1, 0, 0, 0, 9, 1] 3 18 0 [] =
     Inr [scanned_of_payload (example_frame [1])]"
proof -
  let ?src = "[0, 0, 0, 1, 0, 0, 0, 9, 6, 0, 0, 0, 1, 0, 0, 0, 9, 1 :: byte]"
  have s: "stream_between (\<lambda>_. 9) ?src 0 [[6], [1]] 18"
    by (simp add: stream_between_Cons frame_at_def frame_bytes_def MAX_FRAME_PAYLOAD_def to_be_def to_le_def le_nat_numeral)
  from full_scan_exact [OF s, of "\<lambda>m. Inr (example_frame m)" "[example_frame [6], example_frame [1]]" 3 "[]"]
  show ?thesis by (simp add: example_frame_def event_header_new_def kind_consts)
qed

end
