(* ===== verification/Signing.thy ===== *)
theory Signing
  imports Events "HOL-Library.List_Lexorder" "HOL-Library.Char_ord" "HOL-Library.Sublist"
begin

text \<open>
  Receipts and their signatures (\<^verbatim>\<open>store/signing.rs\<close>, \<^verbatim>\<open>store/append.rs\<close>). The signature scheme,
  the hash and the canonical encoder are third-party code: they are the fields of the record
  \<open>signing_env\<close>, an argument of every operation. A key is its seed.
\<close>

section \<open>Receipts\<close>

record receipt =
  rc_event_id :: u128
  rc_global_sequence :: u64
  rc_disk_pos :: disk_pos
  rc_content_hash :: bytes
  rc_key_id :: bytes
  rc_signature :: "bytes option"
  rc_extensions :: extensions

datatype CoverBuildError = CoordinateEncoding | ExtensionsEncoding

record signing_env =
  se_hash :: "bytes \<Rightarrow> bytes"
  se_public_key :: "bytes \<Rightarrow> bytes"
  se_sign :: "bytes \<Rightarrow> bytes \<Rightarrow> bytes"
  se_verify :: "bytes \<Rightarrow> bytes \<Rightarrow> bytes \<Rightarrow> bool"
  se_coord_bytes :: "coordinate \<Rightarrow> bytes option"
  se_extension_bytes :: "extensions \<Rightarrow> bytes option"
  se_downgrade_bytes :: "CoverBuildError \<Rightarrow> bytes option"

definition COVER_VERSION_V1 :: byte where
  "COVER_VERSION_V1 = 0x01"

definition signing_downgrade_extension_key :: string where
  "signing_downgrade_extension_key = ''batpak.signing.downgrade''"

section \<open>The signature cover\<close>

definition cover_input ::
  "signing_env \<Rightarrow> u128 \<Rightarrow> u64 \<Rightarrow> coordinate \<Rightarrow> EventKind \<Rightarrow> bytes \<Rightarrow> bytes \<Rightarrow> extensions \<Rightarrow> (CoverBuildError, bytes) result" where
  "cover_input env event_id sequence coord kind prev content exts =
     (case se_coord_bytes env coord of
        None \<Rightarrow> Inl CoordinateEncoding
      | Some coord_bytes \<Rightarrow>
          (case se_extension_bytes env exts of
             None \<Rightarrow> Inl ExtensionsEncoding
           | Some extension_bytes \<Rightarrow>
               Inr ([COVER_VERSION_V1] @ to_le event_id @ to_le sequence @ coord_bytes @ to_le (as_raw_u16 kind) @
                 prev @ content @ extension_bytes)))"

definition cover_bytes ::
  "signing_env \<Rightarrow> u128 \<Rightarrow> u64 \<Rightarrow> coordinate \<Rightarrow> EventKind \<Rightarrow> bytes \<Rightarrow> bytes \<Rightarrow> extensions \<Rightarrow> (CoverBuildError, bytes) result" where
  "cover_bytes env event_id sequence coord kind prev content exts =
     map_sum id (se_hash env) (cover_input env event_id sequence coord kind prev content exts)"

section \<open>Keys\<close>

definition key_id_for_public_key :: "signing_env \<Rightarrow> bytes \<Rightarrow> bytes" where
  "key_id_for_public_key env public_key = se_hash env public_key"

definition public_key_bytes :: "signing_env \<Rightarrow> bytes \<Rightarrow> bytes option" where
  "public_key_bytes env seed = (let pk = se_public_key env seed in if length pk = 32 then Some pk else None)"

definition key_id :: "signing_env \<Rightarrow> bytes \<Rightarrow> bytes" where
  "key_id env seed =
     (case public_key_bytes env seed of
        Some bytes \<Rightarrow> key_id_for_public_key env bytes
      | None \<Rightarrow> replicate 32 0)"

definition sign_cover :: "signing_env \<Rightarrow> bytes \<Rightarrow> bytes \<Rightarrow> bytes" where
  "sign_cover env seed cover = se_sign env seed cover"

record signing_registry =
  reg_current :: "bytes option"
  reg_verifying_keys :: "(bytes, bytes) btree"

definition from_keys :: "signing_env \<Rightarrow> bytes list \<Rightarrow> signing_registry" where
  "from_keys env keys =
     foldl (\<lambda>reg key.
       case public_key_bytes env key of
         Some public_key \<Rightarrow> \<lparr>reg_current = Some key,
           reg_verifying_keys = bt_insert (key_id env key) public_key (reg_verifying_keys reg)\<rparr>
       | None \<Rightarrow> reg)
       \<lparr>reg_current = None, reg_verifying_keys = []\<rparr> keys"

section \<open>Signing and verifying\<close>

definition downgrade_receipt_signing :: "signing_env \<Rightarrow> receipt \<Rightarrow> CoverBuildError \<Rightarrow> receipt" where
  "downgrade_receipt_signing env r err =
     (let r1 = (case se_downgrade_bytes env err of
          Some bs \<Rightarrow> r\<lparr>rc_extensions := bt_insert signing_downgrade_extension_key bs (rc_extensions r)\<rparr>
        | None \<Rightarrow> r) in
      r1\<lparr>rc_key_id := replicate 32 0, rc_signature := None\<rparr>)"

definition receipt_cover :: "signing_env \<Rightarrow> receipt \<Rightarrow> coordinate \<Rightarrow> EventKind \<Rightarrow> bytes \<Rightarrow> (CoverBuildError, bytes) result" where
  "receipt_cover env r coord kind prev =
     cover_bytes env (rc_event_id r) (rc_global_sequence r) coord kind prev (rc_content_hash r) (rc_extensions r)"

definition sign_append_receipt ::
  "signing_env \<Rightarrow> signing_registry \<Rightarrow> receipt \<Rightarrow> coordinate \<Rightarrow> EventKind \<Rightarrow> bytes \<Rightarrow> receipt" where
  "sign_append_receipt env reg r coord kind prev =
     (case receipt_cover env r coord kind prev of
        Inl err \<Rightarrow> downgrade_receipt_signing env r err
      | Inr cover \<Rightarrow>
          (case reg_current reg of
             Some current \<Rightarrow> r\<lparr>rc_key_id := key_id env current, rc_signature := Some (sign_cover env current cover)\<rparr>
           | None \<Rightarrow> r\<lparr>rc_key_id := replicate 32 0, rc_signature := None\<rparr>))"

datatype ReceiptVerificationError =
    MissingCommittedEvent
  | EventIdMismatch
  | ReceiptSequenceMismatch
  | DiskPositionMismatch
  | ContentHashMismatch
  | ExtensionsMismatch
  | DenialKindMismatch
  | UnsignedReceiptRejected
  | MissingSignature
  | ZeroKeyWithSignature
  | UnknownSigningKey
  | InvalidSignature
  | CoverBuildFailed CoverBuildError

datatype ReceiptVerification = Signed | UnsignedAccepted | ReceiptInvalid ReceiptVerificationError

definition verify_signature ::
  "signing_env \<Rightarrow> signing_registry \<Rightarrow> bytes \<Rightarrow> bytes option \<Rightarrow> bytes \<Rightarrow> ReceiptVerification" where
  "verify_signature env reg kid sig cover =
     (case sig of
        None \<Rightarrow>
          if kid = replicate 32 0 \<and> reg_verifying_keys reg = [] then UnsignedAccepted
          else if kid = replicate 32 0 then ReceiptInvalid UnsignedReceiptRejected
          else ReceiptInvalid MissingSignature
      | Some signature_bytes \<Rightarrow>
          if kid = replicate 32 0 then ReceiptInvalid ZeroKeyWithSignature
          else case bt_get (reg_verifying_keys reg) kid of
              None \<Rightarrow> ReceiptInvalid UnknownSigningKey
            | Some public_key \<Rightarrow>
                if se_verify env public_key cover signature_bytes then Signed else ReceiptInvalid InvalidSignature)"

text \<open>Denial receipts have the same fields, and their verification has the same body.\<close>

definition registry_verify_receipt ::
  "signing_env \<Rightarrow> signing_registry \<Rightarrow> receipt \<Rightarrow> coordinate \<Rightarrow> EventKind \<Rightarrow> bytes \<Rightarrow> ReceiptVerification" where
  "registry_verify_receipt env reg r coord kind prev =
     (if rc_signature r = None \<and> rc_key_id r = replicate 32 0
      then if reg_verifying_keys reg = [] then UnsignedAccepted else ReceiptInvalid UnsignedReceiptRejected
      else case receipt_cover env r coord kind prev of
          Inl err \<Rightarrow> ReceiptInvalid (CoverBuildFailed err)
        | Inr cover \<Rightarrow> verify_signature env reg (rc_key_id r) (rc_signature r) cover)"

section \<open>What the registry accepts\<close>

lemma map_sum_InrE: "map_sum id f x = Inr y \<Longrightarrow> (\<And>z. x = Inr z \<Longrightarrow> y = f z \<Longrightarrow> P) \<Longrightarrow> P"
  by (cases x) auto

text \<open>
  What is asked of the scheme: a signature made with a seed verifies under its public key, public
  keys have 32 bytes, and the hash gives the public keys in use distinct identifiers, none of them all zeros.
\<close>

definition scheme_ok :: "signing_env \<Rightarrow> bytes set \<Rightarrow> bool" where
  "scheme_ok env seeds \<longleftrightarrow>
     (\<forall>seed \<in> seeds. \<forall>cover. se_verify env (se_public_key env seed) cover (se_sign env seed cover)) \<and>
     (\<forall>seed \<in> seeds. length (se_public_key env seed) = 32 \<and> key_id env seed \<noteq> replicate 32 0) \<and>
     (\<forall>seed \<in> seeds. \<forall>other \<in> seeds. key_id env seed = key_id env other \<longrightarrow> se_public_key env seed = se_public_key env other)"

lemma scheme_ok_subset: "scheme_ok env seeds \<Longrightarrow> other \<subseteq> seeds \<Longrightarrow> scheme_ok env other"
  unfolding scheme_ok_def by blast

lemma scheme_ok_key: "scheme_ok env seeds \<Longrightarrow> seed \<in> seeds \<Longrightarrow> public_key_bytes env seed = Some (se_public_key env seed)"
  unfolding scheme_ok_def public_key_bytes_def Let_def by (metis (no_types))

lemma from_keys_snoc:
  "scheme_ok env (set (keys @ [key])) \<Longrightarrow> from_keys env (keys @ [key]) = \<lparr>reg_current = Some key,
     reg_verifying_keys = bt_insert (key_id env key) (se_public_key env key) (reg_verifying_keys (from_keys env keys))\<rparr>"
  by (simp add: from_keys_def scheme_ok_key)

lemma from_keys_current:
  "scheme_ok env (set keys) \<Longrightarrow> reg_current (from_keys env keys) = (if keys = [] then None else Some (last keys))"
proof (cases keys rule: rev_exhaust)
  case (snoc ks k)
  moreover assume "scheme_ok env (set keys)"
  ultimately show ?thesis by (simp only: from_keys_snoc) simp
qed (simp add: from_keys_def)

lemma from_keys_get:
  assumes "scheme_ok env (set keys)" and "seed \<in> set keys"
  shows "bt_get (reg_verifying_keys (from_keys env keys)) (key_id env seed) = Some (se_public_key env seed)"
  using assms
proof (induction keys rule: rev_induct)
  case (snoc key keys)
  have "set keys \<subseteq> set (keys @ [key])" "key \<in> set (keys @ [key])" by auto
  then have old: "scheme_ok env (set keys)"
    and same: "key_id env key = key_id env seed \<Longrightarrow> se_public_key env key = se_public_key env seed"
    using snoc.prems unfolding scheme_ok_def by blast+
  show ?case
  proof (cases "key_id env key = key_id env seed")
    case True
    with same show ?thesis by (simp add: from_keys_snoc [OF snoc.prems(1)])
  next
    case False
    then have "seed \<in> set keys" using snoc.prems(2) by auto
    with False snoc.IH [OF old] show ?thesis by (simp add: from_keys_snoc [OF snoc.prems(1)])
  qed
qed simp

lemma bt_insert_nonempty [simp]: "bt_insert k v m \<noteq> []"
  by (induction k v m rule: bt_insert.induct) auto

lemma from_keys_empty:
  "scheme_ok env (set keys) \<Longrightarrow> reg_verifying_keys (from_keys env keys) = [] \<longleftrightarrow> keys = []"
proof (cases keys rule: rev_exhaust)
  case (snoc ks k)
  moreover assume "scheme_ok env (set keys)"
  ultimately show ?thesis by (simp only: from_keys_snoc) simp
qed (simp add: from_keys_def)

lemma receipt_cover_cong:
  "receipt_cover env (r\<lparr>rc_key_id := k, rc_signature := g\<rparr>) coord kind prev = receipt_cover env r coord kind prev"
  by (simp add: receipt_cover_def)

lemma signed_receipt_verifies:
  assumes scheme: "scheme_ok env (set (keys @ later))" and keys: "keys \<noteq> []"
    and cover: "receipt_cover env r coord kind prev = Inr cover"
  shows "registry_verify_receipt env (from_keys env (keys @ later)) (sign_append_receipt env (from_keys env keys) r coord kind prev)
    coord kind prev = Signed"
proof -
  let ?seed = "last keys"
  have seed: "?seed \<in> set (keys @ later)" using keys by simp
  have first: "scheme_ok env (set keys)" using scheme by (rule scheme_ok_subset) auto
  have "key_id env ?seed \<noteq> replicate 32 0" and "se_verify env (se_public_key env ?seed) cover (se_sign env ?seed cover)"
    using scheme seed unfolding scheme_ok_def by blast+
  moreover have "sign_append_receipt env (from_keys env keys) r coord kind prev =
      r\<lparr>rc_key_id := key_id env ?seed, rc_signature := Some (sign_cover env ?seed cover)\<rparr>"
    using keys cover by (simp add: sign_append_receipt_def from_keys_current [OF first])
  ultimately show ?thesis
    using from_keys_get [OF scheme seed] cover
    by (simp add: registry_verify_receipt_def receipt_cover_cong verify_signature_def sign_cover_def)
qed

text \<open>
  The cover separates its fields: hashes have 32 bytes, and no encoding of a coordinate is a
  proper prefix of another.
\<close>

definition prefix_free :: "(coordinate \<Rightarrow> bytes option) \<Rightarrow> bool" where
  "prefix_free enc \<longleftrightarrow>
     (\<forall>c d bs cs. enc c = Some bs \<longrightarrow> enc d = Some cs \<longrightarrow> prefix bs cs \<longrightarrow> c = d)"

lemma to_le_append_inj:
  "to_le (a :: u16) @ xs = to_le b @ ys \<longleftrightarrow> a = b \<and> xs = ys"
  "to_le (c :: u64) @ xs = to_le d @ ys \<longleftrightarrow> c = d \<and> xs = ys"
  "to_le (e :: u128) @ xs = to_le f @ ys \<longleftrightarrow> e = f \<and> xs = ys"
  by (auto simp: append_eq_append_conv) (metis from_le_to_le)+

lemma cover_input_inj:
  assumes enc: "prefix_free (se_coord_bytes env)"
    and ext: "\<And>x y. se_extension_bytes env x = se_extension_bytes env y \<Longrightarrow> se_extension_bytes env x \<noteq> None \<Longrightarrow> x = y"
    and len: "length p = 32" "length p' = 32" "length h = 32" "length h' = 32"
    and same: "cover_input env i n c k p h x = Inr bs" "cover_input env i' n' c' k' p' h' x' = Inr bs"
  shows "(i, n, c, k, p, h, x) = (i', n', c', k', p', h', x')"
proof -
  obtain cb cb' xb xb' where cb: "se_coord_bytes env c = Some cb" "se_coord_bytes env c' = Some cb'"
    and xb: "se_extension_bytes env x = Some xb" "se_extension_bytes env x' = Some xb'"
    using same by (auto simp: cover_input_def split: option.splits)
  let ?rest = "to_le (as_raw_u16 k) @ p @ h @ xb"
  let ?rest' = "to_le (as_raw_u16 k') @ p' @ h' @ xb'"
  have "to_le i @ to_le n @ cb @ ?rest = to_le i' @ to_le n' @ cb' @ ?rest'"
    using same cb xb by (auto simp: cover_input_def)
  then have head: "i = i'" "n = n'" and tail: "cb @ ?rest = cb' @ ?rest'"
    by (simp_all only: to_le_append_inj)
  have "prefix cb cb' \<or> prefix cb' cb"
    using tail by (metis prefix_def prefix_same_cases)
  then have c: "c = c'" using enc cb unfolding prefix_free_def by metis
  with cb tail have "?rest = ?rest'" by simp
  then have "as_raw_u16 k = as_raw_u16 k'" and "p @ h @ xb = p' @ h' @ xb'"
    by (simp_all only: to_le_append_inj)
  then have "k = k'" "p = p'" "h = h'" "xb = xb'" using len by (simp_all add: EventKind.expand)
  then show ?thesis using head c ext xb by auto
qed

text \<open>
  C35. Signed receipts. A receipt signed by the last of some keys verifies as signed, also after
  later keys were added; without keys it stays unsigned, which a registry accepts exactly when
  it has no keys. Two receipts have the same cover input only when their event, sequence,
  coordinate, kind, hashes and extensions all agree, so a signature covers all of them.
\<close>

theorem receipt_signature_sound:
  assumes "scheme_ok env (set (keys @ later))"
    and "prefix_free (se_coord_bytes env)"
    and "\<And>x y. se_extension_bytes env x = se_extension_bytes env y \<Longrightarrow> se_extension_bytes env x \<noteq> None \<Longrightarrow> x = y"
    and "receipt_cover env r coord kind prev = Inr cover"
    and "length prev = 32" "length prev' = 32" "length (rc_content_hash r) = 32" "length (rc_content_hash r') = 32"
  shows "registry_verify_receipt env (from_keys env (keys @ later))
      (sign_append_receipt env (from_keys env keys) r coord kind prev) coord kind prev =
      (if keys \<noteq> [] then Signed else if later = [] then UnsignedAccepted else ReceiptInvalid UnsignedReceiptRejected) \<and>
    (cover_input env (rc_event_id r) (rc_global_sequence r) coord kind prev (rc_content_hash r) (rc_extensions r) =
     cover_input env (rc_event_id r') (rc_global_sequence r') coord' kind' prev' (rc_content_hash r') (rc_extensions r') \<longrightarrow>
     rc_event_id r = rc_event_id r' \<and> rc_global_sequence r = rc_global_sequence r' \<and> coord = coord' \<and> kind = kind' \<and>
     prev = prev' \<and> rc_content_hash r = rc_content_hash r' \<and> rc_extensions r = rc_extensions r')"
proof (intro conjI impI)
  show "registry_verify_receipt env (from_keys env (keys @ later))
      (sign_append_receipt env (from_keys env keys) r coord kind prev) coord kind prev =
      (if keys \<noteq> [] then Signed else if later = [] then UnsignedAccepted else ReceiptInvalid UnsignedReceiptRejected)"
  proof (cases "keys = []")
    case True
    have first: "scheme_ok env (set keys)" using assms(1) by (rule scheme_ok_subset) auto
    have "sign_append_receipt env (from_keys env keys) r coord kind prev =
        r\<lparr>rc_key_id := replicate 32 0, rc_signature := None\<rparr>"
      using assms(4) True from_keys_current [OF first] by (simp add: sign_append_receipt_def)
    with True from_keys_empty [OF assms(1)] show ?thesis by (simp add: registry_verify_receipt_def)
  qed (simp add: signed_receipt_verifies [OF assms(1) _ assms(4)])
next
  assume same: "cover_input env (rc_event_id r) (rc_global_sequence r) coord kind prev (rc_content_hash r) (rc_extensions r) =
    cover_input env (rc_event_id r') (rc_global_sequence r') coord' kind' prev' (rc_content_hash r') (rc_extensions r')"
  obtain bs where "cover_input env (rc_event_id r) (rc_global_sequence r) coord kind prev (rc_content_hash r) (rc_extensions r) = Inr bs"
    using assms(4) unfolding receipt_cover_def cover_bytes_def by (auto elim!: map_sum_InrE)
  then have "(rc_event_id r, rc_global_sequence r, coord, kind, prev, rc_content_hash r, rc_extensions r) =
      (rc_event_id r', rc_global_sequence r', coord', kind', prev', rc_content_hash r', rc_extensions r')"
    using same assms(3) by (intro cover_input_inj [OF assms(2) _ assms(5-8)]) (blast, simp, metis)
  then show "rc_event_id r = rc_event_id r'" "rc_global_sequence r = rc_global_sequence r'" "coord = coord'" "kind = kind'"
    "prev = prev'" "rc_content_hash r = rc_content_hash r'" "rc_extensions r = rc_extensions r'"
    by (simp_all only: prod.inject)
qed

definition example_signing :: signing_env where
  "example_signing = \<lparr>se_hash = (\<lambda>_. replicate 32 1), se_public_key = (\<lambda>seed. seed), se_sign = (\<lambda>seed cover. seed @ cover),
     se_verify = (\<lambda>key cover sig. sig = key @ cover),
     se_coord_bytes = (\<lambda>c. if c = \<lparr>coord_entity = ''a'', coord_scope = ''s''\<rparr> then Some [9] else None),
     se_extension_bytes = (\<lambda>x. if x = [] then Some [0x80] else None), se_downgrade_bytes = (\<lambda>_. None)\<rparr>"

definition example_receipt :: receipt where
  "example_receipt = \<lparr>rc_event_id = 4, rc_global_sequence = 2,
     rc_disk_pos = \<lparr>pos_segment = 1, pos_offset = 0, pos_length = 9\<rparr>, rc_content_hash = replicate 32 5,
     rc_key_id = replicate 32 0, rc_signature = None, rc_extensions = []\<rparr>"

theorem receipt_signature_sound_witness:
  "registry_verify_receipt example_signing (from_keys example_signing [replicate 32 7])
     (sign_append_receipt example_signing (from_keys example_signing [replicate 32 7]) example_receipt
       \<lparr>coord_entity = ''a'', coord_scope = ''s''\<rparr> DATA ZERO_HASH) \<lparr>coord_entity = ''a'', coord_scope = ''s''\<rparr> DATA ZERO_HASH = Signed"
proof -
  let ?c = "\<lparr>coord_entity = ''a'', coord_scope = ''s''\<rparr> :: coordinate"
  have "scheme_ok example_signing (set ([replicate 32 7] @ []))"
    by (simp add: scheme_ok_def example_signing_def key_id_def key_id_for_public_key_def public_key_bytes_def)
  moreover have "prefix_free (se_coord_bytes example_signing)"
    by (simp add: prefix_free_def example_signing_def split: if_splits)
  moreover have "receipt_cover example_signing example_receipt ?c DATA ZERO_HASH = Inr (replicate 32 1)"
    by (simp add: receipt_cover_def cover_bytes_def cover_input_def example_signing_def example_receipt_def)
  moreover have "x = y" if "se_extension_bytes example_signing x = se_extension_bytes example_signing y"
    "se_extension_bytes example_signing x \<noteq> None" for x y
    using that by (simp add: example_signing_def split: if_splits)
  ultimately show ?thesis
    using receipt_signature_sound [of example_signing "[replicate 32 7]" "[]" example_receipt ?c DATA ZERO_HASH
        "replicate 32 1" ZERO_HASH example_receipt ?c DATA]
    by (simp add: ZERO_HASH_def example_receipt_def)
qed

end
