(* ===== verification/Staging.thy ===== *)
theory Staging
  imports Reader Signing
begin

text \<open>
  What a caller hands to the writer and what the writer stages before it commits: options,
  extension keys and batch items (\<^verbatim>\<open>store/append.rs\<close>), submissions
  (\<^verbatim>\<open>store/write/control/submission.rs\<close>), prepared batches and staged events
  (\<^verbatim>\<open>store/write/staging.rs\<close>). Strings are their UTF-8 bytes. The encoder of payloads and the
  decoder of JSON values are parameters, and so is the generator of event identifiers.
\<close>

section \<open>Options\<close>

record append_position_hint =
  ph_lane :: u32
  ph_depth :: u32
  ph_branch_root :: bool

definition position_hint_default :: append_position_hint where
  "position_hint_default = \<lparr>ph_lane = 0, ph_depth = 0, ph_branch_root = False\<rparr>"

definition position_hint_new :: "u32 \<Rightarrow> u32 \<Rightarrow> append_position_hint" where
  "position_hint_new lane depth = \<lparr>ph_lane = lane, ph_depth = depth, ph_branch_root = False\<rparr>"

definition position_hint_branch_root :: "u32 \<Rightarrow> u32 \<Rightarrow> append_position_hint" where
  "position_hint_branch_root lane parent_depth = \<lparr>ph_lane = lane, ph_depth = parent_depth, ph_branch_root = True\<rparr>"

text \<open>The durability gate of the options is waited for after the commit and is no part of it.\<close>

record append_options =
  ao_expected_sequence :: "u32 option"
  ao_idempotency_key :: "u128 option"
  ao_correlation_id :: "u128 option"
  ao_causation_id :: "u128 option"
  ao_position_hint :: "append_position_hint option"
  ao_flags :: u8
  ao_extensions :: extensions

definition append_options_new :: append_options where
  "append_options_new = \<lparr>ao_expected_sequence = None, ao_idempotency_key = None, ao_correlation_id = None,
     ao_causation_id = None, ao_position_hint = None, ao_flags = 0, ao_extensions = []\<rparr>"

definition with_causation :: "append_options \<Rightarrow> u128 \<Rightarrow> append_options" where
  "with_causation opts cause = (if cause \<noteq> 0 then opts\<lparr>ao_causation_id := Some cause\<rparr> else opts)"

definition with_extension :: "append_options \<Rightarrow> string \<Rightarrow> bytes \<Rightarrow> append_options" where
  "with_extension opts key bs = opts\<lparr>ao_extensions := bt_insert key bs (ao_extensions opts)\<rparr>"

definition hint_of :: "append_options \<Rightarrow> append_position_hint" where
  "hint_of opts = (case ao_position_hint opts of None \<Rightarrow> position_hint_default | Some hint \<Rightarrow> hint)"

section \<open>Extension keys\<close>

datatype ExtensionKeyError = EmptyKey | NonAscii | KeyTooLong | InvalidNamespaceFormat | ReservedNamespace

definition EXTENSION_KEY_MAX_LEN :: nat where
  "EXTENSION_KEY_MAX_LEN = 256"

definition is_ascii :: "string \<Rightarrow> bool" where
  "is_ascii s \<longleftrightarrow> list_all (\<lambda>c. (of_char c :: nat) < 128) s"

definition split_once :: "char \<Rightarrow> string \<Rightarrow> (string \<times> string) option" where
  "split_once sep s =
     (case dropWhile (\<lambda>c. c \<noteq> sep) s of
        [] \<Rightarrow> None
      | _ # rest \<Rightarrow> Some (takeWhile (\<lambda>c. c \<noteq> sep) s, rest))"

definition extension_key_new :: "string \<Rightarrow> (ExtensionKeyError, string) result" where
  "extension_key_new key =
     (if key = [] then Inl EmptyKey
      else if \<not> is_ascii key then Inl NonAscii
      else if length key > EXTENSION_KEY_MAX_LEN then Inl KeyTooLong
      else case split_once CHR ''.'' key of
          None \<Rightarrow> Inl InvalidNamespaceFormat
        | Some (namespace, name) \<Rightarrow>
            if namespace = [] \<or> name = [] \<or> CHR ''.'' \<in> set name then Inl InvalidNamespaceFormat
            else if namespace = ''batpak'' then Inl ReservedNamespace
            else Inr key)"

definition receipt_extension_key_new :: "string \<Rightarrow> string \<Rightarrow> (ExtensionKeyError, string) result" where
  "receipt_extension_key_new namespace name = extension_key_new (namespace @ ''.'' @ name)"

definition SIGNING_EXTENSION_PREFIX :: string where
  "SIGNING_EXTENSION_PREFIX = ''batpak.signing''"

section \<open>Sizes\<close>

definition encoded_receipt_extensions_len :: "signing_env \<Rightarrow> extensions \<Rightarrow> (StoreError, nat) result" where
  "encoded_receipt_extensions_len env exts =
     (if exts = [] then Inr 0
      else case se_extension_bytes env exts of
          None \<Rightarrow> Inl Serialization
        | Some bs \<Rightarrow> Inr (length bs))"

definition checked_append_bytes :: "signing_env \<Rightarrow> nat \<Rightarrow> extensions \<Rightarrow> (StoreError, nat) result" where
  "checked_append_bytes env payload_len exts =
     bind_result (encoded_receipt_extensions_len env exts) (\<lambda>extension_len.
       if payload_len + extension_len < 2 ^ 64 then Inr (payload_len + extension_len) else Inl Serialization)"

definition checked_payload_len :: "bytes \<Rightarrow> (StoreError, u32) result" where
  "checked_payload_len payload_bytes =
     (if length payload_bytes < 2 ^ 32 then Inr (of_nat (length payload_bytes)) else Inl Serialization)"

section \<open>Batch items\<close>

datatype CausationRef = NoCausation | Absolute u128 | PriorItem nat

definition uses_options_fallback :: "CausationRef \<Rightarrow> bool" where
  "uses_options_fallback c \<longleftrightarrow> c = NoCausation"

fun resolve :: "CausationRef \<Rightarrow> u128 option \<Rightarrow> nat \<Rightarrow> (nat \<Rightarrow> u128) \<Rightarrow> (StoreError, u128 option) result" where
  "resolve NoCausation fallback item_index prior_event_id = Inr fallback"
| "resolve (Absolute cause) fallback item_index prior_event_id = Inr (if cause = 0 then None else Some cause)"
| "resolve (PriorItem prior_idx) fallback item_index prior_event_id =
     (if prior_idx \<ge> item_index then Inl (InvalidCausation prior_idx item_index)
      else Inr (Some (prior_event_id prior_idx)))"

record batch_item =
  bi_coord :: coordinate
  bi_kind :: EventKind
  bi_payload :: bytes
  bi_options :: append_options
  bi_causation :: CausationRef

definition reaction_item :: "u128 \<Rightarrow> u128 \<Rightarrow> batch_item \<Rightarrow> batch_item" where
  "reaction_item correlation_id causation_id item =
     (let options = (bi_options item)\<lparr>ao_correlation_id := Some correlation_id\<rparr>;
          options' = (if uses_options_fallback (bi_causation item)
                      then options\<lparr>ao_causation_id := Some causation_id\<rparr> else options) in
      item\<lparr>bi_options := options'\<rparr>)"

text \<open>
  A prepared batch: the pools that share equal strings hold each string under itself, so a
  shared string is the string, and only the validation of the coordinate is left.
\<close>

definition prepare_item :: "batch_item \<Rightarrow> (StoreError, batch_item) result" where
  "prepare_item item =
     (case coordinate_new (coord_entity (bi_coord item)) (coord_scope (bi_coord item)) of
        Inl err \<Rightarrow> Inl (store_error_of_coordinate err)
      | Inr coord \<Rightarrow> Inr (item\<lparr>bi_coord := coord\<rparr>))"

record prepared_batch =
  pb_items :: "batch_item list"
  pb_total_bytes :: nat

fun prepare_items :: "batch_item list \<Rightarrow> prepared_batch \<Rightarrow> (StoreError, prepared_batch) result" where
  "prepare_items [] builder = Inr builder"
| "prepare_items (item # items) builder =
     bind_result (prepare_item item) (\<lambda>prepared.
       prepare_items items \<lparr>pb_items = pb_items builder @ [prepared],
         pb_total_bytes = pb_total_bytes builder + length (bi_payload item)\<rparr>)"

definition prepared_finish :: "nat \<Rightarrow> prepared_batch \<Rightarrow> (StoreError, prepared_batch) result" where
  "prepared_finish expected_len builder =
     (if length (pb_items builder) \<noteq> expected_len then Inl InvariantViolation else Inr builder)"

definition prepared_from_items :: "batch_item list \<Rightarrow> (StoreError, prepared_batch) result" where
  "prepared_from_items items =
     bind_result (prepare_items items \<lparr>pb_items = [], pb_total_bytes = 0\<rparr>) (prepared_finish (length items))"

section \<open>Staged events\<close>

record staged_commit_meta =
  sm_event_id :: u128
  sm_correlation_id :: u128
  sm_causation_id :: "u128 option"
  sm_kind :: EventKind
  sm_global_sequence :: u64

record staged_commit_timing =
  tm_timestamp_us :: i64
  tm_wall_ms :: u64
  tm_clock :: u32
  tm_dag_lane :: u32
  tm_dag_depth :: u32

record staged_committed_event =
  sc_coord :: coordinate
  sc_meta :: staged_commit_meta
  sc_timing :: staged_commit_timing
  sc_hash_chain :: hash_chain

definition staged_position :: "staged_committed_event \<Rightarrow> dag_position" where
  "staged_position s =
     (let t = sc_timing s in with_hlc (tm_wall_ms t) 0 (tm_dag_depth t) (tm_dag_lane t) (tm_clock t))"

definition staged_event_header :: "staged_committed_event \<Rightarrow> u32 \<Rightarrow> event_header" where
  "staged_event_header s payload_size =
     (let m = sc_meta s in
      event_header_new (sm_event_id m) (sm_correlation_id m) (sm_causation_id m) (tm_timestamp_us (sc_timing s))
        (staged_position s) payload_size (sm_kind m))"

definition event_new :: "event_header \<Rightarrow> 'p \<Rightarrow> 'p event" where
  "event_new header payload = \<lparr>ev_header = header, ev_payload = payload, ev_hash_chain = None\<rparr>"

text \<open>The hash chain and the content hash set on an event after its construction.\<close>

definition chain_event :: "hash_chain \<Rightarrow> 'p event \<Rightarrow> 'p event" where
  "chain_event chain ev =
     ev\<lparr>ev_hash_chain := Some chain, ev_header := (ev_header ev)\<lparr>eh_content_hash := event_hash chain\<rparr>\<rparr>"

definition borrowed_frame_event :: "staged_committed_event \<Rightarrow> bytes \<Rightarrow> (StoreError, bytes event) result" where
  "borrowed_frame_event s payload_bytes =
     bind_result (checked_payload_len payload_bytes) (\<lambda>payload_size.
       Inr (chain_event (sc_hash_chain s) (event_new (staged_event_header s payload_size) payload_bytes)))"

definition staged_stored_event ::
  "(bytes \<Rightarrow> 'v option) \<Rightarrow> staged_committed_event \<Rightarrow> bytes \<Rightarrow> u8 \<Rightarrow> (StoreError, 'v stored_event) result" where
  "staged_stored_event from_bytes s payload_bytes flags =
     bind_result (checked_payload_len payload_bytes) (\<lambda>payload_size.
       case from_bytes payload_bytes of
         None \<Rightarrow> Inl Serialization
       | Some value \<Rightarrow> Inr \<lparr>st_coordinate = sc_coord s, st_event =
           chain_event (sc_hash_chain s) (event_new (with_flags (staged_event_header s payload_size) flags) value)\<rparr>)"

section \<open>Submissions\<close>

record append_guards =
  ag_correlation_id :: u128
  ag_causation_id :: "u128 option"
  ag_expected_sequence :: "u32 option"
  ag_idempotency_key :: "u128 option"
  ag_dag_lane :: u32
  ag_dag_depth :: u32
  ag_dag_branch_root :: bool
  ag_extensions :: extensions

record append_submission =
  su_event_id :: u128
  su_correlation_id :: u128
  su_options :: append_options
  su_fence_token :: "u64 option"
  su_payload_version :: u16

definition submission_root :: "u128 \<Rightarrow> append_submission" where
  "submission_root event_id = \<lparr>su_event_id = event_id, su_correlation_id = event_id,
     su_options = append_options_new, su_fence_token = None, su_payload_version = 0\<rparr>"

definition root_under_fence :: "u64 \<Rightarrow> u128 \<Rightarrow> append_submission" where
  "root_under_fence token event_id = (submission_root event_id)\<lparr>su_fence_token := Some token\<rparr>"

definition submission_reaction :: "u128 \<Rightarrow> u128 \<Rightarrow> u128 \<Rightarrow> append_submission" where
  "submission_reaction event_id correlation_id causation_id =
     \<lparr>su_event_id = event_id, su_correlation_id = correlation_id,
      su_options = append_options_new\<lparr>ao_causation_id := if causation_id \<noteq> 0 then Some causation_id else None\<rparr>,
      su_fence_token = None, su_payload_version = 0\<rparr>"

definition reaction_under_fence :: "u64 \<Rightarrow> u128 \<Rightarrow> u128 \<Rightarrow> u128 \<Rightarrow> append_submission" where
  "reaction_under_fence token event_id correlation_id causation_id =
     (submission_reaction event_id correlation_id causation_id)\<lparr>su_fence_token := Some token\<rparr>"

definition submission_with_options :: "append_options \<Rightarrow> u128 \<Rightarrow> append_submission" where
  "submission_with_options options fresh_id =
     (let event_id = (case ao_idempotency_key options of Some key \<Rightarrow> key | None \<Rightarrow> fresh_id) in
      \<lparr>su_event_id = event_id,
       su_correlation_id = (case ao_correlation_id options of Some c \<Rightarrow> c | None \<Rightarrow> event_id),
       su_options = options, su_fence_token = None, su_payload_version = 0\<rparr>)"

definition submission_with_payload_version :: "append_submission \<Rightarrow> u16 \<Rightarrow> append_submission" where
  "submission_with_payload_version s version = s\<lparr>su_payload_version := version\<rparr>"

definition validate_idempotency :: "bool \<Rightarrow> append_submission \<Rightarrow> (StoreError, unit) result" where
  "validate_idempotency require_keys s =
     (if require_keys \<and> ao_idempotency_key (su_options s) = None then Inl IdempotencyRequired else Inr ())"

definition build_event ::
  "('d \<Rightarrow> bytes option) \<Rightarrow> append_submission \<Rightarrow> 'd \<Rightarrow> EventKind \<Rightarrow> i64 \<Rightarrow> (StoreError, bytes event) result" where
  "build_event to_bytes s payload kind now_us =
     (case to_bytes payload of
        None \<Rightarrow> Inl Serialization
      | Some payload_bytes \<Rightarrow>
          bind_result (checked_payload_len payload_bytes) (\<lambda>payload_len.
            let header = event_header_new (su_event_id s) (su_correlation_id s) (ao_causation_id (su_options s))
                  now_us dag_root payload_len kind;
                header1 = (if ao_flags (su_options s) \<noteq> 0 then with_flags header (ao_flags (su_options s)) else header);
                header2 = (if su_payload_version s \<noteq> 0
                           then with_payload_version header1 (su_payload_version s) else header1) in
            Inr (event_new header2 payload_bytes)))"

definition guards :: "append_submission \<Rightarrow> append_guards" where
  "guards s =
     (let options = su_options s; hint = hint_of options in
      \<lparr>ag_correlation_id = su_correlation_id s, ag_causation_id = ao_causation_id options,
       ag_expected_sequence = ao_expected_sequence options, ag_idempotency_key = ao_idempotency_key options,
       ag_dag_lane = ph_lane hint, ag_dag_depth = ph_depth hint, ag_dag_branch_root = ph_branch_root hint,
       ag_extensions = ao_extensions options\<rparr>)"

section \<open>Extension keys and prepared batches\<close>

lemma split_once_eq:
  "split_once sep s = Some (a, b) \<longleftrightarrow> s = a @ sep # b \<and> sep \<notin> set a"
proof
  assume "split_once sep s = Some (a, b)"
  then obtain x where x: "dropWhile (\<lambda>c. c \<noteq> sep) s = x # b" and a: "a = takeWhile (\<lambda>c. c \<noteq> sep) s"
    by (auto simp: split_once_def split: list.splits)
  have "x = sep" using hd_dropWhile [of "\<lambda>c. c \<noteq> sep" s] x by simp
  with x a show "s = a @ sep # b \<and> sep \<notin> set a"
    using takeWhile_dropWhile_id [of "\<lambda>c. c \<noteq> sep" s] by (auto dest: set_takeWhileD)
next
  assume "s = a @ sep # b \<and> sep \<notin> set a"
  moreover from this have "\<forall>c \<in> set a. c \<noteq> sep" by auto
  ultimately show "split_once sep s = Some (a, b)" by (simp add: split_once_def)
qed

lemma split_once_None: "split_once sep s = None \<longleftrightarrow> sep \<notin> set s"
proof (cases "dropWhile (\<lambda>c. c \<noteq> sep) s")
  case Nil
  then have "split_once sep s = None" by (simp only: split_once_def list.case)
  with Nil show ?thesis by auto
next
  case (Cons x rest)
  then have some: "split_once sep s = Some (takeWhile (\<lambda>c. c \<noteq> sep) s, rest)" by (simp add: split_once_def)
  then have "sep \<in> set s" unfolding split_once_eq by (metis in_set_conv_decomp)
  with some show ?thesis by simp
qed

lemma prepare_item_eq:
  "prepare_item item =
     (case validate_parts (coord_entity (bi_coord item)) (coord_scope (bi_coord item)) of
        Inl err \<Rightarrow> Inl (store_error_of_coordinate err) | Inr _ \<Rightarrow> Inr item)"
  by (cases "bi_coord item") (simp add: prepare_item_def coordinate_new_def bind_result_def split: sum.splits)

lemma prepare_items_exact:
  "prepare_items items b = Inr p \<longleftrightarrow>
   (\<forall>item \<in> set items. prepare_item item = Inr item) \<and>
   p = \<lparr>pb_items = pb_items b @ items,
        pb_total_bytes = pb_total_bytes b + sum_list (map (\<lambda>i. length (bi_payload i)) items)\<rparr>"
proof (induction items arbitrary: b)
  case (Cons item items)
  show ?case
  proof (cases "prepare_item item")
    case (Inr q)
    then have "q = item" by (simp add: prepare_item_eq split: sum.splits)
    with Inr show ?thesis by (simp add: Cons.IH add.assoc)
  qed simp
qed auto

lemma prepared_exact:
  "prepared_from_items items = Inr p \<longleftrightarrow>
   (\<forall>item \<in> set items. prepare_item item = Inr item) \<and>
   p = \<lparr>pb_items = items, pb_total_bytes = sum_list (map (\<lambda>i. length (bi_payload i)) items)\<rparr>"
  by (auto simp: prepared_from_items_def prepare_items_exact prepared_finish_def)

text \<open>
  C36. Extension keys. A key is accepted exactly when it is a nonempty ASCII string of at most
  256 bytes with one dot between two nonempty parts, the first of which is not the reserved
  namespace; so no typed key can ever be built in the signing namespace, whose own prefix has
  a dot.
\<close>

theorem extension_key_exact:
  "(extension_key_new key = Inr k \<longleftrightarrow> k = key \<and> is_ascii key \<and> length key \<le> EXTENSION_KEY_MAX_LEN \<and>
     (\<exists>namespace name. key = namespace @ ''.'' @ name \<and> namespace \<noteq> [] \<and> name \<noteq> [] \<and>
        CHR ''.'' \<notin> set namespace \<and> CHR ''.'' \<notin> set name \<and> namespace \<noteq> ''batpak'')) \<and>
   receipt_extension_key_new SIGNING_EXTENSION_PREFIX f \<noteq> Inr k"
proof -
  have split: "split_once CHR ''.'' key = Some (a, b) \<longleftrightarrow> key = a @ ''.'' @ b \<and> CHR ''.'' \<notin> set a" for a b key
    by (simp add: split_once_eq)
  have exact: "extension_key_new key = Inr k \<longleftrightarrow> k = key \<and> is_ascii key \<and> length key \<le> EXTENSION_KEY_MAX_LEN \<and>
     (\<exists>namespace name. key = namespace @ ''.'' @ name \<and> namespace \<noteq> [] \<and> name \<noteq> [] \<and>
        CHR ''.'' \<notin> set namespace \<and> CHR ''.'' \<notin> set name \<and> namespace \<noteq> ''batpak'')" for key k
  proof (cases "split_once CHR ''.'' key")
    case None
    then have "CHR ''.'' \<notin> set key" by (simp add: split_once_None)
    with None show ?thesis by (auto simp: extension_key_new_def)
  next
    case (Some p)
    obtain a b where p: "p = (a, b)" by (cases p)
    have key: "key = a @ ''.'' @ b" "CHR ''.'' \<notin> set a" using Some split [of key a b] by (simp_all add: p)
    have "key = c @ ''.'' @ d \<and> CHR ''.'' \<notin> set c \<longleftrightarrow> c = a \<and> d = b" for c d
      using Some split [of key c d] by (auto simp: p)
    then have "(\<exists>namespace name. key = namespace @ ''.'' @ name \<and> namespace \<noteq> [] \<and> name \<noteq> [] \<and>
        CHR ''.'' \<notin> set namespace \<and> CHR ''.'' \<notin> set name \<and> namespace \<noteq> ''batpak'') \<longleftrightarrow>
        a \<noteq> [] \<and> b \<noteq> [] \<and> CHR ''.'' \<notin> set b \<and> a \<noteq> ''batpak''"
      using key(2) by metis
    with Some p key show ?thesis by (auto simp: extension_key_new_def)
  qed
  have "CHR ''.'' \<in> set ''signing.'' " by simp
  moreover have "split_once CHR ''.'' (SIGNING_EXTENSION_PREFIX @ ''.'' @ f) = Some (''batpak'', ''signing.'' @ f)"
    by (simp add: split_once_eq SIGNING_EXTENSION_PREFIX_def)
  ultimately have "receipt_extension_key_new SIGNING_EXTENSION_PREFIX f \<noteq> Inr k"
    by (simp add: receipt_extension_key_new_def extension_key_new_def)
  with exact show ?thesis by simp
qed

end
