(* ===== verification/Writer.thy ===== *)
theory Writer
  imports Watermark Index Staging
begin

text \<open>
  The writer (\<^verbatim>\<open>store/write/writer.rs\<close> and \<^verbatim>\<open>append.rs\<close>, \<^verbatim>\<open>publish.rs\<close>, \<^verbatim>\<open>fence_runtime.rs\<close> below it):
  the one thread that turns commands into frames, index entries, watermarks and notifications.
  Each handler is a function from the writer's state to a result and the state it leaves behind,
  on every path that returns early too.

  What the writer asks of its environment is a field of \<open>writer_env\<close>: the encoders, the
  checksum, the hash and the signature scheme, the configuration, and, indexed by a counter of
  calls, the clock readings, the generated identifiers and the outcomes of file operations. A file
  operation that fails has first written the given number of bytes.
\<close>

section \<open>State\<close>

record notification =
  nt_event_id :: u128
  nt_correlation_id :: u128
  nt_causation_id :: "u128 option"
  nt_coord :: coordinate
  nt_kind :: EventKind
  nt_sequence :: u64
  nt_position :: dag_position

record 'v envelope =
  en_notification :: notification
  en_stored :: "'v stored_event"

datatype reply = Receipt receipt | Receipts "receipt list" | Done

text \<open>A response channel is a number; what is sent is logged in order.\<close>

type_synonym channel = nat

datatype pending_fence_response = SingleResponse channel receipt | BatchResponse channel "receipt list"

record 'v fence_ledger =
  fl_token :: u64
  fl_publish_up_to :: "u64 option"
  fl_frontier_point :: "HlcPoint option"
  fl_notifications :: "notification list"
  fl_envelopes :: "'v envelope list"
  fl_responses :: "pending_fence_response list"

text \<open>
  \<open>wr_files\<close> holds the contents of every segment file but the active one, \<open>wr_ranges_file\<close> the
  hidden-ranges file and \<open>wr_reader_segment\<close> the active segment the reader was told.
\<close>

record 'v writer =
  wr_index :: store_index
  wr_active_segment :: segment
  wr_segment_id :: u64
  wr_files :: "(u64, bytes) btree"
  wr_ranges_file :: "bytes option"
  wr_reader_segment :: u64
  wr_watermarks :: watermark_state
  wr_sidx_collector :: sidx_collector
  wr_fence_ledger :: "'v fence_ledger option"
  wr_notifications :: "notification list"
  wr_envelopes :: "'v envelope list"
  wr_replies :: "(channel \<times> (StoreError, reply) result) list"
  wr_tick :: nat

record 'v writer_env =
  we_frame_bytes :: "bytes frame_payload \<Rightarrow> bytes option"
  we_header_bytes :: "segment_header \<Rightarrow> bytes option"
  we_table_bytes :: "string list \<Rightarrow> bytes option"
  we_ranges_bytes :: "visibility_ranges_data \<Rightarrow> bytes option"
  we_value :: "bytes \<Rightarrow> 'v option"
  we_crc :: "bytes \<Rightarrow> u32"
  we_signing :: signing_env
  we_registry :: signing_registry
  we_segment_max_bytes :: u64
  we_batch_max_size :: u32
  we_batch_max_bytes :: u32
  we_now_us :: "nat \<Rightarrow> i64"
  we_now_wall_ns :: "nat \<Rightarrow> i64"
  we_now_mono_ns :: "nat \<Rightarrow> i64"
  we_new_id :: "nat \<Rightarrow> u128"
  we_reactors :: "nat \<Rightarrow> bool"
  we_io :: "nat \<Rightarrow> nat option"

type_synonym ('v, 'a) op = "'v writer \<Rightarrow> (StoreError, 'a) result \<times> 'v writer"

definition bind_op :: "('v, 'a) op \<Rightarrow> ('a \<Rightarrow> ('v, 'b) op) \<Rightarrow> ('v, 'b) op" where
  "bind_op m f w = (case m w of (Inl err, w') \<Rightarrow> (Inl err, w') | (Inr a, w') \<Rightarrow> f a w')"

definition lift_op :: "(StoreError, 'a) result \<Rightarrow> ('v, 'a) op" where
  "lift_op r w = (r, w)"

text \<open>One answer of the environment.\<close>

definition ask :: "(nat \<Rightarrow> 'a) \<Rightarrow> ('v, 'a) op" where
  "ask answer w = (Inr (answer (wr_tick w)), w\<lparr>wr_tick := Suc (wr_tick w)\<rparr>)"

definition on_marks :: "(watermark_state \<Rightarrow> watermark_state) \<Rightarrow> 'v writer \<Rightarrow> 'v writer" where
  "on_marks f w = w\<lparr>wr_watermarks := f (wr_watermarks w)\<rparr>"

definition file_contents :: "segment \<Rightarrow> bytes" where
  "file_contents seg = (case seg_file seg of None \<Rightarrow> [] | Some f \<Rightarrow> f)"

section \<open>Clocks\<close>

definition checked_next_clock :: "u32 option \<Rightarrow> string \<Rightarrow> (StoreError, u32) result" where
  "checked_next_clock latest_clock entity =
     (case latest_clock of
        Some clock \<Rightarrow>
          (case checked_add clock 1 of None \<Rightarrow> Inl (EntityClockOverflow entity) | Some next_clock \<Rightarrow> Inr next_clock)
      | None \<Rightarrow> Inr 0)"

definition wall_ms_from_timestamp_us :: "i64 \<Rightarrow> (StoreError, u64) result" where
  "wall_ms_from_timestamp_us timestamp_us =
     (if sint timestamp_us < 0 then Inl InvalidClock else Inr (word_of_int (sint timestamp_us div 1000)))"

section \<open>The active segment\<close>

text \<open>\<^verbatim>\<open>Segment::write_frame\<close> with the outcome of its \<^verbatim>\<open>write_all\<close>.\<close>

definition segment_write :: "'v writer_env \<Rightarrow> bytes \<Rightarrow> ('v, u64) op" where
  "segment_write env frame w =
     (let seg = wr_active_segment w in
      case seg_file seg of
        None \<Rightarrow> (case write_frame seg frame of (offset, seg') \<Rightarrow> (Inr offset, w\<lparr>wr_active_segment := seg'\<rparr>))
      | Some f \<Rightarrow>
          bind_op (ask (we_io env)) (\<lambda>outcome w1.
            case outcome of
              Some n \<Rightarrow> (Inl Io, w1\<lparr>wr_active_segment := seg\<lparr>seg_file := Some (f @ take n frame)\<rparr>\<rparr>)
            | None \<Rightarrow> (case write_frame seg frame of
                (offset, seg') \<Rightarrow> (Inr offset, w1\<lparr>wr_active_segment := seg'\<rparr>))) w)"

definition sync_with_mode :: "'v writer_env \<Rightarrow> ('v, unit) op" where
  "sync_with_mode env w =
     (case seg_file (wr_active_segment w) of
        None \<Rightarrow> (Inr (), w)
      | Some _ \<Rightarrow> bind_op (ask (we_io env)) (\<lambda>outcome. lift_op (if outcome = None then Inr () else Inl Io)) w)"

definition sync_active_segment :: "'v writer_env \<Rightarrow> ('v, unit) op" where
  "sync_active_segment env =
     bind_op (sync_with_mode env) (\<lambda>_ w. (Inr (), on_marks advance_durable_to_accepted w))"

definition write_sidx_footer :: "'v writer_env \<Rightarrow> ('v, unit) op" where
  "write_sidx_footer env w =
     (let seg = wr_active_segment w in
      case seg_file seg of
        None \<Rightarrow> (Inr (), w)
      | Some f \<Rightarrow>
          (case write_footer (we_table_bytes env) (we_crc env) (wr_sidx_collector w) f (sh_segment_id (seg_header seg)) of
             Inl err \<Rightarrow> (Inl err, w)
           | Inr f' \<Rightarrow>
               bind_op (ask (we_io env)) (\<lambda>outcome w1.
                 case outcome of
                   Some n \<Rightarrow> (Inl Io, w1\<lparr>wr_active_segment := seg\<lparr>seg_file := Some (take (length f + n) f')\<rparr>\<rparr>)
                 | None \<Rightarrow> (Inr (), w1\<lparr>wr_active_segment := seg\<lparr>seg_file := Some f'\<rparr>\<rparr>)) w))"

text \<open>
  Creation refuses a name that exists. Once the file is there, a failed encoding leaves the magic
  behind, and a failed write or sync the bytes written so far.
\<close>

definition create_segment :: "'v writer_env \<Rightarrow> u64 \<Rightarrow> ('v, segment) op" where
  "create_segment env segment_id =
     bind_op (ask (we_now_wall_ns env)) (\<lambda>created_ns.
     bind_op (ask (we_io env)) (\<lambda>created w.
       if created \<noteq> None \<or> segment_id = wr_segment_id w \<or> bt_get (wr_files w) segment_id \<noteq> None then (Inl Io, w)
       else case create_with_created_ns (we_header_bytes env) segment_id created_ns of
           Inl err \<Rightarrow> (Inl err, w\<lparr>wr_files := bt_insert segment_id SEGMENT_MAGIC (wr_files w)\<rparr>)
         | Inr seg \<Rightarrow>
             bind_op (ask (we_io env)) (\<lambda>outcome w1.
               let f = file_contents seg in
               case outcome of
                 Some n \<Rightarrow> (Inl Io, w1\<lparr>wr_files := bt_insert segment_id (take n f) (wr_files w1)\<rparr>)
               | None \<Rightarrow> (Inr seg, w1\<lparr>wr_files := bt_insert segment_id f (wr_files w1)\<rparr>)) w))"

text \<open>The old file goes to the sealed ones and the new one becomes the active segment.\<close>

definition swap_active_segment :: "segment \<Rightarrow> 'v writer \<Rightarrow> 'v writer" where
  "swap_active_segment new_active w =
     (let new_id = wr_segment_id w + 1 in
      w\<lparr>wr_sidx_collector := collector_new,
        wr_files := bt_insert (wr_segment_id w) (file_contents (wr_active_segment w))
                      (bt_remove new_id (wr_files w)),
        wr_active_segment := new_active, wr_segment_id := new_id, wr_reader_segment := new_id\<rparr>)"

definition maybe_rotate_segment :: "'v writer_env \<Rightarrow> ('v, bool) op" where
  "maybe_rotate_segment env w =
     (if \<not> needs_rotation (wr_active_segment w) (we_segment_max_bytes env) then (Inr False, w)
      else bind_op (create_segment env (wr_segment_id w + 1)) (\<lambda>new_active.
           bind_op (sync_with_mode env) (\<lambda>_ w2.
             let w3 = on_marks advance_durable_to_accepted w2;
                 w4 = snd (bind_op (write_sidx_footer env) (\<lambda>_. sync_with_mode env) w3) in
             (Inr True, swap_active_segment new_active w4))) w)"

section \<open>Commit artifacts and publication\<close>

record lane_publish_point =
  lp_publish_up_to :: u64
  lp_frontier_point :: HlcPoint

definition note_lane_point ::
  "(u32, lane_publish_point) btree \<Rightarrow> notification \<Rightarrow> (u32, lane_publish_point) btree" where
  "note_lane_point points n =
     (let lane = dp_lane (nt_position n);
          point = \<lparr>lp_publish_up_to = saturating_add (nt_sequence n) 1,
            lp_frontier_point = HlcPoint (dp_wall_ms (nt_position n)) (nt_sequence n)\<rparr> in
      case bt_get points lane of
        None \<Rightarrow> bt_insert lane point points
      | Some current_point \<Rightarrow>
          if lp_publish_up_to point > lp_publish_up_to current_point then bt_insert lane point points else points)"

definition lane_publish_points_from_notifications :: "notification list \<Rightarrow> (u32, lane_publish_point) btree" where
  "lane_publish_points_from_notifications ns = foldl note_lane_point [] ns"

record 'v commit_artifacts =
  ca_index_entry :: index_entry
  ca_sidx_entry :: sidx_entry
  ca_notification :: notification
  ca_envelope :: "'v envelope option"

record commit_frame_view =
  cf_payload_bytes :: bytes
  cf_flags :: u8
  cf_receipt_extensions :: extensions
  cf_emit_envelope :: bool

definition intern_op :: "string \<Rightarrow> ('v, u32) op" where
  "intern_op s w =
     (let ix = wr_index w in
      case intern (ix_interner ix) s of (r, i) \<Rightarrow> (r, w\<lparr>wr_index := ix\<lparr>ix_interner := i\<rparr>\<rparr>))"

definition interned_for_coord :: "coordinate \<Rightarrow> ('v, u32 \<times> u32) op" where
  "interned_for_coord coord =
     bind_op (intern_op (coord_entity coord)) (\<lambda>entity_id.
     bind_op (intern_op (coord_scope coord)) (\<lambda>scope_id. lift_op (Inr (entity_id, scope_id))))"

definition staged_notification :: "staged_committed_event \<Rightarrow> notification" where
  "staged_notification s =
     (let m = sc_meta s in
      \<lparr>nt_event_id = sm_event_id m, nt_correlation_id = sm_correlation_id m, nt_causation_id = sm_causation_id m,
       nt_coord = sc_coord s, nt_kind = sm_kind m, nt_sequence = sm_global_sequence m, nt_position = staged_position s\<rparr>)"

definition staged_index_entry :: "staged_committed_event \<Rightarrow> disk_pos \<Rightarrow> u32 \<times> u32 \<Rightarrow> extensions \<Rightarrow> index_entry" where
  "staged_index_entry s pos ids exts =
     (let m = sc_meta s; t = sc_timing s in
      \<lparr>ie_event_id = sm_event_id m, ie_correlation_id = sm_correlation_id m, ie_causation_id = sm_causation_id m,
       ie_coord = sc_coord s, ie_entity_id = fst ids, ie_scope_id = snd ids, ie_kind = sm_kind m,
       ie_wall_ms = tm_wall_ms t, ie_clock = tm_clock t, ie_dag_lane = tm_dag_lane t, ie_dag_depth = tm_dag_depth t,
       ie_hash_chain = sc_hash_chain s, ie_disk_pos = pos, ie_global_sequence = sm_global_sequence m,
       ie_receipt_extensions = exts\<rparr>)"

definition staged_sidx_entry :: "staged_committed_event \<Rightarrow> disk_pos \<Rightarrow> sidx_entry" where
  "staged_sidx_entry s pos =
     (let m = sc_meta s; t = sc_timing s in
      \<lparr>se_event_id = sm_event_id m, se_entity_idx = 0, se_scope_idx = 0, se_kind = kind_to_raw (sm_kind m),
       se_wall_ms = tm_wall_ms t, se_clock = tm_clock t, se_dag_lane = tm_dag_lane t, se_dag_depth = tm_dag_depth t,
       se_prev_hash = prev_hash (sc_hash_chain s), se_event_hash = event_hash (sc_hash_chain s),
       se_frame_offset = pos_offset pos, se_frame_length = pos_length pos,
       se_global_sequence = sm_global_sequence m, se_correlation_id = sm_correlation_id m,
       se_causation_id = (case sm_causation_id m of None \<Rightarrow> 0 | Some c \<Rightarrow> c)\<rparr>)"

definition materialize_commit_artifacts ::
  "'v writer_env \<Rightarrow> staged_committed_event \<Rightarrow> disk_pos \<Rightarrow> u32 \<times> u32 \<Rightarrow> commit_frame_view \<Rightarrow> 'v commit_artifacts" where
  "materialize_commit_artifacts env sev pos ids frame =
     \<lparr>ca_index_entry = staged_index_entry sev pos ids (cf_receipt_extensions frame),
      ca_sidx_entry = staged_sidx_entry sev pos,
      ca_notification = staged_notification sev,
      ca_envelope =
        (if cf_emit_envelope frame
         then case staged_stored_event (we_value env) sev (cf_payload_bytes frame) (cf_flags frame) of
             Inl _ \<Rightarrow> None
           | Inr stored \<Rightarrow> Some \<lparr>en_notification = staged_notification sev, en_stored = stored\<rparr>
         else None)\<rparr>"

definition broadcast_commit_artifacts :: "notification list \<Rightarrow> 'v envelope list \<Rightarrow> 'v writer \<Rightarrow> 'v writer" where
  "broadcast_commit_artifacts ns es w =
     w\<lparr>wr_notifications := wr_notifications w @ ns, wr_envelopes := wr_envelopes w @ es\<rparr>"

definition mark_lanes :: "(u32, lane_publish_point) btree \<Rightarrow> watermark_state \<Rightarrow> watermark_state" where
  "mark_lanes lane_points w =
     foldl (\<lambda>w (lane, point). advance_visible_and_emitted_on_lane lane (lp_frontier_point point) w) w lane_points"

definition lane_targets :: "(u32, lane_publish_point) btree \<Rightarrow> (u32 \<times> u64) list" where
  "lane_targets lane_points = map (\<lambda>(lane, point). (lane, lp_publish_up_to point)) lane_points"

definition publish_then_broadcast_unfenced ::
  "u64 \<Rightarrow> HlcPoint \<Rightarrow> notification list \<Rightarrow> 'v envelope list \<Rightarrow> ('v, unit) op" where
  "publish_then_broadcast_unfenced publish_up_to frontier_point ns es w =
     (let lane_points = lane_publish_points_from_notifications ns in
      case index_publish_on_lanes (wr_index w) publish_up_to (lane_targets lane_points) ''publish_then_broadcast_unfenced'' of
        Inl err \<Rightarrow> (Inl err, w)
      | Inr ix \<Rightarrow>
          (Inr (), on_marks (\<lambda>m. mark_lanes lane_points (advance_visible_and_emitted frontier_point m))
            (broadcast_commit_artifacts ns es (w\<lparr>wr_index := ix\<rparr>))))"

definition fence_finish_then_broadcast ::
  "u64 \<Rightarrow> u64 option \<Rightarrow> HlcPoint option \<Rightarrow> notification list \<Rightarrow> 'v envelope list \<Rightarrow> ('v, unit) op" where
  "fence_finish_then_broadcast token publish_up_to frontier_point ns es w =
     (let lane_points = lane_publish_points_from_notifications ns in
      case index_finish_fence_on_lanes (wr_index w) token publish_up_to (lane_targets lane_points) of
        Inl err \<Rightarrow> (Inl err, w)
      | Inr ix \<Rightarrow>
          (Inr (), on_marks (\<lambda>m. mark_lanes lane_points
              (case frontier_point of Some point \<Rightarrow> advance_visible_and_emitted point m | None \<Rightarrow> m))
            (broadcast_commit_artifacts ns es (w\<lparr>wr_index := ix\<rparr>))))"

section \<open>One append\<close>

definition unsigned_receipt :: "u128 \<Rightarrow> u64 \<Rightarrow> disk_pos \<Rightarrow> bytes \<Rightarrow> extensions \<Rightarrow> receipt" where
  "unsigned_receipt event_id sequence pos content exts =
     \<lparr>rc_event_id = event_id, rc_global_sequence = sequence, rc_disk_pos = pos, rc_content_hash = content,
      rc_key_id = replicate 32 0, rc_signature = None, rc_extensions = exts\<rparr>"

definition sign_receipt :: "'v writer_env \<Rightarrow> receipt \<Rightarrow> coordinate \<Rightarrow> EventKind \<Rightarrow> bytes \<Rightarrow> receipt" where
  "sign_receipt env = sign_append_receipt (we_signing env) (we_registry env)"

definition replay_durable :: "'v writer_env \<Rightarrow> idemp_entry \<Rightarrow> (StoreError, receipt) result" where
  "replay_durable env d =
     (case coordinate_new (id_entity d) (id_scope d) of
        Inl err \<Rightarrow> Inl (store_error_of_coordinate err)
      | Inr coord \<Rightarrow>
          Inr (sign_receipt env (unsigned_receipt (id_event_id d) (id_global_sequence d) (idemp_disk_pos d)
            (id_content_hash d) (id_receipt_extensions d)) coord (id_kind d) (id_prev_hash d)))"

definition replay_entry :: "'v writer_env \<Rightarrow> index_entry \<Rightarrow> receipt" where
  "replay_entry env e =
     sign_receipt env (unsigned_receipt (ie_event_id e) (ie_global_sequence e) (ie_disk_pos e)
       (event_hash (ie_hash_chain e)) (ie_receipt_extensions e)) (ie_coord e) (ie_kind e) (prev_hash (ie_hash_chain e))"

definition try_idempotency_replay :: "'v writer_env \<Rightarrow> u128 \<Rightarrow> ('v, receipt option) op" where
  "try_idempotency_replay env key w =
     (let ix = wr_index w in
      case idemp_get (ix_idemp ix) key of
        Some durable \<Rightarrow> (map_sum id Some (replay_durable env durable), w)
      | None \<Rightarrow>
          (case get_by_id ix key of
             Some entry \<Rightarrow> (Inr (Some (replay_entry env entry)), w)
           | None \<Rightarrow>
               (case admit_new_key (ix_idemp ix) key (index_global_sequence ix) of
                  (r, idemp) \<Rightarrow> (map_sum id (\<lambda>_. None) r, w\<lparr>wr_index := ix\<lparr>ix_idemp := idemp\<rparr>\<rparr>))))"

record append_plan =
  ap_prev_hash :: bytes
  ap_clock :: u32
  ap_wall_ms :: u64
  ap_sequence :: u64

text \<open>The guards of an append: the answer is a replayed receipt or the plan of a new event.\<close>

definition plan_append :: "'v writer_env \<Rightarrow> coordinate \<Rightarrow> i64 \<Rightarrow> append_guards \<Rightarrow> ('v, receipt + append_plan) op" where
  "plan_append env coord timestamp_us g w =
     (let entity = coord_entity coord;
          latest = get_latest_committed (wr_index w) entity (ag_dag_lane g);
          actual = (case latest of None \<Rightarrow> 0 | Some e \<Rightarrow> ie_clock e) in
      if (case ag_expected_sequence g of Some expected \<Rightarrow> actual \<noteq> expected | None \<Rightarrow> False)
      then (Inl (SequenceMismatch entity (the (ag_expected_sequence g)) actual), w)
      else bind_op (case ag_idempotency_key g of
               Some key \<Rightarrow> try_idempotency_replay env key
             | None \<Rightarrow> lift_op (Inr None)) (\<lambda>replay.
        case replay of
          Some r \<Rightarrow> lift_op (Inr (Inl r))
        | None \<Rightarrow>
            bind_op (lift_op (checked_next_clock (map_option ie_clock latest) entity)) (\<lambda>clock.
            bind_op (lift_op (wall_ms_from_timestamp_us timestamp_us)) (\<lambda>raw_ms w1.
              (Inr (Inr \<lparr>ap_prev_hash = (case latest of None \<Rightarrow> replicate 32 0 | Some e \<Rightarrow> event_hash (ie_hash_chain e)),
                 ap_clock = clock,
                 ap_wall_ms = max raw_ms (case latest of None \<Rightarrow> 0 | Some e \<Rightarrow> ie_wall_ms e),
                 ap_sequence = index_global_sequence (wr_index w1)\<rparr>), w1)))) w)"

definition append_dag_depth :: "append_guards \<Rightarrow> u32" where
  "append_dag_depth g =
     (if ag_dag_branch_root g then dp_depth (dag_fork (ag_dag_depth g) (ag_dag_lane g)) else ag_dag_depth g)"

definition stamp_event :: "EventKind \<Rightarrow> append_guards \<Rightarrow> append_plan \<Rightarrow> hash_chain \<Rightarrow> bytes event \<Rightarrow> bytes event" where
  "stamp_event kind g plan chain ev =
     chain_event chain (ev\<lparr>ev_header := (ev_header ev)\<lparr>
       eh_position := with_hlc (ap_wall_ms plan) 0 (append_dag_depth g) (ag_dag_lane g) (ap_clock plan),
       eh_event_kind := kind,
       eh_correlation_id := ag_correlation_id g,
       eh_causation_id := option_filter (\<lambda>cause. cause \<noteq> 0) (ag_causation_id g)\<rparr>\<rparr>)"

definition staged_append ::
  "coordinate \<Rightarrow> bytes event \<Rightarrow> EventKind \<Rightarrow> append_guards \<Rightarrow> append_plan \<Rightarrow> hash_chain \<Rightarrow> staged_committed_event" where
  "staged_append coord ev kind g plan chain =
     \<lparr>sc_coord = coord,
      sc_meta = \<lparr>sm_event_id = eh_event_id (ev_header ev), sm_correlation_id = ag_correlation_id g,
        sm_causation_id = ag_causation_id g, sm_kind = kind, sm_global_sequence = ap_sequence plan\<rparr>,
      sc_timing = \<lparr>tm_timestamp_us = eh_timestamp_us (ev_header ev), tm_wall_ms = ap_wall_ms plan,
        tm_clock = ap_clock plan, tm_dag_lane = ag_dag_lane g, tm_dag_depth = append_dag_depth g\<rparr>,
      sc_hash_chain = chain\<rparr>"

definition append_payload ::
  "coordinate \<Rightarrow> bytes event \<Rightarrow> EventKind \<Rightarrow> append_guards \<Rightarrow> append_plan \<Rightarrow> hash_chain \<Rightarrow> extensions \<Rightarrow> bytes frame_payload" where
  "append_payload coord ev kind g plan chain exts =
     \<lparr>fp_event = stamp_event kind g plan chain ev, fp_entity = coord_entity coord, fp_scope = coord_scope coord,
      fp_receipt_extensions = exts\<rparr>"

definition append_receipt ::
  "'v writer_env \<Rightarrow> coordinate \<Rightarrow> bytes event \<Rightarrow> EventKind \<Rightarrow> append_guards \<Rightarrow> append_plan \<Rightarrow> hash_chain \<Rightarrow> disk_pos \<Rightarrow> receipt" where
  "append_receipt env coord ev kind g plan chain pos =
     sign_receipt env (unsigned_receipt (eh_event_id (ev_header ev)) (ap_sequence plan) pos (event_hash chain) (ag_extensions g))
       coord kind (prev_hash chain)"

text \<open>From acceptance to the written frame: the receipt, with its position, and the event.\<close>

definition write_append_frame ::
  "'v writer_env \<Rightarrow> coordinate \<Rightarrow> bytes event \<Rightarrow> EventKind \<Rightarrow> append_guards \<Rightarrow> append_plan \<Rightarrow> hash_chain \<Rightarrow> ('v, receipt) op" where
  "write_append_frame env coord ev kind g plan chain =
     bind_op (ask (we_now_mono_ns env)) (\<lambda>now w.
       let point = HlcPoint (ap_wall_ms plan) (ap_sequence plan);
           r = append_receipt env coord ev kind g plan chain \<lparr>pos_segment = wr_segment_id w, pos_offset = 0, pos_length = 0\<rparr> in
       bind_op (lift_op (frame_encode (we_frame_bytes env) (we_crc env)
           (append_payload coord ev kind g plan chain (rc_extensions r)))) (\<lambda>frame.
       bind_op (maybe_rotate_segment env) (\<lambda>_.
       bind_op (segment_write env frame) (\<lambda>offset w2.
         let w3 = on_marks (advance_written_on_lane (ag_dag_lane g) point) w2 in
         if length frame < 2 ^ 32
         then (Inr (r\<lparr>rc_disk_pos := \<lparr>pos_segment = wr_segment_id w3, pos_offset = offset,
                 pos_length = of_nat (length frame)\<rparr>\<rparr>), w3)
         else (Inl Serialization, w3))))
         (on_marks (advance_accepted_on_lane now (ag_dag_lane g) point) w))"

definition record_commit_index_artifacts :: "sidx_entry \<Rightarrow> index_entry \<Rightarrow> bool \<Rightarrow> u64 \<Rightarrow> ('v, unit) op" where
  "record_commit_index_artifacts entry ie has_key global_seq w =
     (case collector_record (wr_sidx_collector w) entry (coord_entity (ie_coord ie)) (coord_scope (ie_coord ie)) of
        Inl err \<Rightarrow> (Inl err, w)
      | Inr c \<Rightarrow>
          (let w1 = w\<lparr>wr_sidx_collector := c\<rparr>; ix = wr_index w in
           (Inr (), if has_key then w1\<lparr>wr_index := ix\<lparr>ix_idemp := record_entry (ix_idemp ix) (from_index_entry ie global_seq)\<rparr>\<rparr>
                    else w1)))"

definition commit_append ::
  "'v writer_env \<Rightarrow> staged_committed_event \<Rightarrow> bytes event \<Rightarrow> bool \<Rightarrow> receipt \<Rightarrow> ('v, 'v commit_artifacts) op" where
  "commit_append env sev ev has_key r =
     bind_op (ask (we_reactors env)) (\<lambda>emit_envelope.
     bind_op (interned_for_coord (sc_coord sev)) (\<lambda>ids.
       let artifacts = materialize_commit_artifacts env sev (rc_disk_pos r) ids
             \<lparr>cf_payload_bytes = ev_payload ev, cf_flags = eh_flags (ev_header ev),
              cf_receipt_extensions = rc_extensions r, cf_emit_envelope = emit_envelope\<rparr> in
       bind_op (record_commit_index_artifacts (ca_sidx_entry artifacts) (ca_index_entry artifacts) has_key
           (sm_global_sequence (sc_meta sev))) (\<lambda>_ w.
         (Inr artifacts, w\<lparr>wr_index := index_insert (wr_index w) (ca_index_entry artifacts)\<rparr>))))"

definition append_chain :: "'v writer_env \<Rightarrow> append_plan \<Rightarrow> bytes event \<Rightarrow> hash_chain" where
  "append_chain env plan ev = \<lparr>prev_hash = ap_prev_hash plan, event_hash = se_hash (we_signing env) (ev_payload ev)\<rparr>"

text \<open>An append up to its insertion into the index.\<close>

definition append_core ::
  "'v writer_env \<Rightarrow> coordinate \<Rightarrow> bytes event \<Rightarrow> EventKind \<Rightarrow> append_guards \<Rightarrow>
   ('v, receipt + (receipt \<times> append_plan \<times> 'v commit_artifacts)) op" where
  "append_core env coord ev kind g =
     bind_op (plan_append env coord (eh_timestamp_us (ev_header ev)) g) (\<lambda>planned.
       case planned of
         Inl r \<Rightarrow> lift_op (Inr (Inl r))
       | Inr plan \<Rightarrow>
           let chain = append_chain env plan ev in
           bind_op (write_append_frame env coord ev kind g plan chain) (\<lambda>r.
           bind_op (commit_append env (staged_append coord ev kind g plan chain) ev
               (ag_idempotency_key g \<noteq> None) r) (\<lambda>artifacts.
             lift_op (Inr (Inr (r, plan, artifacts))))))"

section \<open>Fence ledgers\<close>

definition fence_ledger_new :: "u64 \<Rightarrow> 'v fence_ledger" where
  "fence_ledger_new token = \<lparr>fl_token = token, fl_publish_up_to = None, fl_frontier_point = None,
     fl_notifications = [], fl_envelopes = [], fl_responses = []\<rparr>"

definition record_publish_up_to :: "u64 \<Rightarrow> HlcPoint \<Rightarrow> 'v fence_ledger \<Rightarrow> 'v fence_ledger" where
  "record_publish_up_to publish_up_to frontier_point f =
     f\<lparr>fl_publish_up_to := Some (max (unwrap_or_zero (fl_publish_up_to f)) publish_up_to),
       fl_frontier_point := Some (max (case fl_frontier_point f of None \<Rightarrow> ORIGIN | Some p \<Rightarrow> p) frontier_point)\<rparr>"

definition extend_artifacts :: "notification list \<Rightarrow> 'v envelope list \<Rightarrow> 'v fence_ledger \<Rightarrow> 'v fence_ledger" where
  "extend_artifacts ns es f =
     f\<lparr>fl_notifications := fl_notifications f @ ns, fl_envelopes := fl_envelopes f @ es\<rparr>"

definition push_response :: "pending_fence_response \<Rightarrow> 'v fence_ledger \<Rightarrow> 'v fence_ledger" where
  "push_response r f = f\<lparr>fl_responses := fl_responses f @ [r]\<rparr>"

definition opt_list :: "'a option \<Rightarrow> 'a list" where
  "opt_list x = (case x of None \<Rightarrow> [] | Some a \<Rightarrow> [a])"

text \<open>The last step of an append: publish, or note the progress of the fence and keep the artifacts.\<close>

definition settle_commit ::
  "u64 \<Rightarrow> u64 \<Rightarrow> HlcPoint \<Rightarrow> notification list \<Rightarrow> 'v envelope list \<Rightarrow> 'v fence_ledger option \<Rightarrow> 'v writer \<Rightarrow>
   (StoreError, unit) result \<times> 'v fence_ledger option \<times> 'v writer" where
  "settle_commit first publish_up_to frontier_point ns es fence w =
     (case fence of
        Some f \<Rightarrow>
          (let f1 = record_publish_up_to publish_up_to frontier_point f in
           case index_note_fence_progress (wr_index w) (fl_token f1) first publish_up_to of
             Inl err \<Rightarrow> (Inl err, Some f1, w)
           | Inr ix \<Rightarrow> (Inr (), Some (extend_artifacts ns es f1), w\<lparr>wr_index := ix\<rparr>))
      | None \<Rightarrow>
          (case publish_then_broadcast_unfenced publish_up_to frontier_point ns es w of (r, w') \<Rightarrow> (r, None, w')))"

definition handle_append ::
  "'v writer_env \<Rightarrow> coordinate \<Rightarrow> bytes event \<Rightarrow> EventKind \<Rightarrow> append_guards \<Rightarrow> 'v fence_ledger option \<Rightarrow> 'v writer \<Rightarrow>
   (StoreError, receipt) result \<times> 'v fence_ledger option \<times> 'v writer" where
  "handle_append env coord ev kind g fence w =
     (case append_core env coord ev kind g w of
        (Inl err, w1) \<Rightarrow> (Inl err, fence, w1)
      | (Inr (Inl r), w1) \<Rightarrow> (Inr r, fence, w1)
      | (Inr (Inr (r, plan, artifacts)), w1) \<Rightarrow>
          (let publish_up_to = (case fence of Some _ \<Rightarrow> saturating_add (ap_sequence plan) 1 | None \<Rightarrow> ap_sequence plan + 1) in
           case settle_commit (ap_sequence plan) publish_up_to (HlcPoint (ap_wall_ms plan) (ap_sequence plan))
               [ca_notification artifacts] (opt_list (ca_envelope artifacts)) fence w1 of
             (Inl err, f', w2) \<Rightarrow> (Inl err, f', w2)
           | (Inr _, f', w2) \<Rightarrow> (Inr r, f', w2)))"

section \<open>Fences\<close>

definition send_reply :: "channel \<Rightarrow> (StoreError, reply) result \<Rightarrow> 'v writer \<Rightarrow> 'v writer" where
  "send_reply respond r w = w\<lparr>wr_replies := wr_replies w @ [(respond, r)]\<rparr>"

fun complete_ok :: "pending_fence_response \<Rightarrow> 'v writer \<Rightarrow> 'v writer" where
  "complete_ok (SingleResponse respond r) = send_reply respond (Inr (Receipt r))"
| "complete_ok (BatchResponse respond rs) = send_reply respond (Inr (Receipts rs))"

fun complete_cancelled :: "pending_fence_response \<Rightarrow> 'v writer \<Rightarrow> 'v writer" where
  "complete_cancelled (SingleResponse respond r) = send_reply respond (Inl VisibilityFenceCancelled)"
| "complete_cancelled (BatchResponse respond rs) = send_reply respond (Inl VisibilityFenceCancelled)"

definition with_matching_fence_ledger ::
  "u64 \<Rightarrow> ('v fence_ledger \<Rightarrow> 'v writer \<Rightarrow> (StoreError, unit) result \<times> 'v fence_ledger \<times> 'v writer) \<Rightarrow> ('v, unit) op" where
  "with_matching_fence_ledger token f w =
     (case wr_fence_ledger w of
        None \<Rightarrow> (Inl VisibilityFenceNotActive, w)
      | Some fence \<Rightarrow>
          if fl_token fence \<noteq> token then (Inl VisibilityFenceNotActive, w)
          else case f fence (w\<lparr>wr_fence_ledger := None\<rparr>) of
              (r, fence', w') \<Rightarrow> (r, w'\<lparr>wr_fence_ledger := Some fence'\<rparr>))"

definition handle_fence_append_command ::
  "'v writer_env \<Rightarrow> u64 \<Rightarrow> coordinate \<Rightarrow> bytes event \<Rightarrow> EventKind \<Rightarrow> append_guards \<Rightarrow> channel \<Rightarrow> ('v, unit) op" where
  "handle_fence_append_command env token coord ev kind g respond =
     with_matching_fence_ledger token (\<lambda>fence w.
       case handle_append env coord ev kind g (Some fence) w of
         (Inl err, f', w') \<Rightarrow> (Inl err, the f', w')
       | (Inr r, f', w') \<Rightarrow> (Inr (), push_response (SingleResponse respond r) (the f'), w'))"

definition writer_begin_fence :: "u64 \<Rightarrow> ('v, unit) op" where
  "writer_begin_fence token w =
     (if wr_fence_ledger w \<noteq> None then (Inl VisibilityFenceActive, w)
      else if active_fence_token (ix_sequence (wr_index w)) \<noteq> Some token then (Inl VisibilityFenceNotActive, w)
      else (Inr (), w\<lparr>wr_fence_ledger := Some (fence_ledger_new token)\<rparr>))"

definition writer_commit_fence :: "u64 \<Rightarrow> ('v, unit) op" where
  "writer_commit_fence token w =
     (case wr_fence_ledger w of
        None \<Rightarrow> (Inl VisibilityFenceNotActive, w)
      | Some fence \<Rightarrow>
          if fl_token fence \<noteq> token then (Inl VisibilityFenceNotActive, w)
          else bind_op (fence_finish_then_broadcast token (fl_publish_up_to fence) (fl_frontier_point fence)
                 (fl_notifications fence) (fl_envelopes fence)) (\<lambda>_ w'.
               (Inr (), fold complete_ok (fl_responses fence) w')) (w\<lparr>wr_fence_ledger := None\<rparr>))"

definition persist_cancelled_visibility_ranges :: "'v writer_env \<Rightarrow> ('v, unit) op" where
  "persist_cancelled_visibility_ranges env w =
     (case write_cancelled_ranges (we_ranges_bytes env) (we_crc env) (cancelled_ranges_snapshot (ix_sequence (wr_index w))) of
        Inl err \<Rightarrow> (Inl err, w)
      | Inr f \<Rightarrow>
          bind_op (ask (we_io env)) (\<lambda>outcome w1.
            if outcome = None then (Inr (), w1\<lparr>wr_ranges_file := f\<rparr>) else (Inl Io, w1)) w)"

definition writer_cancel_fence :: "'v writer_env \<Rightarrow> u64 \<Rightarrow> ('v, unit) op" where
  "writer_cancel_fence env token w =
     (case wr_fence_ledger w of
        None \<Rightarrow> (Inl VisibilityFenceNotActive, w)
      | Some fence \<Rightarrow>
          if fl_token fence \<noteq> token then (Inl VisibilityFenceNotActive, w)
          else (let w1 = w\<lparr>wr_fence_ledger := None\<rparr> in
            case cancel_visibility_fence (wr_index w1) token of
              Inl err \<Rightarrow> (Inl err, w1)
            | Inr ix \<Rightarrow>
                bind_op (persist_cancelled_visibility_ranges env) (\<lambda>_ w2.
                  (Inr (), fold complete_cancelled (fl_responses fence) w2)) (w1\<lparr>wr_index := ix\<rparr>)))"

definition auto_cancel_fence_on_shutdown :: "'v writer_env \<Rightarrow> 'v writer \<Rightarrow> 'v writer" where
  "auto_cancel_fence_on_shutdown env w =
     (case wr_fence_ledger w of
        None \<Rightarrow> w
      | Some fence \<Rightarrow>
          (let w1 = w\<lparr>wr_fence_ledger := None\<rparr>;
               w2 = (case cancel_visibility_fence (wr_index w1) (fl_token fence) of
                       Inl _ \<Rightarrow> w1 | Inr ix \<Rightarrow> w1\<lparr>wr_index := ix\<rparr>);
               w3 = snd (persist_cancelled_visibility_ranges env w2) in
           fold complete_cancelled (fl_responses fence) w3))"

section \<open>Verifying a receipt against the index\<close>

definition append_receipt_index_mismatch :: "receipt \<Rightarrow> index_entry \<Rightarrow> ReceiptVerificationError option" where
  "append_receipt_index_mismatch r e =
     (if rc_event_id r \<noteq> ie_event_id e then Some EventIdMismatch
      else if rc_global_sequence r \<noteq> ie_global_sequence e then Some ReceiptSequenceMismatch
      else if rc_disk_pos r \<noteq> ie_disk_pos e then Some DiskPositionMismatch
      else if rc_content_hash r \<noteq> event_hash (ie_hash_chain e) then Some ContentHashMismatch
      else if rc_extensions r \<noteq> ie_receipt_extensions e then Some ExtensionsMismatch
      else None)"

definition denial_receipt_index_mismatch :: "receipt \<Rightarrow> index_entry \<Rightarrow> ReceiptVerificationError option" where
  "denial_receipt_index_mismatch r e =
     (if ie_kind e \<noteq> SYSTEM_DENIAL then Some DenialKindMismatch
      else if rc_event_id r \<noteq> ie_event_id e then Some EventIdMismatch
      else if rc_global_sequence r \<noteq> ie_global_sequence e then Some ReceiptSequenceMismatch
      else if rc_disk_pos r \<noteq> ie_disk_pos e then Some DiskPositionMismatch
      else if rc_content_hash r \<noteq> event_hash (ie_hash_chain e) then Some ContentHashMismatch
      else if rc_extensions r \<noteq> ie_receipt_extensions e then Some ExtensionsMismatch
      else None)"

definition store_verify_receipt ::
  "(receipt \<Rightarrow> index_entry \<Rightarrow> ReceiptVerificationError option) \<Rightarrow> signing_env \<Rightarrow> signing_registry \<Rightarrow> store_index \<Rightarrow> receipt \<Rightarrow>
   ReceiptVerification" where
  "store_verify_receipt mismatch env reg ix r =
     (case get_by_id ix (rc_event_id r) of
        None \<Rightarrow> ReceiptInvalid MissingCommittedEvent
      | Some e \<Rightarrow>
          (case mismatch r e of
             Some err \<Rightarrow> ReceiptInvalid err
           | None \<Rightarrow> registry_verify_receipt env reg r (ie_coord e) (ie_kind e) (prev_hash (ie_hash_chain e))))"

definition verify_append_receipt :: "signing_env \<Rightarrow> signing_registry \<Rightarrow> store_index \<Rightarrow> receipt \<Rightarrow> ReceiptVerification" where
  "verify_append_receipt = store_verify_receipt append_receipt_index_mismatch"

definition verify_denial_receipt :: "signing_env \<Rightarrow> signing_registry \<Rightarrow> store_index \<Rightarrow> receipt \<Rightarrow> ReceiptVerification" where
  "verify_denial_receipt = store_verify_receipt denial_receipt_index_mismatch"

end
