(* ===== verification/Append.thy ===== *)
theory Append
  imports Writer
begin

text \<open>
  What an append does. The first part is a small calculus of effects: a locale of relations
  between the writer's states that are kept by sequencing, with two instances, the log and
  everything published staying as they were, and the files on disk only growing. The second part
  states what an append commits: the log of index entries and their hash chains, the frame on
  disk, the receipt, and its replay.
\<close>

section \<open>Effects\<close>

lemma bind_opE:
  assumes "bind_op m f w = (r, w')"
  obtains (fails) err where "m w = (Inl err, w')" "r = Inl err"
    | (goes) a w1 where "m w = (Inr a, w1)" "f a w1 = (r, w')"
proof (cases "m w")
  case (Pair r1 w1)
  then show ?thesis using assms that by (cases r1) (auto simp: bind_op_def)
qed

lemma bind_op_Inr:
  "bind_op m f w = (Inr b, w') \<longleftrightarrow> (\<exists>a w1. m w = (Inr a, w1) \<and> f a w1 = (Inr b, w'))"
  by (auto simp: bind_op_def split: prod.splits sum.splits)

lemma lift_op_eq [simp]: "lift_op r w = (r, w)"
  by (simp add: lift_op_def)

lemma ask_eq [simp]: "ask answer w = (Inr (answer (wr_tick w)), w\<lparr>wr_tick := Suc (wr_tick w)\<rparr>)"
  by (simp add: ask_def)

lemma bind_ask [simp]:
  "bind_op (ask answer) f w = f (answer (wr_tick w)) (w\<lparr>wr_tick := Suc (wr_tick w)\<rparr>)"
  by (simp add: bind_op_def)

lemma bind_lift [simp]: "bind_op (lift_op r) f w = (case r of Inl err \<Rightarrow> (Inl err, w) | Inr a \<Rightarrow> f a w)"
  by (simp add: bind_op_def split: sum.split)

locale effect =
  fixes R :: "'v writer \<Rightarrow> 'v writer \<Rightarrow> bool"
  assumes refl: "R w w"
    and trans: "R u v \<Longrightarrow> R v w \<Longrightarrow> R u w"
    and ticks: "R w (w\<lparr>wr_tick := t\<rparr>)"
    and marks: "R w (on_marks h w)"
begin

lemma bind_keeps:
  assumes "R w (snd (m w))" and "\<And>a w1. m w = (Inr a, w1) \<Longrightarrow> R w1 (snd (f a w1))"
  shows "R w (snd (bind_op m f w))"
proof (cases "m w")
  case (Pair r1 w1)
  with assms show ?thesis by (cases r1) (auto simp: bind_op_def intro: trans)
qed

lemma ask_keeps: "R w (snd (ask answer w))"
  using ticks by simp

lemma bind_ask_keeps:
  "(\<And>a. R (w\<lparr>wr_tick := Suc (wr_tick w)\<rparr>) (snd (f a (w\<lparr>wr_tick := Suc (wr_tick w)\<rparr>)))) \<Longrightarrow> R w (snd (bind_op (ask answer) f w))"
  using ticks trans by simp blast

lemma sync_keeps: "R w (snd (sync_with_mode env w))"
  using ticks refl by (auto simp: sync_with_mode_def split: option.split)

end

text \<open>The log and what was published from it.\<close>

definition same_log :: "'v writer \<Rightarrow> 'v writer \<Rightarrow> bool" where
  "same_log w w' \<longleftrightarrow> wr_index w' = wr_index w \<and> wr_fence_ledger w' = wr_fence_ledger w \<and>
     wr_notifications w' = wr_notifications w \<and> wr_envelopes w' = wr_envelopes w \<and>
     wr_replies w' = wr_replies w \<and> wr_ranges_file w' = wr_ranges_file w"

definition disk :: "'v writer \<Rightarrow> u64 \<Rightarrow> bytes option" where
  "disk w sid = (if sid = wr_segment_id w then seg_file (wr_active_segment w) else bt_get (wr_files w) sid)"

definition disk_grows :: "'v writer \<Rightarrow> 'v writer \<Rightarrow> bool" where
  "disk_grows w w' \<longleftrightarrow> (\<forall>sid f. disk w sid = Some f \<longrightarrow> (\<exists>x. disk w' sid = Some (f @ x)))"

interpretation logs: effect same_log
  by unfold_locales (auto simp: same_log_def on_marks_def)

interpretation disks: effect disk_grows
proof
  fix u v w :: "'v writer" and t h
  show "disk_grows w w" by (auto simp: disk_grows_def)
  show "disk_grows u v \<Longrightarrow> disk_grows v w \<Longrightarrow> disk_grows u w" unfolding disk_grows_def by (metis append_assoc)
  show "disk_grows w (w\<lparr>wr_tick := t\<rparr>)" by (auto simp: disk_grows_def disk_def)
  show "disk_grows w (on_marks h w)" by (auto simp: disk_grows_def disk_def on_marks_def)
qed

section \<open>The segment under the writer\<close>

lemma segment_write_log: "same_log w (snd (segment_write env frame w))"
  by (auto simp: segment_write_def same_log_def Let_def split: option.split prod.split)

lemma segment_write_disk: "disk_grows w (snd (segment_write env frame w))"
  by (auto simp: segment_write_def disk_grows_def disk_def Let_def write_frame_def split: option.split)

lemma footer_log: "same_log w (snd (write_sidx_footer env w))"
  by (auto simp: write_sidx_footer_def same_log_def Let_def split: option.split sum.split)

lemma write_footer_prefix: "write_footer tb crc c f sid = Inr f' \<Longrightarrow> \<exists>x. f' = f @ x"
  by (auto simp: write_footer_def Let_def split: option.splits if_splits)

lemma footer_disk: "disk_grows w (snd (write_sidx_footer env w))"
proof (cases "seg_file (wr_active_segment w)")
  case (Some f)
  have "\<exists>x. disk (snd (write_sidx_footer env w)) (wr_segment_id w) = Some (f @ x)"
    using Some write_footer_prefix [of "we_table_bytes env" "we_crc env" "wr_sidx_collector w" f]
    by (fastforce simp: write_sidx_footer_def disk_def Let_def split: sum.split option.split)
  moreover have "disk (snd (write_sidx_footer env w)) sid = disk w sid" if "sid \<noteq> wr_segment_id w" for sid
    using that Some by (auto simp: write_sidx_footer_def disk_def Let_def split: sum.split option.split)
  ultimately show ?thesis using Some by (auto simp: disk_grows_def disk_def)
qed (simp add: write_sidx_footer_def disks.refl)

lemma create_log: "same_log w (snd (create_segment env sid w))"
  by (auto simp: create_segment_def same_log_def Let_def split: sum.split option.split)

text \<open>What a creation leaves alone, and the file it leaves behind when it succeeds.\<close>

lemma create_frame:
  "wr_active_segment (snd (create_segment env sid w)) = wr_active_segment w"
  "wr_segment_id (snd (create_segment env sid w)) = wr_segment_id w"
  "wr_sidx_collector (snd (create_segment env sid w)) = wr_sidx_collector w"
  "wr_watermarks (snd (create_segment env sid w)) = wr_watermarks w"
  by (auto simp: create_segment_def Let_def split: sum.split option.split)

lemma create_disk: "disk_grows w (snd (create_segment env sid w))"
  by (auto simp: create_segment_def disk_grows_def disk_def Let_def split: sum.split option.split)

lemma create_ok:
  assumes "create_segment env sid w = (Inr seg, w')"
  shows "sid \<noteq> wr_segment_id w" and "bt_get (wr_files w) sid = None"
    and "bt_get (wr_files w') sid = Some (file_contents seg)"
    and "\<exists>created_ns. create_with_created_ns (we_header_bytes env) sid created_ns = Inr seg"
  using assms by (auto simp: create_segment_def Let_def split: if_splits sum.splits option.splits)

lemma footer_frame:
  "wr_files (snd (write_sidx_footer env w)) = wr_files w"
  "wr_segment_id (snd (write_sidx_footer env w)) = wr_segment_id w"
  "wr_watermarks (snd (write_sidx_footer env w)) = wr_watermarks w"
  by (auto simp: write_sidx_footer_def Let_def split: sum.split option.split)

lemma sync_frame:
  "wr_files (snd (sync_with_mode env w)) = wr_files w"
  "wr_segment_id (snd (sync_with_mode env w)) = wr_segment_id w"
  "wr_active_segment (snd (sync_with_mode env w)) = wr_active_segment w"
  "wr_watermarks (snd (sync_with_mode env w)) = wr_watermarks w"
  "wr_sidx_collector (snd (sync_with_mode env w)) = wr_sidx_collector w"
  by (auto simp: sync_with_mode_def split: option.split)

lemma new_segment:
  assumes "create_with_created_ns hb sid ns = Inr seg"
  shows "\<exists>f. seg_file seg = Some f \<and> written_bytes seg = of_nat (length f) \<and> length f < 2 ^ 33"
    and "sh_segment_id (seg_header seg) = sid"
  using assms
  by (auto simp: create_with_created_ns_def Let_def SEGMENT_MAGIC_def split: option.splits if_splits)

text \<open>The footer of the old segment, whose failure is not fatal.\<close>

definition sealed_state :: "'v writer_env \<Rightarrow> 'v writer \<Rightarrow> 'v writer" where
  "sealed_state env w =
     snd (bind_op (write_sidx_footer env) (\<lambda>_. sync_with_mode env) (on_marks advance_durable_to_accepted w))"

lemma sealed_frame:
  "wr_files (sealed_state env w) = wr_files w"
  "wr_segment_id (sealed_state env w) = wr_segment_id w"
  "same_log w (sealed_state env w)"
  "disk_grows w (sealed_state env w)"
  "wr_watermarks (sealed_state env w) = advance_durable_to_accepted (wr_watermarks w)"
proof -
  let ?w = "on_marks advance_durable_to_accepted w"
  show "same_log w (sealed_state env w)"
    unfolding sealed_state_def by (rule logs.trans [OF logs.marks logs.bind_keeps]) (rule footer_log logs.sync_keeps)+
  show "disk_grows w (sealed_state env w)"
    unfolding sealed_state_def by (rule disks.trans [OF disks.marks disks.bind_keeps]) (rule footer_disk disks.sync_keeps)+
  show "wr_files (sealed_state env w) = wr_files w" "wr_segment_id (sealed_state env w) = wr_segment_id w"
    "wr_watermarks (sealed_state env w) = advance_durable_to_accepted (wr_watermarks w)"
    using footer_frame [of env ?w] sync_frame [of env]
    by (auto simp: sealed_state_def bind_op_def on_marks_def split: prod.splits sum.splits)
qed

text \<open>The three ways a rotation goes.\<close>

lemma rotate_cases:
  assumes "maybe_rotate_segment env w = (r, w')"
  obtains (none) "\<not> needs_rotation (wr_active_segment w) (we_segment_max_bytes env)" "r = Inr False" "w' = w"
    | (failed) err where "needs_rotation (wr_active_segment w) (we_segment_max_bytes env)" "r = Inl err"
        "same_log w w'" "disk_grows w w'" "wr_active_segment w' = wr_active_segment w"
        "wr_segment_id w' = wr_segment_id w" "wr_watermarks w' = wr_watermarks w"
        "wr_sidx_collector w' = wr_sidx_collector w"
    | (rotated) seg w2 where "needs_rotation (wr_active_segment w) (we_segment_max_bytes env)" "r = Inr True"
        "same_log w w2" "disk_grows w w2" "wr_watermarks w2 = wr_watermarks w" "wr_segment_id w2 = wr_segment_id w"
        "create_segment env (wr_segment_id w + 1) w = (Inr seg, snd (create_segment env (wr_segment_id w + 1) w))"
        "bt_get (wr_files w2) (wr_segment_id w + 1) = Some (file_contents seg)"
        "w' = swap_active_segment seg (sealed_state env w2)"
proof (cases "needs_rotation (wr_active_segment w) (we_segment_max_bytes env)")
  case False
  then have "r = Inr False" "w' = w" using assms by (simp_all add: maybe_rotate_segment_def)
  with False show ?thesis by (rule none)
next
  case True
  let ?w1 = "snd (create_segment env (wr_segment_id w + 1) w)"
  have run: "bind_op (create_segment env (wr_segment_id w + 1)) (\<lambda>new_active.
      bind_op (sync_with_mode env) (\<lambda>_ w2. (Inr True, swap_active_segment new_active (sealed_state env w2)))) w = (r, w')"
    using assms True by (simp add: maybe_rotate_segment_def sealed_state_def Let_def)
  from run show ?thesis
  proof (cases rule: bind_opE)
    case (fails err)
    then have w': "w' = ?w1" by simp
    show ?thesis
      by (rule failed [OF True fails(2)]) (simp_all add: w' create_log create_disk create_frame)
  next
    case (goes seg w1)
    then have w1: "?w1 = w1" by simp
    have log: "same_log w w1" "disk_grows w w1" using create_log create_disk w1 by metis+
    from goes(2) show ?thesis
    proof (cases rule: bind_opE)
      case (fails err)
      have w': "w' = snd (sync_with_mode env w1)" using fails by simp
      show ?thesis
      proof (rule failed [OF True fails(2)])
        show "same_log w w'" "disk_grows w w'"
          unfolding w' using log logs.trans [OF _ logs.sync_keeps] disks.trans [OF _ disks.sync_keeps] by blast+
      qed (simp_all add: w' sync_frame create_frame flip: w1)
    next
      case inner: (goes u w2)
      have w2: "w2 = snd (sync_with_mode env w1)" using inner(1) by simp
      show ?thesis
      proof (rule rotated [OF True, of w2 seg])
        show "same_log w w2" "disk_grows w w2"
          unfolding w2 using log logs.trans [OF _ logs.sync_keeps] disks.trans [OF _ disks.sync_keeps] by blast+
        show "create_segment env (wr_segment_id w + 1) w = (Inr seg, ?w1)" using \<open>create_segment env (wr_segment_id w + 1) w = (Inr seg, w1)\<close> w1 by simp
        show "bt_get (wr_files w2) (wr_segment_id w + 1) = Some (file_contents seg)"
          using create_ok(3) [OF \<open>create_segment env (wr_segment_id w + 1) w = (Inr seg, w1)\<close>] by (simp add: w2 sync_frame)
      qed (use inner(2) in \<open>auto simp: w2 sync_frame create_frame simp flip: w1\<close>)
    qed
  qed
qed

text \<open>The writer's idea of the end of the file is the end of the file.\<close>

definition positioned :: "'v writer \<Rightarrow> bool" where
  "positioned w \<longleftrightarrow> (\<exists>f. seg_file (wr_active_segment w) = Some f \<and> written_bytes (wr_active_segment w) = of_nat (length f) \<and>
     length f < 2 ^ 63)"

lemma swap_disk:
  assumes "bt_get (wr_files w) (wr_segment_id w + 1) = Some (file_contents seg)" and "seg_file seg = Some f"
  shows "disk_grows w (swap_active_segment seg w)"
proof -
  have "disk (swap_active_segment seg w) sid = (if sid = wr_segment_id w then Some (file_contents (wr_active_segment w)) else disk w sid)" for sid
    using assms by (auto simp: disk_def swap_active_segment_def Let_def bt_get_remove file_contents_def)
  then show ?thesis by (auto simp: disk_grows_def disk_def file_contents_def)
qed

lemma rotate_disk: "disk_grows w (snd (maybe_rotate_segment env w))"
proof (rule rotate_cases [of env w "fst (maybe_rotate_segment env w)" "snd (maybe_rotate_segment env w)"])
  fix seg w2
  assume w2: "disk_grows w w2" "wr_segment_id w2 = wr_segment_id w"
    "bt_get (wr_files w2) (wr_segment_id w + 1) = Some (file_contents seg)"
    and new: "create_segment env (wr_segment_id w + 1) w = (Inr seg, snd (create_segment env (wr_segment_id w + 1) w))"
    and w': "snd (maybe_rotate_segment env w) = swap_active_segment seg (sealed_state env w2)"
  obtain f where "seg_file seg = Some f" using create_ok(4) [OF new] new_segment(1) by blast
  then have "disk_grows w2 (swap_active_segment seg (sealed_state env w2))"
    using w2 by (intro disks.trans [OF sealed_frame(4) swap_disk]) (auto simp: sealed_frame)
  then show ?thesis unfolding w' by (rule disks.trans [OF w2(1)])
qed (auto simp: disks.refl)

lemma rotate_ok:
  assumes run: "maybe_rotate_segment env w = (Inr b, w')" and pos: "positioned w"
  shows "positioned w'" and "same_log w w'" and "disk_grows w w'"
    and "wr_watermarks w' = (if b then advance_durable_to_accepted (wr_watermarks w) else wr_watermarks w)"
proof -
  have "positioned w' \<and> same_log w w' \<and> disk_grows w w' \<and>
    wr_watermarks w' = (if b then advance_durable_to_accepted (wr_watermarks w) else wr_watermarks w)"
    using run
  proof (cases rule: rotate_cases)
    case none
    then show ?thesis using pos logs.refl disks.refl by auto
  next
    case (rotated seg w2)
    obtain ns where "create_with_created_ns (we_header_bytes env) (wr_segment_id w + 1) ns = Inr seg"
      using create_ok(4) [OF rotated(7)] by blast
    then obtain f where f: "seg_file seg = Some f" "written_bytes seg = of_nat (length f)" "length f < 2 ^ 33"
      using new_segment(1) by blast
    have "disk_grows w w'" using rotate_disk [of w env] run by simp
    moreover have "same_log w2 w'"
      unfolding rotated(9) using sealed_frame(3) [of w2 env]
      by (simp add: same_log_def swap_active_segment_def Let_def)
    moreover have "positioned w'"
      using f by (auto simp: positioned_def rotated(9) swap_active_segment_def Let_def)
    moreover have "wr_watermarks w' = advance_durable_to_accepted (wr_watermarks w)" "b"
      using rotated(2,5) by (simp_all add: rotated(9) swap_active_segment_def Let_def sealed_frame)
    ultimately show ?thesis using rotated(3) logs.trans by metis
  qed simp
  then show "positioned w'" "same_log w w'" "disk_grows w w'"
    "wr_watermarks w' = (if b then advance_durable_to_accepted (wr_watermarks w) else wr_watermarks w)" by auto
qed

lemma rotate_log: "same_log w (snd (maybe_rotate_segment env w))"
  by (rule rotate_cases [of env w "fst (maybe_rotate_segment env w)" "snd (maybe_rotate_segment env w)"])
    (auto simp: swap_active_segment_def Let_def same_log_def sealed_frame(3) [unfolded same_log_def])

section \<open>Frames on disk\<close>

definition holds_frame :: "'v writer_env \<Rightarrow> 'v writer \<Rightarrow> disk_pos \<Rightarrow> bytes frame_payload \<Rightarrow> bool" where
  "holds_frame env w pos fp \<longleftrightarrow>
     (\<exists>f frame. disk w (pos_segment pos) = Some f \<and> frame_encode (we_frame_bytes env) (we_crc env) fp = Inr frame \<and>
        unat (pos_length pos) = length frame \<and> take (length frame) (drop (unat (pos_offset pos)) f) = frame)"

lemma holds_frame_mono:
  assumes "disk_grows w w'" and "holds_frame env w pos fp"
  shows "holds_frame env w' pos fp"
proof -
  from assms(2) obtain f frame where f: "disk w (pos_segment pos) = Some f"
    "frame_encode (we_frame_bytes env) (we_crc env) fp = Inr frame" "unat (pos_length pos) = length frame"
    "take (length frame) (drop (unat (pos_offset pos)) f) = frame" by (auto simp: holds_frame_def)
  moreover obtain x where "disk w' (pos_segment pos) = Some (f @ x)" using assms(1) f(1) by (auto simp: disk_grows_def)
  moreover have "length frame \<le> length f - unat (pos_offset pos)" using f(4) by (metis length_drop length_take min.cobounded1 min_def)
  ultimately show ?thesis unfolding holds_frame_def by (intro exI [of _ "f @ x"] exI [of _ frame]) simp
qed

lemma segment_write_ok:
  assumes run: "segment_write env frame w = (Inr offset, w')" and pos: "positioned w"
  obtains f where "seg_file (wr_active_segment w) = Some f" "offset = of_nat (length f)" "unat offset = length f"
    "seg_file (wr_active_segment w') = Some (f @ frame)" "wr_segment_id w' = wr_segment_id w"
    "written_bytes (wr_active_segment w') = of_nat (length (f @ frame))"
    "wr_watermarks w' = wr_watermarks w"
proof -
  obtain f where f: "seg_file (wr_active_segment w) = Some f" "written_bytes (wr_active_segment w) = of_nat (length f)"
    "length f < 2 ^ 63" using pos by (auto simp: positioned_def)
  have "unat (of_nat (length f) :: u64) = length f" using f(3) by (simp add: unat_of_nat)
  with run f show thesis
    by (intro that [of f]) (auto simp: segment_write_def Let_def write_frame_def split: option.splits)
qed

lemma sign_receipt_pos:
  "sign_receipt env (r\<lparr>rc_disk_pos := pos\<rparr>) coord kind prev = (sign_receipt env r coord kind prev)\<lparr>rc_disk_pos := pos\<rparr>"
  by (auto simp: sign_receipt_def sign_append_receipt_def receipt_cover_def downgrade_receipt_signing_def Let_def
      split: sum.split option.split)

lemma append_receipt_pos:
  "append_receipt env coord ev kind g plan chain pos = (append_receipt env coord ev kind g plan chain pos0)\<lparr>rc_disk_pos := pos\<rparr>"
  by (simp add: append_receipt_def unsigned_receipt_def flip: sign_receipt_pos)

lemma write_append_frame_log: "same_log w (snd (write_append_frame env coord ev kind g plan chain w))"
proof -
  have tail: "same_log w2 (snd (bind_op (maybe_rotate_segment env) (\<lambda>_. bind_op (segment_write env frame) (\<lambda>offset w2.
      let w3 = on_marks h w2 in if length frame < 2 ^ 32 then (Inr (k w3 offset), w3) else (Inl Serialization, w3))) w2))"
    for frame and h :: "watermark_state \<Rightarrow> watermark_state" and k :: "'a writer \<Rightarrow> u64 \<Rightarrow> receipt" and w2
    by (intro logs.bind_keeps rotate_log segment_write_log) (simp add: Let_def logs.marks)
  show ?thesis
    unfolding write_append_frame_def Let_def
    by (rule logs.bind_ask_keeps, rule logs.trans [OF logs.marks], rule logs.bind_keeps)
      (simp add: logs.refl, rule tail [unfolded Let_def])
qed

lemma write_append_frame_disk: "disk_grows w (snd (write_append_frame env coord ev kind g plan chain w))"
proof -
  have tail: "disk_grows w2 (snd (bind_op (maybe_rotate_segment env) (\<lambda>_. bind_op (segment_write env frame) (\<lambda>offset w2.
      let w3 = on_marks h w2 in if length frame < 2 ^ 32 then (Inr (k w3 offset), w3) else (Inl Serialization, w3))) w2))"
    for frame and h :: "watermark_state \<Rightarrow> watermark_state" and k :: "'a writer \<Rightarrow> u64 \<Rightarrow> receipt" and w2
    by (intro disks.bind_keeps rotate_disk segment_write_disk) (simp add: Let_def disks.marks)
  show ?thesis
    unfolding write_append_frame_def Let_def
    by (rule disks.bind_ask_keeps, rule disks.trans [OF disks.marks], rule disks.bind_keeps)
      (simp add: disks.refl, rule tail [unfolded Let_def])
qed

lemma append_receipt_fields [simp]:
  "rc_disk_pos (append_receipt env coord ev kind g plan chain pos) = pos"
  "rc_event_id (append_receipt env coord ev kind g plan chain pos) = eh_event_id (ev_header ev)"
  "rc_global_sequence (append_receipt env coord ev kind g plan chain pos) = ap_sequence plan"
  "rc_content_hash (append_receipt env coord ev kind g plan chain pos) = event_hash chain"
  by (auto simp: append_receipt_def sign_receipt_def sign_append_receipt_def unsigned_receipt_def
      downgrade_receipt_signing_def Let_def split: sum.split option.split)

lemma write_append_frame_ok:
  assumes run: "write_append_frame env coord ev kind g plan chain w = (Inr r, w')" and pos: "positioned w"
  obtains p where "r = append_receipt env coord ev kind g plan chain p"
    "holds_frame env w' p (append_payload coord ev kind g plan chain (rc_extensions r))"
    "\<exists>f. seg_file (wr_active_segment w') = Some f \<and> written_bytes (wr_active_segment w') = of_nat (length f)"
    "pos_segment p = wr_segment_id w'"
proof -
  let ?p0 = "\<lparr>pos_segment = wr_segment_id w, pos_offset = 0, pos_length = 0\<rparr> :: disk_pos"
  let ?r0 = "append_receipt env coord ev kind g plan chain ?p0"
  let ?point = "HlcPoint (ap_wall_ms plan) (ap_sequence plan)"
  let ?w1 = "on_marks (advance_accepted_on_lane (we_now_mono_ns env (wr_tick w)) (ag_dag_lane g) ?point) (w\<lparr>wr_tick := Suc (wr_tick w)\<rparr>)"
  let ?fp = "append_payload coord ev kind g plan chain (rc_extensions ?r0)"
  obtain frame b w2 offset w3 where enc: "frame_encode (we_frame_bytes env) (we_crc env) ?fp = Inr frame"
    and rot: "maybe_rotate_segment env ?w1 = (Inr b, w2)" and wr: "segment_write env frame w2 = (Inr offset, w3)"
    and len: "length frame < 2 ^ 32" and w': "w' = on_marks (advance_written_on_lane (ag_dag_lane g) ?point) w3"
    and r: "r = ?r0\<lparr>rc_disk_pos := \<lparr>pos_segment = wr_segment_id w3, pos_offset = offset, pos_length = of_nat (length frame)\<rparr>\<rparr>"
    using run unfolding write_append_frame_def Let_def bind_ask bind_lift bind_op_Inr
    by (auto simp: on_marks_def bind_op_Inr split: sum.splits if_splits)
  have "positioned ?w1" using pos by (simp add: positioned_def on_marks_def)
  then have pos2: "positioned w2" by (rule rotate_ok(1) [OF rot])
  obtain f where f: "unat offset = length f" "seg_file (wr_active_segment w3) = Some (f @ frame)"
    "written_bytes (wr_active_segment w3) = of_nat (length (f @ frame))"
    by (rule segment_write_ok [OF wr pos2])
  let ?p = "\<lparr>pos_segment = wr_segment_id w3, pos_offset = offset, pos_length = of_nat (length frame)\<rparr> :: disk_pos"
  have r': "r = append_receipt env coord ev kind g plan chain ?p"
    unfolding r by (rule append_receipt_pos [symmetric])
  moreover have "rc_extensions r = rc_extensions ?r0" by (simp add: r)
  moreover have "unat (of_nat (length frame) :: u32) = length frame" using len by (simp add: unat_of_nat)
  ultimately show thesis
    using enc f by (intro that [of ?p]) (auto simp: holds_frame_def disk_def w' on_marks_def)
qed

section \<open>The log\<close>

fun follows :: "index_entry option \<Rightarrow> index_entry \<Rightarrow> bool" where
  "follows None e \<longleftrightarrow> ie_clock e = 0 \<and> prev_hash (ie_hash_chain e) = ZERO_HASH"
| "follows (Some p) e \<longleftrightarrow> unat (ie_clock e) = unat (ie_clock p) + 1 \<and>
     prev_hash (ie_hash_chain e) = event_hash (ie_hash_chain p) \<and> ie_wall_ms p \<le> ie_wall_ms e"

definition stream_of :: "string \<Rightarrow> u32 \<Rightarrow> index_entry list \<Rightarrow> index_entry list" where
  "stream_of entity lane es = filter (\<lambda>e. entity_of e = entity \<and> ie_dag_lane e = lane) es"

inductive chained :: "index_entry list \<Rightarrow> bool" where
  chained_empty: "chained []"
| chained_snoc: "chained es \<Longrightarrow> follows (last_option (stream_of (entity_of e) (ie_dag_lane e) es)) e \<Longrightarrow> chained (es @ [e])"

text \<open>A chained log numbers every stream of an entity and lane from zero without gaps.\<close>

lemma chained_clocks:
  "chained es \<Longrightarrow> i < length (stream_of entity lane es) \<Longrightarrow> unat (ie_clock (stream_of entity lane es ! i)) = i"
proof (induction arbitrary: i rule: chained.induct)
  case (chained_snoc es e)
  let ?s = "stream_of entity lane es"
  show ?case
  proof (cases "entity_of e = entity \<and> ie_dag_lane e = lane")
    case True
    then have s: "stream_of entity lane (es @ [e]) = ?s @ [e]" by (simp add: stream_of_def)
    show ?thesis
    proof (cases "i < length ?s")
      case False
      then have i: "i = length ?s" using chained_snoc.prems s by simp
      show ?thesis
      proof (cases "?s = []")
        case True
        with \<open>entity_of e = entity \<and> ie_dag_lane e = lane\<close> chained_snoc.hyps(2) show ?thesis by (simp add: s i)
      next
        case False
        then have "last_option ?s = Some (?s ! (length ?s - 1))" by (simp add: last_option_def last_conv_nth)
        with True False chained_snoc.hyps(2) chained_snoc.IH [of "length ?s - 1"] show ?thesis by (simp add: s i)
      qed
    qed (use chained_snoc.IH s in \<open>simp add: nth_append\<close>)
  next
    case False
    then have "stream_of entity lane (es @ [e]) = ?s" by (auto simp: stream_of_def)
    with chained_snoc show ?thesis by simp
  qed
qed (simp add: stream_of_def)

definition log_ok :: "index_entry list \<Rightarrow> store_index \<Rightarrow> bool" where
  "log_ok es ix \<longleftrightarrow> index_holds es ix \<and> heads_hold es ix \<and> gate_inv (ix_sequence ix) \<and> chained es \<and>
     (\<forall>e \<in> set es. ie_global_sequence e < allocated (ix_sequence ix))"

lemma log_ok_idemp [simp]: "log_ok es (ix\<lparr>ix_idemp := i\<rparr>) = log_ok es ix"
  by (simp add: log_ok_def index_holds_def heads_hold_def)

lemma log_ok_gate:
  "log_ok es ix \<Longrightarrow> gate_inv g \<Longrightarrow> allocated (ix_sequence ix) \<le> allocated g \<Longrightarrow> log_ok es (ix\<lparr>ix_sequence := g\<rparr>)"
  by (auto simp: log_ok_def heads_hold_def)

text \<open>Interning keeps the log, as long as the table has room.\<close>

lemma intern_keeps:
  assumes "interner_inv i" and "length (in_reverse i) + 1 < 2 ^ 32"
  obtains key j where "intern i s = (Inr key, j)" "interner_inv j" "interner_get j s = Some key"
    "\<And>t k. interner_get i t = Some k \<Longrightarrow> interner_get j t = Some k" "length (in_reverse j) \<le> length (in_reverse i) + 1"
proof (cases "bt_get (in_forward i) s")
  case None
  have fresh: "s \<notin> set (in_reverse i)" using None assms(1) by (simp add: forward_None_iff)
  then have "interner_get i s = None" using assms(1) None by (simp add: interner_get_def)
  then show thesis
    by (intro that [OF intern_fresh [OF assms(1) fresh assms(2)]]) (auto simp: interner_get_def split: if_splits)
next
  case (Some key)
  then show thesis by (intro that [of key i]) (simp_all add: intern_def assms(1) interner_get_def)
qed

lemma log_ok_interner:
  assumes "log_ok es ix" and "interner_inv j"
    and "\<And>t k. interner_get (ix_interner ix) t = Some k \<Longrightarrow> interner_get j t = Some k"
  shows "log_ok es (ix\<lparr>ix_interner := j\<rparr>)"
  using assms by (auto simp: log_ok_def index_holds_def heads_hold_def)

lemma interned_for_coord_ok:
  assumes "log_ok es (wr_index w)" and "length (in_reverse (ix_interner (wr_index w))) + 2 < 2 ^ 32"
  obtains ids j where "interned_for_coord coord w = (Inr ids, w\<lparr>wr_index := (wr_index w)\<lparr>ix_interner := j\<rparr>\<rparr>)"
    "log_ok es ((wr_index w)\<lparr>ix_interner := j\<rparr>)" "interner_get j (coord_entity coord) = Some (fst ids)"
    "interner_get j (coord_scope coord) = Some (snd ids)"
    "\<And>t k. interner_get (ix_interner (wr_index w)) t = Some k \<Longrightarrow> interner_get j t = Some k"
    "length (in_reverse j) \<le> length (in_reverse (ix_interner (wr_index w))) + 2"
proof -
  let ?i = "ix_interner (wr_index w)"
  have inv: "interner_inv ?i" using assms(1) by (simp add: log_ok_def heads_hold_def)
  obtain k1 j1 where j1: "intern ?i (coord_entity coord) = (Inr k1, j1)" "interner_inv j1" "interner_get j1 (coord_entity coord) = Some k1"
    "\<And>t k. interner_get ?i t = Some k \<Longrightarrow> interner_get j1 t = Some k" "length (in_reverse j1) \<le> length (in_reverse ?i) + 1"
    by (rule intern_keeps [OF inv, of "coord_entity coord"]) (use assms(2) in auto)
  obtain k2 j2 where j2: "intern j1 (coord_scope coord) = (Inr k2, j2)" "interner_inv j2" "interner_get j2 (coord_scope coord) = Some k2"
    "\<And>t k. interner_get j1 t = Some k \<Longrightarrow> interner_get j2 t = Some k" "length (in_reverse j2) \<le> length (in_reverse j1) + 1"
    by (rule intern_keeps [OF j1(2), of "coord_scope coord"]) (use assms(2) j1(5) in auto)
  have "interned_for_coord coord w = (Inr (k1, k2), w\<lparr>wr_index := (wr_index w)\<lparr>ix_interner := j2\<rparr>\<rparr>)"
    using j1(1) j2(1) by (simp add: interned_for_coord_def intern_op_def bind_op_def Let_def)
  then show thesis
    using that [of "(k1, k2)" j2] j1 j2 log_ok_interner [OF assms(1) j2(2)] by simp
qed

section \<open>Planning and committing\<close>

text \<open>Planning changes nothing but the idempotency store, which may evict.\<close>

lemma replay_frame: "\<exists>i. snd (try_idempotency_replay env key w) = w\<lparr>wr_index := (wr_index w)\<lparr>ix_idemp := i\<rparr>\<rparr>"
proof -
  have "\<exists>i. w = w\<lparr>wr_index := (wr_index w)\<lparr>ix_idemp := i\<rparr>\<rparr>"
    by (rule exI [of _ "ix_idemp (wr_index w)"]) simp
  then show ?thesis
    by (auto simp: try_idempotency_replay_def Let_def split: option.split prod.split)
qed

lemma bind_op_reads: "(\<And>a w1. snd (f a w1) = w1) \<Longrightarrow> snd (bind_op m f w) = snd (m w)"
  by (simp add: bind_op_def split: prod.split sum.split)

lemma plan_frame: "\<exists>i. snd (plan_append env coord ts g w) = w\<lparr>wr_index := (wr_index w)\<lparr>ix_idemp := i\<rparr>\<rparr>"
proof -
  have same: "\<exists>i. w = w\<lparr>wr_index := (wr_index w)\<lparr>ix_idemp := i\<rparr>\<rparr>"
    by (rule exI [of _ "ix_idemp (wr_index w)"]) simp
  have "\<exists>i. snd ((case ag_idempotency_key g of Some key \<Rightarrow> try_idempotency_replay env key | None \<Rightarrow> lift_op (Inr None)) w) =
      w\<lparr>wr_index := (wr_index w)\<lparr>ix_idemp := i\<rparr>\<rparr>"
    using same replay_frame by (cases "ag_idempotency_key g") auto
  moreover have "snd (plan_append env coord ts g w) \<in> {w, snd ((case ag_idempotency_key g of
      Some key \<Rightarrow> try_idempotency_replay env key | None \<Rightarrow> lift_op (Inr None)) w)}"
    unfolding plan_append_def Let_def
    by (split if_split) (subst bind_op_reads, auto simp: bind_op_def split: option.split sum.split)
  ultimately show ?thesis using same by auto
qed

lemma plan_new:
  assumes run: "plan_append env coord ts g w = (Inr (Inr plan), w1)"
  defines "latest \<equiv> get_latest_committed (wr_index w) (coord_entity coord) (ag_dag_lane g)"
  shows "checked_next_clock (map_option ie_clock latest) (coord_entity coord) = Inr (ap_clock plan)"
    and "ap_prev_hash plan = (case latest of None \<Rightarrow> ZERO_HASH | Some e \<Rightarrow> event_hash (ie_hash_chain e))"
    and "(case latest of None \<Rightarrow> 0 | Some e \<Rightarrow> ie_wall_ms e) \<le> ap_wall_ms plan"
    and "ap_sequence plan = allocated (ix_sequence (wr_index w))"
proof -
  obtain i where "w1 = w\<lparr>wr_index := (wr_index w)\<lparr>ix_idemp := i\<rparr>\<rparr>" using plan_frame [of env coord ts g w] run by auto
  then show "checked_next_clock (map_option ie_clock latest) (coord_entity coord) = Inr (ap_clock plan)"
    "ap_prev_hash plan = (case latest of None \<Rightarrow> ZERO_HASH | Some e \<Rightarrow> event_hash (ie_hash_chain e))"
    "(case latest of None \<Rightarrow> 0 | Some e \<Rightarrow> ie_wall_ms e) \<le> ap_wall_ms plan"
    "ap_sequence plan = allocated (ix_sequence (wr_index w))"
    using run unfolding plan_append_def Let_def latest_def [symmetric]
    by (auto simp: bind_op_Inr index_global_sequence_def ZERO_HASH_def split: if_splits option.splits sum.splits)
qed

lemma first_clock [simp]: "checked_next_clock None entity = Inr n \<longleftrightarrow> n = 0"
  by (auto simp: checked_next_clock_def)

lemma next_clock: "checked_next_clock (Some c) entity = Inr n \<Longrightarrow> unat n = unat c + 1"
  by (auto simp: checked_next_clock_def checked_add_def unat_word_ariths split: if_splits)

lemma staged_entry_fields [simp]:
  "ie_event_id (staged_index_entry s pos ids exts) = sm_event_id (sc_meta s)"
  "ie_coord (staged_index_entry s pos ids exts) = sc_coord s"
  "ie_entity_id (staged_index_entry s pos ids exts) = fst ids"
  "ie_kind (staged_index_entry s pos ids exts) = sm_kind (sc_meta s)"
  "ie_wall_ms (staged_index_entry s pos ids exts) = tm_wall_ms (sc_timing s)"
  "ie_clock (staged_index_entry s pos ids exts) = tm_clock (sc_timing s)"
  "ie_dag_lane (staged_index_entry s pos ids exts) = tm_dag_lane (sc_timing s)"
  "ie_hash_chain (staged_index_entry s pos ids exts) = sc_hash_chain s"
  "ie_disk_pos (staged_index_entry s pos ids exts) = pos"
  "ie_global_sequence (staged_index_entry s pos ids exts) = sm_global_sequence (sc_meta s)"
  "ie_receipt_extensions (staged_index_entry s pos ids exts) = exts"
  by (simp_all add: staged_index_entry_def Let_def)

lemma plan_follows:
  assumes "plan_append env coord ts g w = (Inr (Inr plan), w1)" and "log_ok es (wr_index w)"
  shows "follows (last_option (stream_of (coord_entity coord) (ag_dag_lane g) es))
    (staged_index_entry (staged_append coord ev kind g plan (append_chain env plan ev)) pos ids exts)"
proof -
  have "heads_hold es (wr_index w)" using assms(2) by (simp add: log_ok_def)
  from latest_committed_exact [OF this] plan_new [OF assms(1)] show ?thesis
    by (cases "last_option (stream_of (coord_entity coord) (ag_dag_lane g) es)")
      (auto simp: staged_append_def append_chain_def stream_of_def dest: next_clock)
qed

lemma advance_step: "advance g = snd (reserve g 1)"
  by (simp add: advance_def reserve_def)

lemma log_ok_insert:
  assumes log: "log_ok es ix" and room: "unat (allocated (ix_sequence ix)) + 1 < 2 ^ 64"
    and fresh: "ie_event_id e \<notin> ie_event_id ` set es" and seq: "ie_global_sequence e = allocated (ix_sequence ix)"
    and key: "interner_get (ix_interner ix) (entity_of e) = Some (ie_entity_id e)"
    and chain: "follows (last_option (stream_of (entity_of e) (ie_dag_lane e) es)) e"
  shows "log_ok (es @ [e]) (index_insert ix e)"
proof -
  let ?g = "ix_sequence ix"
  have less: "x \<le> allocated ?g \<Longrightarrow> x < allocated ?g + 1" for x
    using room by (simp add: word_less_nat_alt word_le_nat_alt unat_word_ariths)
  have "gate_step ?g (advance ?g)"
    unfolding advance_step by (rule step_reserve) (use room in simp)
  then have "gate_inv (advance ?g)" using log gate_step_inv by (auto simp: log_ok_def)
  moreover have "index_holds (es @ [e]) (index_insert ix e)"
    using log fresh seq by (intro index_insert_holds) (auto simp: log_ok_def)
  moreover have "heads_hold (es @ [e]) (insert_inner ix e)"
    using log key by (intro insert_inner_heads) (auto simp: log_ok_def)
  moreover have "chained (es @ [e])" using log chain by (auto simp: log_ok_def intro: chained_snoc)
  moreover have "ie_global_sequence d < allocated ?g + 1" if "d \<in> set (es @ [e])" for d
    using that log seq less by (auto simp: log_ok_def)
  moreover have "ix_sequence (insert_inner ix e) = ?g" by (simp add: insert_inner_def)
  ultimately show ?thesis
    by (auto simp: log_ok_def index_insert_def Let_def heads_hold_def advance_def)
qed

text \<open>Committing: the interner and the idempotency store grow, and the entry joins the log.\<close>

lemma commit_append_ok:
  assumes run: "commit_append env sev ev has_key r w = (Inr art, w')"
    and log: "log_ok es (wr_index w)" and room: "length (in_reverse (ix_interner (wr_index w))) + 2 < 2 ^ 32"
  obtains ids ix where "art = materialize_commit_artifacts env sev (rc_disk_pos r) ids
      \<lparr>cf_payload_bytes = ev_payload ev, cf_flags = eh_flags (ev_header ev), cf_receipt_extensions = rc_extensions r,
       cf_emit_envelope = we_reactors env (wr_tick w)\<rparr>"
    "log_ok es ix" "ix_sequence ix = ix_sequence (wr_index w)" "interner_get (ix_interner ix) (coord_entity (sc_coord sev)) = Some (fst ids)"
    "wr_index w' = index_insert ix (ca_index_entry art)"
    "ix_idemp ix = (if has_key then record_entry (ix_idemp (wr_index w)) (from_index_entry (ca_index_entry art)
       (sm_global_sequence (sc_meta sev))) else ix_idemp (wr_index w))"
    "w' = w\<lparr>wr_tick := wr_tick w', wr_sidx_collector := wr_sidx_collector w', wr_index := wr_index w'\<rparr>"
proof -
  let ?w = "w\<lparr>wr_tick := Suc (wr_tick w)\<rparr>"
  obtain ids j where j: "interned_for_coord (sc_coord sev) ?w = (Inr ids, ?w\<lparr>wr_index := (wr_index ?w)\<lparr>ix_interner := j\<rparr>\<rparr>)"
    "log_ok es ((wr_index ?w)\<lparr>ix_interner := j\<rparr>)" "interner_get j (coord_entity (sc_coord sev)) = Some (fst ids)"
    by (rule interned_for_coord_ok [of es ?w]) (use log room in auto)
  let ?ix = "(wr_index w)\<lparr>ix_interner := j\<rparr>"
  let ?art = "materialize_commit_artifacts env sev (rc_disk_pos r) ids
      \<lparr>cf_payload_bytes = ev_payload ev, cf_flags = eh_flags (ev_header ev), cf_receipt_extensions = rc_extensions r,
       cf_emit_envelope = we_reactors env (wr_tick w)\<rparr>"
  let ?ix' = "if has_key then ?ix\<lparr>ix_idemp := record_entry (ix_idemp (wr_index w)) (from_index_entry (ca_index_entry ?art)
       (sm_global_sequence (sc_meta sev)))\<rparr> else ?ix"
  show thesis
    using run j by (intro that [of ids ?ix'])
      (auto simp: commit_append_def Let_def bind_op_def record_commit_index_artifacts_def split: sum.splits if_splits)
qed

text \<open>A commit that fails leaves the log alone too.\<close>

lemma commit_append_fails:
  assumes run: "commit_append env sev ev has_key r w = (Inl err, w')"
    and log: "log_ok es (wr_index w)" and room: "length (in_reverse (ix_interner (wr_index w))) + 2 < 2 ^ 32"
  shows "log_ok es (wr_index w')"
proof -
  let ?w = "w\<lparr>wr_tick := Suc (wr_tick w)\<rparr>"
  obtain ids j where "interned_for_coord (sc_coord sev) ?w = (Inr ids, ?w\<lparr>wr_index := (wr_index ?w)\<lparr>ix_interner := j\<rparr>\<rparr>)"
    "log_ok es ((wr_index ?w)\<lparr>ix_interner := j\<rparr>)"
    by (rule interned_for_coord_ok [of es ?w]) (use log room in auto)
  with run show ?thesis
    by (auto simp: commit_append_def Let_def bind_op_def record_commit_index_artifacts_def split: sum.splits if_splits)
qed

section \<open>Publication\<close>

lemma publish_ok:
  assumes "publish_then_broadcast_unfenced up_to point ns es w = (Inr u, w')"
  obtains g where "publish_on_lanes (ix_sequence (wr_index w)) up_to (lane_targets (lane_publish_points_from_notifications ns))
      ''publish_then_broadcast_unfenced'' = Inr g"
    "wr_index w' = (wr_index w)\<lparr>ix_sequence := g\<rparr>" "wr_notifications w' = wr_notifications w @ ns"
    "wr_envelopes w' = wr_envelopes w @ es" "wr_fence_ledger w' = wr_fence_ledger w" "wr_files w' = wr_files w"
    "wr_active_segment w' = wr_active_segment w" "wr_segment_id w' = wr_segment_id w"
  using assms
  by (auto simp: publish_then_broadcast_unfenced_def index_publish_on_lanes_def Let_def on_marks_def
      broadcast_commit_artifacts_def split: sum.splits)

lemma settle_log:
  assumes log: "log_ok es (wr_index w)" and run: "settle_commit first up_to point ns envs fence w = (r, f, w')"
  shows "log_ok es (wr_index w')"
proof (cases fence)
  case None
  have "log_ok es (wr_index w')"
    if "publish_on_lanes (ix_sequence (wr_index w)) up_to lanes op = Inr g" "wr_index w' = (wr_index w)\<lparr>ix_sequence := g\<rparr>" for g lanes op
  proof -
    have "gate_inv g" using log that(1) publish_lanes_inv by (auto simp: log_ok_def)
    moreover have "allocated g = allocated (ix_sequence (wr_index w))"
      using that(1) by (auto simp: publish_on_lanes_def signal_visibility_change_def split: if_splits)
    ultimately show ?thesis unfolding that(2) by (intro log_ok_gate [OF log]) auto
  qed
  moreover have "wr_index w' = wr_index w" if "r = Inl err" for err
    using run None that by (auto simp: settle_commit_def publish_then_broadcast_unfenced_def Let_def split: sum.splits)
  ultimately show ?thesis
    using None run log by (cases r) (auto simp: settle_commit_def split: prod.splits elim!: publish_ok)
next
  case (Some fl)
  show ?thesis
    using Some run log
    by (auto simp: settle_commit_def Let_def index_note_fence_progress_def note_fence_progress_def
        split: sum.splits if_splits intro!: log_ok_gate) (auto simp: log_ok_def gate_inv_def)
qed

section \<open>One append\<close>

definition has_room :: "store_index \<Rightarrow> bool" where
  "has_room ix \<longleftrightarrow> unat (allocated (ix_sequence ix)) + 1 < 2 ^ 64 \<and> length (in_reverse (ix_interner ix)) + 2 < 2 ^ 32"

text \<open>The three stages of an append that gets to its commit.\<close>

lemma append_core_new:
  assumes "append_core env coord ev kind g w = (Inr (Inr (r, plan, art)), w')"
  obtains w1 w2 where "plan_append env coord (eh_timestamp_us (ev_header ev)) g w = (Inr (Inr plan), w1)"
    "write_append_frame env coord ev kind g plan (append_chain env plan ev) w1 = (Inr r, w2)"
    "commit_append env (staged_append coord ev kind g plan (append_chain env plan ev)) ev (ag_idempotency_key g \<noteq> None) r w2 = (Inr art, w')"
proof -
  from assms obtain planned w1 where "plan_append env coord (eh_timestamp_us (ev_header ev)) g w = (Inr planned, w1)"
    and "(case planned of Inl r \<Rightarrow> lift_op (Inr (Inl r)) | Inr plan \<Rightarrow>
        let chain = append_chain env plan ev in
        bind_op (write_append_frame env coord ev kind g plan chain) (\<lambda>r.
        bind_op (commit_append env (staged_append coord ev kind g plan chain) ev (ag_idempotency_key g \<noteq> None) r)
          (\<lambda>art. lift_op (Inr (Inr (r, plan, art)))))) w1 = (Inr (Inr (r, plan, art)), w')"
    by (auto simp: append_core_def bind_op_Inr)
  then show thesis using that by (cases planned) (auto simp: bind_op_Inr Let_def)
qed

lemma append_core_commits:
  assumes run: "append_core env coord ev kind g w = (Inr (Inr (r, plan, art)), w')"
    and log: "log_ok es (wr_index w)" and room: "has_room (wr_index w)"
    and fresh: "eh_event_id (ev_header ev) \<notin> ie_event_id ` set es"
  shows "log_ok (es @ [ca_index_entry art]) (wr_index w')"
    and "disk_grows w w'" and "ix_sequence (wr_index w') = advance (ix_sequence (wr_index w))"
    and "wr_fence_ledger w' = wr_fence_ledger w" and "wr_notifications w' = wr_notifications w"
    and "ca_notification art = staged_notification (staged_append coord ev kind g plan (append_chain env plan ev))"
    and "\<exists>ids. ca_index_entry art = staged_index_entry (staged_append coord ev kind g plan (append_chain env plan ev)) (rc_disk_pos r) ids (rc_extensions r)"
    and "ap_sequence plan = allocated (ix_sequence (wr_index w))"
    and "\<exists>idemp. ix_idemp (wr_index w') = (if ag_idempotency_key g \<noteq> None
      then record_entry idemp (from_index_entry (ca_index_entry art) (ap_sequence plan)) else idemp)"
    and "wr_replies w' = wr_replies w"
proof -
  let ?chain = "append_chain env plan ev"
  let ?s = "staged_append coord ev kind g plan ?chain"
  obtain w1 w2 where plan: "plan_append env coord (eh_timestamp_us (ev_header ev)) g w = (Inr (Inr plan), w1)"
    and wr: "write_append_frame env coord ev kind g plan ?chain w1 = (Inr r, w2)"
    and com: "commit_append env ?s ev (ag_idempotency_key g \<noteq> None) r w2 = (Inr art, w')"
    by (rule append_core_new [OF run])
  obtain i where w1: "w1 = w\<lparr>wr_index := (wr_index w)\<lparr>ix_idemp := i\<rparr>\<rparr>"
    using plan_frame [of env coord "eh_timestamp_us (ev_header ev)" g w] plan by auto
  have w2: "same_log w1 w2" "disk_grows w1 w2"
    using write_append_frame_log write_append_frame_disk wr by (metis snd_conv)+
  then have ix2: "wr_index w2 = (wr_index w)\<lparr>ix_idemp := i\<rparr>" by (simp add: same_log_def w1)
  then have log2: "log_ok es (wr_index w2)" using log by simp
  obtain ids ix where art: "art = materialize_commit_artifacts env ?s (rc_disk_pos r) ids
      \<lparr>cf_payload_bytes = ev_payload ev, cf_flags = eh_flags (ev_header ev), cf_receipt_extensions = rc_extensions r,
       cf_emit_envelope = we_reactors env (wr_tick w2)\<rparr>"
    and ix: "log_ok es ix" "ix_sequence ix = ix_sequence (wr_index w2)" "interner_get (ix_interner ix) (coord_entity (sc_coord ?s)) = Some (fst ids)"
    and w': "wr_index w' = index_insert ix (ca_index_entry art)"
    and idemp: "ix_idemp ix = (if ag_idempotency_key g \<noteq> None then record_entry (ix_idemp (wr_index w2)) (from_index_entry (ca_index_entry art)
       (sm_global_sequence (sc_meta ?s))) else ix_idemp (wr_index w2))"
    and rest: "w' = w2\<lparr>wr_tick := wr_tick w', wr_sidx_collector := wr_sidx_collector w', wr_index := wr_index w'\<rparr>"
    by (rule commit_append_ok [OF com log2]) (use room ix2 in \<open>auto simp: has_room_def\<close>)
  have e: "ca_index_entry art = staged_index_entry ?s (rc_disk_pos r) ids (rc_extensions r)"
    by (simp add: art materialize_commit_artifacts_def)
  then show "\<exists>ids. ca_index_entry art = staged_index_entry ?s (rc_disk_pos r) ids (rc_extensions r)" by blast
  show seq: "ap_sequence plan = allocated (ix_sequence (wr_index w))" by (rule plan_new(4) [OF plan])
  show "log_ok (es @ [ca_index_entry art]) (wr_index w')"
    unfolding w' using room ix fresh seq ix2 plan_follows [OF plan log]
    by (intro log_ok_insert) (auto simp: e staged_append_def has_room_def)
  have "disk_grows w w1" by (auto simp: disk_grows_def disk_def w1)
  moreover have "disk_grows w2 w'" by (subst rest) (auto simp: disk_grows_def disk_def)
  ultimately show "disk_grows w w'" using w2(2) disks.trans by blast
  show "ix_sequence (wr_index w') = advance (ix_sequence (wr_index w))"
    by (simp add: w' index_insert_def insert_inner_def Let_def ix(2) ix2)
  show "wr_fence_ledger w' = wr_fence_ledger w" "wr_notifications w' = wr_notifications w" "wr_replies w' = wr_replies w"
    by (subst rest, use w2(1) in \<open>simp add: same_log_def w1\<close>)+
  show "ca_notification art = staged_notification ?s" by (simp add: art materialize_commit_artifacts_def)
  have "ix_idemp (wr_index w') = ix_idemp ix" by (simp add: w' index_insert_def insert_inner_def Let_def)
  then show "\<exists>idemp. ix_idemp (wr_index w') = (if ag_idempotency_key g \<noteq> None
      then record_entry idemp (from_index_entry (ca_index_entry art) (ap_sequence plan)) else idemp)"
    using idemp by (intro exI [of _ "ix_idemp (wr_index w2)"]) (simp add: staged_append_def)
qed

text \<open>Whatever happens to an append, the log stays a log, and grows by its event at most.\<close>

lemma append_core_log:
  assumes run: "append_core env coord ev kind g w = (res, w')"
    and log: "log_ok es (wr_index w)" and room: "has_room (wr_index w)"
    and fresh: "eh_event_id (ev_header ev) \<notin> ie_event_id ` set es"
  shows "(\<exists>r plan art. res = Inr (Inr (r, plan, art)) \<and> log_ok (es @ [ca_index_entry art]) (wr_index w')) \<or>
    log_ok es (wr_index w') \<and> (\<forall>x. res \<noteq> Inr (Inr x))"
proof -
  obtain i where i: "snd (plan_append env coord (eh_timestamp_us (ev_header ev)) g w) = w\<lparr>wr_index := (wr_index w)\<lparr>ix_idemp := i\<rparr>\<rparr>"
    using plan_frame by blast
  have replay: "log_ok es (wr_index w')" if "plan_append env coord (eh_timestamp_us (ev_header ev)) g w = (x, w')" for x
    using i log that by simp
  show ?thesis
  proof (cases "\<exists>x. res = Inr (Inr x)")
    case True
    then obtain r plan art where res: "res = Inr (Inr (r, plan, art))" by (metis prod_cases3)
    show ?thesis using append_core_commits(1) [OF run [unfolded res] log room fresh] res by blast
  next
    case False
    from run show ?thesis
      unfolding append_core_def
    proof (cases rule: bind_opE)
      case (fails err)
      then show ?thesis using replay False by blast
    next
      case (goes planned w1)
      show ?thesis
      proof (cases planned)
        case (Inl r)
        then show ?thesis using goes replay False by simp
      next
        case (Inr plan)
        let ?chain = "append_chain env plan ev"
        have w1: "w1 = w\<lparr>wr_index := (wr_index w)\<lparr>ix_idemp := i\<rparr>\<rparr>" using i goes(1) by simp
        have tail: "bind_op (write_append_frame env coord ev kind g plan ?chain) (\<lambda>r. bind_op (commit_append env
            (staged_append coord ev kind g plan ?chain) ev (ag_idempotency_key g \<noteq> None) r) (\<lambda>art. lift_op (Inr (Inr (r, plan, art))))) w1 = (res, w')"
          using goes(2) Inr by (simp add: Let_def)
        have frame: "log_ok es (wr_index w2) \<and> has_room (wr_index w2)" if "write_append_frame env coord ev kind g plan ?chain w1 = (x, w2)" for x w2
          using write_append_frame_log [of w1 env coord ev kind g plan ?chain] that log room by (simp add: same_log_def w1 has_room_def)
        from tail show ?thesis
        proof (cases rule: bind_opE)
          case (fails err)
          then show ?thesis using frame False by blast
        next
          case inner: (goes r w2)
          have "log_ok es (wr_index w2)" "length (in_reverse (ix_interner (wr_index w2))) + 2 < 2 ^ 32"
            using frame [OF inner(1)] by (auto simp: has_room_def)
          moreover obtain err where "commit_append env (staged_append coord ev kind g plan ?chain) ev (ag_idempotency_key g \<noteq> None) r w2 = (Inl err, w')"
            using inner(2) False by (auto elim!: bind_opE)
          ultimately show ?thesis using commit_append_fails False by blast
        qed
      qed
    qed
  qed
qed

lemma handle_append_log:
  assumes run: "handle_append env coord ev kind g fence w = (res, f', w')"
    and log: "log_ok es (wr_index w)" and room: "has_room (wr_index w)"
    and fresh: "eh_event_id (ev_header ev) \<notin> ie_event_id ` set es"
  shows "log_ok es (wr_index w') \<or> (\<exists>e. log_ok (es @ [e]) (wr_index w') \<and> ie_event_id e = eh_event_id (ev_header ev))"
proof -
  obtain res1 w1 where core: "append_core env coord ev kind g w = (res1, w1)" by fastforce
  show ?thesis
  proof (cases "\<exists>x. res1 = Inr (Inr x)")
    case False
    then have "w' = w1" using run core by (auto simp: handle_append_def split: sum.splits)
    with append_core_log [OF core log room fresh] False show ?thesis by auto
  next
    case True
    then obtain r plan art where res1: "res1 = Inr (Inr (r, plan, art))" by (metis prod_cases3)
    note com = append_core_commits [OF core [unfolded res1] log room fresh]
    obtain up_to x f1 where "settle_commit (ap_sequence plan) up_to (HlcPoint (ap_wall_ms plan) (ap_sequence plan))
        [ca_notification art] (opt_list (ca_envelope art)) fence w1 = (x, f1, w')"
      using run core res1 by (auto simp: handle_append_def Let_def split: prod.splits sum.splits)
    then have "log_ok (es @ [ca_index_entry art]) (wr_index w')" by (rule settle_log [OF com(1)])
    moreover have "ie_event_id (ca_index_entry art) = eh_event_id (ev_header ev)"
      using com(7) by (auto simp: staged_append_def)
    ultimately show ?thesis by blast
  qed
qed

end
