(* ===== verification/Walks.thy ===== *)
theory Walks
  imports Append Reader
begin

text \<open>
  Walks along the hash chains of the log: the ancestors of an event (\<^verbatim>\<open>store/ancestry\<close>) and the
  evidence report of a chain walk (\<^verbatim>\<open>store/chain_walk.rs\<close>). The reader of the store is the
  parameter \<open>read\<close> with its state, to be instantiated with the point reads of theory \<open>Reader\<close>;
  the content hash and the canonical encoders are parameters too.
\<close>

type_synonym ('r, 'p) entry_reader = "'r \<Rightarrow> disk_pos \<Rightarrow> (StoreError, 'p stored_event) result \<times> 'r"

section \<open>Ancestors\<close>

abbreviation stored_id :: "'p stored_event \<Rightarrow> u128" where
  "stored_id stored \<equiv> eh_event_id (ev_header (st_event stored))"

function collect_loop ::
  "('c \<Rightarrow> 'r \<Rightarrow> ('p stored_event \<times> 'c option) option \<times> 'r) \<Rightarrow> nat \<Rightarrow> 'c option \<Rightarrow> 'p stored_event list \<Rightarrow> u128 list \<Rightarrow> 'r \<Rightarrow>
   'p stored_event list \<times> 'r" where
  "collect_loop step limit cursor results visited rd =
     (if length results < limit
      then (case cursor of
              None \<Rightarrow> (results, rd)
            | Some cur \<Rightarrow>
                (case step cur rd of
                   (None, rd') \<Rightarrow> (results, rd')
                 | (Some (stored, next_cursor), rd') \<Rightarrow>
                     if stored_id stored \<in> set visited then (results, rd')
                     else collect_loop step limit next_cursor (results @ [stored]) (stored_id stored # visited) rd'))
      else (results, rd))"
  by pat_completeness auto

termination collect_loop
  by (relation "measure (\<lambda>(step, limit, cursor, results, visited, rd). limit - length results)") auto

declare collect_loop.simps [simp del]

definition collect_ancestors ::
  "('c \<Rightarrow> 'r \<Rightarrow> ('p stored_event \<times> 'c option) option \<times> 'r) \<Rightarrow> 'c option \<Rightarrow> nat \<Rightarrow> 'r \<Rightarrow> 'p stored_event list \<times> 'r" where
  "collect_ancestors step cursor limit rd = collect_loop step limit cursor [] [] rd"

definition read_entry_and_event ::
  "('r, 'p) entry_reader \<Rightarrow> store_index \<Rightarrow> u128 \<Rightarrow> 'r \<Rightarrow> (index_entry \<times> 'p stored_event) option \<times> 'r" where
  "read_entry_and_event read ix event_id rd =
     (case get_by_id ix event_id of
        None \<Rightarrow> (None, rd)
      | Some entry \<Rightarrow>
          (case read rd (ie_disk_pos entry) of
             (Inl _, rd') \<Rightarrow> (None, rd')
           | (Inr stored, rd') \<Rightarrow> (Some (entry, stored), rd')))"

definition parent_event_id_by_hash :: "index_entry list \<Rightarrow> bytes \<Rightarrow> u128 option" where
  "parent_event_id_by_hash entity_stream parent_hash =
     map_option ie_event_id (find (\<lambda>candidate. event_hash (ie_hash_chain candidate) = parent_hash) entity_stream)"

definition ancestor_step ::
  "('r, 'p) entry_reader \<Rightarrow> store_index \<Rightarrow> index_entry list \<Rightarrow> u128 \<Rightarrow> 'r \<Rightarrow> ('p stored_event \<times> u128 option) option \<times> 'r" where
  "ancestor_step read ix entity_stream cur rd =
     (case read_entry_and_event read ix cur rd of
        (None, rd') \<Rightarrow> (None, rd')
      | (Some (entry, stored), rd') \<Rightarrow>
          (let prev = prev_hash (ie_hash_chain entry);
               parent = (if prev = ZERO_HASH then None else parent_event_id_by_hash entity_stream prev) in
           (Some (stored, parent), rd')))"

definition walk_ancestors_by_hash ::
  "('r, 'p) entry_reader \<Rightarrow> store_index \<Rightarrow> u128 \<Rightarrow> nat \<Rightarrow> 'r \<Rightarrow> 'p stored_event list \<times> 'r" where
  "walk_ancestors_by_hash read ix event_id limit rd =
     (case get_by_id ix event_id of
        None \<Rightarrow> ([], rd)
      | Some start \<Rightarrow>
          collect_ancestors (ancestor_step read ix (stream ix (coord_entity (ie_coord start)))) (Some event_id) limit rd)"

definition walk_ancestors ::
  "(bytes \<Rightarrow> u32) \<Rightarrow> (u64 \<Rightarrow> 'h option) \<Rightarrow> ('h \<Rightarrow> bytes) \<Rightarrow> (bytes \<Rightarrow> bytes frame_payload option) \<Rightarrow> (bytes \<Rightarrow> 'v option) \<Rightarrow> 'v \<Rightarrow>
   store_index \<Rightarrow> u128 \<Rightarrow> nat \<Rightarrow> 'h reader \<Rightarrow> 'v stored_event list \<times> 'h reader" where
  "walk_ancestors crc open_file contents from_raw from_value null =
     walk_ancestors_by_hash (read_entry crc open_file contents from_raw from_value null)"

section \<open>Chain walks\<close>

definition CHAIN_WALK_REPORT_SCHEMA_VERSION :: u16 where
  "CHAIN_WALK_REPORT_SCHEMA_VERSION = 1"

datatype ChainWalkMode = Linear

datatype ChainWalkStartRef = StartEventId u128 | StartReceipt u128 bytes

record chain_walk_request =
  cq_start :: ChainWalkStartRef
  cq_end_event_id :: "u128 option"
  cq_limit :: nat
  cq_mode :: ChainWalkMode

definition linear_walk :: "ChainWalkStartRef \<Rightarrow> nat \<Rightarrow> chain_walk_request" where
  "linear_walk start limit = \<lparr>cq_start = start, cq_end_event_id = None, cq_limit = limit, cq_mode = Linear\<rparr>"

datatype ChainWalkFinding =
    InvalidLimit nat
  | MissingStart u128
  | MissingChainEntry u128
  | StartHashMismatch u128 bytes bytes
  | EntryHashMismatch u128 bytes bytes
  | MissingParentLink u128 bytes
  | ParentHashAmbiguous u128 bytes u128 u64
  | OrderingRegression u128 u128 u64 u64
  | CycleDetected u128
  | StoppedEarlyReadFailure u128 StoreError
  | TruncatedByLimit nat bytes
  | EndNotReached u128

text \<open>
  The derived order on findings: the variant, then the fields. A report has at most one read
  failure, so the text of its reason never decides.
\<close>

fun chain_finding_key :: "ChainWalkFinding \<Rightarrow> nat \<times> nat list list" where
  "chain_finding_key (InvalidLimit limit) = (0, [[limit]])"
| "chain_finding_key (MissingStart i) = (1, [[unat i]])"
| "chain_finding_key (MissingChainEntry i) = (2, [[unat i]])"
| "chain_finding_key (StartHashMismatch i expected observed) = (3, [[unat i], map unat expected, map unat observed])"
| "chain_finding_key (EntryHashMismatch i expected observed) = (4, [[unat i], map unat expected, map unat observed])"
| "chain_finding_key (MissingParentLink i expected) = (5, [[unat i], map unat expected])"
| "chain_finding_key (ParentHashAmbiguous i expected selected n) = (6, [[unat i], map unat expected, [unat selected], [unat n]])"
| "chain_finding_key (OrderingRegression i parent s s') = (7, [[unat i], [unat parent], [unat s], [unat s']])"
| "chain_finding_key (CycleDetected i) = (8, [[unat i]])"
| "chain_finding_key (StoppedEarlyReadFailure i reason) = (9, [[unat i]])"
| "chain_finding_key (TruncatedByLimit limit h) = (10, [[limit], map unat h])"
| "chain_finding_key (EndNotReached i) = (11, [[unat i]])"

record chain_walk_report_body =
  cb_schema_version :: u16
  cb_mode :: ChainWalkMode
  cb_checked_count :: u64
  cb_first_ref :: "u128 option"
  cb_last_ref :: "u128 option"
  cb_walk_digest :: bytes
  cb_findings :: "ChainWalkFinding list"

record chain_walk_evidence_report =
  cv_body :: chain_walk_report_body
  cv_body_hash :: bytes
  cv_generated_at_unix_ms :: "u64 option"
  cv_batpak_version :: "string option"
  cv_diagnostics :: "string list"

text \<open>The hash and the two canonical encoders of a report.\<close>

record walk_codec =
  wc_hash :: "bytes \<Rightarrow> bytes"
  wc_checked_bytes :: "(u128 \<times> bytes) list \<Rightarrow> bytes option"
  wc_body_bytes :: "chain_walk_report_body \<Rightarrow> bytes option"

definition walk_digest :: "walk_codec \<Rightarrow> (u128 \<times> bytes) list \<Rightarrow> bytes option" where
  "walk_digest wc checked = map_option (wc_hash wc) (wc_checked_bytes wc checked)"

definition chain_report_body_hash :: "walk_codec \<Rightarrow> chain_walk_report_body \<Rightarrow> bytes option" where
  "chain_report_body_hash wc body = map_option (wc_hash wc) (wc_body_bytes wc body)"

definition build_report ::
  "walk_codec \<Rightarrow> ChainWalkMode \<Rightarrow> (u128 \<times> bytes) list \<Rightarrow> ChainWalkFinding list \<Rightarrow> chain_walk_evidence_report option" where
  "build_report wc mode checked findings =
     (case walk_digest wc checked of
        None \<Rightarrow> None
      | Some digest \<Rightarrow>
          (let body = \<lparr>cb_schema_version = CHAIN_WALK_REPORT_SCHEMA_VERSION, cb_mode = mode, cb_checked_count = of_nat (length checked),
                 cb_first_ref = (if checked = [] then None else Some (fst (hd checked))),
                 cb_last_ref = map_option fst (last_option checked), cb_walk_digest = digest,
                 cb_findings = sort_key chain_finding_key findings\<rparr> in
           map_option (\<lambda>h. \<lparr>cv_body = body, cv_body_hash = h, cv_generated_at_unix_ms = None, cv_batpak_version = None, cv_diagnostics = []\<rparr>)
             (chain_report_body_hash wc body)))"

definition note_candidate :: "u64 \<times> index_entry option \<Rightarrow> index_entry \<Rightarrow> u64 \<times> index_entry option" where
  "note_candidate = (\<lambda>(matching, selected) candidate.
     (saturating_add matching 1,
      case selected of
        None \<Rightarrow> Some candidate
      | Some cur \<Rightarrow> if ie_global_sequence candidate > ie_global_sequence cur then Some candidate else selected))"

definition resolve_parent_event_id_by_hash :: "index_entry list \<Rightarrow> bytes \<Rightarrow> u64 \<Rightarrow> (u128 \<times> u64) option" where
  "resolve_parent_event_id_by_hash entity_stream parent_hash child_sequence =
     (case foldl note_candidate (0, None)
         (filter (\<lambda>c. event_hash (ie_hash_chain c) = parent_hash \<and> ie_global_sequence c < child_sequence) entity_stream) of
        (matching, selected) \<Rightarrow> map_option (\<lambda>e. (ie_event_id e, matching)) selected)"

record 'r chain_walk =
  cw_findings :: "ChainWalkFinding list"
  cw_checked :: "(u128 \<times> bytes) list"
  cw_visited :: "u128 list"
  cw_reached_end :: bool
  cw_pending :: "bytes option"
  cw_reader :: 'r

definition chain_find :: "ChainWalkFinding \<Rightarrow> 'r chain_walk \<Rightarrow> 'r chain_walk" where
  "chain_find f s = s\<lparr>cw_findings := cw_findings s @ [f]\<rparr>"

definition chain_check :: "u128 \<Rightarrow> bytes \<Rightarrow> 'r chain_walk \<Rightarrow> 'r chain_walk" where
  "chain_check i h s = s\<lparr>cw_checked := cw_checked s @ [(i, h)]\<rparr>"

text \<open>The part of an iteration after the event was read and its content hash compared.\<close>

definition chain_follow ::
  "store_index \<Rightarrow> index_entry list \<Rightarrow> chain_walk_request \<Rightarrow> index_entry \<Rightarrow> u128 \<Rightarrow> 'r chain_walk \<Rightarrow> 'r chain_walk \<times> u128 option" where
  "chain_follow ix entity_stream request entry cur s =
     (let prev = prev_hash (ie_hash_chain entry) in
      if cq_end_event_id request = Some cur then (s\<lparr>cw_reached_end := True\<rparr>, None)
      else if prev = ZERO_HASH then (s, None)
      else
        let s1 = s\<lparr>cw_pending := Some prev\<rparr> in
        case resolve_parent_event_id_by_hash entity_stream prev (ie_global_sequence entry) of
          None \<Rightarrow> (chain_find (MissingParentLink cur prev) s1, None)
        | Some (parent, matching) \<Rightarrow>
            let s2 = (if matching > 1 then chain_find (ParentHashAmbiguous cur prev parent matching) s1 else s1) in
            case get_by_id ix parent of
              Some p \<Rightarrow>
                if ie_global_sequence p \<ge> ie_global_sequence entry
                then (chain_find (OrderingRegression cur parent (ie_global_sequence entry) (ie_global_sequence p)) s2, None)
                else (s2, Some parent)
            | None \<Rightarrow> (s2, Some parent))"

definition chain_step ::
  "('r, bytes) entry_reader \<Rightarrow> walk_codec \<Rightarrow> store_index \<Rightarrow> index_entry list \<Rightarrow> chain_walk_request \<Rightarrow> bytes option \<Rightarrow> u128 \<Rightarrow>
   'r chain_walk \<Rightarrow> 'r chain_walk \<times> u128 option" where
  "chain_step read wc ix entity_stream request expected_start cur s =
     (if cur \<in> set (cw_visited s) then (chain_find (CycleDetected cur) s, None)
      else
        let s1 = s\<lparr>cw_visited := cur # cw_visited s\<rparr> in
        case get_by_id ix cur of
          None \<Rightarrow> (chain_find (MissingChainEntry cur) s1, None)
        | Some entry \<Rightarrow>
            (case read (cw_reader s1) (ie_disk_pos entry) of
               (Inl err, rd) \<Rightarrow> (chain_find (StoppedEarlyReadFailure cur err) (s1\<lparr>cw_reader := rd\<rparr>), None)
             | (Inr stored, rd) \<Rightarrow>
                 let expected = event_hash (ie_hash_chain entry);
                     s2 = s1\<lparr>cw_reader := rd\<rparr>;
                     s3 = (case expected_start of
                             Some h \<Rightarrow> if cw_checked s2 = [] \<and> h \<noteq> expected then chain_find (StartHashMismatch cur h expected) s2 else s2
                           | None \<Rightarrow> s2);
                     computed = wc_hash wc (ev_payload (st_event stored)) in
                 if computed \<noteq> expected
                 then (chain_check cur expected (chain_find (EntryHashMismatch cur expected computed) s3), None)
                 else chain_follow ix entity_stream request entry cur (chain_check cur expected s3)))"

lemma chain_follow_checked: "cw_checked (fst (chain_follow ix es request entry cur s)) = cw_checked s"
  by (simp add: chain_follow_def chain_find_def Let_def split: option.split prod.split)

lemma chain_step_checked:
  "snd (chain_step read wc ix es request expected_start cur s) = Some parent \<Longrightarrow>
   length (cw_checked (fst (chain_step read wc ix es request expected_start cur s))) = Suc (length (cw_checked s))"
  by (auto simp: chain_step_def chain_check_def chain_find_def Let_def chain_follow_checked split: option.splits prod.splits sum.splits if_splits)

function chain_walk_loop ::
  "('r, bytes) entry_reader \<Rightarrow> walk_codec \<Rightarrow> store_index \<Rightarrow> index_entry list \<Rightarrow> chain_walk_request \<Rightarrow> bytes option \<Rightarrow> u128 option \<Rightarrow>
   'r chain_walk \<Rightarrow> 'r chain_walk" where
  "chain_walk_loop read wc ix entity_stream request expected_start cursor s =
     (if length (cw_checked s) < cq_limit request
      then (case cursor of
              None \<Rightarrow> s
            | Some cur \<Rightarrow>
                (case chain_step read wc ix entity_stream request expected_start cur s of
                   (s', None) \<Rightarrow> s'
                 | (s', Some parent) \<Rightarrow> chain_walk_loop read wc ix entity_stream request expected_start (Some parent) s'))
      else s)"
  by pat_completeness auto

termination chain_walk_loop
proof (relation "measure (\<lambda>(read, wc, ix, es, request, expected_start, cursor, s). cq_limit request - length (cw_checked s))")
  fix read :: "('r, bytes) entry_reader" and wc ix es request expected_start cursor and s :: "'r chain_walk" and cur s' y parent
  assume less: "length (cw_checked s) < cq_limit request" and step: "(s', y) = chain_step read wc ix es request expected_start cur s"
    and y: "y = Some parent"
  have "chain_step read wc ix es request expected_start cur s = (s', Some parent)" using step y by simp
  with less chain_step_checked [of read wc ix es request expected_start cur s parent]
  show "((read, wc, ix, es, request, expected_start, Some parent, s'), read, wc, ix, es, request, expected_start, cursor, s)
      \<in> measure (\<lambda>(read, wc, ix, es, request, expected_start, cursor, s). cq_limit request - length (cw_checked s))"
    by simp
qed auto

declare chain_walk_loop.simps [simp del]

definition chain_walk_start :: "'r \<Rightarrow> 'r chain_walk" where
  "chain_walk_start rd = \<lparr>cw_findings = [], cw_checked = [], cw_visited = [], cw_reached_end = False, cw_pending = None, cw_reader = rd\<rparr>"

definition chain_walk_evidence ::
  "('r, bytes) entry_reader \<Rightarrow> walk_codec \<Rightarrow> store_index \<Rightarrow> chain_walk_request \<Rightarrow> 'r \<Rightarrow> chain_walk_evidence_report option \<times> 'r" where
  "chain_walk_evidence read wc ix request rd =
     (case (case cq_start request of StartEventId i \<Rightarrow> (i, None) | StartReceipt i h \<Rightarrow> (i, Some h)) of
        (start_id, expected_start) \<Rightarrow>
          if cq_limit request = 0 then (build_report wc (cq_mode request) [] [InvalidLimit 0], rd)
          else
            (case get_by_id ix start_id of
               None \<Rightarrow> (build_report wc (cq_mode request) [] [MissingStart start_id], rd)
             | Some start_entry \<Rightarrow>
                 let s = chain_walk_loop read wc ix (stream ix (coord_entity (ie_coord start_entry))) request expected_start
                       (Some start_id) (chain_walk_start rd);
                     s1 = (if cw_findings s = [] \<and> length (cw_checked s) = cq_limit request
                           then case cw_pending s of Some h \<Rightarrow> chain_find (TruncatedByLimit (cq_limit request) h) s | None \<Rightarrow> s else s);
                     s2 = (if cw_findings s1 = [] \<and> \<not> cw_reached_end s1
                           then case cq_end_event_id request of
                                  Some end_id \<Rightarrow> if map_option fst (last_option (cw_checked s1)) \<noteq> Some end_id
                                                 then chain_find (EndNotReached end_id) s1 else s1
                                | None \<Rightarrow> s1
                           else s1) in
                 (build_report wc (cq_mode request) (cw_checked s2) (cw_findings s2), cw_reader s2)))"

section \<open>How long a walk can be\<close>

text \<open>
  Every step of a chain walk goes to an earlier sequence, so the walk has at most as many steps as
  the stream has events, whatever the limit.
\<close>

lemma note_candidate_selects:
  "snd (foldl note_candidate (n, sel) cs) = Some e \<Longrightarrow> e \<in> set cs \<or> sel = Some e"
proof (induction cs arbitrary: n sel)
  case (Cons c cs)
  show ?case
    using Cons.IH [of "saturating_add n 1" "snd (note_candidate (n, sel) c)"] Cons.prems
    by (auto simp: note_candidate_def split: option.splits if_splits)
qed simp

lemma resolve_parent_earlier:
  assumes "resolve_parent_event_id_by_hash es h child = Some (parent, n)"
  obtains e where "e \<in> set es" "ie_event_id e = parent" "event_hash (ie_hash_chain e) = h" "ie_global_sequence e < child"
proof -
  obtain e where "snd (foldl note_candidate (0, None) (filter (\<lambda>c. event_hash (ie_hash_chain c) = h \<and> ie_global_sequence c < child) es)) = Some e"
    "ie_event_id e = parent"
    using assms by (auto simp: resolve_parent_event_id_by_hash_def split: prod.splits)
  with note_candidate_selects [OF this(1)] show thesis using that by auto
qed

abbreviation visible_in :: "store_index \<Rightarrow> index_entry \<Rightarrow> bool" where
  "visible_in ix e \<equiv> is_visible (snapshot (ix_sequence ix)) (ie_global_sequence e)"

lemma option_filter_Some: "option_filter P x = Some e \<longleftrightarrow> x = Some e \<and> P e"
  by (auto simp: option_filter_def split: option.splits)

lemma get_by_id_iff: "index_holds es ix \<Longrightarrow> get_by_id ix i = Some e \<longleftrightarrow> e \<in> set es \<and> ie_event_id e = i \<and> visible_in ix e"
  by (simp add: get_by_id_def option_filter_Some index_holds_def Let_def)

lemma set_stream:
  assumes "index_holds es ix"
  shows "set (stream ix entity) = {e \<in> set es. entity_of e = entity \<and> visible_in ix e}"
proof -
  have "mset (case bt_get (ix_streams ix) entity of None \<Rightarrow> [] | Some m \<Rightarrow> map snd m) = mset (filter (\<lambda>e. entity_of e = entity) es)"
    using assms by (intro grouped_get) (simp add: index_holds_def)
  then have "set (case bt_get (ix_streams ix) entity of None \<Rightarrow> [] | Some m \<Rightarrow> map snd m) = {e \<in> set es. entity_of e = entity}"
    by (metis set_filter set_mset_mset)
  then show ?thesis by (cases "bt_get (ix_streams ix) entity") (auto simp: stream_def extend_visible_entries_def)
qed

definition linked :: "index_entry \<Rightarrow> index_entry \<Rightarrow> bool" where
  "linked child parent \<longleftrightarrow> prev_hash (ie_hash_chain child) = event_hash (ie_hash_chain parent) \<and>
     ie_global_sequence parent < ie_global_sequence child"

text \<open>A path of the walk: visible events of one entity, each linked to the next and later than it.\<close>

definition chain_path :: "store_index \<Rightarrow> string \<Rightarrow> index_entry list \<Rightarrow> bool" where
  "chain_path ix entity ents \<longleftrightarrow> successively linked ents \<and> set ents \<subseteq> set (stream ix entity)"

lemma chain_path_snoc:
  "chain_path ix entity (ents @ [c]) \<Longrightarrow> linked c p \<Longrightarrow> p \<in> set (stream ix entity) \<Longrightarrow> chain_path ix entity ((ents @ [c]) @ [p])"
  unfolding chain_path_def by (subst successively_append_iff) auto

lemma chain_path_prefix: "chain_path ix entity (ents @ [c]) \<Longrightarrow> chain_path ix entity ents"
  by (auto simp: chain_path_def successively_append_iff)

lemma chain_path_decreasing: "chain_path ix entity ents \<Longrightarrow> sorted_wrt (\<lambda>a b. ie_global_sequence b < ie_global_sequence a) ents"
proof -
  assume "chain_path ix entity ents"
  then have "successively (\<lambda>a b. ie_global_sequence b < ie_global_sequence a) ents"
    by (auto simp: chain_path_def linked_def elim: successively_mono)
  moreover have "transp (\<lambda>a b. ie_global_sequence b < ie_global_sequence a)" by (auto intro: transpI)
  ultimately show ?thesis using successively_conv_sorted_wrt by blast
qed

lemma chain_path_distinct: "chain_path ix entity ents \<Longrightarrow> distinct ents"
  by (drule chain_path_decreasing) (induction ents, auto)

lemma chain_path_length: "chain_path ix entity ents \<Longrightarrow> length ents \<le> length (stream ix entity)"
  by (metis (no_types, lifting) card_length card_mono chain_path_def chain_path_distinct distinct_card finite_set order.trans)

lemma chain_path_ids:
  assumes "index_holds es ix" and "chain_path ix entity ents"
  shows "distinct (map ie_event_id ents)"
proof -
  have "inj_on ie_event_id (set es)" using assms(1) by (simp add: index_holds_def distinct_map)
  moreover have "set ents \<subseteq> set es" using assms by (auto simp: chain_path_def set_stream)
  ultimately show ?thesis using chain_path_distinct [OF assms(2)] by (auto simp: distinct_map intro: inj_on_subset)
qed

fun impossible :: "ChainWalkFinding \<Rightarrow> bool" where
  "impossible (MissingChainEntry _) = True"
| "impossible (OrderingRegression _ _ _ _) = True"
| "impossible (CycleDetected _) = True"
| "impossible _ = False"

definition checked_of :: "index_entry list \<Rightarrow> (u128 \<times> bytes) list" where
  "checked_of ents = map (\<lambda>e. (ie_event_id e, event_hash (ie_hash_chain e))) ents"

definition walk_ok :: "index_entry list \<Rightarrow> 'r chain_walk \<Rightarrow> bool" where
  "walk_ok ents s \<longleftrightarrow> cw_checked s = checked_of ents \<and> cw_visited s = rev (map ie_event_id ents) \<and> \<not> list_ex impossible (cw_findings s)"

lemma chain_follow_ok:
  assumes "index_holds es ix" and "chain_path ix entity (ents @ [e])" and "walk_ok (ents @ [e]) s"
    and "chain_follow ix (stream ix entity) request e (ie_event_id e) s = (s', nxt)"
  shows "walk_ok (ents @ [e]) s'"
    and "nxt = Some i \<Longrightarrow> \<exists>p. ie_event_id p = i \<and> chain_path ix entity ((ents @ [e]) @ [p])"
proof -
  let ?h = "prev_hash (ie_hash_chain e)"
  have parent: "\<exists>p. get_by_id ix i = Some p \<and> ie_global_sequence p < ie_global_sequence e \<and> ie_event_id p = i \<and> chain_path ix entity ((ents @ [e]) @ [p])"
    if found: "resolve_parent_event_id_by_hash (stream ix entity) ?h (ie_global_sequence e) = Some (i, n)" for i n
  proof -
    obtain p where p: "p \<in> set (stream ix entity)" "ie_event_id p = i" "event_hash (ie_hash_chain p) = ?h" "ie_global_sequence p < ie_global_sequence e"
      by (rule resolve_parent_earlier [OF found])
    then have "get_by_id ix i = Some p" using assms(1) by (simp add: get_by_id_iff set_stream)
    moreover have "chain_path ix entity ((ents @ [e]) @ [p])"
      by (rule chain_path_snoc [OF assms(2)]) (use p in \<open>simp_all add: linked_def\<close>)
    ultimately show ?thesis using p by blast
  qed
  show "walk_ok (ents @ [e]) s'"
    using assms(3,4) parent
    by (auto simp: chain_follow_def walk_ok_def chain_find_def Let_def split: if_splits option.splits dest!: parent)
  show "\<exists>p. ie_event_id p = i \<and> chain_path ix entity ((ents @ [e]) @ [p])" if "nxt = Some i"
    using assms(4) that by (auto simp: chain_follow_def Let_def split: if_splits option.splits dest!: parent)
qed

lemma chain_step_ok:
  assumes holds: "index_holds es ix" and path: "chain_path ix entity (ents @ [e])" and ok: "walk_ok ents s"
    and run: "chain_step read wc ix (stream ix entity) request expected_start (ie_event_id e) s = (s', nxt)"
  shows "\<exists>ents'. chain_path ix entity ents' \<and> cw_checked s' = checked_of ents' \<and> \<not> list_ex impossible (cw_findings s') \<and>
    (\<forall>i. nxt = Some i \<longrightarrow> walk_ok ents' s' \<and> (\<exists>p. ie_event_id p = i \<and> chain_path ix entity (ents' @ [p])))"
proof -
  have get: "get_by_id ix (ie_event_id e) = Some e"
    using path holds by (simp add: chain_path_def get_by_id_iff set_stream)
  have new: "ie_event_id e \<notin> set (cw_visited s)" using chain_path_ids [OF holds path] ok by (auto simp: walk_ok_def)
  obtain r rd where read: "read (cw_reader s) (ie_disk_pos e) = (r, rd)" by fastforce
  show ?thesis
  proof (cases r)
    case (Inl err)
    then show ?thesis
      using run get new read ok chain_path_prefix [OF path]
      by (intro exI [of _ ents]) (auto simp: chain_step_def walk_ok_def chain_find_def Let_def)
  next
    case (Inr stored)
    let ?h = "event_hash (ie_hash_chain e)" and ?i = "ie_event_id e"
    let ?s2 = "s\<lparr>cw_visited := ?i # cw_visited s, cw_reader := rd\<rparr>"
    define s3 where "s3 = (case expected_start of Some h \<Rightarrow> if cw_checked ?s2 = [] \<and> h \<noteq> ?h then chain_find (StartHashMismatch ?i h ?h) ?s2 else ?s2
      | None \<Rightarrow> ?s2)"
    have s3: "walk_ok (ents @ [e]) (chain_check ?i ?h s3)"
      using ok by (auto simp: s3_def walk_ok_def chain_find_def chain_check_def checked_of_def split: option.splits)
    show ?thesis
    proof (cases "wc_hash wc (ev_payload (st_event stored)) = ?h")
      case True
      then have "chain_follow ix (stream ix entity) request e ?i (chain_check ?i ?h s3) = (s', nxt)"
        using run get new read Inr by (simp add: chain_step_def Let_def s3_def)
      note next_step = chain_follow_ok [OF holds path s3 this]
      then show ?thesis using path by (intro exI [of _ "ents @ [e]"]) (auto simp: walk_ok_def)
    next
      case False
      then have "nxt = None" "s' = chain_check ?i ?h (chain_find (EntryHashMismatch ?i ?h (wc_hash wc (ev_payload (st_event stored)))) s3)"
        using run get new read Inr by (simp_all add: chain_step_def Let_def s3_def)
      then show ?thesis
        using s3 path by (intro exI [of _ "ents @ [e]"]) (auto simp: walk_ok_def chain_find_def chain_check_def)
    qed
  qed
qed

text \<open>The loop, for any limit.\<close>

lemma chain_loop_ok:
  assumes "index_holds es ix" and "walk_ok ents s" and "chain_path ix entity (ents @ [e])"
  shows "\<exists>ents'. chain_path ix entity ents' \<and>
    cw_checked (chain_walk_loop read wc ix (stream ix entity) request expected_start (Some (ie_event_id e)) s) = checked_of ents' \<and>
    \<not> list_ex impossible (cw_findings (chain_walk_loop read wc ix (stream ix entity) request expected_start (Some (ie_event_id e)) s))"
  using assms(2,3)
proof (induction "cq_limit request - length (cw_checked s)" arbitrary: s ents e rule: less_induct)
  case less
  obtain s' nxt where step: "chain_step read wc ix (stream ix entity) request expected_start (ie_event_id e) s = (s', nxt)" by fastforce
  from chain_step_ok [OF assms(1) less.prems(2,1) step] obtain ents' where
    ents': "chain_path ix entity ents'" "cw_checked s' = checked_of ents'" "\<not> list_ex impossible (cw_findings s')"
    "\<And>i. nxt = Some i \<Longrightarrow> walk_ok ents' s' \<and> (\<exists>p. ie_event_id p = i \<and> chain_path ix entity (ents' @ [p]))" by blast
  show ?case
  proof (cases "length (cw_checked s) < cq_limit request")
    case False
    then show ?thesis using less.prems chain_path_prefix [OF less.prems(2)]
      by (intro exI [of _ ents]) (auto simp: chain_walk_loop.simps [of _ _ _ _ _ _ _ s] walk_ok_def)
  next
    case True
    show ?thesis
    proof (cases nxt)
      case None
      then show ?thesis using True step ents' by (auto simp: chain_walk_loop.simps [of _ _ _ _ _ _ _ s])
    next
      case (Some i)
      then obtain p where p: "ie_event_id p = i" "chain_path ix entity (ents' @ [p])" "walk_ok ents' s'" using ents'(4) by blast
      have "length (cw_checked s') = Suc (length (cw_checked s))"
        using chain_step_checked [of read wc ix "stream ix entity" request expected_start "ie_event_id e" s i] step Some by simp
      then have "cq_limit request - length (cw_checked s') < cq_limit request - length (cw_checked s)" using True by simp
      from less.hyps [OF this p(3,2)] show ?thesis
        using True step Some p(1) by (simp add: chain_walk_loop.simps [of _ _ _ _ _ _ _ s])
    qed
  qed
qed

text \<open>A limit past the length of the stream makes no difference.\<close>

lemma chain_follow_limit: "chain_follow ix es (request\<lparr>cq_limit := n\<rparr>) entry cur s = chain_follow ix es request entry cur s"
  by (simp add: chain_follow_def)

lemma chain_step_limit: "chain_step read wc ix es (request\<lparr>cq_limit := n\<rparr>) expected_start cur s = chain_step read wc ix es request expected_start cur s"
  unfolding chain_step_def chain_follow_limit ..

lemma chain_loop_limit:
  assumes "index_holds es ix" and "walk_ok ents s" and "chain_path ix entity (ents @ [e])" and "length (stream ix entity) \<le> n"
    and "cq_limit request = length (stream ix entity)"
  shows "chain_walk_loop read wc ix (stream ix entity) (request\<lparr>cq_limit := n\<rparr>) expected_start (Some (ie_event_id e)) s =
    chain_walk_loop read wc ix (stream ix entity) request expected_start (Some (ie_event_id e)) s"
  using assms(2,3)
proof (induction "cq_limit request - length (cw_checked s)" arbitrary: s ents e rule: less_induct)
  case less
  obtain s' nxt where step: "chain_step read wc ix (stream ix entity) request expected_start (ie_event_id e) s = (s', nxt)" by fastforce
  have room: "length (cw_checked s) < cq_limit request"
    using chain_path_length [OF less.prems(2)] less.prems(1) assms(5) by (simp add: walk_ok_def checked_of_def)
  then have room': "length (cw_checked s) < n" using assms(4,5) by simp
  show ?case
  proof (cases nxt)
    case None
    then show ?thesis using room room' step by (simp add: chain_walk_loop.simps [of _ _ _ _ _ _ _ s] chain_step_limit)
  next
    case (Some i)
    then obtain p ents' where p: "ie_event_id p = i" "chain_path ix entity (ents' @ [p])" "walk_ok ents' s'"
      using chain_step_ok [OF assms(1) less.prems(2,1) step] by blast
    have "length (cw_checked s') = Suc (length (cw_checked s))"
      using chain_step_checked [of read wc ix "stream ix entity" request expected_start "ie_event_id e" s i] step Some by simp
    then have "cq_limit request - length (cw_checked s') < cq_limit request - length (cw_checked s)" using room by simp
    from less.hyps [OF this p(3,2)] show ?thesis
      using room room' step Some p(1) by (simp add: chain_walk_loop.simps [of _ _ _ _ _ _ _ s] chain_step_limit)
  qed
qed

lemma walk_ok_start: "walk_ok [] (chain_walk_start rd)"
  by (simp add: walk_ok_def chain_walk_start_def checked_of_def)

lemma chain_path_start:
  assumes "index_holds es ix" and "get_by_id ix i = Some e"
  shows "chain_path ix (coord_entity (ie_coord e)) ([] @ [e])"
  using assms by (simp add: chain_path_def set_stream get_by_id_iff)

text \<open>
  C28. A chain walk ends by itself. On any index, whatever the links and the files hold, the walk
  from a visible event goes along linked events of its entity with strictly decreasing sequences:
  it visits no event twice, it takes at most as many steps as the entity has visible events, any
  limit from there on gives the same walk, and the findings for a cycle, for a parent that is not
  earlier and for a parent missing from the index are never made.
\<close>

theorem chain_walk_ends:
  fixes read :: "('r, bytes) entry_reader"
  assumes "index_holds es ix" and "get_by_id ix i = Some e"
  defines "entity \<equiv> coord_entity (ie_coord e)"
  defines "walk \<equiv> \<lambda>read wc expected_start rd request. chain_walk_loop read wc ix (stream ix entity) request expected_start (Some i) (chain_walk_start rd)"
  shows "(\<exists>ents. cw_checked (walk read wc expected_start rd request) = checked_of ents \<and> successively linked ents \<and> distinct ents \<and>
      set ents \<subseteq> set (stream ix entity) \<and> length ents \<le> length (stream ix entity)) \<and>
    \<not> list_ex impossible (cw_findings (walk read wc expected_start rd request)) \<and>
    (\<forall>n. walk read wc expected_start rd (request\<lparr>cq_limit := length (stream ix entity) + n\<rparr>) = walk read wc expected_start rd (request\<lparr>cq_limit := length (stream ix entity)\<rparr>))"
proof -
  have i: "ie_event_id e = i" using assms(1,2) by (simp add: get_by_id_iff)
  note start = chain_path_start [OF assms(1,2), folded entity_def]
  from chain_loop_ok [OF assms(1) walk_ok_start start, of read wc request expected_start rd]
  have "\<exists>ents. chain_path ix entity ents \<and> cw_checked (walk read wc expected_start rd request) = checked_of ents \<and> \<not> list_ex impossible (cw_findings (walk read wc expected_start rd request))"
    by (simp add: walk_def i)
  moreover have "walk read wc expected_start rd (request\<lparr>cq_limit := length (stream ix entity) + n\<rparr>) = walk read wc expected_start rd (request\<lparr>cq_limit := length (stream ix entity)\<rparr>)" for n
    using chain_loop_limit [OF assms(1) walk_ok_start start, of "length (stream ix entity) + n"
        "request\<lparr>cq_limit := length (stream ix entity)\<rparr>" read wc expected_start rd]
    by (simp add: walk_def i)
  moreover have "successively linked ents \<and> distinct ents \<and> set ents \<subseteq> set (stream ix entity) \<and> length ents \<le> length (stream ix entity)"
    if "chain_path ix entity ents" for ents
    using that chain_path_distinct [OF that] chain_path_length [OF that] by (simp add: chain_path_def)
  ultimately show ?thesis by blast
qed

theorem chain_walk_ends_witness:
  "\<exists>ents. cw_checked (chain_walk_loop (\<lambda>rd pos. (Inl Serialization, rd)) \<lparr>wc_hash = id, wc_checked_bytes = (\<lambda>_. None), wc_body_bytes = (\<lambda>_. None)\<rparr>
      example_index (stream example_index ''a'') (linear_walk (StartEventId 9) 100) None (Some 9) (chain_walk_start ())) = checked_of ents \<and>
    length ents \<le> length (stream example_index ''a'')"
proof -
  have "get_by_id example_index 9 = Some example_first"
    using example_visible(2) [of 0]
    by (simp add: get_by_id_iff [OF example_holds] example_visible(1)) (simp add: example_first_def sample_entry_def)
  from chain_walk_ends [OF example_holds this, where read = "\<lambda>rd pos. (Inl Serialization, rd)" and expected_start = None and rd = "()"
      and request = "linear_walk (StartEventId 9) 100" and
      wc = "\<lparr>wc_hash = id, wc_checked_bytes = (\<lambda>_. None), wc_body_bytes = (\<lambda>_. None)\<rparr>"]
  show ?thesis by (simp add: example_first_def sample_entry_def) blast
qed

section \<open>Ancestors are the chain\<close>

definition faithful :: "('r, 'p) entry_reader \<Rightarrow> index_entry list \<Rightarrow> bool" where
  "faithful read es \<longleftrightarrow> (\<forall>d \<in> set es. \<forall>rd. \<exists>stored rd'. read rd (ie_disk_pos d) = (Inr stored, rd') \<and> stored_id stored = ie_event_id d)"

lemma ancestor_step_ok:
  assumes "index_holds es ix" and "e \<in> set es" and "visible_in ix e" and "faithful read es"
  obtains stored rd' where "stored_id stored = ie_event_id e"
    "ancestor_step read ix ss (ie_event_id e) rd = (Some (stored, if prev_hash (ie_hash_chain e) = ZERO_HASH then None
       else parent_event_id_by_hash ss (prev_hash (ie_hash_chain e))), rd')"
proof -
  obtain stored rd' where r: "read rd (ie_disk_pos e) = (Inr stored, rd')" "stored_id stored = ie_event_id e"
    using assms(2,4) by (fastforce simp: faithful_def)
  have "get_by_id ix (ie_event_id e) = Some e" using assms(1-3) by (simp add: get_by_id_iff)
  with r show thesis by (intro that [of stored rd']) (simp_all add: ancestor_step_def read_entry_and_event_def Let_def)
qed

lemma chained_snocD: "chained (es @ [e]) \<Longrightarrow> chained es \<and> follows (last_option (stream_of (entity_of e) (ie_dag_lane e) es)) e"
  by (erule chained.cases) auto

lemma chained_prefix: "chained (pre @ post) \<Longrightarrow> chained pre"
  by (induction post rule: rev_induct) (auto simp flip: append_assoc dest: chained_snocD)

lemma chained_link: "chained (pre @ e # post) \<Longrightarrow> follows (last_option (stream_of (entity_of e) (ie_dag_lane e) pre)) e"
  using chained_prefix [of "pre @ [e]" post] chained_snocD [of pre e] by simp

lemma filter_snoc: "filter P xs = ys @ [y] \<Longrightarrow> \<exists>us vs. xs = us @ y # vs \<and> filter P us = ys \<and> P y"
proof (induction xs arbitrary: ys)
  case (Cons x xs)
  show ?case
  proof (cases "filter P xs = []")
    case True
    with Cons.prems show ?thesis by (intro exI [of _ "[]"] exI [of _ xs]) (auto split: if_splits simp: Cons_eq_append_conv)
  next
    case False
    then obtain zs where zs: "filter P xs = zs @ [y]" "ys = (if P x then x # zs else zs)"
      using Cons.prems by (cases ys) (auto split: if_splits)
    from Cons.IH [OF zs(1)] obtain us vs where "xs = us @ y # vs" "filter P us = zs" "P y" by blast
    with zs(2) show ?thesis by (intro exI [of _ "x # us"] exI [of _ vs]) auto
  qed
qed simp

text \<open>With contents that differ, the first event with a hash is the only one.\<close>

lemma parent_unique:
  assumes "d \<in> set ss" and "inj_on (\<lambda>e. event_hash (ie_hash_chain e)) (set ss)"
  shows "parent_event_id_by_hash ss (event_hash (ie_hash_chain d)) = Some (ie_event_id d)"
proof -
  obtain c where c: "find (\<lambda>c. event_hash (ie_hash_chain c) = event_hash (ie_hash_chain d)) ss = Some c"
    using assms(1) by (cases "find (\<lambda>c. event_hash (ie_hash_chain c) = event_hash (ie_hash_chain d)) ss") (auto simp: find_None_iff)
  then have "c \<in> set ss" "event_hash (ie_hash_chain c) = event_hash (ie_hash_chain d)" by (auto simp: find_Some_iff)
  with assms have "c = d" by (auto dest: inj_onD)
  with c show ?thesis by (simp add: parent_event_id_by_hash_def)
qed

lemma collect_chain:
  assumes holds: "index_holds es ix" and chain: "chained es" and vis: "\<forall>d \<in> set es. visible_in ix d" and read: "faithful read es"
    and hashes: "inj_on (\<lambda>e. event_hash (ie_hash_chain e)) {d \<in> set es. entity_of d = entity}"
      "\<forall>d \<in> set es. event_hash (ie_hash_chain d) \<noteq> ZERO_HASH"
    and es: "es = pre @ e # post" and e: "entity_of e = entity" "ie_dag_lane e = lane"
    and visited: "set visited \<inter> ie_event_id ` set (stream_of entity lane pre @ [e]) = {}"
  shows "map stored_id (fst (collect_loop (ancestor_step read ix (stream ix entity)) limit (Some (ie_event_id e)) results visited rd)) =
    map stored_id results @ take (limit - length results) (rev (map ie_event_id (stream_of entity lane pre @ [e])))"
  using es e visited
proof (induction "length (stream_of entity lane pre)" arbitrary: pre e post results visited rd)
  case 0
  have "e \<in> set es" "visible_in ix e" using 0 vis by auto
  from ancestor_step_ok [OF holds this read, of "stream ix entity" rd] obtain stored rd' where st: "stored_id stored = ie_event_id e"
    "ancestor_step read ix (stream ix entity) (ie_event_id e) rd = (Some (stored, if prev_hash (ie_hash_chain e) = ZERO_HASH then None
       else parent_event_id_by_hash (stream ix entity) (prev_hash (ie_hash_chain e))), rd')" by blast
  have none: "stream_of entity lane pre = []" using 0 by simp
  have "prev_hash (ie_hash_chain e) = ZERO_HASH"
    using chained_link [of pre e post] chain 0 none by (simp add: last_option_def)
  then show ?case
    using st 0 none by (auto simp: collect_loop.simps [of _ _ "Some (ie_event_id e)"] collect_loop.simps [of _ _ None])
next
  case (Suc n)
  have mem: "e \<in> set es" "visible_in ix e" using Suc.prems vis by auto
  from ancestor_step_ok [OF holds mem read, of "stream ix entity" rd] obtain stored rd' where st: "stored_id stored = ie_event_id e"
    "ancestor_step read ix (stream ix entity) (ie_event_id e) rd = (Some (stored, if prev_hash (ie_hash_chain e) = ZERO_HASH then None
       else parent_event_id_by_hash (stream ix entity) (prev_hash (ie_hash_chain e))), rd')" by blast
  obtain ss d where ss: "stream_of entity lane pre = ss @ [d]" using Suc.hyps(2) by (cases "stream_of entity lane pre" rule: rev_cases) auto
  obtain us vs where us: "pre = us @ d # vs" "stream_of entity lane us = ss" "entity_of d = entity" "ie_dag_lane d = lane"
    using filter_snoc [OF ss [unfolded stream_of_def]] by (auto simp: stream_of_def)
  have d: "d \<in> set es" "d \<in> set (stream ix entity)"
    using us Suc.prems(1) vis set_stream [OF holds, of entity] by auto
  have link: "prev_hash (ie_hash_chain e) = event_hash (ie_hash_chain d)"
    using chained_link [of pre e post] chain Suc.prems ss by (simp add: last_option_def)
  have "set (stream ix entity) = {d \<in> set es. entity_of d = entity}" using set_stream [OF holds] vis by auto
  then have parent: "parent_event_id_by_hash (stream ix entity) (prev_hash (ie_hash_chain e)) = Some (ie_event_id d)"
    unfolding link using hashes(1) by (intro parent_unique [OF d(2)]) simp
  have "event_hash (ie_hash_chain d) \<noteq> ZERO_HASH" using hashes(2) d(1) by blast
  with st(2) parent link have step: "ancestor_step read ix (stream ix entity) (ie_event_id e) rd = (Some (stored, Some (ie_event_id d)), rd')"
    by simp
  have new: "ie_event_id e \<notin> ie_event_id ` set (stream_of entity lane us @ [d])"
  proof -
    have "distinct (map ie_event_id (pre @ e # post))" using holds Suc.prems(1) by (simp add: index_holds_def)
    then show ?thesis using us by (auto simp: stream_of_def)
  qed
  have "map stored_id (fst (collect_loop (ancestor_step read ix (stream ix entity)) limit (Some (ie_event_id d)) (results @ [stored])
        (ie_event_id e # visited) rd')) =
      map stored_id (results @ [stored]) @ take (limit - length (results @ [stored])) (rev (map ie_event_id (stream_of entity lane us @ [d])))"
    by (rule Suc.hyps(1) [of us d "vs @ e # post"])
      (use Suc.hyps(2) Suc.prems us ss new in \<open>auto\<close>)
  then show ?case
    using st(1) step Suc.prems(4) us(2) ss
    by (auto simp: collect_loop.simps [of _ _ "Some (ie_event_id e)"] take_Cons' Suc_diff_le)
qed

lemma collect_grows: "\<exists>found. fst (collect_loop step limit cursor results visited rd) = results @ found"
proof (induction step limit cursor results visited rd rule: collect_loop.induct)
  case (1 step limit cursor results visited rd)
  show ?case
  proof (cases "length results < limit \<and> cursor \<noteq> None")
    case False
    then show ?thesis by (auto simp: collect_loop.simps [of _ _ cursor])
  next
    case True
    then obtain cur where cur: "length results < limit" and cursor: "cursor = Some cur" by auto
    obtain q rd' where q: "step cur rd = (q, rd')" by fastforce
    show ?thesis
    proof (cases q)
      case None
      then show ?thesis using cur cursor q by (simp add: collect_loop.simps [of _ _ "Some cur"])
    next
      case (Some x)
      obtain stored nxt where x: "x = (stored, nxt)" by (cases x)
      show ?thesis
      proof (cases "stored_id stored \<in> set visited")
        case True
        then show ?thesis using cur cursor q Some x by (simp add: collect_loop.simps [of _ _ "Some cur"])
      next
        case False
        from 1 [OF cur cursor q [symmetric] Some x [symmetric] False]
        show ?thesis using cur cursor q Some x False by (auto simp: collect_loop.simps [of _ _ "Some cur"])
      qed
    qed
  qed
qed

text \<open>
  The ancestors of an event are its chain. On a chained log that is visible and readable and
  whose entity has no two events with the same content, the walk from an event returns the event
  and then everything before it on its lane, newest first, up to the limit.
\<close>

theorem ancestry_exact:
  assumes "index_holds es ix" and "chained es" and "\<forall>d \<in> set es. visible_in ix d" and "faithful read es"
    and "inj_on (\<lambda>e. event_hash (ie_hash_chain e)) {d \<in> set es. entity_of d = entity_of e}"
    and "\<forall>d \<in> set es. event_hash (ie_hash_chain d) \<noteq> ZERO_HASH" and "es = pre @ e # post"
  shows "map stored_id (fst (walk_ancestors_by_hash read ix (ie_event_id e) limit rd)) =
    take limit (rev (map ie_event_id (stream_of (entity_of e) (ie_dag_lane e) pre @ [e])))"
proof -
  have "get_by_id ix (ie_event_id e) = Some e" using assms(1,3,7) by (simp add: get_by_id_iff)
  then show ?thesis
    using collect_chain [OF assms(1-7) refl refl, of "[]" limit "[]" rd]
    by (simp add: walk_ancestors_by_hash_def collect_ancestors_def)
qed


section \<open>Three events\<close>

definition link_entry :: "nat \<Rightarrow> bytes \<Rightarrow> bytes \<Rightarrow> index_entry" where
  "link_entry n prev content = (sample_entry n DATA ''a'' ''s'')\<lparr>ie_event_id := of_nat n + 1, ie_clock := of_nat n,
     ie_hash_chain := \<lparr>prev_hash = prev, event_hash = content\<rparr>, ie_disk_pos := \<lparr>pos_segment = 1, pos_offset = of_nat n, pos_length = 0\<rparr>\<rparr>"

definition link_log :: "byte \<Rightarrow> index_entry list" where
  "link_log b = [link_entry 0 ZERO_HASH [1], link_entry 1 [1] [b], link_entry 2 [b] [3]]"

definition link_index :: "byte \<Rightarrow> store_index" where
  "link_index b = (insert_batch (with_config example_config) (link_log b))\<lparr>ix_sequence := gate_new\<lparr>allocated := 3, visible := 3\<rparr>\<rparr>"

definition link_read :: "(unit, unit) entry_reader" where
  "link_read rd pos = (Inr \<lparr>st_coordinate = \<lparr>coord_entity = ''a'', coord_scope = ''s''\<rparr>,
     st_event = event_new (event_header_new (ucast (pos_offset pos) + 1) 0 None 0 dag_root 0 DATA) ()\<rparr>, rd)"

lemma link_holds: "index_holds (link_log b) (link_index b)"
proof -
  have "index_holds ([] @ link_log b) (insert_batch (with_config example_config) (link_log b))"
    by (rule insert_batch_holds [OF with_config_holds]) (simp_all add: link_log_def link_entry_def sample_entry_def)
  then show ?thesis by (simp add: link_index_def)
qed

lemma link_visible: "\<forall>d \<in> set (link_log b). visible_in (link_index b) d"
  by (simp add: link_log_def link_entry_def sample_entry_def link_index_def snapshot_def is_visible_def gate_new_def range_contains_def word_le_nat_alt)

lemma link_faithful: "faithful link_read (link_log b)"
  by (simp add: faithful_def link_read_def link_log_def link_entry_def event_new_def event_header_new_def)

lemma link_chained: "chained (link_log b)"
proof -
  have "chained [link_entry 0 ZERO_HASH [1]]"
    using chained_snoc [OF chained_empty, of "link_entry 0 ZERO_HASH [1]"] by (simp add: stream_of_def last_option_def link_entry_def sample_entry_def)
  from chained_snoc [OF this, of "link_entry 1 [1] [b]"] have "chained [link_entry 0 ZERO_HASH [1], link_entry 1 [1] [b]]"
    by (simp add: stream_of_def last_option_def link_entry_def sample_entry_def)
  from chained_snoc [OF this, of "link_entry 2 [b] [3]"] show ?thesis
    by (simp add: stream_of_def last_option_def link_entry_def sample_entry_def link_log_def)
qed

lemma link_stream: "stream (link_index b) ''a'' = link_log b"
proof -
  have key: "clock_key (link_entry n p c) = ClockKey (of_nat n) (of_nat n) (of_nat n + 1)" "entity_of (link_entry n p c) = ''a''" for n p c
    by (simp_all add: clock_key_def link_entry_def sample_entry_def)
  have "map snd (the (bt_get (ix_streams (link_index b)) ''a'')) = link_log b"
    by (simp add: link_index_def insert_batch_def link_log_def insert_inner_def with_config_def bt_update_def key less_ClockKey_def)
  moreover have "bt_get (ix_streams (link_index b)) ''a'' \<noteq> None"
    by (simp add: link_index_def insert_batch_def link_log_def insert_inner_def with_config_def key)
  ultimately show ?thesis using link_visible [of b] by (auto simp: stream_def extend_visible_entries_def)
qed

lemma content_not_zero: "[b] \<noteq> ZERO_HASH"
proof
  assume "[b] = ZERO_HASH"
  then have "length [b] = length ZERO_HASH" by simp
  then show False by (simp add: ZERO_HASH_def)
qed

theorem ancestry_exact_witness: "map stored_id (fst (walk_ancestors_by_hash link_read (link_index 2) 3 10 ())) = [3, 2, 1]"
proof -
  have log: "link_log 2 = [link_entry 0 ZERO_HASH [1], link_entry 1 [1] [2]] @ link_entry 2 [2] [3] # []" by (simp add: link_log_def)
  have ids: "entity_of (link_entry n p c) = ''a''" "ie_event_id (link_entry n p c) = of_nat n + 1" "ie_dag_lane (link_entry n p c) = 0"
    "event_hash (ie_hash_chain (link_entry n p c)) = c" for n p c
    by (simp_all add: link_entry_def sample_entry_def)
  have "inj_on (\<lambda>e. event_hash (ie_hash_chain e)) {d \<in> set (link_log 2). entity_of d = entity_of (link_entry 2 [2] [3])}"
    by (auto simp: inj_on_def link_log_def ids)
  moreover have "\<forall>d \<in> set (link_log 2). event_hash (ie_hash_chain d) \<noteq> ZERO_HASH" by (simp add: link_log_def ids content_not_zero)
  ultimately have "map stored_id (fst (walk_ancestors_by_hash link_read (link_index 2) (ie_event_id (link_entry 2 [2] [3])) 10 ())) =
      take 10 (rev (map ie_event_id (stream_of ''a'' 0 [link_entry 0 ZERO_HASH [1], link_entry 1 [1] [2]] @ [link_entry 2 [2] [3]])))"
    using ancestry_exact [OF link_holds link_chained link_visible link_faithful _ _ log, of 10 "()"] by (simp add: ids)
  then show ?thesis by (simp add: ids stream_of_def)
qed


end
