(* ===== verification/Commit.thy ===== *)
theory Commit
  imports Append
begin

text \<open>
  What a committed append promises: its place in the log and on disk, the event read back, its
  receipt, and what a retry with the same key returns.
\<close>

section \<open>A new event\<close>

text \<open>The append is not a retry: it has no key, or its key names its own event and is not recorded.\<close>

definition new_key :: "store_index \<Rightarrow> bytes event \<Rightarrow> append_guards \<Rightarrow> bool" where
  "new_key ix ev g \<longleftrightarrow>
     (case ag_idempotency_key g of
        None \<Rightarrow> True
      | Some key \<Rightarrow> key = eh_event_id (ev_header ev) \<and> idemp_get (ix_idemp ix) key = None)"

lemma unknown_id:
  assumes "index_holds es ix" and "i \<notin> ie_event_id ` set es"
  shows "bt_get (ix_by_id ix) i = None"
proof (cases "bt_get (ix_by_id ix) i")
  case (Some e)
  then have "e \<in> set es" "ie_event_id e = i" using assms(1) by (auto simp: index_holds_def)
  then show ?thesis using assms(2) by auto
qed

lemma log_latest: "log_ok es ix \<Longrightarrow> get_latest_committed ix entity lane = last_option (stream_of entity lane es)"
  unfolding log_ok_def stream_of_def by (blast intro: latest_committed_exact)

lemma plan_not_replay:
  assumes "log_ok es (wr_index w)" and "eh_event_id (ev_header ev) \<notin> ie_event_id ` set es" and "new_key (wr_index w) ev g"
  shows "fst (plan_append env coord ts g w) \<noteq> Inr (Inl r)"
proof -
  have "get_by_id (wr_index w) (eh_event_id (ev_header ev)) = None"
    using assms(1,2) unknown_id by (auto simp: get_by_id_def option_filter_def log_ok_def Let_def)
  then have "fst (try_idempotency_replay env key w) \<noteq> Inr (Some r)" if "ag_idempotency_key g = Some key" for key
    using assms(3) that
    by (cases "fst (admit_new_key (ix_idemp (wr_index w)) key (index_global_sequence (wr_index w)))")
      (auto simp: new_key_def try_idempotency_replay_def Let_def split: prod.split)
  then show ?thesis
    by (cases "ag_idempotency_key g")
      (auto simp: plan_append_def Let_def bind_op_def split: prod.splits option.splits sum.splits)
qed

lemma one_lane_point:
  "unat (nt_sequence n) + 1 < 2 ^ 64 \<Longrightarrow> lane_targets (lane_publish_points_from_notifications [n]) = [(dp_lane (nt_position n), nt_sequence n + 1)]"
  by (simp add: lane_publish_points_from_notifications_def note_lane_point_def lane_targets_def Let_def saturating_add_def)

definition append_entry :: "'v writer_env \<Rightarrow> coordinate \<Rightarrow> bytes event \<Rightarrow> EventKind \<Rightarrow> append_guards \<Rightarrow> append_plan \<Rightarrow> receipt \<Rightarrow> u32 \<times> u32 \<Rightarrow> index_entry" where
  "append_entry env coord ev kind g plan r ids =
     staged_index_entry (staged_append coord ev kind g plan (append_chain env plan ev)) (rc_disk_pos r) ids (rc_extensions r)"

text \<open>Everything an unfenced append of a new event does, with the entry it commits.\<close>

lemma append_effect:
  assumes run: "handle_append env coord ev kind g None w = (Inr r, f, w')"
    and log: "log_ok es (wr_index w)" and room: "has_room (wr_index w)" and pos: "positioned w"
    and fresh: "eh_event_id (ev_header ev) \<notin> ie_event_id ` set es" and new: "new_key (wr_index w) ev g"
  obtains plan ids p e where "e = append_entry env coord ev kind g plan r ids"
    "plan_append env coord (eh_timestamp_us (ev_header ev)) g w = (Inr (Inr plan), snd (plan_append env coord (eh_timestamp_us (ev_header ev)) g w))"
    "r = append_receipt env coord ev kind g plan (append_chain env plan ev) p"
    "log_ok (es @ [e]) (wr_index w')" "disk_grows w w'"
    "holds_frame env w' p (append_payload coord ev kind g plan (append_chain env plan ev) (rc_extensions r))"
    "ix_sequence (wr_index w') = signal_visibility_change ((advance (ix_sequence (wr_index w)))
       \<lparr>visible := ap_sequence plan + 1,
        lane_visible := bt_insert (ag_dag_lane g) (ap_sequence plan + 1) (lane_visible (ix_sequence (wr_index w)))\<rparr>)"
    "wr_notifications w' = wr_notifications w @ [staged_notification (staged_append coord ev kind g plan (append_chain env plan ev))]"
    "\<exists>idemp. ix_idemp (wr_index w') = (if ag_idempotency_key g \<noteq> None
      then record_entry idemp (from_index_entry e (ap_sequence plan)) else idemp)"
    "wr_fence_ledger w' = wr_fence_ledger w"
proof -
  obtain res1 w1 where core: "append_core env coord ev kind g w = (res1, w1)" by fastforce
  have "fst (plan_append env coord ts g w) \<noteq> Inr (Inl x)" for ts x by (rule plan_not_replay [OF log fresh new])
  then have "plan_append env coord ts g w \<noteq> (Inr (Inl x), w2)" for ts x w2 by (metis fst_conv)
  then have "res1 \<noteq> Inr (Inl x)" for x
    using core by (auto simp: append_core_def bind_op_def Let_def split: prod.splits sum.splits)
  moreover have "res1 \<noteq> Inl err" for err using run core by (auto simp: handle_append_def)
  ultimately obtain r1 plan art where res1: "res1 = Inr (Inr (r1, plan, art))"
    by (cases res1) (auto, metis obj_sumE prod_cases3)
  obtain u where settle: "settle_commit (ap_sequence plan) (ap_sequence plan + 1) (HlcPoint (ap_wall_ms plan) (ap_sequence plan))
      [ca_notification art] (opt_list (ca_envelope art)) None w1 = (Inr u, f, w')" and r1: "r1 = r"
    using run core res1 by (auto simp: handle_append_def Let_def split: prod.splits sum.splits)
  note core = core [unfolded res1 r1]
  note com = append_core_commits [OF core log room fresh]
  obtain wp wf where plan: "plan_append env coord (eh_timestamp_us (ev_header ev)) g w = (Inr (Inr plan), wp)"
    and wr: "write_append_frame env coord ev kind g plan (append_chain env plan ev) wp = (Inr r, wf)"
    and cm: "commit_append env (staged_append coord ev kind g plan (append_chain env plan ev)) ev (ag_idempotency_key g \<noteq> None) r wf = (Inr art, w1)"
    by (rule append_core_new [OF core])
  obtain ids where e: "ca_index_entry art = append_entry env coord ev kind g plan r ids"
    using com(7) by (auto simp: append_entry_def)
  let ?pub = "publish_then_broadcast_unfenced (ap_sequence plan + 1) (HlcPoint (ap_wall_ms plan) (ap_sequence plan))
      [ca_notification art] (opt_list (ca_envelope art)) w1"
  have pub: "?pub = (Inr u, w')" using settle by (auto simp: settle_commit_def split: prod.splits)
  obtain i where "wp = w\<lparr>wr_index := (wr_index w)\<lparr>ix_idemp := i\<rparr>\<rparr>"
    using plan_frame [of env coord "eh_timestamp_us (ev_header ev)" g w] plan by auto
  then have "positioned wp" using pos by (simp add: positioned_def)
  then obtain p where p: "r = append_receipt env coord ev kind g plan (append_chain env plan ev) p"
    "holds_frame env wf p (append_payload coord ev kind g plan (append_chain env plan ev) (rc_extensions r))"
    by (rule write_append_frame_ok [OF wr])
  have "disk_grows wf w1"
    using cm by (auto simp: commit_append_def interned_for_coord_def intern_op_def record_commit_index_artifacts_def
        bind_op_def Let_def disk_grows_def disk_def split: prod.splits sum.splits if_splits)
  moreover have "disk_grows w1 w'" using pub by (elim publish_ok) (auto simp: disk_grows_def disk_def)
  ultimately have grow: "disk_grows wf w'" "disk_grows w w'" using disks.trans com(2) by blast+
  have seq: "unat (nt_sequence (ca_notification art)) + 1 < 2 ^ 64" "nt_sequence (ca_notification art) = ap_sequence plan"
    "dp_lane (nt_position (ca_notification art)) = ag_dag_lane g"
    using room com(8) by (simp_all add: com(6) staged_notification_def staged_append_def staged_position_def with_hlc_def Let_def has_room_def)
  obtain g' where g': "publish_on_lanes (ix_sequence (wr_index w1)) (ap_sequence plan + 1)
      (lane_targets (lane_publish_points_from_notifications [ca_notification art])) ''publish_then_broadcast_unfenced'' = Inr g'"
    "wr_index w' = (wr_index w1)\<lparr>ix_sequence := g'\<rparr>" "wr_notifications w' = wr_notifications w1 @ [ca_notification art]"
    "wr_fence_ledger w' = wr_fence_ledger w1"
    by (rule publish_ok [OF pub])
  have gate: "ix_sequence (wr_index w') = signal_visibility_change ((advance (ix_sequence (wr_index w)))
       \<lparr>visible := ap_sequence plan + 1,
        lane_visible := bt_insert (ag_dag_lane g) (ap_sequence plan + 1) (lane_visible (ix_sequence (wr_index w)))\<rparr>)"
    using g'(1,2) by (auto simp: one_lane_point [OF seq(1)] seq(2,3) com(3) publish_on_lanes_def advance_def split: if_splits)
  show thesis
  proof (rule that [OF refl _ p(1) _ grow(2) holds_frame_mono [OF grow(1) p(2)] gate])
    show "plan_append env coord (eh_timestamp_us (ev_header ev)) g w = (Inr (Inr plan), snd (plan_append env coord (eh_timestamp_us (ev_header ev)) g w))"
      by (simp add: plan)
    show "log_ok (es @ [append_entry env coord ev kind g plan r ids]) (wr_index w')"
      using settle_log [OF com(1) settle] by (simp add: e)
    show "wr_notifications w' = wr_notifications w @ [staged_notification (staged_append coord ev kind g plan (append_chain env plan ev))]"
      "wr_fence_ledger w' = wr_fence_ledger w"
      using g'(3,4) com(4,5,6) by simp_all
    have "ix_idemp (wr_index w') = ix_idemp (wr_index w1)" by (simp add: g'(2))
    then show "\<exists>idemp. ix_idemp (wr_index w') = (if ag_idempotency_key g \<noteq> None
      then record_entry idemp (from_index_entry (append_entry env coord ev kind g plan r ids) (ap_sequence plan)) else idemp)"
      using com(9) unfolding e by (simp only:)
  qed
qed

section \<open>The log and the disk\<close>

lemma new_event_visible:
  assumes "log_ok (es @ [e]) ix" and "ix_sequence ix = signal_visibility_change (gate\<lparr>visible := n + 1, lane_visible := lv\<rparr>)"
    and "ie_global_sequence e = n" and "unat n + 1 < 2 ^ 64" and "\<not> range_contains (cancelled_ranges gate) n"
  shows "get_by_id ix (ie_event_id e) = Some e"
proof -
  have "n < n + 1" using assms(4) by (simp add: word_less_nat_alt unat_word_ariths)
  then have "is_visible (snapshot (ix_sequence ix)) n"
    using assms(5) by (auto simp: assms(2) snapshot_def is_visible_def signal_visibility_change_def)
  moreover have "bt_get (ix_by_id ix) (ie_event_id e) = Some e"
    using assms(1) by (intro by_id_get [of "es @ [e]"]) (auto simp: log_ok_def)
  ultimately show ?thesis using assms(3) by (simp add: get_by_id_def option_filter_def)
qed

text \<open>
  C1. What an append commits. An unfenced append of a new event that answers with a receipt has
  added exactly one entry at the end of the log: it takes the next global sequence, continues
  the hash chain and the clock of its entity on its lane, and the log stays indexed and chained.
  The entry is found by its id at once, one notification was sent, the receipt names the entry,
  and at its position on disk stands the encoded frame of the event, hash chain and all, while
  what the files held before is still there.
\<close>

theorem append_commits:
  assumes "handle_append env coord ev kind g None w = (Inr r, f, w')"
    and "log_ok es (wr_index w)" and "has_room (wr_index w)" and "positioned w"
    and "eh_event_id (ev_header ev) \<notin> ie_event_id ` set es" and "new_key (wr_index w) ev g"
    and "\<not> range_contains (cancelled_ranges (ix_sequence (wr_index w))) (allocated (ix_sequence (wr_index w)))"
  shows "\<exists>e fp. log_ok (es @ [e]) (wr_index w') \<and>
    follows (last_option (stream_of (coord_entity coord) (ag_dag_lane g) es)) e \<and>
    (ie_event_id e, ie_coord e, ie_kind e, ie_dag_lane e, ie_global_sequence e, event_hash (ie_hash_chain e)) =
      (eh_event_id (ev_header ev), coord, kind, ag_dag_lane g, allocated (ix_sequence (wr_index w)), se_hash (we_signing env) (ev_payload ev)) \<and>
    get_by_id (wr_index w') (ie_event_id e) = Some e \<and>
    append_receipt_index_mismatch r e = None \<and>
    (\<exists>n. wr_notifications w' = wr_notifications w @ [n] \<and> nt_event_id n = ie_event_id e \<and> nt_sequence n = ie_global_sequence e) \<and>
    holds_frame env w' (ie_disk_pos e) fp \<and> ev_payload (fp_event fp) = ev_payload ev \<and>
    ev_hash_chain (fp_event fp) = Some (ie_hash_chain e) \<and> disk_grows w w'"
proof -
  obtain plan ids p e where e: "e = append_entry env coord ev kind g plan r ids"
    and plan: "plan_append env coord (eh_timestamp_us (ev_header ev)) g w = (Inr (Inr plan), snd (plan_append env coord (eh_timestamp_us (ev_header ev)) g w))"
    and r: "r = append_receipt env coord ev kind g plan (append_chain env plan ev) p"
    and log': "log_ok (es @ [e]) (wr_index w')" and grow: "disk_grows w w'"
    and frame: "holds_frame env w' p (append_payload coord ev kind g plan (append_chain env plan ev) (rc_extensions r))"
    and gate: "ix_sequence (wr_index w') = signal_visibility_change ((advance (ix_sequence (wr_index w)))
       \<lparr>visible := ap_sequence plan + 1,
        lane_visible := bt_insert (ag_dag_lane g) (ap_sequence plan + 1) (lane_visible (ix_sequence (wr_index w)))\<rparr>)"
    and ns: "wr_notifications w' = wr_notifications w @ [staged_notification (staged_append coord ev kind g plan (append_chain env plan ev))]"
    by (rule append_effect [OF assms(1-6)])
  let ?fp = "append_payload coord ev kind g plan (append_chain env plan ev) (rc_extensions r)"
  have seq: "ap_sequence plan = allocated (ix_sequence (wr_index w))" by (rule plan_new(4) [OF plan])
  have fields: "(ie_event_id e, ie_coord e, ie_kind e, ie_dag_lane e, ie_global_sequence e, event_hash (ie_hash_chain e)) =
      (eh_event_id (ev_header ev), coord, kind, ag_dag_lane g, allocated (ix_sequence (wr_index w)), se_hash (we_signing env) (ev_payload ev))"
    "ie_disk_pos e = p" "ie_hash_chain e = append_chain env plan ev" "ie_receipt_extensions e = rc_extensions r"
    using r seq by (simp_all add: e append_entry_def staged_append_def append_chain_def)
  moreover have "follows (last_option (stream_of (coord_entity coord) (ag_dag_lane g) es)) e"
    unfolding e append_entry_def by (rule plan_follows [OF plan assms(2)])
  moreover have "get_by_id (wr_index w') (ie_event_id e) = Some e"
    using assms(3,7) fields(1) seq
    by (intro new_event_visible [OF log' gate]) (auto simp: has_room_def advance_def)
  moreover have "append_receipt_index_mismatch r e = None"
    using fields r seq by (simp add: append_receipt_index_mismatch_def append_chain_def)
  moreover have "ev_payload (fp_event ?fp) = ev_payload ev" "ev_hash_chain (fp_event ?fp) = Some (append_chain env plan ev)"
    by (simp_all add: append_payload_def stamp_event_def chain_event_def)
  moreover have "nt_event_id (staged_notification (staged_append coord ev kind g plan (append_chain env plan ev))) = ie_event_id e"
    "nt_sequence (staged_notification (staged_append coord ev kind g plan (append_chain env plan ev))) = ie_global_sequence e"
    using fields(1) seq by (simp_all add: staged_notification_def staged_append_def Let_def)
  ultimately show ?thesis using log' grow frame ns by (intro exI [of _ e] exI [of _ ?fp]) auto
qed

section \<open>An append that succeeds\<close>

definition healthy :: "'v writer_env \<Rightarrow> bool" where
  "healthy env \<longleftrightarrow> (\<forall>t. we_io env t = None) \<and> (\<forall>h. \<exists>m. we_header_bytes env h = Some m \<and> length m < 2 ^ 32)"

text \<open>The event encodes the way the writer stamps it.\<close>

definition encodes :: "'v writer_env \<Rightarrow> coordinate \<Rightarrow> bytes event \<Rightarrow> EventKind \<Rightarrow> append_guards \<Rightarrow> append_plan \<Rightarrow> bool" where
  "encodes env coord ev kind g plan \<longleftrightarrow>
     (let chain = append_chain env plan ev;
          exts = rc_extensions (append_receipt env coord ev kind g plan chain \<lparr>pos_segment = 0, pos_offset = 0, pos_length = 0\<rparr>) in
      \<exists>m. we_frame_bytes env (append_payload coord ev kind g plan chain exts) = Some m \<and> length m + 8 < 2 ^ 32)"

lemma encodes_frame:
  assumes "encodes env coord ev kind g plan"
  obtains frame where "frame_encode (we_frame_bytes env) (we_crc env) (append_payload coord ev kind g plan (append_chain env plan ev)
      (rc_extensions (append_receipt env coord ev kind g plan (append_chain env plan ev) p))) = Inr frame" "length frame < 2 ^ 32"
proof -
  let ?exts = "\<lambda>p. rc_extensions (append_receipt env coord ev kind g plan (append_chain env plan ev) p)"
  have "?exts p = ?exts \<lparr>pos_segment = 0, pos_offset = 0, pos_length = 0\<rparr>"
    by (subst append_receipt_pos [where pos0 = "\<lparr>pos_segment = 0, pos_offset = 0, pos_length = 0\<rparr>"]) simp
  then obtain m where "we_frame_bytes env (append_payload coord ev kind g plan (append_chain env plan ev) (?exts p)) = Some m"
    "length m + 8 < 2 ^ 32" using assms unfolding encodes_def Let_def by auto
  then show thesis by (intro that [of "frame_bytes (we_crc env) m"]) (simp_all add: frame_encode_def frame_bytes_def)
qed

lemma healthy_sync: "healthy env \<Longrightarrow> \<exists>w'. sync_with_mode env w = (Inr (), w')"
  by (auto simp: sync_with_mode_def healthy_def split: option.split)

lemma healthy_create:
  assumes "healthy env" and "sid \<noteq> wr_segment_id w" and "bt_get (wr_files w) sid = None"
  shows "\<exists>seg w'. create_segment env sid w = (Inr seg, w')"
proof -
  obtain m where "we_header_bytes env \<lparr>sh_version = 1, sh_flags = 0, sh_created_ns = we_now_wall_ns env (wr_tick w), sh_segment_id = sid\<rparr> = Some m"
    "length m < 2 ^ 32" using assms(1) unfolding healthy_def by blast
  then show ?thesis using assms by (simp add: create_segment_def create_with_created_ns_def healthy_def Let_def)
qed

lemma healthy_rotate:
  assumes "healthy env" and "bt_get (wr_files w) (wr_segment_id w + 1) = None"
  shows "\<exists>b w'. maybe_rotate_segment env w = (Inr b, w') \<and>
    (wr_sidx_collector w' = wr_sidx_collector w \<or> wr_sidx_collector w' = collector_new)"
proof -
  obtain seg w1 where seg: "create_segment env (wr_segment_id w + 1) w = (Inr seg, w1)"
    using healthy_create [of env "wr_segment_id w + 1" w] assms by auto
  moreover obtain w2 where "sync_with_mode env w1 = (Inr (), w2)" using healthy_sync [OF assms(1)] by blast
  ultimately show ?thesis by (auto simp: maybe_rotate_segment_def bind_op_def Let_def swap_active_segment_def)
qed

lemma healthy_write: "healthy env \<Longrightarrow> \<exists>offset seg t. segment_write env frame w = (Inr offset, w\<lparr>wr_active_segment := seg, wr_tick := t\<rparr>)"
proof (cases "seg_file (wr_active_segment w)")
  case None
  then show ?thesis
    by (intro exI [of _ "written_bytes (wr_active_segment w)"] exI [of _ "snd (write_frame (wr_active_segment w) frame)"] exI [of _ "wr_tick w"])
      (simp add: segment_write_def write_frame_def Let_def)
next
  case (Some f)
  assume "healthy env"
  with Some show ?thesis
    by (intro exI [of _ "written_bytes (wr_active_segment w)"] exI [of _ "snd (write_frame (wr_active_segment w) frame)"] exI [of _ "Suc (wr_tick w)"])
      (simp add: segment_write_def write_frame_def healthy_def Let_def)
qed

lemma collector_intern_room:
  assumes "length (col_strings c) < 2 ^ 32"
  obtains i c' where "collector_intern c s = Inr (i, c')" "length (col_strings c') \<le> length (col_strings c) + 1"
  using assms by (cases "map_of (col_string_map c) s") (auto simp: collector_intern_def Let_def)

lemma collector_has_room:
  assumes "length (col_strings c) + 2 \<le> 2 ^ 32"
  shows "\<exists>c'. collector_record c entry entity scope = Inr c' \<and> length (col_strings c') \<le> length (col_strings c) + 2"
proof -
  obtain i c1 where c1: "collector_intern c entity = Inr (i, c1)" "length (col_strings c1) \<le> length (col_strings c) + 1"
    by (rule collector_intern_room [of c]) (use assms in auto)
  obtain j c2 where "collector_intern c1 scope = Inr (j, c2)" "length (col_strings c2) \<le> length (col_strings c1) + 1"
    by (rule collector_intern_room [of c1]) (use assms c1(2) in auto)
  with c1 show ?thesis by (auto simp: collector_record_def)
qed

lemma commit_succeeds:
  assumes "log_ok es (wr_index w)" and "length (in_reverse (ix_interner (wr_index w))) + 2 < 2 ^ 32"
    and "length (col_strings (wr_sidx_collector w)) + 2 \<le> 2 ^ 32"
  shows "\<exists>art w'. commit_append env sev ev has_key r w = (Inr art, w')"
proof -
  let ?w = "w\<lparr>wr_tick := Suc (wr_tick w)\<rparr>"
  obtain ids j where "interned_for_coord (sc_coord sev) ?w = (Inr ids, ?w\<lparr>wr_index := (wr_index ?w)\<lparr>ix_interner := j\<rparr>\<rparr>)"
    by (rule interned_for_coord_ok [of es ?w]) (use assms in auto)
  moreover obtain c where "collector_record (wr_sidx_collector w) entry entity scope = Inr (c entry entity scope)" for entry entity scope
    using collector_has_room [OF assms(3)] by metis
  ultimately show ?thesis
    by (simp add: commit_append_def bind_op_def record_commit_index_artifacts_def Let_def)
qed

text \<open>The guards that let an append through.\<close>

definition admitted :: "store_index \<Rightarrow> coordinate \<Rightarrow> bytes event \<Rightarrow> append_guards \<Rightarrow> bool" where
  "admitted ix coord ev g \<longleftrightarrow>
     (let latest = get_latest_committed ix (coord_entity coord) (ag_dag_lane g) in
      (case ag_expected_sequence g of None \<Rightarrow> True | Some n \<Rightarrow> n = (case latest of None \<Rightarrow> 0 | Some e \<Rightarrow> ie_clock e)) \<and>
      (case latest of None \<Rightarrow> True | Some e \<Rightarrow> unat (ie_clock e) + 1 < 2 ^ 32) \<and>
      sint (eh_timestamp_us (ev_header ev)) \<ge> 0 \<and>
      (case ag_idempotency_key g of None \<Rightarrow> True
       | Some key \<Rightarrow> fst (admit_new_key (ix_idemp ix) key (allocated (ix_sequence ix))) = Inr ()))"

lemma plan_succeeds:
  assumes adm: "admitted (wr_index w) coord ev g" and log: "log_ok es (wr_index w)"
    and fresh: "eh_event_id (ev_header ev) \<notin> ie_event_id ` set es" and new: "new_key (wr_index w) ev g"
  shows "\<exists>plan w1. plan_append env coord (eh_timestamp_us (ev_header ev)) g w = (Inr (Inr plan), w1)"
proof -
  let ?latest = "get_latest_committed (wr_index w) (coord_entity coord) (ag_dag_lane g)"
  have "get_by_id (wr_index w) (eh_event_id (ev_header ev)) = None"
    using log fresh unknown_id by (auto simp: get_by_id_def option_filter_def log_ok_def Let_def)
  then have "\<exists>w1. (case ag_idempotency_key g of Some key \<Rightarrow> try_idempotency_replay env key | None \<Rightarrow> lift_op (Inr None)) w = (Inr None, w1)"
    using adm new
    by (cases "ag_idempotency_key g")
      (auto simp: admitted_def new_key_def try_idempotency_replay_def index_global_sequence_def Let_def split: prod.split)
  then obtain w1 where w1: "(case ag_idempotency_key g of Some key \<Rightarrow> try_idempotency_replay env key | None \<Rightarrow> lift_op (Inr None)) w = (Inr None, w1)" ..
  have "\<exists>clock. checked_next_clock (map_option ie_clock ?latest) (coord_entity coord) = Inr clock"
    using adm by (auto simp: admitted_def checked_next_clock_def checked_add_def Let_def split: option.splits)
  moreover have "\<exists>ms. wall_ms_from_timestamp_us (eh_timestamp_us (ev_header ev)) = Inr ms"
    using adm by (simp add: admitted_def wall_ms_from_timestamp_us_def Let_def)
  moreover have "\<not> (case ag_expected_sequence g of Some expected \<Rightarrow> (case ?latest of None \<Rightarrow> 0 | Some e \<Rightarrow> ie_clock e) \<noteq> expected | None \<Rightarrow> False)"
    using adm by (auto simp: admitted_def Let_def split: option.splits)
  ultimately show ?thesis using w1 by (auto simp: plan_append_def Let_def bind_op_def)
qed

lemma publish_succeeds:
  assumes "gate_inv g" and "unat (allocated g) + 1 < 2 ^ 64" and "nt_sequence n = allocated g"
  shows "\<exists>g'. publish_on_lanes (advance g) (allocated g + 1) (lane_targets (lane_publish_points_from_notifications [n])) op = Inr g'"
proof -
  have up: "x \<le> allocated g \<Longrightarrow> x \<le> allocated g + 1" for x
    using assms(2) by (auto simp: word_le_nat_alt unat_word_ariths)
  have "unwrap_or_zero (bt_get (lane_visible g) l) \<le> allocated g" for l
    using assms(1) by (auto simp: gate_inv_def unwrap_or_zero_def split: option.splits)
  then show ?thesis
    using assms up by (auto simp: one_lane_point publish_on_lanes_def advance_def gate_inv_def Let_def not_less)
qed

lemma write_append_succeeds:
  assumes "healthy env" and "bt_get (wr_files w) (wr_segment_id w + 1) = None" and "encodes env coord ev kind g plan"
  defines "chain \<equiv> append_chain env plan ev"
  shows "\<exists>r w'. write_append_frame env coord ev kind g plan chain w = (Inr r, w') \<and>
    (wr_sidx_collector w' = wr_sidx_collector w \<or> wr_sidx_collector w' = collector_new)"
proof -
  let ?r = "append_receipt env coord ev kind g plan chain \<lparr>pos_segment = wr_segment_id w, pos_offset = 0, pos_length = 0\<rparr>"
  let ?w1 = "on_marks (advance_accepted_on_lane (we_now_mono_ns env (wr_tick w)) (ag_dag_lane g)
      (HlcPoint (ap_wall_ms plan) (ap_sequence plan))) (w\<lparr>wr_tick := Suc (wr_tick w)\<rparr>)"
  obtain frame where frame: "frame_encode (we_frame_bytes env) (we_crc env) (append_payload coord ev kind g plan chain (rc_extensions ?r)) = Inr frame"
    "length frame < 2 ^ 32" unfolding chain_def by (rule encodes_frame [OF assms(3)])
  obtain b w2 where w2: "maybe_rotate_segment env ?w1 = (Inr b, w2)"
    "wr_sidx_collector w2 = wr_sidx_collector w \<or> wr_sidx_collector w2 = collector_new"
    using healthy_rotate [OF assms(1), of ?w1] assms(2) by (auto simp: on_marks_def)
  obtain offset seg t where "segment_write env frame w2 = (Inr offset, w2\<lparr>wr_active_segment := seg, wr_tick := t\<rparr>)"
    using healthy_write [OF assms(1)] by blast
  with frame w2 show ?thesis
    by (auto simp: write_append_frame_def Let_def bind_op_def on_marks_def)
qed

lemma append_core_succeeds:
  assumes env: "healthy env" and adm: "admitted (wr_index w) coord ev g" and log: "log_ok es (wr_index w)" and room: "has_room (wr_index w)"
    and fresh: "eh_event_id (ev_header ev) \<notin> ie_event_id ` set es" and new: "new_key (wr_index w) ev g"
    and free: "bt_get (wr_files w) (wr_segment_id w + 1) = None"
    and strings: "length (col_strings (wr_sidx_collector w)) + 2 \<le> 2 ^ 32"
    and enc: "\<And>plan w1. plan_append env coord (eh_timestamp_us (ev_header ev)) g w = (Inr (Inr plan), w1) \<Longrightarrow> encodes env coord ev kind g plan"
  shows "\<exists>x w'. append_core env coord ev kind g w = (Inr (Inr x), w')"
proof -
  obtain plan w1 where plan: "plan_append env coord (eh_timestamp_us (ev_header ev)) g w = (Inr (Inr plan), w1)"
    using plan_succeeds [OF adm log fresh new] by blast
  obtain i where w1: "w1 = w\<lparr>wr_index := (wr_index w)\<lparr>ix_idemp := i\<rparr>\<rparr>"
    using plan_frame [of env coord "eh_timestamp_us (ev_header ev)" g w] plan by auto
  obtain r w2 where w2: "write_append_frame env coord ev kind g plan (append_chain env plan ev) w1 = (Inr r, w2)"
    "wr_sidx_collector w2 = wr_sidx_collector w \<or> wr_sidx_collector w2 = collector_new"
    using write_append_succeeds [OF env _ enc [OF plan], of w1] free by (auto simp: w1)
  have "wr_index w2 = wr_index w1" using write_append_frame_log w2(1) by (metis same_log_def snd_conv)
  then have "log_ok es (wr_index w2)" "length (in_reverse (ix_interner (wr_index w2))) + 2 < 2 ^ 32"
    using log room by (simp_all add: w1 has_room_def)
  moreover have "length (col_strings (wr_sidx_collector w2)) + 2 \<le> 2 ^ 32"
    using w2(2) strings by (auto simp: collector_new_def)
  ultimately obtain art w3 where "commit_append env (staged_append coord ev kind g plan (append_chain env plan ev)) ev
      (ag_idempotency_key g \<noteq> None) r w2 = (Inr art, w3)"
    using commit_succeeds by blast
  then have "append_core env coord ev kind g w = (Inr (Inr (r, plan, art)), w3)"
    using plan w2(1) by (simp add: append_core_def bind_op_def Let_def)
  then show ?thesis by blast
qed

lemma append_answers:
  assumes "healthy env" and "admitted (wr_index w) coord ev g" and "log_ok es (wr_index w)" and "has_room (wr_index w)"
    and "eh_event_id (ev_header ev) \<notin> ie_event_id ` set es" and "new_key (wr_index w) ev g"
    and "bt_get (wr_files w) (wr_segment_id w + 1) = None"
    and "length (col_strings (wr_sidx_collector w)) + 2 \<le> 2 ^ 32"
    and "\<And>plan w1. plan_append env coord (eh_timestamp_us (ev_header ev)) g w = (Inr (Inr plan), w1) \<Longrightarrow> encodes env coord ev kind g plan"
  shows "\<exists>r w'. handle_append env coord ev kind g None w = (Inr r, None, w')"
proof -
  obtain r plan art w1 where core: "append_core env coord ev kind g w = (Inr (Inr (r, plan, art)), w1)"
    using append_core_succeeds [OF assms(1-8), of kind] assms(9) by (metis prod_cases3)
  note com = append_core_commits [OF core assms(3,4,5)]
  have "gate_inv (ix_sequence (wr_index w))" "unat (allocated (ix_sequence (wr_index w))) + 1 < 2 ^ 64"
    using assms(3,4) by (auto simp: log_ok_def has_room_def)
  moreover have "nt_sequence (ca_notification art) = allocated (ix_sequence (wr_index w))"
    using com(8) by (simp add: com(6) staged_notification_def staged_append_def Let_def)
  ultimately obtain g' where "publish_on_lanes (ix_sequence (wr_index w1)) (ap_sequence plan + 1)
      (lane_targets (lane_publish_points_from_notifications [ca_notification art])) ''publish_then_broadcast_unfenced'' = Inr g'"
    using publish_succeeds com(3,8) by metis
  then show ?thesis
    using core by (simp add: handle_append_def settle_commit_def publish_then_broadcast_unfenced_def
        index_publish_on_lanes_def Let_def)
qed

text \<open>
  C4. An append answers. When no file operation fails, the event encodes, the guards let it
  through, the counters have room and the name of the next segment is free, an unfenced append of
  a new event returns a receipt.
\<close>

theorem append_succeeds:
  assumes "healthy env" and "admitted (wr_index w) coord ev g" and "log_ok es (wr_index w)" and "has_room (wr_index w)"
    and "eh_event_id (ev_header ev) \<notin> ie_event_id ` set es" and "new_key (wr_index w) ev g"
    and "bt_get (wr_files w) (wr_segment_id w + 1) = None"
    and "length (col_strings (wr_sidx_collector w)) + 2 \<le> 2 ^ 32"
    and "\<And>plan w1. plan_append env coord (eh_timestamp_us (ev_header ev)) g w = (Inr (Inr plan), w1) \<Longrightarrow> encodes env coord ev kind g plan"
  shows "\<exists>r w'. handle_append env coord ev kind g None w = (Inr r, None, w')"
  using assms by (rule append_answers)

section \<open>Reading the event back\<close>

lemma holds_frame_at:
  assumes "holds_frame env w pos fp" and "we_frame_bytes env fp = Some m" and "m \<noteq> []" and "length m \<le> MAX_FRAME_PAYLOAD"
  obtains f where "disk w (pos_segment pos) = Some f" "frame_at (we_crc env) f (unat (pos_offset pos)) m"
    "unat (pos_length pos) = 8 + length m"
proof -
  from assms(1) obtain f frame where f: "disk w (pos_segment pos) = Some f"
    "frame_encode (we_frame_bytes env) (we_crc env) fp = Inr frame" "unat (pos_length pos) = length frame"
    "take (length frame) (drop (unat (pos_offset pos)) f) = frame" by (auto simp: holds_frame_def)
  have "length m < 2 ^ 32" using assms(4) MAX_FRAME_PAYLOAD_lt by linarith
  then have frame: "frame = frame_bytes (we_crc env) m" using f(2) assms(2) by (simp add: frame_encode_def frame_bytes_def)
  have "length (take (length frame) (drop (unat (pos_offset pos)) f)) = length frame" using f(4) by simp
  then have "unat (pos_offset pos) + 8 + length m \<le> length f" by (simp add: frame min_def split: if_splits)
  with f frame assms(3,4) show thesis by (intro that [of f]) (auto simp: frame_at_def)
qed


section \<open>Receipts and retries\<close>

text \<open>Coordinates and extensions always encode.\<close>

definition covers_encode :: "signing_env \<Rightarrow> bool" where
  "covers_encode env \<longleftrightarrow> (\<forall>c. se_coord_bytes env c \<noteq> None) \<and> (\<forall>x. se_extension_bytes env x \<noteq> None)"

lemma receipt_cover_encodes:
  assumes "covers_encode env"
  shows "\<exists>cover. receipt_cover env r coord kind prev = Inr cover"
proof -
  obtain cb xb where "se_coord_bytes env coord = Some cb" "se_extension_bytes env (rc_extensions r) = Some xb"
    using assms unfolding covers_encode_def by blast
  then show ?thesis by (simp add: receipt_cover_def cover_bytes_def cover_input_def)
qed

lemma append_receipt_extensions:
  assumes "covers_encode (we_signing env)"
  shows "rc_extensions (append_receipt env coord ev kind g plan chain p) = ag_extensions g"
proof -
  obtain cover where "receipt_cover (we_signing env) (unsigned_receipt (eh_event_id (ev_header ev)) (ap_sequence plan) p (event_hash chain) (ag_extensions g))
      coord kind (prev_hash chain) = Inr cover"
    using receipt_cover_encodes [OF assms] by blast
  then show ?thesis
    by (simp add: append_receipt_def sign_receipt_def sign_append_receipt_def unsigned_receipt_def split: option.split)
qed

text \<open>
  C5. The receipt of an append verifies. Against the index right after an unfenced append of a new
  event, its receipt verifies as signed by the current key, also when more keys are configured
  later; without keys it is accepted as unsigned by a store without keys and by no other.
\<close>

theorem append_receipt_verifies:
  assumes "handle_append env coord ev kind g None w = (Inr r, f, w')"
    and "log_ok es (wr_index w)" and "has_room (wr_index w)" and "positioned w"
    and "eh_event_id (ev_header ev) \<notin> ie_event_id ` set es" and "new_key (wr_index w) ev g"
    and "\<not> range_contains (cancelled_ranges (ix_sequence (wr_index w))) (allocated (ix_sequence (wr_index w)))"
    and "covers_encode (we_signing env)" and "we_registry env = from_keys (we_signing env) keys"
    and "scheme_ok (we_signing env) (set (keys @ later))"
  shows "verify_append_receipt (we_signing env) (from_keys (we_signing env) (keys @ later)) (wr_index w') r =
    (if keys \<noteq> [] then Signed else if later = [] then UnsignedAccepted else ReceiptInvalid UnsignedReceiptRejected)"
proof -
  obtain plan ids p e where e: "e = append_entry env coord ev kind g plan r ids"
    and plan: "plan_append env coord (eh_timestamp_us (ev_header ev)) g w = (Inr (Inr plan), snd (plan_append env coord (eh_timestamp_us (ev_header ev)) g w))"
    and r: "r = append_receipt env coord ev kind g plan (append_chain env plan ev) p"
    and log': "log_ok (es @ [e]) (wr_index w')"
    and gate: "ix_sequence (wr_index w') = signal_visibility_change ((advance (ix_sequence (wr_index w)))
       \<lparr>visible := ap_sequence plan + 1,
        lane_visible := bt_insert (ag_dag_lane g) (ap_sequence plan + 1) (lane_visible (ix_sequence (wr_index w)))\<rparr>)"
    by (rule append_effect [OF assms(1-6)])
  let ?chain = "append_chain env plan ev"
  let ?r0 = "unsigned_receipt (eh_event_id (ev_header ev)) (ap_sequence plan) p (event_hash ?chain) (ag_extensions g)"
  have seq: "ap_sequence plan = allocated (ix_sequence (wr_index w))" by (rule plan_new(4) [OF plan])
  have entry: "ie_event_id e = rc_event_id r" "ie_coord e = coord" "ie_kind e = kind" "ie_hash_chain e = ?chain"
    "ie_global_sequence e = ap_sequence plan"
    by (simp_all add: e append_entry_def staged_append_def r)
  have get: "get_by_id (wr_index w') (ie_event_id e) = Some e"
    using assms(3,7) entry(5) seq by (intro new_event_visible [OF log' gate]) (auto simp: has_room_def advance_def)
  have "append_receipt_index_mismatch r e = None"
    by (simp add: append_receipt_index_mismatch_def e append_entry_def staged_append_def r)
  then have verify: "verify_append_receipt (we_signing env) reg (wr_index w') r =
      registry_verify_receipt (we_signing env) reg r coord kind (prev_hash ?chain)" for reg
    using get entry by (simp add: verify_append_receipt_def store_verify_receipt_def)
  obtain cover where cover: "receipt_cover (we_signing env) ?r0 coord kind (prev_hash ?chain) = Inr cover"
    using receipt_cover_encodes [OF assms(8)] by blast
  have sign: "r = sign_append_receipt (we_signing env) (from_keys (we_signing env) keys) ?r0 coord kind (prev_hash ?chain)"
    by (simp add: r append_receipt_def sign_receipt_def assms(9))
  show ?thesis
  proof (cases "keys = []")
    case False
    then show ?thesis unfolding verify by (simp add: sign signed_receipt_verifies [OF assms(10) False cover])
  next
    case True
    have "r = ?r0\<lparr>rc_key_id := replicate 32 0, rc_signature := None\<rparr>"
      using cover by (simp add: sign True sign_append_receipt_def from_keys_def)
    then show ?thesis unfolding verify using True from_keys_empty [OF assms(10)] by (simp add: registry_verify_receipt_def)
  qed
qed

lemma idemp_pos: "idemp_disk_pos (from_index_entry e n) = ie_disk_pos e"
  by (simp add: idemp_disk_pos_def from_index_entry_def)

text \<open>
  C6. Retries. After an append under a key, an append with the same key and no expected sequence,
  whatever else it carries, fenced or not, answers with the same receipt and changes nothing.
  With an expected sequence the key is not looked at first: repeating an append that named the
  sequence of an existing predecessor is refused for its sequence.
\<close>

theorem retry_returns_receipt:
  assumes "handle_append env coord ev kind g None w = (Inr r, f, w')"
    and "log_ok es (wr_index w)" and "has_room (wr_index w)" and "positioned w"
    and "eh_event_id (ev_header ev) \<notin> ie_event_id ` set es" and "new_key (wr_index w) ev g"
    and "ag_idempotency_key g = Some key" and "covers_encode (we_signing env)"
    and "coordinate_new (coord_entity coord) (coord_scope coord) = Inr coord"
  shows "(ag_idempotency_key g' = Some key \<and> ag_expected_sequence g' = None \<longrightarrow>
      handle_append env coord' ev' kind' g' fence w' = (Inr r, fence, w')) \<and>
    (ag_expected_sequence g = Some n \<and> stream_of (coord_entity coord) (ag_dag_lane g) es \<noteq> [] \<longrightarrow>
      handle_append env coord ev kind g fence w' = (Inl (SequenceMismatch (coord_entity coord) n (n + 1)), fence, w'))"
proof -
  obtain plan ids p e where e: "e = append_entry env coord ev kind g plan r ids"
    and plan: "plan_append env coord (eh_timestamp_us (ev_header ev)) g w = (Inr (Inr plan), snd (plan_append env coord (eh_timestamp_us (ev_header ev)) g w))"
    and r: "r = append_receipt env coord ev kind g plan (append_chain env plan ev) p"
    and log': "log_ok (es @ [e]) (wr_index w')"
    and idemp: "\<exists>idemp. ix_idemp (wr_index w') = (if ag_idempotency_key g \<noteq> None
      then record_entry idemp (from_index_entry e (ap_sequence plan)) else idemp)"
    by (rule append_effect [OF assms(1-6)])
  let ?chain = "append_chain env plan ev"
  have key: "key = eh_event_id (ev_header ev)" using assms(6,7) by (simp add: new_key_def)
  obtain i where "ix_idemp (wr_index w') = record_entry i (from_index_entry e (ap_sequence plan))" using idemp assms(7) by auto
  then have got: "idemp_get (ix_idemp (wr_index w')) key = Some (from_index_entry e (ap_sequence plan))"
    by (simp add: record_entry_def idemp_get_def from_index_entry_def e append_entry_def staged_append_def key update_conv')
  have "rc_extensions r = ag_extensions g" unfolding r by (rule append_receipt_extensions [OF assms(8)])
  then have replay: "replay_durable env (from_index_entry e (ap_sequence plan)) = Inr r"
    using assms(9) unfolding replay_durable_def idemp_pos
    by (simp add: from_index_entry_def e append_entry_def staged_append_def)
      (simp add: r, simp add: append_receipt_def)
  then have again: "try_idempotency_replay env key w' = (Inr (Some r), w')"
    using got by (simp add: try_idempotency_replay_def Let_def)
  have retry: "handle_append env coord' ev' kind' g' fence w' = (Inr r, fence, w')"
    if "ag_idempotency_key g' = Some key" "ag_expected_sequence g' = None"
    using that again by (simp add: handle_append_def append_core_def plan_append_def bind_op_def Let_def)
  have "handle_append env coord ev kind g fence w' = (Inl (SequenceMismatch (coord_entity coord) n (n + 1)), fence, w')"
    if n: "ag_expected_sequence g = Some n" and ne: "stream_of (coord_entity coord) (ag_dag_lane g) es \<noteq> []"
  proof -
    obtain d where d: "last_option (stream_of (coord_entity coord) (ag_dag_lane g) es) = Some d"
      using ne by (auto simp: last_option_def)
    have heads: "get_latest_committed (wr_index w) (coord_entity coord) (ag_dag_lane g) = Some d"
      using log_latest [OF assms(2)] d by simp
    have "ie_clock d = n" using plan n heads by (auto simp: plan_append_def Let_def split: if_splits)
    moreover have "follows (Some d) e" using plan_follows [OF plan assms(2)] d by (simp add: e append_entry_def)
    ultimately have "of_nat (unat (ie_clock e)) = (of_nat (unat n + 1) :: u32)" by simp
    then have "ie_clock e = n + 1" by simp
    moreover have "get_latest_committed (wr_index w') (coord_entity coord) (ag_dag_lane g) = Some e"
      using log_latest [OF log'] by (simp add: stream_of_def e append_entry_def staged_append_def)
    moreover have "n + 1 \<noteq> n" by simp
    ultimately show ?thesis using n by (simp add: handle_append_def append_core_def plan_append_def bind_op_def Let_def)
  qed
  with retry show ?thesis by blast
qed

section \<open>A first append\<close>

text \<open>A store with one signing key, an empty index and a fresh segment; the encoder of frames is a parameter.\<close>

definition total_signing :: signing_env where
  "total_signing = \<lparr>se_hash = (\<lambda>_. replicate 32 1), se_public_key = (\<lambda>seed. seed), se_sign = (\<lambda>seed cover. seed @ cover),
     se_verify = (\<lambda>key cover sig. sig = key @ cover), se_coord_bytes = (\<lambda>c. Some [9]),
     se_extension_bytes = (\<lambda>x. Some [0x80]), se_downgrade_bytes = (\<lambda>_. None)\<rparr>"

definition header_code :: "segment_header \<Rightarrow> bytes" where
  "header_code h = to_be (sh_version h) @ to_be (sh_flags h) @ to_be (sh_created_ns h) @ to_be (sh_segment_id h)"

lemma length_header_code [simp]: "length (header_code h) = 20"
  by (simp add: header_code_def)

definition first_env :: "(bytes frame_payload \<Rightarrow> bytes option) \<Rightarrow> unit writer_env" where
  "first_env enc = \<lparr>we_frame_bytes = enc, we_header_bytes = (\<lambda>h. Some (header_code h)), we_table_bytes = (\<lambda>_. Some [2]),
     we_ranges_bytes = (\<lambda>_. Some [3]), we_value = (\<lambda>_. None), we_crc = (\<lambda>_. 9), we_signing = total_signing,
     we_registry = from_keys total_signing [replicate 32 7], we_segment_max_bytes = 1000, we_batch_max_size = 4,
     we_batch_max_bytes = 100, we_now_us = (\<lambda>_. 5000), we_now_wall_ns = (\<lambda>_. 0), we_now_mono_ns = (\<lambda>_. 0),
     we_new_id = of_nat, we_reactors = (\<lambda>_. False), we_io = (\<lambda>_. None)\<rparr>"

definition first_coord :: coordinate where
  "first_coord = \<lparr>coord_entity = ''a'', coord_scope = ''s''\<rparr>"

definition first_event :: "bytes event" where
  "first_event = event_new (event_header_new 7 7 None 5000 dag_root 1 DATA) [0x42]"

definition first_guards :: "u128 option \<Rightarrow> append_guards" where
  "first_guards key = \<lparr>ag_correlation_id = 7, ag_causation_id = None, ag_expected_sequence = None, ag_idempotency_key = key,
     ag_dag_lane = 0, ag_dag_depth = 0, ag_dag_branch_root = False, ag_extensions = []\<rparr>"

definition first_header :: segment_header where
  "first_header = \<lparr>sh_version = 1, sh_flags = 0, sh_created_ns = 0, sh_segment_id = 1\<rparr>"

definition first_writer :: "'v writer" where
  "first_writer = \<lparr>wr_index = with_config example_config,
     wr_active_segment = \<lparr>seg_header = first_header,
       seg_file = Some (SEGMENT_MAGIC @ to_be (20 :: u32) @ header_code first_header), written_bytes = 28\<rparr>,
     wr_segment_id = 1, wr_files = [], wr_ranges_file = None, wr_reader_segment = 1, wr_watermarks = state_new,
     wr_sidx_collector = collector_new, wr_fence_ledger = None, wr_notifications = [], wr_envelopes = [], wr_replies = [],
     wr_tick = 0\<rparr>"

definition first_plan :: append_plan where
  "first_plan = \<lparr>ap_prev_hash = replicate 32 0, ap_clock = 0, ap_wall_ms = 5, ap_sequence = 0\<rparr>"

definition first_payload :: "u128 option \<Rightarrow> bytes frame_payload" where
  "first_payload key = append_payload first_coord first_event DATA (first_guards key) first_plan
     (append_chain (first_env (\<lambda>_. None)) first_plan first_event) []"

lemma first_log:
  "log_ok [] (wr_index first_writer)" "has_room (wr_index first_writer)" "positioned first_writer"
  "new_key (wr_index first_writer) first_event (first_guards None)" "new_key (wr_index first_writer) first_event (first_guards (Some 7))"
  "cancelled_ranges (ix_sequence (wr_index first_writer)) = []"
  using with_config_holds [of example_config] with_config_heads [of example_config] gate_new_inv
  by (simp_all add: log_ok_def first_writer_def has_room_def with_config_def gate_new_def interner_new_def chained_empty positioned_def SEGMENT_MAGIC_def
      new_key_def first_guards_def first_event_def event_new_def event_header_new_def idemp_get_def idemp_new_def)

lemma first_head: "get_latest_committed (wr_index first_writer) entity lane = None"
  using log_latest [OF first_log(1)] by (simp add: stream_of_def)

lemma first_admitted:
  "key \<in> {None, Some 7} \<Longrightarrow> admitted (wr_index first_writer) first_coord first_event (first_guards key)"
  by (auto simp: admitted_def first_head first_guards_def first_event_def event_new_def event_header_new_def Let_def)
    (simp add: first_writer_def with_config_def idemp_new_def example_config_def admit_new_key_def idemp_get_def
      admit_unique_new_count_def retention_default_def DEFAULT_MAX_KEYS_def Let_def gate_new_def idemp_len_def saturating_add_def)

lemma first_plan_eq:
  assumes "plan_append env first_coord (eh_timestamp_us (ev_header first_event)) (first_guards key) first_writer = (Inr (Inr plan), w1)"
  shows "plan = first_plan"
proof -
  have "allocated (ix_sequence (wr_index first_writer)) = 0" by (simp add: first_writer_def with_config_def gate_new_def)
  then have "checked_next_clock None (coord_entity first_coord) = Inr (ap_clock plan)" "ap_prev_hash plan = ZERO_HASH" "ap_sequence plan = 0"
    using plan_new [OF assms] unfolding first_head by simp_all
  moreover have "ap_wall_ms plan = 5"
    using assms
    by (auto simp: plan_append_def Let_def bind_op_Inr first_head first_guards_def first_event_def event_new_def event_header_new_def
        wall_ms_from_timestamp_us_def split: if_splits option.splits sum.splits)
  ultimately show ?thesis by (simp add: first_plan_def ZERO_HASH_def)
qed

lemma first_registry: "we_signing (first_env enc) = total_signing" "we_registry (first_env enc) = from_keys total_signing [replicate 32 7]"
  by (simp_all add: first_env_def)

lemma first_scheme: "scheme_ok total_signing {replicate 32 7}"
  by (simp add: scheme_ok_def total_signing_def key_id_def public_key_bytes_def key_id_for_public_key_def)

lemma first_covers: "covers_encode (we_signing (first_env enc))"
  by (simp add: covers_encode_def first_env_def total_signing_def)

lemma first_encodes:
  assumes "enc (first_payload key) = Some [1]"
    and "plan_append (first_env enc) first_coord (eh_timestamp_us (ev_header first_event)) (first_guards key) first_writer = (Inr (Inr plan), w1)"
  shows "encodes (first_env enc) first_coord first_event DATA (first_guards key) plan"
proof -
  have "append_chain (first_env enc) first_plan first_event = append_chain (first_env (\<lambda>_. None)) first_plan first_event"
    by (simp add: append_chain_def first_env_def)
  then show ?thesis
    using assms(1) first_plan_eq [OF assms(2)]
    by (simp add: encodes_def append_receipt_extensions [OF first_covers] first_payload_def)
      (simp add: first_env_def first_guards_def)
qed

lemma first_runs:
  assumes "enc (first_payload key) = Some [1]" and "key \<in> {None, Some 7}"
  shows "\<exists>r w'. handle_append (first_env enc) first_coord first_event DATA (first_guards key) None first_writer = (Inr r, None, w')"
proof (rule append_answers [OF _ first_admitted [OF assms(2)] first_log(1,2) _ _ _ _ first_encodes [of enc key, OF assms(1)]])
  show "healthy (first_env enc)" by (simp add: healthy_def first_env_def)
  show "new_key (wr_index first_writer) first_event (first_guards key)" using assms(2) first_log(4,5) by auto
  show "length (col_strings (wr_sidx_collector first_writer)) + 2 \<le> 2 ^ 32"
    by (simp add: first_writer_def collector_new_def)
qed (simp_all add: first_writer_def)

theorem append_succeeds_witness:
  "\<exists>r w'. handle_append (first_env (\<lambda>_. Some [1])) first_coord first_event DATA (first_guards None) None first_writer = (Inr r, None, w')"
proof (rule append_succeeds [OF _ first_admitted first_log(1,2) _ first_log(4) _ _ first_encodes])
  show "healthy (first_env (\<lambda>_. Some [1]))" by (simp add: healthy_def first_env_def)
qed (simp_all add: first_writer_def collector_new_def)

theorem append_commits_witness:
  "\<exists>r w' e. handle_append (first_env (\<lambda>_. Some [1])) first_coord first_event DATA (first_guards None) None first_writer = (Inr r, None, w') \<and>
    log_ok [e] (wr_index w') \<and> get_by_id (wr_index w') 7 = Some e"
proof -
  obtain r w' where run: "handle_append (first_env (\<lambda>_. Some [1])) first_coord first_event DATA (first_guards None) None first_writer = (Inr r, None, w')"
    using first_runs [of "\<lambda>_. Some [1]" None] by auto
  have id7: "eh_event_id (ev_header first_event) = 7" by (simp add: first_event_def event_new_def event_header_new_def)
  have "\<not> range_contains (cancelled_ranges (ix_sequence (wr_index first_writer))) s" for s
    by (simp add: first_log(6) range_contains_def)
  from append_commits [OF run first_log(1,2,3) _ first_log(4) this]
  have "\<exists>e. log_ok [e] (wr_index w') \<and> get_by_id (wr_index w') 7 = Some e" unfolding id7 by auto
  then show ?thesis using run by blast
qed


theorem append_receipt_verifies_witness:
  "\<exists>r w'. handle_append (first_env (\<lambda>_. Some [1])) first_coord first_event DATA (first_guards None) None first_writer = (Inr r, None, w') \<and>
    verify_append_receipt total_signing (from_keys total_signing [replicate 32 7]) (wr_index w') r = Signed"
proof -
  obtain r w' where run: "handle_append (first_env (\<lambda>_. Some [1])) first_coord first_event DATA (first_guards None) None first_writer = (Inr r, None, w')"
    using first_runs [of "\<lambda>_. Some [1]" None] by auto
  have "\<not> range_contains (cancelled_ranges (ix_sequence (wr_index first_writer))) s" for s
    by (simp add: first_log(6) range_contains_def)
  from append_receipt_verifies [OF run first_log(1,2,3) _ first_log(4) this first_covers, of "[replicate 32 7]" "[]"]
  have "verify_append_receipt total_signing (from_keys total_signing [replicate 32 7]) (wr_index w') r = Signed"
    by (simp add: first_scheme first_registry)
  then show ?thesis using run by blast
qed

theorem retry_returns_receipt_witness:
  "\<exists>r w'. handle_append (first_env (\<lambda>_. Some [1])) first_coord first_event DATA (first_guards (Some 7)) None first_writer = (Inr r, None, w') \<and>
    handle_append (first_env (\<lambda>_. Some [1])) first_coord first_event DATA (first_guards (Some 7)) None w' = (Inr r, None, w')"
proof -
  obtain r w' where run: "handle_append (first_env (\<lambda>_. Some [1])) first_coord first_event DATA (first_guards (Some 7)) None first_writer = (Inr r, None, w')"
    using first_runs [of "\<lambda>_. Some [1]" "Some 7"] by auto
  have "coordinate_new (coord_entity first_coord) (coord_scope first_coord) = Inr first_coord" by code_simp
  then have "handle_append (first_env (\<lambda>_. Some [1])) first_coord first_event DATA (first_guards (Some 7)) None w' = (Inr r, None, w')"
    using retry_returns_receipt [OF run first_log(1,2,3) _ first_log(5) _ first_covers, of 7 "first_guards (Some 7)"]
    by (auto simp: first_guards_def)
  then show ?thesis using run by blast
qed

end
