(* ===== verification/Batch.thy ===== *)
theory Batch
  imports Append
begin

text \<open>
  The batch append of the writer (\<^verbatim>\<open>store/write/writer/batch.rs\<close>): validation, replay, the staged
  events of a batch with their clocks and hash chains, the marker and event frames, and the
  commit, with the steps in the order of the code.
\<close>

section \<open>Validation\<close>

definition BATCH_MARKER_ENTITY :: string where
  "BATCH_MARKER_ENTITY = ''_batch''"

definition BATCH_MARKER_SCOPE :: string where
  "BATCH_MARKER_SCOPE = ''_system''"

definition map_err :: "(StoreError \<Rightarrow> StoreError) \<Rightarrow> ('v, 'a) op \<Rightarrow> ('v, 'a) op" where
  "map_err f m w = (case m w of (Inl err, w') \<Rightarrow> (Inl (f err), w') | (Inr a, w') \<Rightarrow> (Inr a, w'))"

fun batch_bytes :: "signing_env \<Rightarrow> nat \<Rightarrow> batch_item list \<Rightarrow> (StoreError, nat) result" where
  "batch_bytes env sum_bytes [] = Inr sum_bytes"
| "batch_bytes env sum_bytes (item # items) =
     bind_result (checked_append_bytes env (length (bi_payload item)) (ao_extensions (bi_options item))) (\<lambda>item_bytes.
       if sum_bytes + item_bytes < 2 ^ 64 then batch_bytes env (sum_bytes + item_bytes) items else Inl Serialization)"

fun first_cas :: "nat \<Rightarrow> batch_item list \<Rightarrow> nat option" where
  "first_cas idx [] = None"
| "first_cas idx (item # items) =
     (if ao_expected_sequence (bi_options item) \<noteq> None then Some idx else first_cas (idx + 1) items)"

definition validate_batch :: "'v writer_env \<Rightarrow> batch_item list \<Rightarrow> (StoreError, unit) result" where
  "validate_batch env items =
     (if length items > unat (we_batch_max_size env)
      then Inl (BatchFailed 0 (Configuration ''batch size exceeds max''))
      else bind_result (batch_bytes (we_signing env) 0 items) (\<lambda>total_bytes.
        if total_bytes > unat (we_batch_max_bytes env)
        then Inl (BatchFailed 0 (Configuration ''batch bytes exceeds max''))
        else case first_cas 0 items of
            Some idx \<Rightarrow> Inl (BatchFailed idx (Configuration ''CAS not supported in batch append (v1)''))
          | None \<Rightarrow> Inr ()))"

section \<open>Replay\<close>

definition cached_receipt :: "'v writer_env \<Rightarrow> store_index \<Rightarrow> batch_item \<Rightarrow> (StoreError, receipt option) result" where
  "cached_receipt env ix item =
     (case ao_idempotency_key (bi_options item) of
        None \<Rightarrow> Inr None
      | Some key \<Rightarrow>
          (case idemp_get (ix_idemp ix) key of
             Some durable \<Rightarrow> map_sum id Some (replay_durable env durable)
           | None \<Rightarrow> Inr (map_option (replay_entry env) (get_by_id ix key))))"

fun cached_receipts :: "'v writer_env \<Rightarrow> store_index \<Rightarrow> batch_item list \<Rightarrow> (StoreError, receipt option list) result" where
  "cached_receipts env ix [] = Inr []"
| "cached_receipts env ix (item # items) =
     bind_result (cached_receipt env ix item) (\<lambda>r.
     bind_result (cached_receipts env ix items) (\<lambda>rs. Inr (r # rs)))"

definition keyed_count :: "batch_item list \<Rightarrow> nat" where
  "keyed_count items = length (filter (\<lambda>item. ao_idempotency_key (bi_options item) \<noteq> None) items)"

definition preflight_batch_idempotency ::
  "'v writer_env \<Rightarrow> store_index \<Rightarrow> batch_item list \<Rightarrow> (StoreError, receipt list option) result" where
  "preflight_batch_idempotency env ix items =
     bind_result (cached_receipts env ix items) (\<lambda>cached.
       let cached_count = length (filter (\<lambda>r. r \<noteq> None) cached) in
       if keyed_count items = 0 then Inr None
       else if cached_count = length items then Inr (Some (map the cached))
       else if cached_count > 0 then Inl IdempotencyPartialBatch
       else Inr None)"

section \<open>The events of a batch\<close>

record batch_entity_state =
  be_prev_hash :: bytes
  be_next_clock :: u32
  be_last_wall_ms :: u64

type_synonym entity_states = "string \<times> u32 \<rightharpoonup> batch_entity_state"

definition entity_state ::
  "store_index \<Rightarrow> string \<Rightarrow> u32 \<Rightarrow> entity_states \<Rightarrow> (StoreError, batch_entity_state) result" where
  "entity_state ix entity lane states =
     (case states (entity, lane) of
        Some state \<Rightarrow> Inr state
      | None \<Rightarrow>
          (let latest = get_latest_committed ix entity lane in
           bind_result (checked_next_clock (map_option ie_clock latest) entity) (\<lambda>clock.
             Inr \<lparr>be_prev_hash = (case latest of None \<Rightarrow> replicate 32 0 | Some e \<Rightarrow> event_hash (ie_hash_chain e)),
                  be_next_clock = clock,
                  be_last_wall_ms = (case latest of None \<Rightarrow> 0 | Some e \<Rightarrow> ie_wall_ms e)\<rparr>)))"

definition item_event_id :: "'v writer_env \<Rightarrow> batch_item \<Rightarrow> ('v, u128) op" where
  "item_event_id env item =
     (case ao_idempotency_key (bi_options item) of Some key \<Rightarrow> lift_op (Inr key) | None \<Rightarrow> ask (we_new_id env))"

definition item_dag_depth :: "append_position_hint \<Rightarrow> u32" where
  "item_dag_depth hint = (if ph_branch_root hint then dp_depth (dag_fork (ph_depth hint) (ph_lane hint)) else ph_depth hint)"

definition stage_item ::
  "'v writer_env \<Rightarrow> batch_item \<Rightarrow> u128 \<Rightarrow> u128 option \<Rightarrow> u64 \<Rightarrow> i64 \<Rightarrow> u64 \<Rightarrow> batch_entity_state \<Rightarrow> staged_committed_event" where
  "stage_item env item event_id causation_id global_seq now_us wall state =
     (let hint = hint_of (bi_options item) in
      \<lparr>sc_coord = bi_coord item,
       sc_meta = \<lparr>sm_event_id = event_id,
         sm_correlation_id = (case ao_correlation_id (bi_options item) of Some c \<Rightarrow> c | None \<Rightarrow> event_id),
         sm_causation_id = causation_id, sm_kind = bi_kind item, sm_global_sequence = global_seq\<rparr>,
       sc_timing = \<lparr>tm_timestamp_us = now_us, tm_wall_ms = wall, tm_clock = be_next_clock state,
         tm_dag_lane = ph_lane hint, tm_dag_depth = item_dag_depth hint\<rparr>,
       sc_hash_chain = \<lparr>prev_hash = be_prev_hash state, event_hash = se_hash (we_signing env) (bi_payload item)\<rparr>\<rparr>)"

text \<open>One turn of the loop: the staged event and the states that the next item sees.\<close>

definition precompute_item ::
  "'v writer_env \<Rightarrow> u64 \<Rightarrow> i64 \<Rightarrow> u64 \<Rightarrow> staged_committed_event list \<Rightarrow> entity_states \<Rightarrow> batch_item \<Rightarrow>
   ('v, staged_committed_event \<times> entity_states) op" where
  "precompute_item env first_seq now_us now_ms computed states item w =
     (let entity = coord_entity (bi_coord item); lane = ph_lane (hint_of (bi_options item)); idx = length computed in
      bind_op (lift_op (entity_state (wr_index w) entity lane states)) (\<lambda>state.
      bind_op (item_event_id env item) (\<lambda>event_id.
      bind_op (map_err (BatchFailed idx) (lift_op (resolve (bi_causation item) (ao_causation_id (bi_options item)) idx
          (\<lambda>prior. sm_event_id (sc_meta (computed ! prior)))))) (\<lambda>causation_id.
      bind_op (lift_op (case checked_add (be_next_clock state) 1 of
          None \<Rightarrow> Inl (EntityClockOverflow entity) | Some clock \<Rightarrow> Inr clock)) (\<lambda>next_clock.
      bind_op (ask (we_now_mono_ns env)) (\<lambda>now w1.
        let wall = max now_ms (be_last_wall_ms state);
            global_seq = first_seq + of_nat idx;
            sev = stage_item env item event_id causation_id global_seq now_us wall state in
        (Inr (sev, states((entity, lane) \<mapsto> \<lparr>be_prev_hash = event_hash (sc_hash_chain sev),
             be_next_clock = next_clock, be_last_wall_ms = wall\<rparr>)),
         on_marks (advance_accepted_on_lane now lane (HlcPoint wall global_seq)) w1)))))) w)"

fun precompute_items ::
  "'v writer_env \<Rightarrow> u64 \<Rightarrow> i64 \<Rightarrow> u64 \<Rightarrow> staged_committed_event list \<Rightarrow> entity_states \<Rightarrow> batch_item list \<Rightarrow>
   ('v, staged_committed_event list) op" where
  "precompute_items env first_seq now_us now_ms computed states [] = lift_op (Inr computed)"
| "precompute_items env first_seq now_us now_ms computed states (item # items) =
     bind_op (precompute_item env first_seq now_us now_ms computed states item) (\<lambda>(sev, states').
       precompute_items env first_seq now_us now_ms (computed @ [sev]) states' items)"

definition precompute_batch_items ::
  "'v writer_env \<Rightarrow> prepared_batch \<Rightarrow> u64 \<Rightarrow> ('v, staged_committed_event list) op" where
  "precompute_batch_items env prepared first_seq =
     bind_op (ask (we_now_us env)) (\<lambda>now_us.
     bind_op (map_err (BatchFailed 0) (lift_op (wall_ms_from_timestamp_us now_us))) (\<lambda>now_ms.
       precompute_items env first_seq now_us now_ms [] Map.empty (pb_items prepared)))"

section \<open>Frames\<close>

definition marker_payload :: "u64 \<Rightarrow> EventKind \<Rightarrow> u32 \<Rightarrow> i64 \<Rightarrow> u64 \<Rightarrow> bytes frame_payload" where
  "marker_payload batch_id kind payload_size now_us now_ms =
     \<lparr>fp_event = event_new (event_header_new (ucast batch_id) (ucast batch_id) None now_us
        (dag_child_at 0 now_ms 0) payload_size kind) [],
      fp_entity = BATCH_MARKER_ENTITY, fp_scope = BATCH_MARKER_SCOPE, fp_receipt_extensions = []\<rparr>"

definition write_batch_marker_frame ::
  "'v writer_env \<Rightarrow> u64 \<Rightarrow> EventKind \<Rightarrow> u32 \<Rightarrow> nat \<Rightarrow> bool \<Rightarrow> ('v, u64) op" where
  "write_batch_marker_frame env batch_id kind payload_size idx allow_rotation =
     bind_op (ask (we_now_us env)) (\<lambda>now_us.
     bind_op (map_err (BatchFailed idx) (lift_op (wall_ms_from_timestamp_us now_us))) (\<lambda>now_ms.
     bind_op (map_err (BatchFailed idx) (lift_op (frame_encode (we_frame_bytes env) (we_crc env)
         (marker_payload batch_id kind payload_size now_us now_ms)))) (\<lambda>frame.
     bind_op (if allow_rotation then map_err (BatchFailed idx) (maybe_rotate_segment env) else lift_op (Inr False)) (\<lambda>_.
       map_err (BatchFailed idx) (segment_write env frame)))))"

definition batch_receipt :: "'v writer_env \<Rightarrow> batch_item \<Rightarrow> staged_committed_event \<Rightarrow> disk_pos \<Rightarrow> receipt" where
  "batch_receipt env item sev pos =
     sign_receipt env (unsigned_receipt (sm_event_id (sc_meta sev)) (sm_global_sequence (sc_meta sev)) pos
       (event_hash (sc_hash_chain sev)) (ao_extensions (bi_options item)))
       (sc_coord sev) (sm_kind (sc_meta sev)) (prev_hash (sc_hash_chain sev))"

definition batch_payload :: "staged_committed_event \<Rightarrow> bytes event \<Rightarrow> extensions \<Rightarrow> bytes frame_payload" where
  "batch_payload sev ev exts =
     \<lparr>fp_event = ev, fp_entity = coord_entity (sc_coord sev), fp_scope = coord_scope (sc_coord sev),
      fp_receipt_extensions = exts\<rparr>"

definition write_batch_event_frame ::
  "'v writer_env \<Rightarrow> nat \<Rightarrow> batch_item \<Rightarrow> staged_committed_event \<Rightarrow> ('v, receipt) op" where
  "write_batch_event_frame env idx item sev w =
     bind_op (map_err (BatchFailed idx) (lift_op (borrowed_frame_event sev (bi_payload item)))) (\<lambda>ev w1.
       let r = batch_receipt env item sev \<lparr>pos_segment = wr_segment_id w1, pos_offset = 0, pos_length = 0\<rparr> in
       bind_op (map_err (BatchFailed idx) (lift_op (frame_encode (we_frame_bytes env) (we_crc env)
           (batch_payload sev ev (rc_extensions r))))) (\<lambda>frame.
       bind_op (map_err (BatchFailed idx) (segment_write env frame)) (\<lambda>offset w2.
         let point = HlcPoint (tm_wall_ms (sc_timing sev)) (sm_global_sequence (sc_meta sev));
             w3 = on_marks (advance_written_on_lane (tm_dag_lane (sc_timing sev)) point) w2 in
         if length frame < 2 ^ 32
         then (Inr (r\<lparr>rc_disk_pos := \<lparr>pos_segment = wr_segment_id w3, pos_offset = offset,
                 pos_length = of_nat (length frame)\<rparr>\<rparr>), w3)
         else (Inl (BatchFailed idx Serialization), w3))) w1) w"

fun write_batch_event_frames ::
  "'v writer_env \<Rightarrow> nat \<Rightarrow> (batch_item \<times> staged_committed_event) list \<Rightarrow> ('v, receipt list) op" where
  "write_batch_event_frames env idx [] = lift_op (Inr [])"
| "write_batch_event_frames env idx ((item, sev) # rest) =
     bind_op (write_batch_event_frame env idx item sev) (\<lambda>r.
     bind_op (write_batch_event_frames env (idx + 1) rest) (\<lambda>rs. lift_op (Inr (r # rs))))"

section \<open>The commit\<close>

fun interned_ids :: "batch_item list \<Rightarrow> ('v, (u32 \<times> u32) list) op" where
  "interned_ids [] = lift_op (Inr [])"
| "interned_ids (item # items) =
     bind_op (interned_for_coord (bi_coord item)) (\<lambda>ids.
     bind_op (interned_ids items) (\<lambda>rest. lift_op (Inr (ids # rest))))"

definition materialize_batch_commit_artifacts ::
  "'v writer_env \<Rightarrow> batch_item list \<Rightarrow> staged_committed_event list \<Rightarrow> receipt list \<Rightarrow> ('v, 'v commit_artifacts list) op" where
  "materialize_batch_commit_artifacts env items sevs receipts =
     bind_op (ask (we_reactors env)) (\<lambda>emit_envelope.
     bind_op (interned_ids items) (\<lambda>interned.
       lift_op (Inr (map (\<lambda>((item, sev), r, ids). materialize_commit_artifacts env sev (rc_disk_pos r) ids
           \<lparr>cf_payload_bytes = bi_payload item, cf_flags = ao_flags (bi_options item),
            cf_receipt_extensions = rc_extensions r, cf_emit_envelope = emit_envelope\<rparr>)
         (zip (zip items sevs) (zip receipts interned))))))"

fun record_batch_sidx :: "'v commit_artifacts list \<Rightarrow> ('v, unit) op" where
  "record_batch_sidx [] = lift_op (Inr ())"
| "record_batch_sidx (a # as) = (\<lambda>w.
     case collector_record (wr_sidx_collector w) (ca_sidx_entry a) (coord_entity (ie_coord (ca_index_entry a)))
         (coord_scope (ie_coord (ca_index_entry a))) of
       Inl err \<Rightarrow> (Inl err, w)
     | Inr c \<Rightarrow> record_batch_sidx as (w\<lparr>wr_sidx_collector := c\<rparr>))"

definition record_batch_idempotency :: "batch_item list \<Rightarrow> index_entry list \<Rightarrow> idemp_store \<Rightarrow> idemp_store" where
  "record_batch_idempotency items entries idemp =
     foldl (\<lambda>s (item, e). if ao_idempotency_key (bi_options item) \<noteq> None
         then record_entry s (from_index_entry e (ie_global_sequence e)) else s) idemp (zip items entries)"

text \<open>The commit marker, the sync that makes the batch durable, and the artifacts.\<close>

definition batch_frontier :: "staged_committed_event list \<Rightarrow> HlcPoint" where
  "batch_frontier computed =
     (case last_option computed of
        None \<Rightarrow> ORIGIN
      | Some sev \<Rightarrow> HlcPoint (tm_wall_ms (sc_timing sev)) (sm_global_sequence (sc_meta sev)))"

definition write_batch :: "'v writer_env \<Rightarrow> prepared_batch \<Rightarrow> staged_committed_event list \<Rightarrow> u64 \<Rightarrow> ('v, receipt list) op" where
  "write_batch env prepared computed batch_id =
     (let items = pb_items prepared; len = length items in
      bind_op (lift_op (if len < 2 ^ 32 then Inr (of_nat len) else Inl Serialization)) (\<lambda>batch_count.
      bind_op (write_batch_marker_frame env batch_id SYSTEM_BATCH_BEGIN batch_count 0 True) (\<lambda>_.
      bind_op (write_batch_event_frames env 0 (zip items computed)) (\<lambda>receipts.
      bind_op (write_batch_marker_frame env batch_id SYSTEM_BATCH_COMMIT 0 (len - 1) False) (\<lambda>_.
      bind_op (map_err (BatchSyncFailed len) (sync_with_mode env)) (\<lambda>_ w.
        (Inr receipts, on_marks advance_durable_to_accepted w)))))))"

definition commit_batch ::
  "'v writer_env \<Rightarrow> batch_item list \<Rightarrow> staged_committed_event list \<Rightarrow> receipt list \<Rightarrow> ('v, 'v commit_artifacts list) op" where
  "commit_batch env items computed receipts =
     bind_op (materialize_batch_commit_artifacts env items computed receipts) (\<lambda>artifacts.
     bind_op (record_batch_sidx artifacts) (\<lambda>_ w.
       let ix = wr_index w; entries = map ca_index_entry artifacts;
           ix1 = ix\<lparr>ix_idemp := record_batch_idempotency items entries (ix_idemp ix)\<rparr> in
       (Inr artifacts, w\<lparr>wr_index := insert_batch ix1 entries\<rparr>)))"

text \<open>A prepared batch up to its insertion into the index.\<close>

definition batch_core ::
  "'v writer_env \<Rightarrow> prepared_batch \<Rightarrow>
   ('v, receipt list \<times> u64 \<times> staged_committed_event list \<times> 'v commit_artifacts list) op" where
  "batch_core env prepared w =
     (let items = pb_items prepared;
          batch_id = index_global_sequence (wr_index w) in
      case index_reserve_sequences (wr_index w) (of_nat (length items)) of
        (first_seq, ix) \<Rightarrow>
          bind_op (precompute_batch_items env prepared first_seq) (\<lambda>computed.
          bind_op (write_batch env prepared computed batch_id) (\<lambda>receipts.
          bind_op (commit_batch env items computed receipts) (\<lambda>artifacts.
            lift_op (Inr (receipts, first_seq, computed, artifacts))))) (w\<lparr>wr_index := ix\<rparr>))"

definition batch_envelopes :: "'v commit_artifacts list \<Rightarrow> 'v envelope list" where
  "batch_envelopes artifacts = concat (map (\<lambda>a. opt_list (ca_envelope a)) artifacts)"

definition handle_prepared_batch ::
  "'v writer_env \<Rightarrow> prepared_batch \<Rightarrow> 'v fence_ledger option \<Rightarrow> 'v writer \<Rightarrow>
   (StoreError, receipt list) result \<times> 'v fence_ledger option \<times> 'v writer" where
  "handle_prepared_batch env prepared fence w =
     (case batch_core env prepared w of
        (Inl err, w1) \<Rightarrow> (Inl err, fence, w1)
      | (Inr (receipts, first_seq, computed, artifacts), w1) \<Rightarrow>
          (case settle_commit first_seq (first_seq + of_nat (length (pb_items prepared))) (batch_frontier computed)
               (map ca_notification artifacts) (batch_envelopes artifacts) fence w1 of
             (Inl err, f', w2) \<Rightarrow> (Inl err, f', w2)
           | (Inr _, f', w2) \<Rightarrow> (Inr receipts, f', w2)))"

definition batch_keys :: "batch_item list \<Rightarrow> u128 list" where
  "batch_keys items = concat (map (\<lambda>item. opt_list (ao_idempotency_key (bi_options item))) items)"

definition admit_batch :: "batch_item list \<Rightarrow> ('v, unit) op" where
  "admit_batch items w =
     (let ix = wr_index w in
      case admit_new_keys (ix_idemp ix) (batch_keys items) (index_global_sequence ix) of
        (r, idemp) \<Rightarrow> (r, w\<lparr>wr_index := ix\<lparr>ix_idemp := idemp\<rparr>\<rparr>))"

definition handle_append_batch ::
  "'v writer_env \<Rightarrow> batch_item list \<Rightarrow> 'v fence_ledger option \<Rightarrow> 'v writer \<Rightarrow>
   (StoreError, receipt list) result \<times> 'v fence_ledger option \<times> 'v writer" where
  "handle_append_batch env items fence w =
     (case validate_batch env items of
        Inl err \<Rightarrow> (Inl err, fence, w)
      | Inr _ \<Rightarrow>
          if items = [] then (Inr [], fence, w)
          else if keyed_count items \<noteq> 0 \<and> keyed_count items \<noteq> length items
          then (Inl IdempotencyPartialBatch, fence, w)
          else case preflight_batch_idempotency env (wr_index w) items of
              Inl err \<Rightarrow> (Inl err, fence, w)
            | Inr (Some cached) \<Rightarrow> (Inr cached, fence, w)
            | Inr None \<Rightarrow>
                (case admit_batch items w of
                   (Inl err, w1) \<Rightarrow> (Inl err, fence, w1)
                 | (Inr _, w1) \<Rightarrow>
                     (case prepared_from_items items of
                        Inl err \<Rightarrow> (Inl err, fence, w1)
                      | Inr prepared \<Rightarrow> handle_prepared_batch env prepared fence w1)))"

definition handle_fence_append_batch_command ::
  "'v writer_env \<Rightarrow> u64 \<Rightarrow> batch_item list \<Rightarrow> channel \<Rightarrow> ('v, unit) op" where
  "handle_fence_append_batch_command env token items respond =
     with_matching_fence_ledger token (\<lambda>fence w.
       case handle_append_batch env items (Some fence) w of
         (Inl err, f', w') \<Rightarrow> (Inl err, the f', w')
       | (Inr rs, f', w') \<Rightarrow> (Inr (), push_response (BatchResponse respond rs) (the f'), w'))"

end
