(* ===== verification/BatchCommit.thy ===== *)
theory BatchCommit
  imports Commit Batch
begin

text \<open>
  What a batch append promises: all of its events or none, in order, on one chain with the log,
  between their markers on disk.
\<close>

section \<open>Staged events\<close>

definition staged_entry :: "staged_committed_event \<Rightarrow> index_entry" where
  "staged_entry sev = staged_index_entry sev \<lparr>pos_segment = 0, pos_offset = 0, pos_length = 0\<rparr> (0, 0) []"

lemma staged_entry_simps [simp]:
  "entity_of (staged_entry sev) = coord_entity (sc_coord sev)" "ie_dag_lane (staged_entry sev) = tm_dag_lane (sc_timing sev)"
  "ie_clock (staged_entry sev) = tm_clock (sc_timing sev)" "ie_wall_ms (staged_entry sev) = tm_wall_ms (sc_timing sev)"
  "ie_hash_chain (staged_entry sev) = sc_hash_chain sev"
  by (simp_all add: staged_entry_def)

text \<open>Only what chains an entry matters to the chain.\<close>

definition same_link :: "index_entry \<Rightarrow> index_entry \<Rightarrow> bool" where
  "same_link d e \<longleftrightarrow> entity_of d = entity_of e \<and> ie_dag_lane d = ie_dag_lane e \<and> ie_clock d = ie_clock e \<and>
     ie_wall_ms d = ie_wall_ms e \<and> ie_hash_chain d = ie_hash_chain e"

lemma same_link_stream:
  "list_all2 same_link ds es \<Longrightarrow> list_all2 same_link (stream_of entity lane ds) (stream_of entity lane es)"
  by (induction rule: list_all2_induct) (auto simp: stream_of_def same_link_def)

lemma same_link_last:
  assumes "list_all2 same_link ds es"
  shows "rel_option same_link (last_option ds) (last_option es)"
  using assms by (auto simp: last_option_def list_all2_conv_all_nth last_conv_nth)

lemma same_link_follows:
  "rel_option same_link p q \<Longrightarrow> same_link d e \<Longrightarrow> follows p d \<Longrightarrow> follows q e"
  by (cases p; cases q) (auto simp: same_link_def)

lemma chained_cong: "chained ds \<Longrightarrow> list_all2 same_link ds es \<Longrightarrow> chained es"
proof (induction arbitrary: es rule: chained.induct)
  case (chained_snoc ds d)
  then obtain es' e where es: "es = es' @ [e]" "list_all2 same_link ds es'" "same_link d e"
    by (auto simp: list_all2_append1 list_all2_Cons1)
  have "follows (last_option (stream_of (entity_of e) (ie_dag_lane e) es')) e"
    using same_link_follows [OF same_link_last [OF same_link_stream [OF es(2)]] es(3)] chained_snoc.hyps(2) es(3)
    by (simp add: same_link_def)
  then show ?case unfolding es(1) using chained_snoc.IH [OF es(2)] by (rule chained.chained_snoc [rotated])
qed (simp add: chained_empty)

section \<open>Planning a batch\<close>

definition states_ok :: "index_entry list \<Rightarrow> index_entry list \<Rightarrow> entity_states \<Rightarrow> bool" where
  "states_ok es ds states \<longleftrightarrow> (\<forall>entity lane.
     case states (entity, lane) of
       None \<Rightarrow> stream_of entity lane ds = []
     | Some st \<Rightarrow> \<exists>p. last_option (stream_of entity lane (es @ ds)) = Some p \<and> be_prev_hash st = event_hash (ie_hash_chain p) \<and>
         unat (be_next_clock st) = unat (ie_clock p) + 1 \<and> be_last_wall_ms st = ie_wall_ms p)"

lemma states_ok_empty: "states_ok es [] Map.empty"
  by (simp add: states_ok_def stream_of_def)

definition state_follows :: "index_entry option \<Rightarrow> batch_entity_state \<Rightarrow> bool" where
  "state_follows p st \<longleftrightarrow> (case p of
       None \<Rightarrow> be_prev_hash st = ZERO_HASH \<and> be_next_clock st = 0 \<and> be_last_wall_ms st = 0
     | Some e \<Rightarrow> be_prev_hash st = event_hash (ie_hash_chain e) \<and> unat (be_next_clock st) = unat (ie_clock e) + 1 \<and>
         be_last_wall_ms st = ie_wall_ms e)"

lemma entity_state_ok:
  assumes "entity_state ix entity lane states = Inr st" and "log_ok es ix" and "states_ok es ds states"
  shows "state_follows (last_option (stream_of entity lane (es @ ds))) st"
proof (cases "states (entity, lane)")
  case None
  then have "stream_of entity lane ds = []" using assms(3) [unfolded states_ok_def, rule_format, of entity lane] by simp
  then have "stream_of entity lane (es @ ds) = stream_of entity lane es" by (simp add: stream_of_def)
  moreover have "get_latest_committed ix entity lane = last_option (stream_of entity lane es)" by (rule log_latest [OF assms(2)])
  ultimately show ?thesis
    using assms(1) None
    by (cases "last_option (stream_of entity lane es)")
      (auto simp: entity_state_def Let_def state_follows_def ZERO_HASH_def bind_result_def split: sum.splits dest: next_clock)
next
  case (Some st')
  then show ?thesis using assms(1) assms(3) [unfolded states_ok_def, rule_format, of entity lane]
    by (auto simp: entity_state_def state_follows_def)
qed

lemma stage_item_fields [simp]:
  "sc_coord (stage_item env item i c s us ms st) = bi_coord item"
  "sm_event_id (sc_meta (stage_item env item i c s us ms st)) = i"
  "sm_kind (sc_meta (stage_item env item i c s us ms st)) = bi_kind item"
  "sm_global_sequence (sc_meta (stage_item env item i c s us ms st)) = s"
  "tm_clock (sc_timing (stage_item env item i c s us ms st)) = be_next_clock st"
  "tm_wall_ms (sc_timing (stage_item env item i c s us ms st)) = ms"
  "tm_dag_lane (sc_timing (stage_item env item i c s us ms st)) = ph_lane (hint_of (bi_options item))"
  "sc_hash_chain (stage_item env item i c s us ms st) = \<lparr>prev_hash = be_prev_hash st, event_hash = se_hash (we_signing env) (bi_payload item)\<rparr>"
  by (simp_all add: stage_item_def Let_def)

text \<open>What a staged event has from its item, its place in the batch and the turn it was numbered at.\<close>

definition item_id :: "'v writer_env \<Rightarrow> batch_item \<Rightarrow> nat \<Rightarrow> u128" where
  "item_id env item t = (case ao_idempotency_key (bi_options item) of Some key \<Rightarrow> key | None \<Rightarrow> we_new_id env t)"

definition staged_for :: "'v writer_env \<Rightarrow> batch_item \<Rightarrow> nat \<Rightarrow> u64 \<Rightarrow> staged_committed_event \<Rightarrow> bool" where
  "staged_for env item t seq sev \<longleftrightarrow> sc_coord sev = bi_coord item \<and> sm_kind (sc_meta sev) = bi_kind item \<and>
     sm_event_id (sc_meta sev) = item_id env item t \<and> sm_global_sequence (sc_meta sev) = seq \<and>
     tm_dag_lane (sc_timing sev) = ph_lane (hint_of (bi_options item)) \<and>
     event_hash (sc_hash_chain sev) = se_hash (we_signing env) (bi_payload item)"

definition quiet :: "'v writer \<Rightarrow> 'v writer \<Rightarrow> bool" where
  "quiet w w' \<longleftrightarrow> w' = w\<lparr>wr_watermarks := wr_watermarks w', wr_tick := wr_tick w'\<rparr>"

interpretation quiets: effect quiet
proof
  fix u v w :: "'v writer" and t h
  show "quiet w w" by (simp add: quiet_def)
  show "quiet u w" if uv: "quiet u v" and vw: "quiet v w"
  proof -
    obtain m t m' t' where "v = u\<lparr>wr_watermarks := m, wr_tick := t\<rparr>" "w = v\<lparr>wr_watermarks := m', wr_tick := t'\<rparr>"
      using uv vw unfolding quiet_def by blast
    then show ?thesis by (simp add: quiet_def)
  qed
  show "quiet w (w\<lparr>wr_tick := t\<rparr>)" "quiet w (on_marks h w)" by (simp_all add: quiet_def on_marks_def)
qed

lemma quiet_index: "quiet w w' \<Longrightarrow> wr_index w' = wr_index w"
  by (subst quiet_def [THEN iffD1]) simp_all

lemma map_err_Inr [simp]: "map_err f m w = (Inr a, w') \<longleftrightarrow> m w = (Inr a, w')"
  by (auto simp: map_err_def split: prod.splits sum.splits)

lemma map_err_lift: "map_err f (lift_op r) w = (map_sum f id r, w)"
  by (simp add: map_err_def split: sum.split)

lemma snd_map_err [simp]: "snd (map_err f m w) = snd (m w)"
  by (simp add: map_err_def split: prod.splits sum.splits)

lemma item_event_id_eq:
  "\<exists>t. item_event_id env item w = (Inr (item_id env item (wr_tick w)), w\<lparr>wr_tick := t\<rparr>) \<and> wr_tick w \<le> t"
  by (cases "ao_idempotency_key (bi_options item)")
    (auto simp: item_event_id_def item_id_def intro: exI [of _ "Suc (wr_tick w)"] exI [of _ "wr_tick w"])

lemma precompute_item_ok:
  assumes run: "precompute_item env first_seq now_us now_ms computed states item w = (Inr (sev, states'), w')"
    and log: "log_ok es (wr_index w)" and st: "states_ok es (map staged_entry computed) states"
    and chain: "chained (es @ map staged_entry computed)"
  shows "states_ok es (map staged_entry (computed @ [sev])) states'" "chained (es @ map staged_entry (computed @ [sev]))"
    "staged_for env item (wr_tick w) (first_seq + of_nat (length computed)) sev" "quiet w w'" "wr_tick w < wr_tick w'"
proof -
  let ?entity = "coord_entity (bi_coord item)" and ?lane = "ph_lane (hint_of (bi_options item))"
  let ?ds = "map staged_entry computed"
  obtain state event_id t causation_id next_clock where state: "entity_state (wr_index w) ?entity ?lane states = Inr state"
    and eid: "event_id = item_id env item (wr_tick w)" "wr_tick w \<le> t"
    and clock: "checked_add (be_next_clock state) 1 = Some next_clock"
    and sev: "sev = stage_item env item event_id causation_id (first_seq + of_nat (length computed)) now_us (max now_ms (be_last_wall_ms state)) state"
    and states': "states' = states((?entity, ?lane) \<mapsto> \<lparr>be_prev_hash = event_hash (sc_hash_chain sev), be_next_clock = next_clock,
      be_last_wall_ms = max now_ms (be_last_wall_ms state)\<rparr>)"
    and w': "\<exists>h. w' = on_marks h (w\<lparr>wr_tick := Suc t\<rparr>)"
  proof -
    obtain t where t: "item_event_id env item w = (Inr (item_id env item (wr_tick w)), w\<lparr>wr_tick := t\<rparr>)" "wr_tick w \<le> t"
      using item_event_id_eq by blast
    from run obtain st where st: "entity_state (wr_index w) ?entity ?lane states = Inr st"
      by (auto simp: precompute_item_def Let_def split: sum.splits)
    with run t(1) obtain c where c: "resolve (bi_causation item) (ao_causation_id (bi_options item)) (length computed)
        (\<lambda>prior. sm_event_id (sc_meta (computed ! prior))) = Inr c"
      by (cases "resolve (bi_causation item) (ao_causation_id (bi_options item)) (length computed)
        (\<lambda>prior. sm_event_id (sc_meta (computed ! prior)))") (auto simp: precompute_item_def Let_def map_err_lift bind_op_def split: sum.splits)
    from run st t(1) c obtain nc where "checked_add (be_next_clock st) 1 = Some nc"
      by (auto simp: precompute_item_def Let_def map_err_lift bind_op_def split: option.splits)
    with run st t c show thesis
      by (intro that [of st "item_id env item (wr_tick w)" t nc c])
        (auto simp: precompute_item_def Let_def map_err_lift bind_op_def)
  qed
  note follows = entity_state_ok [OF state log st]
  have next_clock: "unat next_clock = unat (be_next_clock state) + 1"
    using clock by (auto simp: checked_add_def unat_word_ariths split: if_splits)
  have entry: "staged_entry sev = d \<Longrightarrow> entity_of d = ?entity \<and> ie_dag_lane d = ?lane" for d by (auto simp: sev)
  have streams: "stream_of en ln (es @ map staged_entry (computed @ [sev])) =
      stream_of en ln (es @ ?ds) @ (if en = ?entity \<and> ln = ?lane then [staged_entry sev] else [])"
    "stream_of en ln (map staged_entry (computed @ [sev])) =
      stream_of en ln ?ds @ (if en = ?entity \<and> ln = ?lane then [staged_entry sev] else [])" for en ln
    by (auto simp: stream_of_def sev)
  show "states_ok es (map staged_entry (computed @ [sev])) states'"
    unfolding states_ok_def
  proof (intro allI)
    fix en ln
    show "case states' (en, ln) of
        None \<Rightarrow> stream_of en ln (map staged_entry (computed @ [sev])) = []
      | Some st \<Rightarrow> \<exists>p. last_option (stream_of en ln (es @ map staged_entry (computed @ [sev]))) = Some p \<and>
          be_prev_hash st = event_hash (ie_hash_chain p) \<and> unat (be_next_clock st) = unat (ie_clock p) + 1 \<and> be_last_wall_ms st = ie_wall_ms p"
    proof (cases "en = ?entity \<and> ln = ?lane")
      case True
      then show ?thesis unfolding streams by (simp add: states' next_clock) (simp add: sev)
    next
      case False
      then have "states' (en, ln) = states (en, ln)" unfolding states' using fun_upd_other [of "(en, ln)" "(?entity, ?lane)"] by auto
      then show ?thesis unfolding streams if_not_P [OF False] append_Nil2
        using st [unfolded states_ok_def, rule_format, of en ln] by simp
    qed
  qed
  have "follows (last_option (stream_of ?entity ?lane (es @ ?ds))) (staged_entry sev)"
    using follows by (cases "last_option (stream_of ?entity ?lane (es @ ?ds))") (auto simp: state_follows_def sev)
  then show "chained (es @ map staged_entry (computed @ [sev]))"
    using chained_snoc [OF chain, of "staged_entry sev"] by (simp add: sev)
  show "staged_for env item (wr_tick w) (first_seq + of_nat (length computed)) sev" by (simp add: staged_for_def sev eid)
  show "quiet w w'" "wr_tick w < wr_tick w'" using w' eid by (auto simp: on_marks_def quiet_def)
qed

text \<open>The whole plan: one event per item, numbered from the first reserved sequence.\<close>

inductive staged_batch :: "'v writer_env \<Rightarrow> u64 \<Rightarrow> nat \<Rightarrow> batch_item list \<Rightarrow> staged_committed_event list \<Rightarrow> bool"
  for env :: "'v writer_env" where
  staged_none: "staged_batch env seq t [] []"
| staged_more: "t \<le> t' \<Longrightarrow> staged_for env item t' seq sev \<Longrightarrow> staged_batch env (seq + 1) (Suc t') items sevs \<Longrightarrow>
    staged_batch env seq t (item # items) (sev # sevs)"

inductive_cases staged_batchE: "staged_batch env seq t (item # items) sevs"

lemma staged_batch_earlier: "staged_batch env seq t items sevs \<Longrightarrow> t0 \<le> t \<Longrightarrow> staged_batch env seq t0 items sevs"
  by (cases rule: staged_batch.cases) (auto intro: staged_batch.intros order.trans)

lemma precompute_items_ok:
  assumes "precompute_items env first_seq now_us now_ms computed states items w = (Inr res, w')"
    and "log_ok es (wr_index w)" and "states_ok es (map staged_entry computed) states"
    and "chained (es @ map staged_entry computed)"
  shows "\<exists>sevs. res = computed @ sevs \<and> staged_batch env (first_seq + of_nat (length computed)) (wr_tick w) items sevs \<and>
    chained (es @ map staged_entry res) \<and> quiet w w'"
  using assms
proof (induction items arbitrary: computed states w)
  case Nil
  then show ?case by (auto simp: quiets.refl intro: staged_none)
next
  case (Cons item items)
  from Cons.prems(1) obtain sev states1 w1 where
    one: "precompute_item env first_seq now_us now_ms computed states item w = (Inr (sev, states1), w1)"
    and rest: "precompute_items env first_seq now_us now_ms (computed @ [sev]) states1 items w1 = (Inr res, w')"
    by (auto simp: bind_op_Inr)
  note ok = precompute_item_ok [OF one Cons.prems(2-4)]
  have "log_ok es (wr_index w1)" using Cons.prems(2) quiet_index [OF ok(4)] by simp
  from Cons.IH [OF rest this ok(1,2)] obtain sevs where
    sevs: "res = computed @ sev # sevs" "staged_batch env (first_seq + of_nat (length computed) + 1) (wr_tick w1) items sevs"
      "chained (es @ map staged_entry res)" "quiet w1 w'" by (auto simp: algebra_simps)
  have "staged_batch env (first_seq + of_nat (length computed)) (wr_tick w) (item # items) (sev # sevs)"
    using ok(3,5) by (intro staged_more [OF order.refl _ staged_batch_earlier [OF sevs(2)]]) auto
  then show ?case using sevs quiets.trans [OF ok(4)] by auto
qed

lemma precompute_batch_ok:
  assumes "precompute_batch_items env prepared first_seq w = (Inr computed, w')" and "log_ok es (wr_index w)"
  shows "staged_batch env first_seq (wr_tick w) (pb_items prepared) computed" "chained (es @ map staged_entry computed)" "quiet w w'"
proof -
  let ?w = "w\<lparr>wr_tick := Suc (wr_tick w)\<rparr>"
  obtain now_us now_ms where "precompute_items env first_seq now_us now_ms [] Map.empty (pb_items prepared) ?w = (Inr computed, w')"
    using assms(1) by (auto simp: precompute_batch_items_def bind_op_Inr map_err_lift)
  from precompute_items_ok [OF this] assms(2) states_ok_empty
  have "staged_batch env first_seq (Suc (wr_tick w)) (pb_items prepared) computed" "chained (es @ map staged_entry computed)" "quiet ?w w'"
    by (auto simp: log_ok_def)
  then show "staged_batch env first_seq (wr_tick w) (pb_items prepared) computed" "chained (es @ map staged_entry computed)" "quiet w w'"
    using quiets.trans [of w ?w w']  by (auto intro: staged_batch_earlier quiets.ticks)
qed

lemma precompute_items_quiet: "quiet w (snd (precompute_items env first_seq now_us now_ms computed states items w))"
proof (induction items arbitrary: computed states w)
  case Nil
  then show ?case by (simp add: quiets.refl)
next
  case (Cons item items)
  obtain t where "item_event_id env item w = (Inr (item_id env item (wr_tick w)), w\<lparr>wr_tick := t\<rparr>)"
    using item_event_id_eq by blast
  then have one: "quiet w (snd (precompute_item env first_seq now_us now_ms computed states item w))"
    by (auto simp: precompute_item_def Let_def map_err_lift bind_op_def on_marks_def quiet_def split: sum.split option.split)
  show ?case
  proof (cases "precompute_item env first_seq now_us now_ms computed states item w")
    case (Pair r w1)
    with one Cons show ?thesis by (cases r) (auto simp: bind_op_def intro: quiets.trans)
  qed
qed

section \<open>Writing a batch\<close>

text \<open>What segment writes and rotations keep, writing a batch keeps.\<close>

locale storage_effect = effect R for R :: "'v writer \<Rightarrow> 'v writer \<Rightarrow> bool" +
  assumes write_keeps: "R w (snd (segment_write env frame w))"
    and rotate_keeps: "R w (snd (maybe_rotate_segment env w))"
begin

lemma bind_lift_keeps: "(\<And>a. r = Inr a \<Longrightarrow> R w (snd (f a w))) \<Longrightarrow> R w (snd (bind_op (map_err h (lift_op r)) f w))"
  by (cases r) (auto simp: refl map_err_lift bind_op_def)

lemma marker_keeps: "R w (snd (write_batch_marker_frame env batch_id kind n idx rot w))"
  unfolding write_batch_marker_frame_def
  by (intro bind_ask_keeps bind_lift_keeps bind_keeps) (auto simp: write_keeps rotate_keeps refl)

lemma event_frame_keeps: "R w (snd (write_batch_event_frame env idx item sev w))"
  unfolding write_batch_event_frame_def Let_def
  by (intro bind_lift_keeps bind_keeps) (auto simp: write_keeps marks)

lemma event_frames_keep: "R w (snd (write_batch_event_frames env idx pairs w))"
proof (induction pairs arbitrary: idx w)
  case (Cons p pairs)
  obtain item sev where "p = (item, sev)" by (cases p)
  then show ?case by (auto intro!: bind_keeps event_frame_keeps Cons simp: refl)
qed (simp add: refl)

lemma write_batch_keeps: "R w (snd (write_batch env prepared computed batch_id w))"
  unfolding write_batch_def Let_def
  by (intro bind_keeps marker_keeps event_frames_keep) (auto simp: refl marks sync_keeps)

end

interpretation store_logs: storage_effect same_log
  by unfold_locales (rule segment_write_log, rule rotate_log)

interpretation store_disks: storage_effect disk_grows
  by unfold_locales (rule segment_write_disk, rule rotate_disk)

text \<open>The end of the active file, where the next frame goes.\<close>

definition aligned :: "'v writer \<Rightarrow> bytes \<Rightarrow> bool" where
  "aligned w f \<longleftrightarrow> seg_file (wr_active_segment w) = Some f \<and> written_bytes (wr_active_segment w) = of_nat (length f)"

lemma positioned_aligned: "positioned w \<Longrightarrow> \<exists>f. aligned w f"
  by (auto simp: positioned_def aligned_def)

lemma segment_write_aligned:
  assumes "segment_write env frame w = (Inr offset, w')" and "aligned w f"
  shows "offset = of_nat (length f)" "aligned w' (f @ frame)" "wr_segment_id w' = wr_segment_id w" "wr_files w' = wr_files w"
  using assms by (auto simp: segment_write_def aligned_def Let_def write_frame_def split: option.splits)

definition batch_frame :: "'v writer_env \<Rightarrow> batch_item \<Rightarrow> staged_committed_event \<Rightarrow> (StoreError, bytes) result" where
  "batch_frame env item sev =
     bind_result (borrowed_frame_event sev (bi_payload item)) (\<lambda>ev.
       frame_encode (we_frame_bytes env) (we_crc env) (batch_payload sev ev
         (rc_extensions (batch_receipt env item sev \<lparr>pos_segment = 0, pos_offset = 0, pos_length = 0\<rparr>))))"

fun frames_at ::
  "'v writer_env \<Rightarrow> u64 \<Rightarrow> nat \<Rightarrow> (batch_item \<times> staged_committed_event) list \<Rightarrow> receipt list \<Rightarrow> bytes list \<Rightarrow> bool" where
  "frames_at env sid pos [] [] [] = True"
| "frames_at env sid pos ((item, sev) # pairs) (r # rs) (frame # frames) \<longleftrightarrow>
     batch_frame env item sev = Inr frame \<and> length frame < 2 ^ 32 \<and>
     r = batch_receipt env item sev \<lparr>pos_segment = sid, pos_offset = of_nat pos, pos_length = of_nat (length frame)\<rparr> \<and>
     frames_at env sid (pos + length frame) pairs rs frames"
| "frames_at env sid pos _ _ _ = False"

lemma batch_receipt_pos [simp]: "(batch_receipt env item sev p0)\<lparr>rc_disk_pos := pos\<rparr> = batch_receipt env item sev pos"
  by (simp add: batch_receipt_def unsigned_receipt_def flip: sign_receipt_pos)

lemma batch_receipt_extensions: "rc_extensions (batch_receipt env item sev pos) = rc_extensions (batch_receipt env item sev p0)"
proof -
  have "rc_extensions ((batch_receipt env item sev p0)\<lparr>rc_disk_pos := pos\<rparr>) = rc_extensions (batch_receipt env item sev p0)"
    by (simp del: batch_receipt_pos)
  then show ?thesis by simp
qed

lemma event_frame_ok:
  assumes "write_batch_event_frame env idx item sev w = (Inr r, w')" and "aligned w f"
  obtains frame where "batch_frame env item sev = Inr frame" "length frame < 2 ^ 32"
    "r = batch_receipt env item sev \<lparr>pos_segment = wr_segment_id w, pos_offset = of_nat (length f), pos_length = of_nat (length frame)\<rparr>"
    "aligned w' (f @ frame)" "wr_segment_id w' = wr_segment_id w" "wr_files w' = wr_files w"
proof -
  obtain ev frame offset w2 where ev: "borrowed_frame_event sev (bi_payload item) = Inr ev"
    and frame: "frame_encode (we_frame_bytes env) (we_crc env) (batch_payload sev ev
        (rc_extensions (batch_receipt env item sev \<lparr>pos_segment = wr_segment_id w, pos_offset = 0, pos_length = 0\<rparr>))) = Inr frame"
    and wr: "segment_write env frame w = (Inr offset, w2)" and len: "length frame < 2 ^ 32"
    and w': "w' = on_marks (advance_written_on_lane (tm_dag_lane (sc_timing sev))
        (HlcPoint (tm_wall_ms (sc_timing sev)) (sm_global_sequence (sc_meta sev)))) w2"
    and r: "r = (batch_receipt env item sev \<lparr>pos_segment = wr_segment_id w, pos_offset = 0, pos_length = 0\<rparr>)
        \<lparr>rc_disk_pos := \<lparr>pos_segment = wr_segment_id w', pos_offset = offset, pos_length = of_nat (length frame)\<rparr>\<rparr>"
    using assms(1) by (auto simp: write_batch_event_frame_def Let_def bind_op_Inr split: if_splits)
  note wr = segment_write_aligned [OF wr assms(2)]
  have "batch_frame env item sev = Inr frame"
    using ev frame by (simp add: batch_frame_def bind_result_def) (subst batch_receipt_extensions, assumption)
  with len r wr show thesis
    by (intro that [of frame]) (simp_all add: w' on_marks_def aligned_def batch_receipt_pos)
qed

lemma event_frames_ok:
  assumes "write_batch_event_frames env idx pairs w = (Inr rs, w')" and "aligned w f"
  shows "\<exists>frames. frames_at env (wr_segment_id w) (length f) pairs rs frames \<and> aligned w' (f @ concat frames) \<and>
    wr_segment_id w' = wr_segment_id w \<and> wr_files w' = wr_files w"
  using assms
proof (induction pairs arbitrary: idx rs w f)
  case Nil
  then show ?case by (intro exI [of _ "[]"]) auto
next
  case (Cons p pairs)
  obtain item sev where p: "p = (item, sev)" by (cases p)
  from Cons.prems(1) obtain r w1 rs' where one: "write_batch_event_frame env idx item sev w = (Inr r, w1)"
    and rest: "write_batch_event_frames env (idx + 1) pairs w1 = (Inr rs', w')" "rs = r # rs'"
    by (auto simp: p bind_op_Inr)
  obtain frame where frame: "batch_frame env item sev = Inr frame" "length frame < 2 ^ 32"
    "r = batch_receipt env item sev \<lparr>pos_segment = wr_segment_id w, pos_offset = of_nat (length f), pos_length = of_nat (length frame)\<rparr>"
    "aligned w1 (f @ frame)" "wr_segment_id w1 = wr_segment_id w" "wr_files w1 = wr_files w"
    by (rule event_frame_ok [OF one Cons.prems(2)])
  from Cons.IH [OF rest(1) frame(4)] obtain frames where
    "frames_at env (wr_segment_id w) (length f + length frame) pairs rs' frames" "aligned w' (f @ frame @ concat frames)"
    "wr_segment_id w' = wr_segment_id w" "wr_files w' = wr_files w"
    by (auto simp: frame)
  with frame rest(2) show ?case by (intro exI [of _ "frame # frames"]) (auto simp: p)
qed

definition marker_frame :: "'v writer_env \<Rightarrow> u64 \<Rightarrow> EventKind \<Rightarrow> u32 \<Rightarrow> bytes \<Rightarrow> bool" where
  "marker_frame env batch_id kind n frame \<longleftrightarrow>
     (\<exists>now_us now_ms. frame_encode (we_frame_bytes env) (we_crc env) (marker_payload batch_id kind n now_us now_ms) = Inr frame)"

lemma commit_marker_ok:
  assumes "write_batch_marker_frame env batch_id kind n idx False w = (Inr offset, w')" and "aligned w f"
  obtains frame where "marker_frame env batch_id kind n frame" "aligned w' (f @ frame)" "wr_segment_id w' = wr_segment_id w"
    "wr_files w' = wr_files w"
proof -
  let ?w = "w\<lparr>wr_tick := Suc (wr_tick w)\<rparr>"
  obtain frame where "marker_frame env batch_id kind n frame" "segment_write env frame ?w = (Inr offset, w')"
    using assms(1) by (auto simp: write_batch_marker_frame_def bind_op_Inr marker_frame_def)
  moreover have "aligned ?w f" using assms(2) by (simp add: aligned_def)
  ultimately show thesis using that segment_write_aligned [of env frame ?w offset w' f] by auto
qed

lemma begin_marker_ok:
  assumes "write_batch_marker_frame env batch_id kind n idx True w = (Inr offset, w')" and "positioned w"
  obtains w0 b w1 f frame where "quiet w w0" "maybe_rotate_segment env w0 = (Inr b, w1)" "aligned w1 f"
    "marker_frame env batch_id kind n frame" "aligned w' (f @ frame)" "wr_segment_id w' = wr_segment_id w1"
proof -
  let ?w = "w\<lparr>wr_tick := Suc (wr_tick w)\<rparr>"
  obtain frame b w1 where m: "marker_frame env batch_id kind n frame" and rot: "maybe_rotate_segment env ?w = (Inr b, w1)"
    and wr: "segment_write env frame w1 = (Inr offset, w')"
    using assms(1) unfolding marker_frame_def by (auto simp: write_batch_marker_frame_def bind_op_Inr) blast
  have "positioned ?w" using assms(2) by (simp add: positioned_def)
  then obtain f where f: "aligned w1 f" using rotate_ok(1) [OF rot] positioned_aligned by blast
  show thesis using that [OF quiets.ticks rot f m] segment_write_aligned [OF wr f] by simp
qed

text \<open>The frames of a batch are written, its commit marker included; the sync comes after them.\<close>

definition batch_written ::
  "'v writer_env \<Rightarrow> prepared_batch \<Rightarrow> staged_committed_event list \<Rightarrow> u64 \<Rightarrow> 'v writer \<Rightarrow> receipt list \<Rightarrow> 'v writer \<Rightarrow> bool" where
  "batch_written env prepared computed batch_id w rs w' \<longleftrightarrow> length (pb_items prepared) < 2 ^ 32 \<and>
     (\<exists>off1 w2 w3 off2.
        write_batch_marker_frame env batch_id SYSTEM_BATCH_BEGIN (of_nat (length (pb_items prepared))) 0 True w = (Inr off1, w2) \<and>
        write_batch_event_frames env 0 (zip (pb_items prepared) computed) w2 = (Inr rs, w3) \<and>
        write_batch_marker_frame env batch_id SYSTEM_BATCH_COMMIT 0 (length (pb_items prepared) - 1) False w3 = (Inr off2, w'))"

lemma batch_written_ok:
  assumes "batch_written env prepared computed batch_id w rs w'" and "positioned w"
  obtains w0 b w1 f front frames closing where "quiet w w0" "maybe_rotate_segment env w0 = (Inr b, w1)" "aligned w1 f"
    "marker_frame env batch_id SYSTEM_BATCH_BEGIN (of_nat (length (pb_items prepared))) front"
    "marker_frame env batch_id SYSTEM_BATCH_COMMIT 0 closing"
    "frames_at env (wr_segment_id w') (length f + length front) (zip (pb_items prepared) computed) rs frames"
    "aligned w' (f @ front @ concat frames @ closing)" "wr_segment_id w' = wr_segment_id w1"
proof -
  from assms(1) obtain off1 w2 w3 off2 where
    b: "write_batch_marker_frame env batch_id SYSTEM_BATCH_BEGIN (of_nat (length (pb_items prepared))) 0 True w = (Inr off1, w2)"
    and e: "write_batch_event_frames env 0 (zip (pb_items prepared) computed) w2 = (Inr rs, w3)"
    and c: "write_batch_marker_frame env batch_id SYSTEM_BATCH_COMMIT 0 (length (pb_items prepared) - 1) False w3 = (Inr off2, w')"
    unfolding batch_written_def by blast
  obtain w0 b w1 f front where bg: "quiet w w0" "maybe_rotate_segment env w0 = (Inr b, w1)" "aligned w1 f"
    "marker_frame env batch_id SYSTEM_BATCH_BEGIN (of_nat (length (pb_items prepared))) front" "aligned w2 (f @ front)"
    "wr_segment_id w2 = wr_segment_id w1"
    by (rule begin_marker_ok [OF b assms(2)])
  obtain frames where fr: "frames_at env (wr_segment_id w2) (length (f @ front)) (zip (pb_items prepared) computed) rs frames"
    "aligned w3 ((f @ front) @ concat frames)" "wr_segment_id w3 = wr_segment_id w2"
    using event_frames_ok [OF e bg(5)] by blast
  obtain closing where bk: "marker_frame env batch_id SYSTEM_BATCH_COMMIT 0 closing" "aligned w' (((f @ front) @ concat frames) @ closing)"
    "wr_segment_id w' = wr_segment_id w3"
    by (rule commit_marker_ok [OF c fr(2)])
  with bg fr show thesis by (intro that [of w0 b w1 f front closing frames]) simp_all
qed

text \<open>A batch that is written is synced, or refused because it could not be.\<close>

lemma write_batch_synced:
  assumes "write_batch env prepared computed batch_id w = (Inr rs, w')"
  obtains w4 where "batch_written env prepared computed batch_id w rs w4"
    "wr_active_segment w' = wr_active_segment w4" "wr_segment_id w' = wr_segment_id w4"
proof -
  from assms obtain w4 w5 where "batch_written env prepared computed batch_id w rs w4" and s: "sync_with_mode env w4 = (Inr (), w5)"
    and w': "w' = on_marks advance_durable_to_accepted w5"
    unfolding write_batch_def Let_def by (auto simp: bind_op_Inr batch_written_def split: if_splits)
  moreover have "wr_active_segment w5 = wr_active_segment w4" "wr_segment_id w5 = wr_segment_id w4"
    using s by (auto simp: sync_with_mode_def bind_op_def split: option.splits if_splits)
  ultimately show thesis by (intro that [of w4]) (simp_all add: w' on_marks_def)
qed

lemma write_batch_frames:
  assumes "write_batch env prepared computed batch_id w = (Inr rs, w')" and "positioned w"
  shows "\<exists>sid pos frames. frames_at env sid pos (zip (pb_items prepared) computed) rs frames"
proof -
  obtain w4 where "batch_written env prepared computed batch_id w rs w4" by (rule write_batch_synced [OF assms(1)])
  from this assms(2) show ?thesis by (rule batch_written_ok) blast
qed

section \<open>Committing a batch\<close>

lemma interned_ids_ok:
  assumes "interned_ids items w = (res, w')" and "log_ok es (wr_index w)"
    and "length (in_reverse (ix_interner (wr_index w))) + 2 * length items < 2 ^ 32"
  shows "\<exists>ids j. res = Inr ids \<and> w' = w\<lparr>wr_index := (wr_index w)\<lparr>ix_interner := j\<rparr>\<rparr> \<and> log_ok es (wr_index w') \<and>
    list_all2 (\<lambda>item i. interner_get j (coord_entity (bi_coord item)) = Some (fst i)) items ids \<and>
    (\<forall>t k. interner_get (ix_interner (wr_index w)) t = Some k \<longrightarrow> interner_get j t = Some k)"
  using assms
proof (induction items arbitrary: w w' res)
  case Nil
  then show ?case by (intro exI [of _ "[]"] exI [of _ "ix_interner (wr_index w)"]) auto
next
  case (Cons item items)
  have "length (in_reverse (ix_interner (wr_index w))) + 2 < 2 ^ 32" using Cons.prems(3) by simp
  with Cons.prems(2) obtain i j1 where
    one: "interned_for_coord (bi_coord item) w = (Inr i, w\<lparr>wr_index := (wr_index w)\<lparr>ix_interner := j1\<rparr>\<rparr>)"
    "log_ok es ((wr_index w)\<lparr>ix_interner := j1\<rparr>)" "interner_get j1 (coord_entity (bi_coord item)) = Some (fst i)"
    "length (in_reverse j1) \<le> length (in_reverse (ix_interner (wr_index w))) + 2"
    "\<And>t k. interner_get (ix_interner (wr_index w)) t = Some k \<Longrightarrow> interner_get j1 t = Some k"
    by (rule interned_for_coord_ok [of es w "bi_coord item"]) auto
  let ?w1 = "w\<lparr>wr_index := (wr_index w)\<lparr>ix_interner := j1\<rparr>\<rparr>"
  obtain res1 w2 where rest: "interned_ids items ?w1 = (res1, w2)" by fastforce
  have "length (in_reverse (ix_interner (wr_index ?w1))) + 2 * length items < 2 ^ 32" using one(4) Cons.prems(3) by simp
  from Cons.IH [OF rest _ this] one(2) obtain ids j where
    ids: "res1 = Inr ids" "w2 = ?w1\<lparr>wr_index := (wr_index ?w1)\<lparr>ix_interner := j\<rparr>\<rparr>" "log_ok es (wr_index w2)"
      "list_all2 (\<lambda>item i. interner_get j (coord_entity (bi_coord item)) = Some (fst i)) items ids"
      "\<And>t k. interner_get j1 t = Some k \<Longrightarrow> interner_get j t = Some k" by auto
  with one ids rest Cons.prems(1) show ?case
    by (intro exI [of _ "i # ids"] exI [of _ j]) (auto simp: bind_op_def)
qed

lemma record_batch_sidx_frame: "\<exists>c. snd (record_batch_sidx as w) = w\<lparr>wr_sidx_collector := c\<rparr>"
proof (induction "as" arbitrary: w)
  case Nil
  then show ?case by (auto intro: exI [of _ "wr_sidx_collector w"])
next
  case (Cons a as)
  show ?case
  proof (cases "collector_record (wr_sidx_collector w) (ca_sidx_entry a) (coord_entity (ie_coord (ca_index_entry a)))
      (coord_scope (ie_coord (ca_index_entry a)))")
    case (Inl err)
    then show ?thesis by (auto intro: exI [of _ "wr_sidx_collector w"])
  next
    case (Inr c)
    then show ?thesis using Cons.IH [of "w\<lparr>wr_sidx_collector := c\<rparr>"] by auto
  qed
qed

lemma log_ok_insert_batch:
  assumes log: "log_ok es ix" and ids: "distinct (map ie_event_id (es @ ds))" and seqs: "distinct (map ie_global_sequence (es @ ds))"
    and bound: "\<forall>d \<in> set ds. ie_global_sequence d < allocated (ix_sequence ix)"
    and keys: "\<forall>d \<in> set ds. interner_get (ix_interner ix) (entity_of d) = Some (ie_entity_id d)" and chain: "chained (es @ ds)"
  shows "log_ok (es @ ds) (insert_batch ix ds)"
proof -
  have frame: "ix_sequence (foldl insert_inner ix ds) = ix_sequence ix" "ix_interner (foldl insert_inner ix ds) = ix_interner ix" for ds
    by (induction ds arbitrary: ix) (auto simp: insert_inner_def)
  have "heads_hold es ix \<Longrightarrow> \<forall>d \<in> set ds. interner_get (ix_interner ix) (entity_of d) = Some (ie_entity_id d) \<Longrightarrow>
      heads_hold (es @ ds) (foldl insert_inner ix ds)" for ds
  proof (induction ds rule: rev_induct)
    case (snoc d ds)
    then show ?case using insert_inner_heads [of "es @ ds" "foldl insert_inner ix ds" d] frame(2) by simp
  qed simp
  then have "heads_hold (es @ ds) (insert_batch ix ds)" using log keys by (auto simp: log_ok_def insert_batch_def)
  moreover have "index_holds (es @ ds) (insert_batch ix ds)"
    using log ids seqs by (intro insert_batch_holds) (auto simp: log_ok_def)
  moreover have "ix_sequence (insert_batch ix ds) = ix_sequence ix" by (simp add: insert_batch_def frame)
  ultimately show ?thesis using log bound chain by (auto simp: log_ok_def)
qed

definition batch_view :: "'v writer_env \<Rightarrow> batch_item \<Rightarrow> receipt \<Rightarrow> bool \<Rightarrow> commit_frame_view" where
  "batch_view env item r emit = \<lparr>cf_payload_bytes = bi_payload item, cf_flags = ao_flags (bi_options item),
     cf_receipt_extensions = rc_extensions r, cf_emit_envelope = emit\<rparr>"

lemma commit_batch_cases:
  assumes run: "commit_batch env items computed rs w = (res, w')" and log: "log_ok es (wr_index w)"
    and room: "length (in_reverse (ix_interner (wr_index w))) + 2 * length items < 2 ^ 32"
  obtains (commits) ids ix arts emit where "res = Inr arts" "length ids = length items"
    "arts = map (\<lambda>((item, sev), r, i). materialize_commit_artifacts env sev (rc_disk_pos r) i (batch_view env item r emit))
       (zip (zip items computed) (zip rs ids))"
    "log_ok es ix" "ix_sequence ix = ix_sequence (wr_index w)"
    "list_all2 (\<lambda>item i. interner_get (ix_interner ix) (coord_entity (bi_coord item)) = Some (fst i)) items ids"
    "ix_idemp ix = record_batch_idempotency items (map ca_index_entry arts) (ix_idemp (wr_index w))"
    "wr_index w' = insert_batch ix (map ca_index_entry arts)"
    "w' = w\<lparr>wr_tick := wr_tick w', wr_sidx_collector := wr_sidx_collector w', wr_index := wr_index w'\<rparr>"
  | (fails) err where "res = Inl err" "log_ok es (wr_index w')" "ix_sequence (wr_index w') = ix_sequence (wr_index w)"
    "w' = w\<lparr>wr_tick := wr_tick w', wr_sidx_collector := wr_sidx_collector w', wr_index := wr_index w'\<rparr>"
proof -
  let ?w = "w\<lparr>wr_tick := Suc (wr_tick w)\<rparr>"
  obtain res1 w1 where intern: "interned_ids items ?w = (res1, w1)" by fastforce
  from interned_ids_ok [OF this, of es] log room obtain ids j where ids: "res1 = Inr ids" "w1 = ?w\<lparr>wr_index := (wr_index w)\<lparr>ix_interner := j\<rparr>\<rparr>"
    "log_ok es ((wr_index w)\<lparr>ix_interner := j\<rparr>)"
    "list_all2 (\<lambda>item i. interner_get j (coord_entity (bi_coord item)) = Some (fst i)) items ids" by auto
  define arts where "arts = map (\<lambda>((item, sev), r, i). materialize_commit_artifacts env sev (rc_disk_pos r) i
      (batch_view env item r (we_reactors env (wr_tick w)))) (zip (zip items computed) (zip rs ids))"
  have mat: "materialize_batch_commit_artifacts env items computed rs w = (Inr arts, w1)"
    using intern ids(1)
    by (simp add: materialize_batch_commit_artifacts_def bind_op_def arts_def batch_view_def)
  obtain c where c: "snd (record_batch_sidx arts w1) = w1\<lparr>wr_sidx_collector := c\<rparr>" using record_batch_sidx_frame by blast
  show thesis
  proof (cases "fst (record_batch_sidx arts w1)")
    case (Inl err)
    then have "record_batch_sidx arts w1 = (Inl err, w1\<lparr>wr_sidx_collector := c\<rparr>)" using c by (metis prod.collapse)
    with run mat ids show thesis by (intro fails) (auto simp: commit_batch_def bind_op_def)
  next
    case (Inr u)
    then have rec: "record_batch_sidx arts w1 = (Inr u, w1\<lparr>wr_sidx_collector := c\<rparr>)" using c by (metis prod.collapse)
    let ?ix = "(wr_index w)\<lparr>ix_interner := j, ix_idemp := record_batch_idempotency items (map ca_index_entry arts) (ix_idemp (wr_index w))\<rparr>"
    have "log_ok es ?ix" using ids(3) by (simp add: log_ok_def index_holds_def heads_hold_def)
    with run mat ids rec show thesis
      by (intro commits [of arts ids "we_reactors env (wr_tick w)" ?ix])
        (auto simp: commit_batch_def bind_op_def Let_def list_all2_lengthD arts_def [symmetric] dest: list_all2_lengthD)
  qed
qed

section \<open>Identity of the events\<close>

lemma staged_batch_length: "staged_batch env seq t items sevs \<Longrightarrow> length sevs = length items"
  by (induction rule: staged_batch.induct) auto

lemma staged_batch_items:
  "staged_batch env seq t items sevs \<Longrightarrow> list_all2 (\<lambda>item sev. \<exists>t s. staged_for env item t s sev) items sevs"
  by (induction rule: staged_batch.induct) auto

lemma upt_shift: "map (\<lambda>i. f (Suc i)) [0..<n] = map f [1..<Suc n]"
  by (simp only: map_Suc_upt [symmetric] map_map comp_def One_nat_def)

lemma staged_batch_sequences:
  "staged_batch env seq t items sevs \<Longrightarrow>
   map (\<lambda>sev. sm_global_sequence (sc_meta sev)) sevs = map (\<lambda>i. seq + of_nat i) [0..<length items]"
proof (induction rule: staged_batch.induct)
  case (staged_more t t' item seq sev items sevs)
  have "map (\<lambda>i. seq + of_nat i) [0..<Suc (length items)] = seq # map (\<lambda>i. seq + 1 + of_nat i) [0..<length items]"
    using upt_shift [of "\<lambda>i. seq + of_nat i" "length items"] by (simp add: upt_conv_Cons add.assoc del: upt_Suc)
  with staged_more show ?case by (simp add: staged_for_def del: upt_Suc)
qed simp

lemma staged_batch_keyed:
  "staged_batch env seq t items sevs \<Longrightarrow> \<forall>item \<in> set items. ao_idempotency_key (bi_options item) \<noteq> None \<Longrightarrow>
   map (\<lambda>sev. sm_event_id (sc_meta sev)) sevs = batch_keys items"
  by (induction rule: staged_batch.induct) (auto simp: batch_keys_def opt_list_def staged_for_def item_id_def)

lemma staged_batch_unkeyed:
  "staged_batch env seq t items sevs \<Longrightarrow> \<forall>item \<in> set items. ao_idempotency_key (bi_options item) = None \<Longrightarrow>
   \<exists>ts. map (\<lambda>sev. sm_event_id (sc_meta sev)) sevs = map (we_new_id env) ts \<and> distinct ts \<and> (\<forall>u \<in> set ts. t \<le> u)"
proof (induction rule: staged_batch.induct)
  case (staged_more t t' item seq sev items sevs)
  then obtain ts where ts: "map (\<lambda>sev. sm_event_id (sc_meta sev)) sevs = map (we_new_id env) ts" "distinct ts" "\<forall>u \<in> set ts. Suc t' \<le> u" by auto
  have "t' \<notin> set ts" "\<forall>u \<in> set ts. t \<le> u" using ts(3) staged_more.hyps(1) by (auto dest!: bspec)
  with ts staged_more show ?case by (intro exI [of _ "t' # ts"]) (auto simp: staged_for_def item_id_def)
qed auto

text \<open>Keys or generated ids that no event has yet.\<close>

definition fresh_items :: "'v writer_env \<Rightarrow> index_entry list \<Rightarrow> batch_item list \<Rightarrow> bool" where
  "fresh_items env es items \<longleftrightarrow>
     (if keyed_count items = 0 then inj (we_new_id env) \<and> range (we_new_id env) \<inter> ie_event_id ` set es = {}
      else keyed_count items = length items \<and> distinct (batch_keys items) \<and> set (batch_keys items) \<inter> ie_event_id ` set es = {})"

lemma keyed_all:
  assumes "keyed_count items = length items"
  shows "\<forall>item \<in> set items. ao_idempotency_key (bi_options item) \<noteq> None"
proof (rule ccontr)
  assume "\<not> ?thesis"
  then obtain item where "item \<in> set items" "\<not> ao_idempotency_key (bi_options item) \<noteq> None" by blast
  from length_filter_less [of item items "\<lambda>item. ao_idempotency_key (bi_options item) \<noteq> None", OF this]
  show False using assms by (simp add: keyed_count_def)
qed

lemma staged_batch_fresh:
  assumes "staged_batch env seq t items sevs" and "fresh_items env es items"
  shows "distinct (map (\<lambda>sev. sm_event_id (sc_meta sev)) sevs)"
    and "(\<lambda>sev. sm_event_id (sc_meta sev)) ` set sevs \<inter> ie_event_id ` set es = {}"
proof -
  let ?ids = "map (\<lambda>sev. sm_event_id (sc_meta sev)) sevs"
  have "distinct ?ids \<and> set ?ids \<inter> ie_event_id ` set es = {}"
  proof (cases "keyed_count items = 0")
    case True
    then have "\<forall>item \<in> set items. ao_idempotency_key (bi_options item) = None" by (auto simp: keyed_count_def filter_empty_conv)
    then obtain ts where "?ids = map (we_new_id env) ts" "distinct ts" using staged_batch_unkeyed [OF assms(1)] by blast
    then show ?thesis using assms(2) True by (auto simp: fresh_items_def distinct_map intro: inj_on_subset)
  next
    case False
    then have "\<forall>item \<in> set items. ao_idempotency_key (bi_options item) \<noteq> None"
      using assms(2) keyed_all by (auto simp: fresh_items_def)
    then show ?thesis using staged_batch_keyed [OF assms(1)] assms(2) False by (simp add: fresh_items_def)
  qed
  then show "distinct ?ids" "(\<lambda>sev. sm_event_id (sc_meta sev)) ` set sevs \<inter> ie_event_id ` set es = {}" by auto
qed

lemma reserved_sequences:
  assumes "unat (s :: u64) + n < 2 ^ 64"
  shows "distinct (map (\<lambda>i. s + of_nat i) [0..<n])"
    and "\<forall>x \<in> set (map (\<lambda>i. s + of_nat i) [0..<n]). s \<le> x \<and> x < s + of_nat n"
proof -
  have u: "unat (s + of_nat i) = unat s + i" if "i \<le> n" for i
  proof -
    have "unat (of_nat i :: u64) = i" using that assms by (simp add: unat_of_nat)
    then show ?thesis using that assms by (simp add: unat_word_ariths)
  qed
  show "distinct (map (\<lambda>i. s + of_nat i) [0..<n])"
    unfolding distinct_map by (auto intro!: inj_onI) (metis add_left_cancel less_imp_le u)
  show "\<forall>x \<in> set (map (\<lambda>i. s + of_nat i) [0..<n]). s \<le> x \<and> x < s + of_nat n"
    by (auto simp: word_le_nat_alt word_less_nat_alt u)
qed

end
