(* ===== verification/Atomic.thy ===== *)
theory Atomic
  imports BatchCommit
begin

text \<open>
  A batch commits as a whole or not at all, and what it commits is indexed, chained, visible and
  announced in the order of its items.
\<close>

section \<open>A batch up to its insertion\<close>

definition batch_room :: "store_index \<Rightarrow> batch_item list \<Rightarrow> bool" where
  "batch_room ix items \<longleftrightarrow> unat (allocated (ix_sequence ix)) + length items < 2 ^ 64 \<and>
     length (in_reverse (ix_interner ix)) + 2 * length items < 2 ^ 32"

lemma frames_at_length: "frames_at env sid pos pairs rs frames \<Longrightarrow> length rs = length pairs \<and> length frames = length pairs"
  by (induction env sid pos pairs rs frames rule: frames_at.induct) auto

lemma event_frames_length: "write_batch_event_frames env idx pairs w = (Inr rs, w') \<Longrightarrow> length rs = length pairs"
  by (induction env idx pairs arbitrary: rs w rule: write_batch_event_frames.induct) (auto simp: bind_op_Inr)

lemma write_batch_length:
  assumes "write_batch env prepared computed batch_id w = (Inr rs, w')" and "length computed = length (pb_items prepared)"
  shows "length rs = length (pb_items prepared)"
  using assms event_frames_length unfolding write_batch_def Let_def by (fastforce simp: bind_op_Inr split: if_splits)

lemma precompute_batch_quiet: "quiet w (snd (precompute_batch_items env prepared first_seq w))"
  unfolding precompute_batch_items_def
  by (intro quiets.bind_ask_keeps quiets.bind_keeps) (auto simp: quiets.refl precompute_items_quiet)

lemma quiet_frame:
  assumes "quiet w w'"
  shows "wr_notifications w' = wr_notifications w" "wr_replies w' = wr_replies w" "wr_fence_ledger w' = wr_fence_ledger w"
    "wr_active_segment w' = wr_active_segment w" "wr_segment_id w' = wr_segment_id w" "wr_files w' = wr_files w"
    "wr_sidx_collector w' = wr_sidx_collector w"
  by (subst assms [unfolded quiet_def], simp)+

lemma reserve_inv:
  assumes "gate_inv g" and "unat (allocated g) + n < 2 ^ 64"
  shows "gate_inv (snd (reserve g (of_nat n)))" and "allocated g \<le> allocated (snd (reserve g (of_nat n)))"
proof -
  have n: "unat (of_nat n :: u64) = n" using assms(2) by (simp add: unat_of_nat)
  then have "gate_step g (snd (reserve g (of_nat n)))" using assms(2) by (intro step_reserve) simp
  then show "gate_inv (snd (reserve g (of_nat n)))" using assms(1) gate_step_inv by blast
  show "allocated g \<le> allocated (snd (reserve g (of_nat n)))"
    using n assms(2) by (simp add: reserve_def word_le_nat_alt unat_word_ariths)
qed

text \<open>The artifacts of a batch belong to its staged events, one to one.\<close>

definition committed_as :: "'v writer_env \<Rightarrow> batch_item \<Rightarrow> staged_committed_event \<Rightarrow> receipt \<Rightarrow> 'v commit_artifacts \<Rightarrow> bool" where
  "committed_as env item sev r a \<longleftrightarrow>
     (\<exists>ids. ca_index_entry a = staged_index_entry sev (rc_disk_pos r) ids (rc_extensions r)) \<and>
     ca_notification a = staged_notification sev"

lemma batch_core_cases:
  assumes run: "batch_core env prepared w = (res, w')" and log: "log_ok es (wr_index w)"
    and room: "batch_room (wr_index w) (pb_items prepared)" and fresh: "fresh_items env es (pb_items prepared)"
  defines "g \<equiv> snd (reserve (ix_sequence (wr_index w)) (of_nat (length (pb_items prepared))))"
  obtains (commits) rs computed arts w1 w2 where "res = Inr (rs, allocated (ix_sequence (wr_index w)), computed, arts)"
    "quiet (w\<lparr>wr_index := (wr_index w)\<lparr>ix_sequence := g\<rparr>\<rparr>) w1"
    "write_batch env prepared computed (allocated (ix_sequence (wr_index w))) w1 = (Inr rs, w2)"
    "staged_batch env (allocated (ix_sequence (wr_index w))) (wr_tick w) (pb_items prepared) computed"
    "length rs = length (pb_items prepared)" "length arts = length (pb_items prepared)"
    "\<And>i. i < length (pb_items prepared) \<Longrightarrow> committed_as env (pb_items prepared ! i) (computed ! i) (rs ! i) (arts ! i)"
    "log_ok (es @ map ca_index_entry arts) (wr_index w')" "ix_sequence (wr_index w') = g"
    "w' = w2\<lparr>wr_tick := wr_tick w', wr_sidx_collector := wr_sidx_collector w', wr_index := wr_index w'\<rparr>"
  | (fails) err where "res = Inl err" "log_ok es (wr_index w')" "ix_sequence (wr_index w') = g"
    "wr_notifications w' = wr_notifications w" "wr_replies w' = wr_replies w" "wr_fence_ledger w' = wr_fence_ledger w"
proof -
  let ?items = "pb_items prepared" and ?first = "allocated (ix_sequence (wr_index w))"
  let ?ix = "(wr_index w)\<lparr>ix_sequence := g\<rparr>"
  let ?w = "w\<lparr>wr_index := ?ix\<rparr>"
  have fits: "unat ?first + length ?items < 2 ^ 64" using room by (simp add: batch_room_def)
  have "gate_inv (ix_sequence (wr_index w))" using log by (simp add: log_ok_def)
  from reserve_inv [OF this fits] have log0: "log_ok es ?ix" unfolding g_def by (intro log_ok_gate [OF log]) auto
  have core: "bind_op (precompute_batch_items env prepared ?first) (\<lambda>computed.
      bind_op (write_batch env prepared computed ?first) (\<lambda>receipts.
      bind_op (commit_batch env ?items computed receipts) (\<lambda>artifacts.
        lift_op (Inr (receipts, ?first, computed, artifacts))))) ?w = (res, w')"
    using run by (simp add: batch_core_def index_reserve_sequences_def reserve_def g_def index_global_sequence_def Let_def)
  from core show thesis
  proof (cases rule: bind_opE)
    case (fails err)
    then have "quiet ?w w'" using precompute_batch_quiet [of ?w env prepared ?first] by simp
    then show thesis using fails log0 quiet_frame [of ?w w'] quiet_index [of ?w w'] by (intro that(2) [of err]) auto
  next
    case (goes computed w1)
    note pre = precompute_batch_ok [OF goes(1), of es]
    have w1: "quiet ?w w1" using pre(3) log0 by simp
    then have ix1: "wr_index w1 = ?ix" by (simp add: quiet_index)
    have staged: "staged_batch env ?first (wr_tick w) ?items computed" "chained (es @ map staged_entry computed)"
      using pre log0 by simp_all
    have len: "length computed = length ?items" by (rule staged_batch_length [OF staged(1)])
    from goes(2) show thesis
    proof (cases rule: bind_opE)
      case (fails err)
      then have "same_log w1 w'" using store_logs.write_batch_keeps [of w1 env prepared computed ?first] by simp
      then show thesis using fails(2) log0 w1 ix1 by (intro that(2) [of err]) (auto simp: same_log_def quiet_frame)
    next
      case wrote: (goes rs w2)
      have "same_log w1 w2" using store_logs.write_batch_keeps [of w1 env prepared computed ?first] wrote(1) by simp
      then have same: "wr_index w2 = ?ix" "wr_notifications w2 = wr_notifications w" "wr_replies w2 = wr_replies w"
        "wr_fence_ledger w2 = wr_fence_ledger w"
        using quiet_frame [OF w1] ix1 by (auto simp: same_log_def)
      have lrs: "length rs = length ?items" by (rule write_batch_length [OF wrote(1) len])
      obtain res3 w3 where com: "commit_batch env ?items computed rs w2 = (res3, w3)" by fastforce
      have log2: "log_ok es (wr_index w2)" "length (in_reverse (ix_interner (wr_index w2))) + 2 * length ?items < 2 ^ 32"
        using log0 room by (simp_all add: same batch_room_def)
      from com log2 show thesis
      proof (cases rule: commit_batch_cases)
        case (fails err)
        have "w' = w3" "res = Inl err" using wrote(2) com fails(1) by (auto simp: bind_op_def)
        moreover have "wr_notifications w3 = wr_notifications w2" "wr_replies w3 = wr_replies w2" "wr_fence_ledger w3 = wr_fence_ledger w2"
          by (subst fails(4), simp)+
        ultimately show thesis using fails(2,3) same by (intro that(2) [of err]) auto
      next
        case (commits ids ix arts emit)
        have arts: "arts ! i = materialize_commit_artifacts env (computed ! i) (rc_disk_pos (rs ! i)) (ids ! i) (batch_view env (?items ! i) (rs ! i) emit)"
          "length arts = length ?items" if "i < length ?items" for i
          using that commits(2,3) len lrs by simp_all
        let ?entries = "map ca_index_entry arts"
        have entry: "ca_index_entry (arts ! i) = staged_index_entry (computed ! i) (rc_disk_pos (rs ! i)) (ids ! i) (rc_extensions (rs ! i))"
          "ca_notification (arts ! i) = staged_notification (computed ! i)" if "i < length ?items" for i
          using arts [OF that] by (simp_all add: materialize_commit_artifacts_def batch_view_def)
        have larts: "length arts = length ?items" using commits(2,3) len lrs by simp
        have eids: "map ie_event_id ?entries = map (\<lambda>sev. sm_event_id (sc_meta sev)) computed"
          and eseqs: "map ie_global_sequence ?entries = map (\<lambda>sev. sm_global_sequence (sc_meta sev)) computed"
          by (rule nth_equalityI; use larts len entry in simp)+
        note seqs = eseqs [unfolded staged_batch_sequences [OF staged(1)]]
        have old: "\<forall>e \<in> set es. ie_global_sequence e < ?first" using log by (simp add: log_ok_def)
        have new: "distinct (map ie_global_sequence ?entries)" "\<forall>d \<in> set ?entries. ?first \<le> ie_global_sequence d \<and>
            ie_global_sequence d < ?first + of_nat (length ?items)"
          using reserved_sequences [OF fits] unfolding seqs [symmetric] by auto
        have "log_ok (es @ ?entries) (insert_batch ix ?entries)"
        proof (rule log_ok_insert_batch [OF commits(4)])
          show "distinct (map ie_event_id (es @ ?entries))"
          proof -
            have "distinct (map ie_event_id es)" using log by (simp add: log_ok_def index_holds_def)
            moreover have "set (map ie_event_id es) \<inter> set (map ie_event_id ?entries) = {}"
              unfolding eids using staged_batch_fresh(2) [OF staged(1) fresh] by auto
            moreover have "distinct (map ie_event_id ?entries)" unfolding eids by (rule staged_batch_fresh(1) [OF staged(1) fresh])
            ultimately show ?thesis unfolding map_append distinct_append by blast
          qed
          show "distinct (map ie_global_sequence (es @ ?entries))"
            using new old log by (fastforce simp: log_ok_def index_holds_def)
          show "\<forall>d \<in> set ?entries. ie_global_sequence d < allocated (ix_sequence ix)"
            using new(2) by (simp add: commits(5) same g_def reserve_def)
          show "\<forall>d \<in> set ?entries. interner_get (ix_interner ix) (entity_of d) = Some (ie_entity_id d)"
            using commits(6) larts staged_batch_items [OF staged(1)]
            by (auto simp: in_set_conv_nth entry list_all2_conv_all_nth staged_for_def)
          show "chained (es @ ?entries)"
          proof (rule chained_cong [OF staged(2)])
            have "list_all2 same_link es es" by (simp add: list_all2_same same_link_def)
            moreover have "list_all2 same_link (map staged_entry computed) ?entries"
              using larts len by (auto simp: list_all2_conv_all_nth entry same_link_def)
            ultimately show "list_all2 same_link (es @ map staged_entry computed) (es @ ?entries)" by (rule list_all2_appendI)
          qed
        qed
        moreover have "ix_sequence (insert_batch ix ?entries) = g"
        proof -
          have "ix_sequence (foldl insert_inner j ds) = ix_sequence j" for j ds
            by (induction ds arbitrary: j) (auto simp: insert_inner_def)
          then show ?thesis by (simp add: insert_batch_def commits(5) same)
        qed
        moreover have "res = Inr (rs, ?first, computed, arts)" "w' = w3" using wrote(2) com commits(1) by (auto simp: bind_op_def)
        moreover have "committed_as env (?items ! i) (computed ! i) (rs ! i) (arts ! i)" if "i < length ?items" for i
          unfolding committed_as_def using entry [OF that] by blast
        ultimately show thesis
          using commits(8,9) by (intro that(1) [OF _ w1 wrote(1) staged(1) lrs larts]) simp_all
      qed
    qed
  qed
qed

section \<open>Publishing a batch\<close>

lemma lane_points_between:
  assumes "\<forall>n \<in> set ns. first \<le> nt_sequence n \<and> nt_sequence n < upper" and "\<forall>(lane, p) \<in> set points. first \<le> lp_publish_up_to p \<and> lp_publish_up_to p \<le> upper"
  shows "\<forall>(lane, p) \<in> set (foldl note_lane_point points ns). first \<le> lp_publish_up_to p \<and> lp_publish_up_to p \<le> upper"
  using assms
proof (induction ns arbitrary: points)
  case (Cons n ns)
  have up: "nt_sequence n + 1 \<le> upper" "first \<le> nt_sequence n + 1" "saturating_add (nt_sequence n) 1 = nt_sequence n + 1"
  proof -
    have "unat (nt_sequence n) < unat upper" "unat first \<le> unat (nt_sequence n)"
      using Cons.prems(1) by (auto simp: word_less_nat_alt word_le_nat_alt)
    moreover have "unat upper < 2 ^ 64" using unsigned_less [of upper] by simp
    ultimately show "nt_sequence n + 1 \<le> upper" "first \<le> nt_sequence n + 1" "saturating_add (nt_sequence n) 1 = nt_sequence n + 1"
      by (auto simp: word_le_nat_alt unat_word_ariths saturating_add_def)
  qed
  have "\<forall>(lane, p) \<in> set (note_lane_point points n). first \<le> lp_publish_up_to p \<and> lp_publish_up_to p \<le> upper"
  proof -
    define point where "point = \<lparr>lp_publish_up_to = saturating_add (nt_sequence n) 1,
      lp_frontier_point = HlcPoint (dp_wall_ms (nt_position n)) (nt_sequence n)\<rparr>"
    have "set (note_lane_point points n) \<subseteq> insert (dp_lane (nt_position n), point) (set points)"
      using set_bt_insert [of "dp_lane (nt_position n)" point points]
      by (auto simp: note_lane_point_def Let_def point_def split: option.splits if_splits)
    moreover have "first \<le> lp_publish_up_to point \<and> lp_publish_up_to point \<le> upper" using up by (simp add: point_def)
    ultimately show ?thesis using Cons.prems(2) by blast
  qed
  with Cons show ?case by simp
qed simp

lemma batch_publishes:
  assumes inv: "gate_inv g" and fits: "unat (allocated g) + n < 2 ^ 64"
    and ns: "\<forall>x \<in> set ns. allocated g \<le> nt_sequence x \<and> nt_sequence x < allocated g + of_nat n"
  shows "\<exists>lv. publish_on_lanes (snd (reserve g (of_nat n))) (allocated g + of_nat n)
    (lane_targets (lane_publish_points_from_notifications ns)) op =
    Inr (signal_visibility_change (g\<lparr>allocated := allocated g + of_nat n, visible := allocated g + of_nat n, lane_visible := lv\<rparr>))"
proof -
  have le: "x \<le> allocated g \<Longrightarrow> x \<le> allocated g + of_nat n" for x
    using reserve_inv(2) [OF inv fits] by (auto simp: reserve_def)
  have lanes: "\<forall>(lane, up_to) \<in> set (lane_targets (lane_publish_points_from_notifications ns)).
      allocated g \<le> up_to \<and> up_to \<le> allocated g + of_nat n"
    using lane_points_between [OF ns, of "[]"] by (auto simp: lane_targets_def lane_publish_points_from_notifications_def)
  have "unwrap_or_zero (bt_get (lane_visible g) l) \<le> allocated g" for l
    using inv by (auto simp: gate_inv_def unwrap_or_zero_def split: option.splits)
  then have "check_lanes (snd (reserve g (of_nat n))) (lane_targets (lane_publish_points_from_notifications ns)) op = Inr ()"
    unfolding check_lanes_ok using lanes by (auto simp: reserve_def dest!: bspec) (meson order.trans)
  then show ?thesis using inv le by (auto simp: publish_on_lanes_def reserve_def gate_inv_def bind_result_def not_less)
qed

section \<open>Atomicity\<close>

definition entry_of_batch_item :: "'v writer_env \<Rightarrow> batch_item \<Rightarrow> index_entry \<Rightarrow> bool" where
  "entry_of_batch_item env item e \<longleftrightarrow> ie_coord e = bi_coord item \<and> ie_kind e = bi_kind item \<and>
     ie_dag_lane e = ph_lane (hint_of (bi_options item)) \<and> event_hash (ie_hash_chain e) = se_hash (we_signing env) (bi_payload item) \<and>
     (\<forall>key. ao_idempotency_key (bi_options item) = Some key \<longrightarrow> ie_event_id e = key)"

lemma batch_receipt_fields [simp]:
  "rc_disk_pos (batch_receipt env item sev pos) = pos"
  "rc_event_id (batch_receipt env item sev pos) = sm_event_id (sc_meta sev)"
  "rc_global_sequence (batch_receipt env item sev pos) = sm_global_sequence (sc_meta sev)"
  "rc_content_hash (batch_receipt env item sev pos) = event_hash (sc_hash_chain sev)"
  by (auto simp: batch_receipt_def sign_receipt_def sign_append_receipt_def unsigned_receipt_def
      downgrade_receipt_signing_def Let_def split: sum.split option.split)

lemma frames_at_receipts:
  "frames_at env sid pos pairs rs frames \<Longrightarrow> list_all2 (\<lambda>(item, sev) r. \<exists>p. r = batch_receipt env item sev p) pairs rs"
  by (induction env sid pos pairs rs frames rule: frames_at.induct) auto

text \<open>Nothing of the batch was appended before.\<close>

definition unrecorded :: "store_index \<Rightarrow> batch_item list \<Rightarrow> bool" where
  "unrecorded ix items \<longleftrightarrow> (\<forall>key \<in> set (batch_keys items). idemp_get (ix_idemp ix) key = None)"

lemma cached_none:
  assumes "\<forall>key \<in> set (batch_keys items). idemp_get (ix_idemp ix) key = None \<and> get_by_id ix key = None"
  shows "cached_receipts env ix items = Inr (replicate (length items) None)"
  using assms
  by (induction items) (auto simp: batch_keys_def opt_list_def cached_receipt_def bind_result_def split: option.splits)

lemma preflight_none:
  assumes "unrecorded ix items" and "log_ok es ix" and "fresh_items env es items" and "items \<noteq> []"
  shows "preflight_batch_idempotency env ix items = Inr None"
proof -
  have "get_by_id ix key = None" if key: "key \<in> set (batch_keys items)" for key
  proof -
    obtain item where "item \<in> set items" "ao_idempotency_key (bi_options item) = Some key"
      using key by (auto simp: batch_keys_def opt_list_def split: option.splits)
    then have "keyed_count items \<noteq> 0" by (auto simp: keyed_count_def filter_empty_conv)
    then have "key \<notin> ie_event_id ` set es" using key assms(3) by (auto simp: fresh_items_def)
    then show ?thesis using assms(2) unknown_id by (auto simp: get_by_id_def option_filter_def log_ok_def Let_def)
  qed
  then have "cached_receipts env ix items = Inr (replicate (length items) None)"
    using assms(1) by (intro cached_none) (auto simp: unrecorded_def)
  then show ?thesis using assms(4) by (simp add: preflight_batch_idempotency_def bind_result_def Let_def)
qed

lemma staged_item_entry:
  assumes "staged_for env item t seq sev"
  shows "entry_of_batch_item env item (staged_index_entry sev pos ids exts)"
  using assms by (auto simp: staged_for_def entry_of_batch_item_def item_id_def)

lemma admit_batch_frame: "\<exists>i. snd (admit_batch items w) = w\<lparr>wr_index := (wr_index w)\<lparr>ix_idemp := i\<rparr>\<rparr>"
  by (simp add: admit_batch_def Let_def split: prod.split) blast

text \<open>The batch after its guards: what is left is to commit the prepared items.\<close>

lemma handle_batch_cases:
  assumes run: "handle_append_batch env items fence w = (res, f, w')" and ne: "items \<noteq> []"
    and log: "log_ok es (wr_index w)" and new: "unrecorded (wr_index w) items" and fresh: "fresh_items env es items"
  obtains (refused) err i where "res = Inl err" "f = fence" "w' = w\<lparr>wr_index := (wr_index w)\<lparr>ix_idemp := i\<rparr>\<rparr>"
  | (prepared) p i where "handle_prepared_batch env p fence (w\<lparr>wr_index := (wr_index w)\<lparr>ix_idemp := i\<rparr>\<rparr>) = (res, f, w')" "pb_items p = items"
proof -
  obtain i where i: "snd (admit_batch items w) = w\<lparr>wr_index := (wr_index w)\<lparr>ix_idemp := i\<rparr>\<rparr>" using admit_batch_frame by blast
  have same: "w = w\<lparr>wr_index := (wr_index w)\<lparr>ix_idemp := ix_idemp (wr_index w)\<rparr>\<rparr>" by simp
  note none = preflight_none [OF new log fresh ne]
  show thesis
  proof (cases "validate_batch env items")
    case (Inl err)
    then show thesis using run same by (intro refused [of err "ix_idemp (wr_index w)"]) (auto simp: handle_append_batch_def)
  next
    case (Inr u)
    show thesis
    proof (cases "keyed_count items \<noteq> 0 \<and> keyed_count items \<noteq> length items")
      case True
      then show thesis using run Inr ne same by (intro refused [of IdempotencyPartialBatch "ix_idemp (wr_index w)"]) (auto simp: handle_append_batch_def)
    next
      case False
      then have "handle_append_batch env items fence w =
          (case admit_batch items w of
             (Inl err, w1) \<Rightarrow> (Inl err, fence, w1)
           | (Inr _, w1) \<Rightarrow> (case prepared_from_items items of
                Inl err \<Rightarrow> (Inl err, fence, w1)
              | Inr prepared \<Rightarrow> handle_prepared_batch env prepared fence w1))"
        using Inr ne none by (auto simp: handle_append_batch_def)
      then have eq: "(case admit_batch items w of
             (Inl err, w1) \<Rightarrow> (Inl err, fence, w1)
           | (Inr _, w1) \<Rightarrow> (case prepared_from_items items of
                Inl err \<Rightarrow> (Inl err, fence, w1)
              | Inr prepared \<Rightarrow> handle_prepared_batch env prepared fence w1)) = (res, f, w')"
        using run by simp
      obtain r where r: "admit_batch items w = (r, w\<lparr>wr_index := (wr_index w)\<lparr>ix_idemp := i\<rparr>\<rparr>)"
        using i by (metis prod.collapse)
      show thesis
      proof (cases r)
        case (Inl err)
        with eq r show thesis by (intro refused [of err i]) auto
      next
        case ok: (Inr u)
        show thesis
        proof (cases "prepared_from_items items")
          case (Inl err)
          with eq r ok show thesis by (intro refused [of err i]) auto
        next
          case (Inr p)
          with eq r ok show thesis by (intro prepared [of p i]) (auto simp: prepared_exact)
        qed
      qed
    qed
  qed
qed

lemma batch_settles:
  assumes core: "batch_core env p w = (Inr (rs, first_seq, computed, arts), w1)" and log: "log_ok es (wr_index w)"
    and room: "batch_room (wr_index w) (pb_items p)" and fresh: "fresh_items env es (pb_items p)"
  defines "g \<equiv> ix_sequence (wr_index w)" and "n \<equiv> of_nat (length (pb_items p))"
  obtains lv w' where "handle_prepared_batch env p None w = (Inr rs, None, w')"
    "wr_index w' = (wr_index w1)\<lparr>ix_sequence := signal_visibility_change (g\<lparr>allocated := allocated g + n, visible := allocated g + n, lane_visible := lv\<rparr>)\<rparr>"
    "wr_notifications w' = wr_notifications w1 @ map ca_notification arts"
    "map ie_global_sequence (map ca_index_entry arts) = map (\<lambda>j. allocated g + of_nat j) [0..<length (pb_items p)]"
    "list_all2 (\<lambda>x e. nt_event_id x = ie_event_id e \<and> nt_sequence x = ie_global_sequence e) (map ca_notification arts) (map ca_index_entry arts)"
    "gate_inv (signal_visibility_change (g\<lparr>allocated := allocated g + n, visible := allocated g + n, lane_visible := lv\<rparr>))"
  using core log room fresh
proof (cases rule: batch_core_cases)
  case (commits rs' computed' arts' wa wb)
  let ?entries = "map ca_index_entry arts" and ?ns = "map ca_notification arts" and ?items = "pb_items p"
  have eqs: "rs' = rs" "computed' = computed" "arts' = arts" "first_seq = allocated g" using commits(1) by (auto simp: g_def)
  note commits = commits [unfolded eqs]
  have inv: "gate_inv g" and fits: "unat (allocated g) + length ?items < 2 ^ 64"
    using log room by (simp_all add: log_ok_def batch_room_def g_def)
  have len: "length computed = length ?items" using staged_batch_length [OF commits(4)] .
  have field: "ie_global_sequence (ca_index_entry (arts ! j)) = sm_global_sequence (sc_meta (computed ! j))"
    "ie_event_id (ca_index_entry (arts ! j)) = sm_event_id (sc_meta (computed ! j))"
    "ca_notification (arts ! j) = staged_notification (computed ! j)" if "j < length ?items" for j
    using commits(7) [OF that] by (auto simp: committed_as_def)
  have "map ie_global_sequence ?entries = map (\<lambda>sev. sm_global_sequence (sc_meta sev)) computed"
    by (rule nth_equalityI) (use commits(6) len field in simp_all)
  then have seqs: "map ie_global_sequence ?entries = map (\<lambda>j. allocated g + of_nat j) [0..<length ?items]"
    unfolding g_def by (simp only: staged_batch_sequences [OF commits(4)])
  note new = reserved_sequences(2) [OF fits, folded seqs]
  have news: "nt_event_id (?ns ! j) = ie_event_id (?entries ! j)" "nt_sequence (?ns ! j) = ie_global_sequence (?entries ! j)"
    if "j < length ?items" for j
    using that commits(6) field by (simp_all add: staged_notification_def Let_def)
  then have "\<forall>x \<in> set ?ns. allocated g \<le> nt_sequence x \<and> nt_sequence x < allocated g + of_nat (length ?items)"
    using new commits(6) by (fastforce simp: in_set_conv_nth)
  then obtain lv where pub: "publish_on_lanes (snd (reserve g n)) (allocated g + n)
      (lane_targets (lane_publish_points_from_notifications ?ns)) ''publish_then_broadcast_unfenced'' =
      Inr (signal_visibility_change (g\<lparr>allocated := allocated g + n, visible := allocated g + n, lane_visible := lv\<rparr>))"
    unfolding n_def using batch_publishes [OF inv fits] by blast
  have "gate_inv (signal_visibility_change (g\<lparr>allocated := allocated g + n, visible := allocated g + n, lane_visible := lv\<rparr>))"
    unfolding n_def by (rule publish_lanes_inv [OF reserve_inv(1) [OF inv fits] pub [unfolded n_def]])
  moreover have "list_all2 (\<lambda>x e. nt_event_id x = ie_event_id e \<and> nt_sequence x = ie_global_sequence e) ?ns ?entries"
    using news commits(6) by (simp add: list_all2_conv_all_nth)
  moreover obtain w' where "handle_prepared_batch env p None w = (Inr rs, None, w')"
    "wr_index w' = (wr_index w1)\<lparr>ix_sequence := signal_visibility_change (g\<lparr>allocated := allocated g + n, visible := allocated g + n, lane_visible := lv\<rparr>)\<rparr>"
    "wr_notifications w' = wr_notifications w1 @ ?ns"
    using core commits(9) pub
    by (auto simp: handle_prepared_batch_def settle_commit_def publish_then_broadcast_unfenced_def index_publish_on_lanes_def
        Let_def bind_result_def on_marks_def broadcast_commit_artifacts_def eqs g_def n_def)
  ultimately show thesis using that [of w' lv] seqs by blast
qed auto

text \<open>
  C7. Batches are atomic. An unfenced batch of new events either fails, and then the log, what is
  visible and what was announced are as before, or it commits all of its items at the end of the
  log: one entry per item, in order, on consecutive sequences, chained to the log and to each
  other, all of them visible at once, with receipts that name them and one notification each.
\<close>

theorem batch_atomic:
  assumes "handle_append_batch env items None w = (res, f, w')" and "items \<noteq> []"
    and "log_ok es (wr_index w)" and "batch_room (wr_index w) items" and "positioned w"
    and "fresh_items env es items" and "unrecorded (wr_index w) items"
    and "\<forall>s \<ge> allocated (ix_sequence (wr_index w)). \<not> range_contains (cancelled_ranges (ix_sequence (wr_index w))) s"
  shows "(\<exists>err. res = Inl err \<and> log_ok es (wr_index w') \<and> wr_notifications w' = wr_notifications w \<and>
      snapshot (ix_sequence (wr_index w')) = snapshot (ix_sequence (wr_index w))) \<or>
    (\<exists>rs entries ns. res = Inr rs \<and> log_ok (es @ entries) (wr_index w') \<and>
      list_all2 (entry_of_batch_item env) items entries \<and>
      map ie_global_sequence entries = map (\<lambda>i. allocated (ix_sequence (wr_index w)) + of_nat i) [0..<length items] \<and>
      list_all (\<lambda>e. get_by_id (wr_index w') (ie_event_id e) = Some e) entries \<and>
      list_all2 (\<lambda>r e. append_receipt_index_mismatch r e = None) rs entries \<and>
      wr_notifications w' = wr_notifications w @ ns \<and>
      list_all2 (\<lambda>n e. nt_event_id n = ie_event_id e \<and> nt_sequence n = ie_global_sequence e) ns entries)"
  using assms(1,2,3,7,6)
proof (cases rule: handle_batch_cases)
  case (refused err i)
  then show ?thesis using assms(3) by simp
next
  case (prepared p i)
  let ?w = "w\<lparr>wr_index := (wr_index w)\<lparr>ix_idemp := i\<rparr>\<rparr>"
  let ?g = "ix_sequence (wr_index w)"
  have log: "log_ok es (wr_index ?w)" and room: "batch_room (wr_index ?w) (pb_items p)" and fresh: "fresh_items env es (pb_items p)"
    using assms(3,4,6) prepared(2) by (simp_all add: batch_room_def)
  have inv: "gate_inv ?g" and fits: "unat (allocated ?g) + length items < 2 ^ 64"
    using assms(3,4) by (simp_all add: log_ok_def batch_room_def)
  obtain res1 w1 where core: "batch_core env p ?w = (res1, w1)" by fastforce
  from core log room fresh show ?thesis
  proof (cases rule: batch_core_cases)
    case (fails err)
    then show ?thesis using prepared core by (auto simp: handle_prepared_batch_def reserve_def snapshot_def)
  next
    case (commits rs computed arts wa wb)
    note commits = commits [unfolded prepared(2), simplified]
    let ?entries = "map ca_index_entry arts" and ?ns = "map ca_notification arts"
    have len: "length computed = length items" using staged_batch_length [OF commits(4)] .
    have art: "\<exists>ids. ca_index_entry (arts ! j) = staged_index_entry (computed ! j) (rc_disk_pos (rs ! j)) ids (rc_extensions (rs ! j))"
      "ca_notification (arts ! j) = staged_notification (computed ! j)" if "j < length items" for j
      using commits(7) [OF that] by (auto simp: committed_as_def)
    have field: "ie_global_sequence (ca_index_entry (arts ! j)) = sm_global_sequence (sc_meta (computed ! j))"
      "ie_event_id (ca_index_entry (arts ! j)) = sm_event_id (sc_meta (computed ! j))" if "j < length items" for j
      using art(1) [OF that] by auto
    from core have core': "batch_core env p ?w = (Inr (rs, allocated ?g, computed, arts), w1)" using commits(1) by simp
    obtain lv w2 where st: "handle_prepared_batch env p None ?w = (Inr rs, None, w2)"
      "wr_index w2 = (wr_index w1)\<lparr>ix_sequence := signal_visibility_change (?g\<lparr>allocated := allocated ?g + of_nat (length items),
        visible := allocated ?g + of_nat (length items), lane_visible := lv\<rparr>)\<rparr>"
      "wr_notifications w2 = wr_notifications w1 @ ?ns"
      "map ie_global_sequence ?entries = map (\<lambda>j. allocated ?g + of_nat j) [0..<length items]"
      "list_all2 (\<lambda>x e. nt_event_id x = ie_event_id e \<and> nt_sequence x = ie_global_sequence e) ?ns ?entries"
      "gate_inv (signal_visibility_change (?g\<lparr>allocated := allocated ?g + of_nat (length items),
        visible := allocated ?g + of_nat (length items), lane_visible := lv\<rparr>))"
      by (rule batch_settles [OF core' log room fresh]) (simp add: prepared(2))
    have w2: "w2 = w'" "res = Inr rs" using prepared(1) st(1) by simp_all
    note st = st [unfolded w2] and seqs = st(4) and fin = st(2) [unfolded w2]
    note new = reserved_sequences(2) [OF fits, folded seqs]
    have log': "log_ok (es @ ?entries) (wr_index w')"
      unfolding fin using commits(8,9) st(6)
      by (intro log_ok_gate) (auto simp: reserve_def signal_visibility_change_def)
    have "get_by_id (wr_index w') (ie_event_id e) = Some e" if "e \<in> set ?entries" for e
    proof -
      have "bt_get (ix_by_id (wr_index w')) (ie_event_id e) = Some e"
        using log' that by (intro by_id_get [of "es @ ?entries"]) (auto simp: log_ok_def)
      moreover have "ie_global_sequence e \<in> set (map ie_global_sequence ?entries)" using that by auto
      then have "is_visible (snapshot (ix_sequence (wr_index w'))) (ie_global_sequence e)"
        using new assms(8) by (auto simp: fin snapshot_def is_visible_def signal_visibility_change_def)
      ultimately show ?thesis by (simp add: get_by_id_def option_filter_def)
    qed
    moreover have "list_all2 (\<lambda>r e. append_receipt_index_mismatch r e = None) rs ?entries"
    proof -
      have "positioned wa" using assms(5) quiet_frame(4) [OF commits(2)] by (simp add: positioned_def)
      then obtain sid pos frames where "frames_at env sid pos (zip (pb_items p) computed) rs frames"
        using write_batch_frames [OF commits(3)] by blast
      from frames_at_receipts [OF this] have "\<exists>q. rs ! j = batch_receipt env (items ! j) (computed ! j) q" if "j < length items" for j
        using that commits(5) len by (auto simp: prepared(2) list_all2_conv_all_nth)
      then have "append_receipt_index_mismatch (rs ! j) (?entries ! j) = None" if "j < length items" for j
        using that art(1) [OF that] commits(6) by (fastforce simp: append_receipt_index_mismatch_def)
      then show ?thesis using commits(5,6) by (simp add: list_all2_conv_all_nth)
    qed
    moreover have "list_all2 (entry_of_batch_item env) items ?entries"
      using staged_batch_items [OF commits(4)] art(1) commits(6)
      by (fastforce simp: list_all2_conv_all_nth intro: staged_item_entry)
    moreover have "wr_notifications w1 = wr_notifications w"
    proof -
      have "wr_notifications w1 = wr_notifications wb" by (subst commits(10)) simp
      moreover have "same_log wa wb" using store_logs.write_batch_keeps [of wa env p computed "allocated ?g"] commits(3) by simp
      ultimately show ?thesis using quiet_frame(1) [OF commits(2)] by (simp add: same_log_def)
    qed
    ultimately show ?thesis
      using w2(2) st(3,5) log' seqs by (intro disjI2 exI [of _ rs] exI [of _ ?entries] exI [of _ ?ns]) (simp add: list_all_iff)
  qed
qed

lemma record_batch_sidx_room:
  "length (col_strings (wr_sidx_collector w)) + 2 * length as \<le> 2 ^ 32 \<Longrightarrow> \<exists>w'. record_batch_sidx as w = (Inr (), w')"
proof (induction "as" arbitrary: w)
  case (Cons a as)
  then have "length (col_strings (wr_sidx_collector w)) + 2 \<le> 2 ^ 32" by simp
  from collector_has_room [OF this, of "ca_sidx_entry a"]
  obtain c where c: "collector_record (wr_sidx_collector w) (ca_sidx_entry a) (coord_entity (ie_coord (ca_index_entry a)))
      (coord_scope (ie_coord (ca_index_entry a))) = Inr c" "length (col_strings c) \<le> length (col_strings (wr_sidx_collector w)) + 2"
    by blast
  then show ?case using Cons.IH [of "w\<lparr>wr_sidx_collector := c\<rparr>"] Cons.prems by simp
qed simp

lemma commit_batch_room:
  assumes "log_ok es (wr_index w)" and "length (in_reverse (ix_interner (wr_index w))) + 2 * length items < 2 ^ 32"
    and "length (col_strings (wr_sidx_collector w)) + 2 * length items \<le> 2 ^ 32"
  shows "\<exists>arts w'. commit_batch env items computed rs w = (Inr arts, w')"
proof -
  let ?w = "w\<lparr>wr_tick := Suc (wr_tick w)\<rparr>"
  obtain res w1 where intern: "interned_ids items ?w = (res, w1)" by fastforce
  from interned_ids_ok [OF this, of es] assms(1,2) obtain ids j where
    ids: "res = Inr ids" "w1 = ?w\<lparr>wr_index := (wr_index w)\<lparr>ix_interner := j\<rparr>\<rparr>" by auto
  obtain arts where mat: "materialize_batch_commit_artifacts env items computed rs w = (Inr arts, w1)" "length arts \<le> length items"
    using intern ids(1) by (auto simp: materialize_batch_commit_artifacts_def bind_op_def)
  obtain w2 where "record_batch_sidx arts w1 = (Inr (), w2)"
    using record_batch_sidx_room [of w1 arts] assms(3) mat(2) ids(2) by auto
  then show ?thesis using mat(1) by (simp add: commit_batch_def bind_op_def Let_def)
qed

section \<open>A first batch\<close>

definition first_items :: "batch_item list" where
  "first_items = map (\<lambda>key. \<lparr>bi_coord = first_coord, bi_kind = DATA, bi_payload = [0x42],
     bi_options = append_options_new\<lparr>ao_idempotency_key := Some key\<rparr>, bi_causation = NoCausation\<rparr>) [1, 2]"

abbreviation "first_prepared \<equiv> \<lparr>pb_items = first_items, pb_total_bytes = 2\<rparr>"

abbreviation "batch_env \<equiv> first_env (\<lambda>_. Some [1])"

lemma first_items_ok:
  "validate_batch batch_env first_items = Inr ()" "prepared_from_items first_items = Inr first_prepared" "first_items \<noteq> []"
  "fresh_items batch_env [] first_items" "unrecorded (wr_index first_writer) first_items" "batch_room (wr_index first_writer) first_items"
  "batch_keys first_items = [1, 2]" "keyed_count first_items = 2" "length first_items = 2"
proof -
  show "prepared_from_items first_items = Inr first_prepared" by code_simp
qed (simp_all add: validate_batch_def first_items_def append_options_new_def first_env_def checked_append_bytes_def
    encoded_receipt_extensions_len_def bind_result_def fresh_items_def keyed_count_def batch_keys_def opt_list_def unrecorded_def
    first_writer_def with_config_def idemp_new_def idemp_get_def batch_room_def gate_new_def interner_new_def)

lemma first_batch_plan:
  fixes w :: "unit writer"
  assumes "\<And>e l. get_latest_committed (wr_index w) e l = None"
  shows "\<exists>a b w'. precompute_batch_items batch_env first_prepared s w = (Inr [a, b], w')"
  by (simp add: precompute_batch_items_def first_items_def wall_ms_from_timestamp_us_def map_err_lift precompute_item_def entity_state_def
      assms item_event_id_def append_options_new_def bind_op_def bind_result_def checked_next_clock_def checked_add_def hint_of_def
      first_env_def on_marks_def Let_def position_hint_default_def)

lemma first_batch_written:
  assumes "seg_file (wr_active_segment w) = Some f" "written_bytes (wr_active_segment w) = 28"
  shows "\<exists>rs w'. write_batch batch_env first_prepared [a, b] s w = (Inr rs, w') \<and> wr_sidx_collector w' = wr_sidx_collector w \<and> wr_index w' = wr_index w"
  using assms
  by (simp add: write_batch_def Let_def bind_op_def first_items_def write_batch_marker_frame_def wall_ms_from_timestamp_us_def
      map_err_def first_env_def frame_encode_def maybe_rotate_segment_def needs_rotation_def segment_write_def write_frame_def
      write_batch_event_frame_def borrowed_frame_event_def checked_payload_len_def bind_result_def sync_with_mode_def on_marks_def)

lemma first_batch_runs:
  "\<exists>rs w'. handle_append_batch batch_env first_items None first_writer = (Inr rs, None, w')"
proof -
  let ?w = "first_writer :: unit writer"
  obtain i where admit: "admit_batch first_items ?w = (Inr (), ?w\<lparr>wr_index := (wr_index ?w)\<lparr>ix_idemp := i\<rparr>\<rparr>)"
    by (auto simp: admit_batch_def first_items_ok Let_def admit_new_keys_def first_writer_def with_config_def idemp_new_def example_config_def
       idemp_get_def admit_unique_new_count_def retention_default_def DEFAULT_MAX_KEYS_def gate_new_def idemp_len_def saturating_add_def index_global_sequence_def)
  define w0 where "w0 = ?w\<lparr>wr_index := (wr_index ?w)\<lparr>ix_idemp := i\<rparr>\<rparr>"
  have "preflight_batch_idempotency batch_env (wr_index ?w) first_items = Inr None"
    by (rule preflight_none [OF first_items_ok(5) first_log(1) first_items_ok(4,3)])
  then have handle: "handle_append_batch batch_env first_items None ?w = handle_prepared_batch batch_env first_prepared None w0"
    using admit by (simp add: handle_append_batch_def first_items_ok w0_def)
  let ?g = "snd (reserve (ix_sequence (wr_index w0)) 2)"
  define w1 where "w1 = w0\<lparr>wr_index := (wr_index w0)\<lparr>ix_sequence := ?g\<rparr>\<rparr>"
  have "log_ok [] (wr_index w1)"
    using first_log(1) by (simp add: w1_def w0_def log_ok_def heads_hold_def index_holds_def reserve_def gate_inv_def first_writer_def with_config_def gate_new_def)
  then have "get_latest_committed (wr_index w1) e l = None" for e l using log_latest by (fastforce simp: stream_of_def)
  then obtain a b w2 where plan: "precompute_batch_items batch_env first_prepared 0 w1 = (Inr [a, b], w2)"
    using first_batch_plan by blast
  then have "quiet w1 w2" using precompute_batch_quiet [of w1 batch_env first_prepared 0] by simp
  note frame = quiet_frame [OF this] quiet_index [OF this]
  obtain rs w3 where wrote: "write_batch batch_env first_prepared [a, b] 0 w2 = (Inr rs, w3)"
    "wr_sidx_collector w3 = collector_new" "wr_index w3 = wr_index w1"
  proof -
    have "seg_file (wr_active_segment w2) = Some (SEGMENT_MAGIC @ to_be (20 :: u32) @ header_code first_header)" "written_bytes (wr_active_segment w2) = 28" "wr_sidx_collector w2 = collector_new"
      by (simp_all add: frame w1_def w0_def first_writer_def)
    with first_batch_written [of w2] frame(8) show thesis using that by metis
  qed
  obtain arts w4 where com: "commit_batch batch_env first_items [a, b] rs w3 = (Inr arts, w4)"
  proof -
    have "log_ok [] (wr_index w3)" using \<open>log_ok [] (wr_index w1)\<close> wrote(3) by simp
    moreover have "length (in_reverse (ix_interner (wr_index w3))) + 2 * length first_items < 2 ^ 32"
      "length (col_strings (wr_sidx_collector w3)) + 2 * length first_items \<le> 2 ^ 32"
      by (simp_all add: wrote first_items_ok(9) collector_new_def w1_def w0_def first_writer_def with_config_def interner_new_def)
    ultimately show thesis using that commit_batch_room by blast
  qed
  have core: "batch_core batch_env first_prepared w0 = (Inr (rs, 0, [a, b], arts), w4)"
  proof -
    have zero: "allocated (ix_sequence (wr_index w0)) = 0" by (simp add: w0_def first_writer_def with_config_def gate_new_def)
    show ?thesis
      using plan wrote(1) com unfolding batch_core_def index_reserve_sequences_def index_global_sequence_def
      by (simp add: Let_def first_items_ok(9) reserve_def zero w1_def bind_op_def)
  qed
  have "log_ok [] (wr_index w0)" "batch_room (wr_index w0) (pb_items first_prepared)" "fresh_items batch_env [] (pb_items first_prepared)"
    using first_log(1) first_items_ok(4,6) by (simp_all add: w0_def batch_room_def)
  from batch_settles [OF core this] handle show ?thesis by metis
qed

theorem batch_atomic_witness:
  "\<exists>rs w' d e. handle_append_batch batch_env first_items None first_writer = (Inr rs, None, w') \<and>
    log_ok [d, e] (wr_index w') \<and> get_by_id (wr_index w') 1 = Some d \<and> get_by_id (wr_index w') 2 = Some e"
proof -
  obtain rs w' where run: "handle_append_batch batch_env first_items None first_writer = (Inr rs, None, w')"
    using first_batch_runs by blast
  have "\<forall>s \<ge> allocated (ix_sequence (wr_index first_writer)).
      \<not> range_contains (cancelled_ranges (ix_sequence (wr_index first_writer))) s"
    by (simp add: first_log(6) range_contains_def)
  from batch_atomic [OF run first_items_ok(3) first_log(1) first_items_ok(6) first_log(3) first_items_ok(4,5) this]
  obtain entries where e: "log_ok entries (wr_index w')" "list_all2 (entry_of_batch_item batch_env) first_items entries"
    "list_all (\<lambda>e. get_by_id (wr_index w') (ie_event_id e) = Some e) entries" by auto
  from e(2) obtain d x where "entries = [d, x]" "ie_event_id d = 1" "ie_event_id x = 2"
    by (auto simp: first_items_def list_all2_Cons1 entry_of_batch_item_def append_options_new_def)
  with e run show ?thesis by auto
qed

end
