(* ===== verification/Crash.thy ===== *)
theory Crash
  imports Atomic
begin

text \<open>
  The writer and the recovery scan together: the active segment always holds frames that the scan
  turns back into the events the writer committed, whatever a crash leaves behind them.
\<close>

section \<open>The frames of a segment\<close>

definition scan_view :: "bytes frame_payload \<Rightarrow> index_scan_payload" where
  "scan_view fp = \<lparr>isp_header = ev_header (fp_event fp), isp_hash_chain = ev_hash_chain (fp_event fp),
     isp_entity = fp_entity fp, isp_scope = fp_scope fp, isp_receipt_extensions = fp_receipt_extensions fp\<rparr>"

text \<open>What is asked of the encoders: the decoders of the scan read back what the writer encoded.\<close>

definition frame_codec :: "'v writer_env \<Rightarrow> (bytes \<Rightarrow> segment_header option) \<Rightarrow> (bytes \<Rightarrow> index_scan_payload option) \<Rightarrow> bool" where
  "frame_codec env from_header dp \<longleftrightarrow>
     (\<forall>fp m. we_frame_bytes env fp = Some m \<longrightarrow> payload_ok m \<and> dp m = Some (scan_view fp)) \<and>
     (\<forall>h m. we_header_bytes env h = Some m \<longrightarrow> length m \<le> MAX_SEGMENT_HEADER \<and> from_header m = Some h)"

text \<open>The active segment holds frames that count as the given events, and no batch is left open.\<close>

definition segment_records ::
  "'v writer_env \<Rightarrow> (bytes \<Rightarrow> segment_header option) \<Rightarrow> (bytes \<Rightarrow> index_scan_payload option) \<Rightarrow> 'v writer \<Rightarrow>
   scanned_index_entry list \<Rightarrow> bool" where
  "segment_records env from_header dp w rs \<longleftrightarrow>
     (\<exists>header h ms marks. aligned w (segment_file (we_crc env) header ms []) \<and>
        length header \<le> MAX_SEGMENT_HEADER \<and> from_header header = Some h \<and> sh_version h = 1 \<and>
        (\<forall>m \<in> set ms. payload_ok m) \<and> marks_of dp (wr_segment_id w) (8 + length header) ms = Some marks \<and>
        (\<forall>rest. committed (marks @ rest) = rs @ committed rest))"

definition same_segment :: "'v writer \<Rightarrow> 'v writer \<Rightarrow> bool" where
  "same_segment w w' \<longleftrightarrow> wr_active_segment w' = wr_active_segment w \<and> wr_segment_id w' = wr_segment_id w"

lemma same_segment_records:
  "same_segment w w' \<Longrightarrow> segment_records env from_header dp w' rs = segment_records env from_header dp w rs"
  by (simp add: same_segment_def segment_records_def aligned_def)

lemma marks_of_append:
  "marks_of dp sid at (ms @ ms') =
   (case marks_of dp sid at ms of
      None \<Rightarrow> None
    | Some a \<Rightarrow> map_option (\<lambda>b. a @ b) (marks_of dp sid (at + length (frame_stream crc ms)) ms'))"
proof (induction ms arbitrary: at)
  case Nil
  then show ?case by (simp add: frame_stream_def option.map_ident append_Nil [abs_def])
next
  case (Cons m ms)
  have "at + (8 + (length m + length (frame_stream crc ms))) = at + 8 + length m + length (frame_stream crc ms)" by simp
  then show ?case
    by (auto simp: Cons.IH frame_stream_def option.map_comp comp_def add.assoc split: option.splits sum.splits) (rule option.map_cong, simp_all)
qed

lemma segment_file_append: "segment_file crc header ms [] @ frame_stream crc ms' = segment_file crc header (ms @ ms') []"
  by (simp add: segment_file_def frame_stream_def)

lemma length_segment_file: "length (segment_file crc header ms []) = 8 + length header + length (frame_stream crc ms)"
  by (simp add: segment_file_def SEGMENT_MAGIC_def)

lemma records_extend:
  assumes "segment_records env from_header dp w rs" and "aligned w f" and "aligned w' (f @ frame_stream (we_crc env) ms')"
    and "wr_segment_id w' = wr_segment_id w" and "\<forall>m \<in> set ms'. payload_ok m"
    and "marks_of dp (wr_segment_id w) (length f) ms' = Some marks'" and "\<And>rest. committed (marks' @ rest) = es @ committed rest"
  shows "segment_records env from_header dp w' (rs @ es)"
proof -
  obtain header h ms marks where old: "aligned w (segment_file (we_crc env) header ms [])"
    "length header \<le> MAX_SEGMENT_HEADER" "from_header header = Some h" "sh_version h = 1" "\<forall>m \<in> set ms. payload_ok m"
    "marks_of dp (wr_segment_id w) (8 + length header) ms = Some marks" "\<And>rest. committed (marks @ rest) = rs @ committed rest"
    using assms(1) by (auto simp: segment_records_def)
  have f: "f = segment_file (we_crc env) header ms []" using assms(2) old(1) by (simp add: aligned_def)
  have "aligned w' (segment_file (we_crc env) header (ms @ ms') [])" using assms(3) by (simp add: f segment_file_append)
  moreover have "marks_of dp (wr_segment_id w') (8 + length header) (ms @ ms') = Some (marks @ marks')"
    using old(6) assms(6) by (simp add: marks_of_append [of _ _ _ _ _ "we_crc env"] assms(4) f length_segment_file)
  ultimately show ?thesis
    using old assms(5,7) unfolding segment_records_def
    by (intro exI [of _ header] exI [of _ h] exI [of _ "ms @ ms'"] exI [of _ "marks @ marks'"]) auto
qed

text \<open>A rotation starts over with an empty segment.\<close>

definition continues :: "'v writer \<Rightarrow> 'v writer \<Rightarrow> scanned_index_entry list \<Rightarrow> scanned_index_entry list \<Rightarrow> bool" where
  "continues w w' before base \<longleftrightarrow> base = before \<and> wr_segment_id w' = wr_segment_id w \<or> base = [] \<and> wr_segment_id w' = wr_segment_id w + 1"

lemma rotate_records:
  assumes run: "maybe_rotate_segment env w = (Inr b, w')" and codec: "frame_codec env from_header dp"
    and old: "segment_records env from_header dp w rs"
  shows "\<exists>base. continues w w' rs base \<and> segment_records env from_header dp w' base"
  using run
proof (cases rule: rotate_cases)
  case none
  then show ?thesis using old by (auto simp: continues_def)
next
  case (rotated seg w2)
  obtain ns where "create_with_created_ns (we_header_bytes env) (wr_segment_id w + 1) ns = Inr seg"
    using create_ok(4) [OF rotated(7)] by blast
  then obtain header h where h: "we_header_bytes env h = Some header" "sh_version h = 1"
    "seg_file seg = Some (SEGMENT_MAGIC @ to_be (of_nat (length header) :: u32) @ header)" "written_bytes seg = of_nat (4 + 4 + length header)"
    by (auto simp: create_with_created_ns_def Let_def split: option.splits if_splits)
  have "aligned w' (segment_file (we_crc env) header [] [])"
    using h(3,4) unfolding aligned_def rotated(9) swap_active_segment_def Let_def
    by (simp add: segment_file_def frame_stream_def SEGMENT_MAGIC_def)
  then have "segment_records env from_header dp w' []"
    using codec h(1,2) unfolding segment_records_def frame_codec_def
    by (intro exI [of _ header] exI [of _ h] exI [of _ "[]"]) auto
  moreover have "wr_segment_id w' = wr_segment_id w + 1"
    by (simp add: rotated(9) swap_active_segment_def Let_def sealed_frame rotated(6))
  ultimately show ?thesis by (auto simp: continues_def)
qed simp

section \<open>What a frame counts for\<close>

definition scanned_at :: "u64 \<Rightarrow> u64 \<Rightarrow> u32 \<Rightarrow> bytes frame_payload \<Rightarrow> hash_chain \<Rightarrow> scanned_index_entry" where
  "scanned_at sid off len fp chain = \<lparr>sc_header = ev_header (fp_event fp), sc_entity = fp_entity fp, sc_scope = fp_scope fp,
     sc_hash_chain = chain, sc_segment_id = sid, sc_offset = off, sc_length = len,
     sc_receipt_extensions = fp_receipt_extensions fp, sc_global_sequence = None\<rparr>"

lemma encoded_frame:
  assumes "frame_codec env from_header dp" and "frame_encode (we_frame_bytes env) (we_crc env) fp = Inr frame"
  obtains m where "frame = frame_bytes (we_crc env) m" "payload_ok m" "dp m = Some (scan_view fp)"
  using assms by (auto simp: frame_codec_def frame_encode_def frame_bytes_def split: option.splits if_splits)

lemma item_mark:
  assumes "eh_event_kind (ev_header (fp_event fp)) \<notin> {SYSTEM_BATCH_BEGIN, SYSTEM_BATCH_COMMIT}"
    and "ev_hash_chain (fp_event fp) = Some chain" and "n < 2 ^ 32"
  shows "mark_of sid off n (scan_view fp) = Inr (ItemMark (scanned_at sid off (of_nat n) fp chain))"
  using assms by (simp add: mark_of_def scan_view_def scanned_of_frame_def required_index_hash_chain_def scanned_at_def bind_result_def)

text \<open>A scanned event is an entry of the index: the same event, chained the same, at the same place.\<close>

definition recovered_as :: "scanned_index_entry \<Rightarrow> index_entry \<Rightarrow> bool" where
  "recovered_as s e \<longleftrightarrow> eh_event_id (sc_header s) = ie_event_id e \<and> eh_correlation_id (sc_header s) = ie_correlation_id e \<and>
     eh_event_kind (sc_header s) = ie_kind e \<and>
     eh_position (sc_header s) = with_hlc (ie_wall_ms e) 0 (ie_dag_depth e) (ie_dag_lane e) (ie_clock e) \<and>
     sc_entity s = entity_of e \<and> sc_scope s = scope_of e \<and> scanned_index_entry.sc_hash_chain s = ie_hash_chain e \<and>
     \<lparr>pos_segment = sc_segment_id s, pos_offset = sc_offset s, pos_length = sc_length s\<rparr> = ie_disk_pos e \<and>
     sc_receipt_extensions s = ie_receipt_extensions e"

text \<open>
  What is on disk is what comes back: the frames of the active segment with anything a write cut
  short left after them.
\<close>

lemma records_recovered:
  assumes "segment_records env from_header dp w rs" and "seg_file (wr_active_segment w) = Some f"
    and "torn_tail (we_crc env) torn" and "length (f @ torn) < 2 ^ 63"
    and "detect_sidx_boundary (we_crc env) (f @ torn) (wr_segment_id w) = Inr None"
  shows "\<exists>b. scan_segment_frames (we_crc env) from_header dc dp (\<lambda>e s. (g e s, None)) RecoverTornTail (f @ torn)
      (wr_segment_id w) s batch_recovery_default = (fold g rs s, b, None)"
proof -
  obtain header h ms marks where old: "aligned w (segment_file (we_crc env) header ms [])"
    "length header \<le> MAX_SEGMENT_HEADER" "from_header header = Some h" "sh_version h = 1" "\<forall>m \<in> set ms. payload_ok m"
    "marks_of dp (wr_segment_id w) (8 + length header) ms = Some marks" "\<And>rest. committed (marks @ rest) = rs @ committed rest"
    using assms(1) by (auto simp: segment_records_def)
  have f: "f @ torn = segment_file (we_crc env) header ms torn" using old(1) assms(2) by (simp add: aligned_def segment_file_def)
  have b0: "batch_inv batch_recovery_default" "open_marks batch_recovery_default = []"
    by (simp_all add: batch_inv_def batch_recovery_default_def open_marks_def)
  obtain es b where r: "scan_segment_frames (we_crc env) from_header dc dp (\<lambda>e s. (g e s, None)) RecoverTornTail (f @ torn)
      (wr_segment_id w) s batch_recovery_default = (fold g es s, b, None)" and b: "batch_inv b"
    "\<forall>rest. committed (open_marks batch_recovery_default @ marks @ rest) = es @ committed (open_marks b @ rest)"
    using crash_recovery [where from_header = from_header, OF f assms(4) old(2-4) assms(5) old(5) assms(3) old(6) b0(1), where pol = RecoverTornTail and f = g and s = s and dc = dc]
    by auto
  have "es = rs" using b(2) [rule_format, of "[]"] b(1) b0(2) old(7) [of "[]"] by simp
  with r show ?thesis by blast
qed

section \<open>A batch on disk\<close>

abbreviation plain_kind :: "EventKind \<Rightarrow> bool" where
  "plain_kind kind \<equiv> kind \<notin> {SYSTEM_BATCH_BEGIN, SYSTEM_BATCH_COMMIT}"

lemma batch_frame_mark:
  assumes "frame_codec env from_header dp" and "batch_frame env item sev = Inr frame" and "length frame < 2 ^ 32"
    and "plain_kind (sm_kind (sc_meta sev))"
  obtains m s where "frame = frame_bytes (we_crc env) m" "payload_ok m" "\<exists>p. dp m = Some p \<and> mark_of sid off (8 + length m) p = Inr (ItemMark s)"
    "\<And>ids. recovered_as s (staged_index_entry sev \<lparr>pos_segment = sid, pos_offset = off, pos_length = of_nat (length frame)\<rparr> ids
       (rc_extensions (batch_receipt env item sev p0)))"
proof -
  let ?x = "rc_extensions (batch_receipt env item sev \<lparr>pos_segment = 0, pos_offset = 0, pos_length = 0\<rparr>)"
  obtain ev where ev: "borrowed_frame_event sev (bi_payload item) = Inr ev"
    "frame_encode (we_frame_bytes env) (we_crc env) (batch_payload sev ev ?x) = Inr frame"
    using assms(2) by (auto simp: batch_frame_def bind_result_def split: sum.splits)
  obtain m where m: "frame = frame_bytes (we_crc env) m" "payload_ok m" "dp m = Some (scan_view (batch_payload sev ev ?x))"
    by (rule encoded_frame [OF assms(1) ev(2)])
  obtain n where n: "ev = chain_event (staged_committed_event.sc_hash_chain sev) (event_new (staged_event_header sev n) (bi_payload item))"
    using ev(1) by (auto simp: borrowed_frame_event_def bind_result_def split: sum.splits)
  let ?s = "scanned_at sid off (of_nat (8 + length m)) (batch_payload sev ev ?x) (staged_committed_event.sc_hash_chain sev)"
  have "mark_of sid off (8 + length m) (scan_view (batch_payload sev ev ?x)) = Inr (ItemMark ?s)"
    using assms(3,4) m(1)
    by (intro item_mark) (auto simp: n batch_payload_def chain_event_def event_new_def staged_event_header_def event_header_new_def Let_def)
  moreover have "recovered_as ?s (staged_index_entry sev \<lparr>pos_segment = sid, pos_offset = off, pos_length = of_nat (length frame)\<rparr> ids
       (rc_extensions (batch_receipt env item sev p0)))" for ids
    using batch_receipt_extensions [of env item sev p0 "\<lparr>pos_segment = 0, pos_offset = 0, pos_length = 0\<rparr>"]
    by (simp add: recovered_as_def scanned_at_def n batch_payload_def chain_event_def event_new_def staged_event_header_def
        event_header_new_def staged_position_def staged_index_entry_def Let_def m(1))
  ultimately show thesis using m that by blast
qed

lemma frames_at_marks:
  assumes "frame_codec env from_header dp" and "frames_at env sid pos pairs rs frames" and "\<forall>(item, sev) \<in> set pairs. plain_kind (sm_kind (sc_meta sev))"
  shows "\<exists>ms es. concat frames = frame_stream (we_crc env) ms \<and> (\<forall>m \<in> set ms. payload_ok m) \<and>
    marks_of dp sid pos ms = Some (map ItemMark es) \<and>
    list_all2 (\<lambda>((item, sev), r) s. \<forall>ids. recovered_as s (staged_index_entry sev (rc_disk_pos r) ids (rc_extensions r))) (zip pairs rs) es"
  using assms(2,3)
proof (induction pairs arbitrary: pos rs frames)
  case Nil
  then have "rs = []" "frames = []" by (cases rs; cases frames; simp)+
  then show ?case by (intro exI [of _ "[]"]) (simp add: frame_stream_def)
next
  case (Cons q pairs)
  obtain item sev where q: "q = (item, sev)" by (cases q)
  from Cons.prems(1) obtain r rs' frame frames' where split: "rs = r # rs'" "frames = frame # frames'"
    by (cases rs; cases frames) (auto simp: q)
  have fr: "batch_frame env item sev = Inr frame" "length frame < 2 ^ 32"
    "r = batch_receipt env item sev \<lparr>pos_segment = sid, pos_offset = of_nat pos, pos_length = of_nat (length frame)\<rparr>"
    "frames_at env sid (pos + length frame) pairs rs' frames'"
    using Cons.prems(1) by (simp_all add: q split)
  have "plain_kind (sm_kind (sc_meta sev))" using Cons.prems(2) by (simp add: q)
  with assms(1) fr(1,2) obtain m s where m: "frame = frame_bytes (we_crc env) m" "payload_ok m"
    "\<exists>p. dp m = Some p \<and> mark_of sid (of_nat pos) (8 + length m) p = Inr (ItemMark s)"
    "\<And>ids. recovered_as s (staged_index_entry sev (rc_disk_pos r) ids (rc_extensions r))"
    unfolding fr(3) batch_receipt_fields
    by (rule batch_frame_mark [where sid = sid and off = "of_nat pos" and ?p0.0 = "\<lparr>pos_segment = sid, pos_offset = of_nat pos,
      pos_length = of_nat (length frame)\<rparr>"]) blast
  from Cons.IH [OF fr(4)] Cons.prems(2) obtain ms es where ih: "concat frames' = frame_stream (we_crc env) ms" "\<forall>m \<in> set ms. payload_ok m"
    "marks_of dp sid (pos + length frame) ms = Some (map ItemMark es)"
    "list_all2 (\<lambda>((item, sev), r) s. \<forall>ids. recovered_as s (staged_index_entry sev (rc_disk_pos r) ids (rc_extensions r))) (zip pairs rs') es"
    by auto
  then show ?case
    using m by (intro exI [of _ "m # ms"] exI [of _ "s # es"]) (auto simp: q split frame_stream_def add.assoc)
qed

lemma frames_at_segment: "frames_at env sid pos pairs rs frames \<Longrightarrow> \<forall>r \<in> set rs. pos_segment (rc_disk_pos r) = sid"
  by (induction env sid pos pairs rs frames rule: frames_at.induct) auto

text \<open>The whole batch: its markers and its events count for exactly its events.\<close>

lemma marker_mark:
  assumes "frame_codec env from_header dp" and "marker_frame env batch_id kind n frame"
  obtains m p where "frame = frame_bytes (we_crc env) m" "payload_ok m" "dp m = Some p" "eh_event_kind (isp_header p) = kind"
    "eh_payload_size (isp_header p) = n"
proof -
  obtain us ms where "frame_encode (we_frame_bytes env) (we_crc env) (marker_payload batch_id kind n us ms) = Inr frame"
    using assms(2) by (auto simp: marker_frame_def)
  from encoded_frame [OF assms(1) this] obtain m where "frame = frame_bytes (we_crc env) m" "payload_ok m"
    "dp m = Some (scan_view (marker_payload batch_id kind n us ms))" by blast
  then show thesis by (rule that) (simp_all add: scan_view_def marker_payload_def event_new_def event_header_new_def)
qed

lemma committed_batch:
  assumes "length es = unat n"
  shows "committed (BeginMark n # map ItemMark es @ CommitMark # rest) = es @ committed rest"
  using assms by (simp add: Let_def)

lemma batch_written_records:
  assumes run: "batch_written env prepared computed batch_id w rs w'" and pos: "positioned w"
    and codec: "frame_codec env from_header dp" and old: "segment_records env from_header dp w before"
    and len: "length computed = length (pb_items prepared)" "0 < length (pb_items prepared)" "length (pb_items prepared) \<le> unat MAX_BATCH_RECOVERY_ITEMS"
    and kinds: "\<forall>sev \<in> set computed. plain_kind (sm_kind (sc_meta sev))"
  shows "\<exists>base es. continues w w' before base \<and> segment_records env from_header dp w' (base @ es) \<and>
    (\<forall>r \<in> set rs. pos_segment (rc_disk_pos r) = wr_segment_id w') \<and>
    list_all2 (\<lambda>((item, sev), r) s. \<forall>ids. recovered_as s (staged_index_entry sev (rc_disk_pos r) ids (rc_extensions r)))
      (zip (zip (pb_items prepared) computed) rs) es"
proof -
  let ?n = "of_nat (length (pb_items prepared)) :: u32"
  obtain w0 b w1 f front frames closing where w: "quiet w w0" "maybe_rotate_segment env w0 = (Inr b, w1)" "aligned w1 f"
    "marker_frame env batch_id SYSTEM_BATCH_BEGIN ?n front" "marker_frame env batch_id SYSTEM_BATCH_COMMIT 0 closing"
    "frames_at env (wr_segment_id w') (length f + length front) (zip (pb_items prepared) computed) rs frames"
    "aligned w' (f @ front @ concat frames @ closing)" "wr_segment_id w' = wr_segment_id w1"
    by (rule batch_written_ok [OF run pos])
  have "segment_records env from_header dp w0 before"
    using old quiet_frame(4,5) [OF w(1)] by (simp add: segment_records_def aligned_def)
  from rotate_records [OF w(2) codec this] obtain base where base: "continues w w' before base" "segment_records env from_header dp w1 base"
    using w(8) quiet_frame(5) [OF w(1)] by (auto simp: continues_def)
  obtain mb pb where mb: "front = frame_bytes (we_crc env) mb" "payload_ok mb" "dp mb = Some pb"
    "eh_event_kind (isp_header pb) = SYSTEM_BATCH_BEGIN" "eh_payload_size (isp_header pb) = ?n"
    by (rule marker_mark [OF codec w(4)])
  obtain mc pc where mc: "closing = frame_bytes (we_crc env) mc" "payload_ok mc" "dp mc = Some pc"
    "eh_event_kind (isp_header pc) = SYSTEM_BATCH_COMMIT"
    by (rule marker_mark [OF codec w(5)])
  have "\<forall>(item, sev) \<in> set (zip (pb_items prepared) computed). plain_kind (sm_kind (sc_meta sev))"
    using kinds by (auto dest: set_zip_rightD)
  from frames_at_marks [OF codec w(6) this] obtain ms es where ms: "concat frames = frame_stream (we_crc env) ms" "\<forall>m \<in> set ms. payload_ok m"
    "marks_of dp (wr_segment_id w') (length f + length front) ms = Some (map ItemMark es)"
    "list_all2 (\<lambda>((item, sev), r) s. \<forall>ids. recovered_as s (staged_index_entry sev (rc_disk_pos r) ids (rc_extensions r)))
      (zip (zip (pb_items prepared) computed) rs) es" by blast
  have n: "unat ?n = length (pb_items prepared)" using len(3) by (simp add: unat_of_nat MAX_BATCH_RECOVERY_ITEMS_def)
  have "length es = unat ?n"
    using list_all2_lengthD [OF ms(4)] frames_at_length [OF w(6)] len(1) n by simp
  then have com: "committed ((BeginMark ?n # map ItemMark es @ [CommitMark]) @ rest) = es @ committed rest" for rest
    using committed_batch [of es ?n rest] by simp
  have count: "checked_batch_count sid off ?n = Inr ?n" for sid off
    using len(2,3) n by (auto simp: checked_batch_count_def word_less_nat_alt unat_eq_0 [symmetric] simp del: unat_eq_0)
  have mk: "marks_of dp (wr_segment_id w1) (length f) (mb # ms @ [mc]) = Some (BeginMark ?n # map ItemMark es @ [CommitMark])"
    using mb mc ms(3) count kinds_distinct
    by (simp add: marks_of_append [of _ _ _ ms _ "we_crc env"] mark_of_def Let_def bind_result_def w(8) add.assoc)
  have al: "aligned w' (f @ frame_stream (we_crc env) (mb # ms @ [mc]))"
    using w(7) by (simp add: mb(1) mc(1) ms(1)) (simp add: frame_stream_def)
  have "segment_records env from_header dp w' (base @ es)"
    by (rule records_extend [OF base(2) w(3) al w(8) _ mk com]) (use mb(2) mc(2) ms(2) in auto)
  with base(1) ms(4) frames_at_segment [OF w(6)] show ?thesis by blast
qed

lemma write_batch_records:
  assumes "write_batch env prepared computed batch_id w = (Inr rs, w')" and "positioned w"
    and "frame_codec env from_header dp" and "segment_records env from_header dp w before"
    and "length computed = length (pb_items prepared)" "0 < length (pb_items prepared)" "length (pb_items prepared) \<le> unat MAX_BATCH_RECOVERY_ITEMS"
    and "\<forall>sev \<in> set computed. plain_kind (sm_kind (sc_meta sev))"
  shows "\<exists>base es. continues w w' before base \<and> segment_records env from_header dp w' (base @ es) \<and>
    (\<forall>r \<in> set rs. pos_segment (rc_disk_pos r) = wr_segment_id w') \<and>
    list_all2 (\<lambda>((item, sev), r) s. \<forall>ids. recovered_as s (staged_index_entry sev (rc_disk_pos r) ids (rc_extensions r)))
      (zip (zip (pb_items prepared) computed) rs) es"
proof -
  obtain w4 where w4: "batch_written env prepared computed batch_id w rs w4"
    "wr_active_segment w' = wr_active_segment w4" "wr_segment_id w' = wr_segment_id w4"
    by (rule write_batch_synced [OF assms(1)])
  then have "same_segment w4 w'" by (simp add: same_segment_def)
  from same_segment_records [OF this] batch_written_records [OF w4(1) assms(2-8)] w4(3) show ?thesis by (simp add: continues_def)
qed

section \<open>A single event on disk\<close>

lemma append_frame_phases:
  fixes w :: "'v writer"
  assumes run: "write_append_frame env coord ev kind g plan chain w = (Inr r, w')"
  defines "point \<equiv> HlcPoint (ap_wall_ms plan) (ap_sequence plan)"
    and "r0 \<equiv> append_receipt env coord ev kind g plan chain \<lparr>pos_segment = wr_segment_id w, pos_offset = 0, pos_length = 0\<rparr>"
  obtains frame b w2 offset w3 where
    "frame_encode (we_frame_bytes env) (we_crc env) (append_payload coord ev kind g plan chain (rc_extensions r0)) = Inr frame"
    "maybe_rotate_segment env (on_marks (advance_accepted_on_lane (we_now_mono_ns env (wr_tick w)) (ag_dag_lane g) point)
       (w\<lparr>wr_tick := Suc (wr_tick w)\<rparr>)) = (Inr b, w2)"
    "segment_write env frame w2 = (Inr offset, w3)" "length frame < 2 ^ 32"
    "w' = on_marks (advance_written_on_lane (ag_dag_lane g) point) w3"
    "r = r0\<lparr>rc_disk_pos := \<lparr>pos_segment = wr_segment_id w3, pos_offset = offset, pos_length = of_nat (length frame)\<rparr>\<rparr>"
  using run unfolding write_append_frame_def Let_def bind_ask bind_lift bind_op_Inr point_def r0_def
  by (auto simp: on_marks_def bind_op_Inr split: sum.splits if_splits)

lemma append_frame_records:
  assumes run: "write_append_frame env coord ev kind g plan chain w = (Inr r, w')" and pos: "positioned w"
    and codec: "frame_codec env from_header dp" and old: "segment_records env from_header dp w before" and kind: "plain_kind kind"
  shows "\<exists>base s. continues w w' before base \<and> segment_records env from_header dp w' (base @ [s]) \<and>
    pos_segment (rc_disk_pos r) = wr_segment_id w' \<and>
    (\<forall>ids. recovered_as s (staged_index_entry (staged_append coord ev kind g plan chain) (rc_disk_pos r) ids (rc_extensions r)))"
proof -
  let ?p0 = "\<lparr>pos_segment = wr_segment_id w, pos_offset = 0, pos_length = 0\<rparr> :: disk_pos"
  let ?r0 = "append_receipt env coord ev kind g plan chain ?p0"
  let ?point = "HlcPoint (ap_wall_ms plan) (ap_sequence plan)"
  let ?w1 = "on_marks (advance_accepted_on_lane (we_now_mono_ns env (wr_tick w)) (ag_dag_lane g) ?point) (w\<lparr>wr_tick := Suc (wr_tick w)\<rparr>)"
  let ?fp = "append_payload coord ev kind g plan chain (rc_extensions ?r0)"
  obtain frame b w2 offset w3 where enc: "frame_encode (we_frame_bytes env) (we_crc env) ?fp = Inr frame"
    and rot: "maybe_rotate_segment env ?w1 = (Inr b, w2)" and wr: "segment_write env frame w2 = (Inr offset, w3)"
    and len: "length frame < 2 ^ 32" and w': "w' = on_marks (advance_written_on_lane (ag_dag_lane g) ?point) w3"
    and r: "r = ?r0\<lparr>rc_disk_pos := \<lparr>pos_segment = wr_segment_id w3, pos_offset = offset, pos_length = of_nat (length frame)\<rparr>\<rparr>"
    by (rule append_frame_phases [OF run])
  have "segment_records env from_header dp ?w1 before" using old by (simp add: segment_records_def aligned_def on_marks_def)
  from rotate_records [OF rot codec this] obtain base where base: "continues w w2 before base" "segment_records env from_header dp w2 base"
    by (auto simp: continues_def on_marks_def)
  then obtain f where f: "aligned w2 f" by (auto simp: segment_records_def)
  note wr = segment_write_aligned [OF wr f]
  obtain m where m: "frame = frame_bytes (we_crc env) m" "payload_ok m" "dp m = Some (scan_view ?fp)"
    by (rule encoded_frame [OF codec enc])
  let ?s = "scanned_at (wr_segment_id w2) offset (of_nat (8 + length m)) ?fp chain"
  have "mark_of (wr_segment_id w2) offset (8 + length m) (scan_view ?fp) = Inr (ItemMark ?s)"
    using kind len m(1) by (intro item_mark) (auto simp: append_payload_def stamp_event_def chain_event_def)
  then have mk: "marks_of dp (wr_segment_id w2) (length f) [m] = Some [ItemMark ?s]" using m(3) wr(1) by simp
  have "aligned w' (f @ frame_stream (we_crc env) [m])" "wr_segment_id w' = wr_segment_id w2"
    using wr m(1) by (simp_all add: w' aligned_def on_marks_def frame_stream_def)
  then have "segment_records env from_header dp w' (base @ [?s])"
    by (rule records_extend [OF base(2) f _ _ _ mk]) (use m(2) in auto)
  moreover have "recovered_as ?s (staged_index_entry (staged_append coord ev kind g plan chain) (rc_disk_pos r) ids (rc_extensions r))" for ids
    using wr(3) m(1)
    by (simp add: recovered_as_def scanned_at_def append_payload_def stamp_event_def chain_event_def staged_append_def staged_index_entry_def r)
  moreover have "continues w w' before base" "pos_segment (rc_disk_pos r) = wr_segment_id w'"
    using base(1) wr(3) by (simp_all add: continues_def w' on_marks_def r)
  ultimately show ?thesis by blast
qed

section \<open>Runs of the writer\<close>

text \<open>
  One command the writer answers: a single event or a batch, under a fence or not, a replay
  included, or a refusal that touched no file. The guards ask for room in the counters and for
  event ids that no other event has.
\<close>

definition step_room :: "'v writer \<Rightarrow> bool" where
  "step_room w \<longleftrightarrow> has_room (wr_index w) \<and> positioned w \<and> unat (wr_segment_id w) + 1 < 2 ^ 64"

definition indexed :: "store_index \<Rightarrow> index_entry list" where
  "indexed ix = map snd (ix_by_id ix)"

lemma set_indexed: "log_ok es ix \<Longrightarrow> set (indexed ix) = set es"
proof -
  assume log: "log_ok es ix"
  then have d: "distinct (map fst (ix_by_id ix))" and get: "\<And>i e. bt_get (ix_by_id ix) i = Some e \<longleftrightarrow> e \<in> set es \<and> ie_event_id e = i"
    by (auto simp: log_ok_def index_holds_def bt_wf_def strict_sorted_iff)
  have "e \<in> snd ` set (ix_by_id ix) \<longleftrightarrow> (\<exists>i. bt_get (ix_by_id ix) i = Some e)" for e using d by force
  then show ?thesis by (auto simp: indexed_def get)
qed

inductive writer_step :: "'v writer_env \<Rightarrow> 'v writer \<Rightarrow> 'v writer \<Rightarrow> bool" for env :: "'v writer_env" where
  step_append: "handle_append env coord ev kind g fence w = (Inr r, f, w') \<Longrightarrow> step_room w \<Longrightarrow> plain_kind kind \<Longrightarrow>
    bt_get (ix_by_id (wr_index w)) (eh_event_id (ev_header ev)) = None \<Longrightarrow> writer_step env w w'"
| step_batch: "handle_append_batch env items fence w = (Inr rs, f, w') \<Longrightarrow> step_room w \<Longrightarrow> items \<noteq> [] \<Longrightarrow>
    batch_room (wr_index w) items \<Longrightarrow> \<forall>item \<in> set items. plain_kind (bi_kind item) \<Longrightarrow>
    length items \<le> unat MAX_BATCH_RECOVERY_ITEMS \<Longrightarrow> fresh_items env (indexed (wr_index w)) items \<Longrightarrow> unrecorded (wr_index w) items \<Longrightarrow>
    writer_step env w w'"
| step_refused: "append_core env coord ev kind g w = (Inl err, w') \<Longrightarrow> step_room w \<Longrightarrow>
    bt_get (ix_by_id (wr_index w)) (eh_event_id (ev_header ev)) = None \<Longrightarrow> same_segment w w' \<Longrightarrow> writer_step env w w'"

definition journal_inv ::
  "'v writer_env \<Rightarrow> (bytes \<Rightarrow> segment_header option) \<Rightarrow> (bytes \<Rightarrow> index_scan_payload option) \<Rightarrow> index_entry list \<Rightarrow> 'v writer \<Rightarrow> bool" where
  "journal_inv env from_header dp es w \<longleftrightarrow> log_ok es (wr_index w) \<and> (\<forall>e \<in> set es. pos_segment (ie_disk_pos e) \<le> wr_segment_id w) \<and>
     (\<exists>rs. segment_records env from_header dp w rs \<and>
       list_all2 recovered_as rs (filter (\<lambda>e. pos_segment (ie_disk_pos e) = wr_segment_id w) es))"

lemma settle_segment: "settle_commit first up_to point ns envs fence w = (r, f, w') \<Longrightarrow> same_segment w w'"
  by (auto simp: settle_commit_def publish_then_broadcast_unfenced_def broadcast_commit_artifacts_def on_marks_def same_segment_def Let_def
      split: option.splits sum.splits prod.splits)

lemma journal_quiet:
  assumes "journal_inv env from_header dp es w" and "log_ok es (wr_index w')" and "same_segment w w'"
  shows "journal_inv env from_header dp es w'"
  using assms same_segment_records [OF assms(3), of env from_header dp] by (auto simp: journal_inv_def same_segment_def)

lemma journal_extend:
  assumes old: "\<forall>e \<in> set es. pos_segment (ie_disk_pos e) \<le> wr_segment_id w"
      "list_all2 recovered_as before (filter (\<lambda>e. pos_segment (ie_disk_pos e) = wr_segment_id w) es)"
    and seg: "continues w w' before base" "unat (wr_segment_id w) + 1 < 2 ^ 64" "segment_records env from_header dp w' (base @ rs)"
    and new: "list_all2 recovered_as rs ds" "\<forall>d \<in> set ds. pos_segment (ie_disk_pos d) = wr_segment_id w'" "log_ok (es @ ds) (wr_index w')"
  shows "journal_inv env from_header dp (es @ ds) w'"
proof -
  have up: "wr_segment_id w < wr_segment_id w + 1" using seg(2) by (simp add: word_less_nat_alt unat_word_ariths)
  have "wr_segment_id w \<le> wr_segment_id w'" using seg(1) up by (auto simp: continues_def)
  then have "\<forall>e \<in> set (es @ ds). pos_segment (ie_disk_pos e) \<le> wr_segment_id w'" using old(1) new(2) by fastforce
  moreover have "list_all2 recovered_as base (filter (\<lambda>e. pos_segment (ie_disk_pos e) = wr_segment_id w') es)"
  proof (cases "base = before \<and> wr_segment_id w' = wr_segment_id w")
    case False
    then have "base = []" "wr_segment_id w' = wr_segment_id w + 1" using seg(1) by (auto simp: continues_def)
    moreover from this have "filter (\<lambda>e. pos_segment (ie_disk_pos e) = wr_segment_id w') es = []"
      using old(1) up by (fastforce simp: filter_empty_conv)
    ultimately show ?thesis by simp
  qed (use old(2) in simp)
  moreover have "filter (\<lambda>e. pos_segment (ie_disk_pos e) = wr_segment_id w') ds = ds" using new(2) by simp
  ultimately show ?thesis
    using seg(3) new(1,3) unfolding journal_inv_def by (auto intro!: exI [of _ "base @ rs"] list_all2_appendI)
qed

lemma append_segment:
  assumes core: "append_core env coord ev kind g w = (Inr (Inr (q, plan, art)), w1)"
    and log: "log_ok es (wr_index w)" and room: "has_room (wr_index w)"
  obtains i wf where "write_append_frame env coord ev kind g plan (append_chain env plan ev) (w\<lparr>wr_index := (wr_index w)\<lparr>ix_idemp := i\<rparr>\<rparr>) = (Inr q, wf)"
    "same_segment wf w1"
proof -
  obtain i where plan_state: "snd (plan_append env coord (eh_timestamp_us (ev_header ev)) g w) = w\<lparr>wr_index := (wr_index w)\<lparr>ix_idemp := i\<rparr>\<rparr>"
    using plan_frame by blast
  obtain wp wf where ph: "plan_append env coord (eh_timestamp_us (ev_header ev)) g w = (Inr (Inr plan), wp)"
    "write_append_frame env coord ev kind g plan (append_chain env plan ev) wp = (Inr q, wf)"
    "commit_append env (staged_append coord ev kind g plan (append_chain env plan ev)) ev (ag_idempotency_key g \<noteq> None) q wf = (Inr art, w1)"
    by (rule append_core_new [OF core])
  have wp: "wp = w\<lparr>wr_index := (wr_index w)\<lparr>ix_idemp := i\<rparr>\<rparr>" using ph(1) plan_state by simp
  have "same_log wp wf" using write_append_frame_log [of wp env coord ev kind g plan "append_chain env plan ev"] ph(2) by simp
  then have wf: "log_ok es (wr_index wf)" "length (in_reverse (ix_interner (wr_index wf))) + 2 < 2 ^ 32"
    using log room by (simp_all add: same_log_def wp has_room_def)
  have w1: "w1 = wf\<lparr>wr_tick := wr_tick w1, wr_sidx_collector := wr_sidx_collector w1, wr_index := wr_index w1\<rparr>"
    by (rule commit_append_ok [OF ph(3) wf])
  have "same_segment wf w1" unfolding same_segment_def by (subst (1 2) w1) simp
  with ph(2) wp show thesis using that by blast
qed

lemma append_journal:
  assumes run: "handle_append env coord ev kind g fence w = (Inr r, f, w')" and codec: "frame_codec env from_header dp"
    and inv: "journal_inv env from_header dp es w" and room: "step_room w" and kind: "plain_kind kind"
    and fresh: "eh_event_id (ev_header ev) \<notin> ie_event_id ` set es"
  shows "\<exists>ds. journal_inv env from_header dp (es @ ds) w'"
proof -
  have log: "log_ok es (wr_index w)" and rm: "has_room (wr_index w)" using inv room by (simp_all add: journal_inv_def step_room_def)
  obtain res w1 where core: "append_core env coord ev kind g w = (res, w1)" by fastforce
  obtain i where plan_state: "snd (plan_append env coord (eh_timestamp_us (ev_header ev)) g w) = w\<lparr>wr_index := (wr_index w)\<lparr>ix_idemp := i\<rparr>\<rparr>"
    using plan_frame by blast
  show ?thesis
  proof (cases "\<exists>x. res = Inr (Inr x)")
    case False
    then have w1: "w' = w1" "\<exists>x. res = Inr (Inl x)" using run core by (auto simp: handle_append_def split: sum.splits)
    then obtain x where "res = Inr (Inl x)" by blast
    then have "snd (plan_append env coord (eh_timestamp_us (ev_header ev)) g w) = w1"
      using core by (auto simp: append_core_def bind_op_Inr Let_def split: sum.splits) (metis sum.exhaust snd_conv)
    with plan_state have "w' = w\<lparr>wr_index := (wr_index w)\<lparr>ix_idemp := i\<rparr>\<rparr>" using w1(1) by simp
    then have "journal_inv env from_header dp (es @ []) w'"
      using journal_quiet [OF inv, of w'] log by (simp add: same_segment_def)
    then show ?thesis by blast
  next
    case True
    then obtain q plan art where res: "res = Inr (Inr (q, plan, art))" by (metis prod_cases3)
    note core = core [unfolded res]
    note com = append_core_commits [OF core log rm fresh]
    obtain i wf where wf: "write_append_frame env coord ev kind g plan (append_chain env plan ev)
        (w\<lparr>wr_index := (wr_index w)\<lparr>ix_idemp := i\<rparr>\<rparr>) = (Inr q, wf)" "same_segment wf w1"
      by (rule append_segment [OF core log rm])
    let ?wp = "w\<lparr>wr_index := (wr_index w)\<lparr>ix_idemp := i\<rparr>\<rparr>"
    obtain before where before: "segment_records env from_header dp w before"
      "list_all2 recovered_as before (filter (\<lambda>e. pos_segment (ie_disk_pos e) = wr_segment_id w) es)"
      using inv by (auto simp: journal_inv_def)
    have "positioned ?wp" "segment_records env from_header dp ?wp before"
      using room before(1) by (simp_all add: step_room_def positioned_def segment_records_def aligned_def)
    from append_frame_records [OF wf(1) this(1) codec this(2) kind] obtain base s where
      rec: "continues ?wp wf before base" "segment_records env from_header dp wf (base @ [s])" "pos_segment (rc_disk_pos q) = wr_segment_id wf"
      "\<And>ids. recovered_as s (staged_index_entry (staged_append coord ev kind g plan (append_chain env plan ev)) (rc_disk_pos q) ids (rc_extensions q))"
      by blast
    obtain up_to x f1 where settle: "settle_commit (ap_sequence plan) up_to (HlcPoint (ap_wall_ms plan) (ap_sequence plan))
        [ca_notification art] (opt_list (ca_envelope art)) fence w1 = (x, f1, w')"
      using run core by (auto simp: handle_append_def Let_def split: prod.splits sum.splits)
    then have same: "same_segment wf w'" using wf(2) settle_segment [OF settle] by (simp add: same_segment_def)
    obtain ids where e: "ca_index_entry art = staged_index_entry (staged_append coord ev kind g plan (append_chain env plan ev))
      (rc_disk_pos q) ids (rc_extensions q)" using com(7) by blast
    have "journal_inv env from_header dp (es @ [ca_index_entry art]) w'"
    proof (rule journal_extend [of es w before w' base env from_header dp "[s]"])
      show "continues w w' before base" using rec(1) same by (simp add: continues_def same_segment_def)
      show "segment_records env from_header dp w' (base @ [s])" using rec(2) same_segment_records [OF same] by simp
      show "log_ok (es @ [ca_index_entry art]) (wr_index w')" by (rule settle_log [OF com(1) settle])
    qed (use inv before room rec same in \<open>auto simp: journal_inv_def step_room_def e same_segment_def\<close>)
    then show ?thesis by blast
  qed
qed

lemma batch_journal:
  assumes run: "handle_append_batch env items fence w = (Inr receipts, f, w')" and codec: "frame_codec env from_header dp"
    and inv: "journal_inv env from_header dp es w" and room: "step_room w" "batch_room (wr_index w) items"
    and items: "items \<noteq> []" "length items \<le> unat MAX_BATCH_RECOVERY_ITEMS" "\<forall>item \<in> set items. plain_kind (bi_kind item)"
    and fresh: "fresh_items env es items" "unrecorded (wr_index w) items"
  shows "\<exists>ds. journal_inv env from_header dp (es @ ds) w'"
proof -
  have log: "log_ok es (wr_index w)" using inv by (simp add: journal_inv_def)
  from run items(1) log fresh(2,1) obtain p i where p: "pb_items p = items"
    "handle_prepared_batch env p fence (w\<lparr>wr_index := (wr_index w)\<lparr>ix_idemp := i\<rparr>\<rparr>) = (Inr receipts, f, w')"
    by (cases rule: handle_batch_cases) auto
  let ?w = "w\<lparr>wr_index := (wr_index w)\<lparr>ix_idemp := i\<rparr>\<rparr>"
  obtain res w1 where core: "batch_core env p ?w = (res, w1)" by fastforce
  have "log_ok es (wr_index ?w)" "batch_room (wr_index ?w) (pb_items p)" "fresh_items env es (pb_items p)"
    using log room fresh by (simp_all add: p batch_room_def)
  from core this show ?thesis
  proof (cases rule: batch_core_cases)
    case (fails err)
    then show ?thesis using p(2) core by (simp add: handle_prepared_batch_def)
  next
    case (commits rs computed arts wa wb)
    note commits = commits [unfolded p(1), simplified]
    obtain before where before: "segment_records env from_header dp w before"
      "list_all2 recovered_as before (filter (\<lambda>e. pos_segment (ie_disk_pos e) = wr_segment_id w) es)"
      using inv by (auto simp: journal_inv_def)
    have wa: "wr_active_segment wa = wr_active_segment w" "wr_segment_id wa = wr_segment_id w"
      using quiet_frame(4,5) [OF commits(2)] by simp_all
    have len: "length computed = length items" by (rule staged_batch_length [OF commits(4)])
    have pos: "positioned wa" and old: "segment_records env from_header dp wa before"
      using room(1) before(1) wa by (simp_all add: step_room_def positioned_def segment_records_def aligned_def)
    have "\<forall>sev \<in> set computed. plain_kind (sm_kind (sc_meta sev))"
      using items(3) staged_batch_items [OF commits(4)] by (fastforce simp: list_all2_conv_all_nth in_set_conv_nth staged_for_def)
    with write_batch_records [OF commits(3) pos codec old] len items obtain base ss where
      rec: "continues wa wb before base" "segment_records env from_header dp wb (base @ ss)"
      "\<forall>r \<in> set rs. pos_segment (rc_disk_pos r) = wr_segment_id wb"
      "list_all2 (\<lambda>((item, sev), r) s. \<forall>ids. recovered_as s (staged_index_entry sev (rc_disk_pos r) ids (rc_extensions r)))
        (zip (zip items computed) rs) ss"
      by (auto simp: p(1))
    have "same_segment wb w1" unfolding same_segment_def by (subst (1 2) commits(10)) simp
    moreover obtain x f1 where settle: "settle_commit (allocated (ix_sequence (wr_index w))) (allocated (ix_sequence (wr_index w)) + of_nat (length items))
        (batch_frontier computed) (map ca_notification arts) (batch_envelopes arts) fence w1 = (x, f1, w')"
      using p core commits(1) by (auto simp: handle_prepared_batch_def split: prod.splits sum.splits)
    ultimately have same: "same_segment wb w'" using settle_segment [OF settle] by (simp add: same_segment_def)
    have entry: "\<exists>ids. ca_index_entry (arts ! j) = staged_index_entry (computed ! j) (rc_disk_pos (rs ! j)) ids (rc_extensions (rs ! j))"
      if "j < length items" for j
      using commits(7) [OF that] by (simp add: committed_as_def)
    have ls: "length ss = length items" using list_all2_lengthD [OF rec(4)] len commits(5) by simp
    have "journal_inv env from_header dp (es @ map ca_index_entry arts) w'"
    proof (rule journal_extend [of es w before w' base env from_header dp ss])
      show "continues w w' before base" using rec(1) same by (simp add: continues_def same_segment_def wa)
      show "segment_records env from_header dp w' (base @ ss)" using rec(2) same_segment_records [OF same] by simp
      show "log_ok (es @ map ca_index_entry arts) (wr_index w')" by (rule settle_log [OF commits(8) settle])
      show "list_all2 recovered_as ss (map ca_index_entry arts)"
      proof (rule list_all2_all_nthI)
        fix j
        assume "j < length ss"
        then have j: "j < length items" using ls by simp
        have "\<forall>ids. recovered_as (ss ! j) (staged_index_entry (computed ! j) (rc_disk_pos (rs ! j)) ids (rc_extensions (rs ! j)))"
          using list_all2_nthD [OF rec(4), of j] j len commits(5) by simp
        with entry [OF j] j commits(6) show "recovered_as (ss ! j) (map ca_index_entry arts ! j)" by auto
      qed (simp add: ls commits(6))
      show "\<forall>d \<in> set (map ca_index_entry arts). pos_segment (ie_disk_pos d) = wr_segment_id w'"
      proof -
        have "pos_segment (ie_disk_pos (ca_index_entry (arts ! j))) = wr_segment_id w'" if "j < length items" for j
          using entry [OF that] rec(3) commits(5) that same by (auto simp: same_segment_def)
        then show ?thesis using commits(6) by (auto simp: in_set_conv_nth)
      qed
    qed (use inv before room in \<open>auto simp: journal_inv_def step_room_def\<close>)
    then show ?thesis by blast
  qed
qed

lemma step_journal:
  assumes "writer_step env w w'" and "frame_codec env from_header dp" and "journal_inv env from_header dp es w"
  shows "\<exists>ds. journal_inv env from_header dp (es @ ds) w'"
proof -
  have log: "log_ok es (wr_index w)" using assms(3) by (simp add: journal_inv_def)
  have new: "i \<notin> ie_event_id ` set es" if "bt_get (ix_by_id (wr_index w)) i = None" for i
    using that log by_id_get [of es "wr_index w"] by (fastforce simp: log_ok_def)
  from assms(1) show ?thesis
  proof cases
    case (step_append coord ev kind g fence r f)
    then show ?thesis using append_journal assms(2,3) new by blast
  next
    case (step_batch items fence rs f)
    have "fresh_items env es items" using step_batch(7) unfolding fresh_items_def set_indexed [OF log] .
    with step_batch assms(2,3) show ?thesis by (intro batch_journal)
  next
    case (step_refused coord ev kind g err)
    then have "has_room (wr_index w)" by (simp add: step_room_def)
    from append_core_log [OF step_refused(1) log this new [OF step_refused(3)]] have "log_ok es (wr_index w')" by auto
    with step_refused(4) assms(3) journal_quiet have "journal_inv env from_header dp (es @ []) w'" by fastforce
    then show ?thesis by blast
  qed
qed

lemma run_journal:
  assumes "(writer_step env)\<^sup>*\<^sup>* w w'" and "frame_codec env from_header dp" and "journal_inv env from_header dp es w"
  shows "\<exists>ds. journal_inv env from_header dp (es @ ds) w'"
  using assms(1,3)
proof (induction arbitrary: es rule: converse_rtranclp_induct)
  case base
  then show ?case by (intro exI [of _ "[]"]) simp
next
  case (step w w1)
  from step_journal [OF step(1) assms(2) step(4)] obtain ds where "journal_inv env from_header dp (es @ ds) w1" by blast
  from step(3) [OF this] show ?case by auto
qed


definition header_decode :: "bytes \<Rightarrow> segment_header option" where
  "header_decode m = (if length m = 20 then Some \<lparr>sh_version = from_be (take 2 m), sh_flags = from_be (take 2 (drop 2 m)),
     sh_created_ns = from_be (take 8 (drop 4 m)), sh_segment_id = from_be (drop 12 m)\<rparr> else None)"

lemma header_decode_code: "header_decode (header_code h) = Some h"
  by (simp add: header_decode_def) (simp add: header_code_def)

abbreviation "crash_env \<equiv> first_env (\<lambda>fp. if fp = first_payload None then Some [1] else None)"

abbreviation "crash_decode \<equiv> \<lambda>m :: bytes. if m = [1] then Some (scan_view (first_payload None)) else None"

lemma crash_codec: "frame_codec crash_env header_decode crash_decode"
  by (auto simp: frame_codec_def first_env_def payload_ok_def MAX_FRAME_PAYLOAD_def MAX_SEGMENT_HEADER_def header_decode_code split: if_splits)

lemma first_journal: "journal_inv crash_env header_decode crash_decode [] first_writer"
proof -
  have "aligned first_writer (segment_file (we_crc crash_env) (header_code first_header) [] [])"
    by (simp add: aligned_def first_writer_def segment_file_def frame_stream_def SEGMENT_MAGIC_def)
  then have "segment_records crash_env header_decode crash_decode first_writer []"
    unfolding segment_records_def
    by (intro exI [of _ "header_code first_header"] exI [of _ first_header] exI [of _ "[]"])
      (simp add: MAX_SEGMENT_HEADER_def header_decode_code first_header_def)
  then show ?thesis using first_log(1) by (auto simp: journal_inv_def)
qed

lemma first_step_file:
  assumes run: "handle_append crash_env first_coord first_event DATA (first_guards None) None first_writer = (Inr r, None, w')"
  shows "(\<exists>f. seg_file (wr_active_segment w') = Some f \<and> length f < 100) \<and> pos_segment (rc_disk_pos r) = wr_segment_id w'"
proof -
  let ?g = "first_guards None" and ?w = "first_writer :: unit writer"
  have env: "healthy crash_env" by (simp add: healthy_def first_env_def)
  have "\<exists>x w'. append_core crash_env first_coord first_event DATA ?g first_writer = (Inr (Inr x), w')"
    by (rule append_core_succeeds [OF env first_admitted first_log(1,2) _ first_log(4) _ _ first_encodes])
      (simp_all add: first_writer_def collector_new_def)
  then obtain q plan art w1 where core: "append_core crash_env first_coord first_event DATA ?g first_writer = (Inr (Inr (q, plan, art)), w1)"
    by (metis prod_cases3)
  obtain i wf where wf: "write_append_frame crash_env first_coord first_event DATA ?g plan (append_chain crash_env plan first_event)
      (?w\<lparr>wr_index := (wr_index ?w)\<lparr>ix_idemp := i\<rparr>\<rparr>) = (Inr q, wf)" "same_segment wf w1"
    by (rule append_segment [OF core first_log(1,2)])
  have "(\<exists>f. seg_file (wr_active_segment wf) = Some f \<and> length f < 100) \<and> pos_segment (rc_disk_pos q) = wr_segment_id wf"
    by (rule append_frame_phases [OF wf(1)])
      (auto simp: maybe_rotate_segment_def needs_rotation_def first_writer_def on_marks_def segment_write_def write_frame_def
        first_env_def frame_encode_def bind_op_def SEGMENT_MAGIC_def split: if_splits option.splits)
  moreover obtain up_to x f1 where settle: "settle_commit (ap_sequence plan) up_to (HlcPoint (ap_wall_ms plan) (ap_sequence plan))
      [ca_notification art] (opt_list (ca_envelope art)) None w1 = (x, f1, w')"
    using run core by (auto simp: handle_append_def Let_def split: prod.splits sum.splits)
  moreover have "r = q" using run core by (auto simp: handle_append_def Let_def split: prod.splits sum.splits)
  ultimately show ?thesis using wf(2) settle_segment [OF settle] by (simp add: same_segment_def)
qed


end
