(* ===== verification/Faults.thy ===== *)
theory Faults
  imports Crash
begin

text \<open>
  What a failed file operation leaves behind: a rotation that fails once the file of the next
  segment exists, and a batch whose sync fails after its commit marker is written.
\<close>

section \<open>A rotation that cannot be repeated\<close>

text \<open>The active segment is full and the file of the next one is already there.\<close>

definition wedged :: "'v writer_env \<Rightarrow> 'v writer \<Rightarrow> bool" where
  "wedged env w \<longleftrightarrow> needs_rotation (wr_active_segment w) (we_segment_max_bytes env) \<and> bt_get (wr_files w) (wr_segment_id w + 1) \<noteq> None"

definition same_store :: "'v writer \<Rightarrow> 'v writer \<Rightarrow> bool" where
  "same_store w w' \<longleftrightarrow> same_segment w w' \<and> wr_files w' = wr_files w"

lemma wedged_same: "wedged env w \<Longrightarrow> same_store w w' \<Longrightarrow> wedged env w'"
  by (simp add: wedged_def same_store_def same_segment_def)

lemma wedged_rotate:
  assumes "wedged env w"
  shows "\<exists>t. maybe_rotate_segment env w = (Inl Io, w\<lparr>wr_tick := t\<rparr>)"
  using assms by (auto simp: wedged_def maybe_rotate_segment_def create_segment_def bind_op_def)

lemma wedged_frame:
  assumes "wedged env w"
  shows "\<exists>err w'. write_append_frame env coord ev kind g plan chain w = (Inl err, w') \<and> same_store w w' \<and> wr_index w' = wr_index w"
proof -
  let ?w1 = "on_marks (advance_accepted_on_lane (we_now_mono_ns env (wr_tick w)) (ag_dag_lane g) (HlcPoint (ap_wall_ms plan) (ap_sequence plan)))
    (w\<lparr>wr_tick := Suc (wr_tick w)\<rparr>)"
  have "wedged env ?w1" using assms by (simp add: wedged_def on_marks_def)
  then obtain t where "maybe_rotate_segment env ?w1 = (Inl Io, ?w1\<lparr>wr_tick := t\<rparr>)" using wedged_rotate by blast
  then show ?thesis
    unfolding write_append_frame_def Let_def bind_ask
    by (auto simp: bind_op_def on_marks_def same_store_def same_segment_def split: sum.splits)
qed

text \<open>No append of a new event can succeed then, and the next one meets the same state.\<close>

lemma wedged_append:
  assumes "wedged env w" and "handle_append env coord ev kind g fence w = (res, f, w')"
  shows "wedged env w' \<and> ix_by_id (wr_index w') = ix_by_id (wr_index w)"
proof -
  obtain i where plan_state: "snd (plan_append env coord (eh_timestamp_us (ev_header ev)) g w) = w\<lparr>wr_index := (wr_index w)\<lparr>ix_idemp := i\<rparr>\<rparr>"
    using plan_frame by blast
  let ?w = "w\<lparr>wr_index := (wr_index w)\<lparr>ix_idemp := i\<rparr>\<rparr>"
  obtain r where plan: "plan_append env coord (eh_timestamp_us (ev_header ev)) g w = (r, ?w)" using plan_state by (metis prod.collapse)
  have stuck: "wedged env ?w" using assms(1) by (simp add: wedged_def)
  have "\<exists>res1 w1. append_core env coord ev kind g w = (res1, w1) \<and> (\<forall>x. res1 \<noteq> Inr (Inr x)) \<and> wedged env w1 \<and>
      ix_by_id (wr_index w1) = ix_by_id (wr_index w)"
  proof (cases "\<exists>plan. r = Inr (Inr plan)")
    case True
    then obtain ap where ap: "r = Inr (Inr ap)" by blast
    obtain err w1 where "write_append_frame env coord ev kind g ap (append_chain env ap ev) ?w = (Inl err, w1)" "same_store ?w w1"
      "wr_index w1 = wr_index ?w" using wedged_frame [OF stuck] by blast
    then show ?thesis using plan ap wedged_same [OF stuck] by (simp add: append_core_def bind_op_def Let_def)
  next
    case False
    then show ?thesis using plan stuck by (cases r) (auto simp: append_core_def bind_op_def split: sum.split)
  qed
  then show ?thesis using assms(2) by (auto simp: handle_append_def split: sum.splits)
qed

definition append_steps :: "'v writer_env \<Rightarrow> 'v writer \<Rightarrow> 'v writer \<Rightarrow> bool" where
  "append_steps env = (\<lambda>w w'. \<exists>coord ev kind g fence res f. handle_append env coord ev kind g fence w = (res, f, w'))\<^sup>*\<^sup>*"

lemma wedged_forever:
  assumes "append_steps env w w'" and "wedged env w"
  shows "wedged env w' \<and> ix_by_id (wr_index w') = ix_by_id (wr_index w)"
  using assms(1) unfolding append_steps_def
proof (induction rule: rtranclp_induct)
  case (step w1 w2)
  then obtain coord ev kind g fence res f where "handle_append env coord ev kind g fence w1 = (res, f, w2)" by blast
  with wedged_append step.IH show ?case by metis
qed (simp add: assms(2))

text \<open>
  C8. A rotation that fails late is never repeated. When the next segment is created and the sync
  of the old one then fails, the error is returned and the file of the next segment stays: every
  later rotation fails because that file exists, so no later append adds an event, whether or not
  the file operations succeed again.
\<close>

theorem rotation_wedges:
  assumes "needs_rotation (wr_active_segment w) (we_segment_max_bytes env)"
    and "create_segment env (wr_segment_id w + 1) w = (Inr seg, w1)" and "sync_with_mode env w1 = (Inl err, w2)"
  shows "maybe_rotate_segment env w = (Inl err, w2) \<and>
    (\<forall>w'. append_steps env w2 w' \<longrightarrow> ix_by_id (wr_index w') = ix_by_id (wr_index w2) \<and> fst (maybe_rotate_segment env w') = Inl Io)"
proof -
  have "maybe_rotate_segment env w = (Inl err, w2)"
    using assms by (simp add: maybe_rotate_segment_def bind_op_def)
  moreover have "wedged env w2"
    using assms(1) create_ok(3) [OF assms(2)] create_frame(1,2) [of env "wr_segment_id w + 1" w] sync_frame(1,2,3) [of env w1]
    by (simp add: wedged_def assms(2,3))
  ultimately show ?thesis using wedged_forever [of env w2] wedged_rotate by (metis fst_conv)
qed

text \<open>A sync that fails once, at the fourth question the writer puts to the file system.\<close>

definition flaky_env :: "unit writer_env" where
  "flaky_env = (first_env (\<lambda>_. Some [1]))\<lparr>we_segment_max_bytes := 1, we_io := (\<lambda>t. if t = 3 then Some 0 else None)\<rparr>"

theorem rotation_wedges_witness:
  "\<exists>w2. maybe_rotate_segment flaky_env first_writer = (Inl Io, w2) \<and>
    (\<forall>w'. append_steps flaky_env w2 w' \<longrightarrow> ix_by_id (wr_index w') = [])"
proof -
  obtain seg w1 where c: "create_segment flaky_env (wr_segment_id (first_writer :: unit writer) + 1) first_writer = (Inr seg, w1)"
      "wr_tick w1 = 3" "seg_file (wr_active_segment w1) \<noteq> None" "wr_index w1 = wr_index (first_writer :: unit writer)"
    by (auto simp: create_segment_def flaky_env_def first_env_def first_writer_def create_with_created_ns_def bind_op_def Let_def)
  then obtain w2 where s: "sync_with_mode flaky_env w1 = (Inl Io, w2)" "wr_index w2 = wr_index (first_writer :: unit writer)"
    by (auto simp: sync_with_mode_def bind_op_def flaky_env_def)
  have full: "needs_rotation (wr_active_segment (first_writer :: unit writer)) (we_segment_max_bytes flaky_env)"
    by (simp add: needs_rotation_def first_writer_def flaky_env_def)
  have "ix_by_id (wr_index w2) = []" using s(2) by (simp add: first_writer_def with_config_def)
  with rotation_wedges [OF full c(1) s(1)] show ?thesis by auto
qed

section \<open>A batch that fails and comes back\<close>

lemma write_batch_unsynced:
  assumes "write_batch env prepared computed batch_id w = (Inl (BatchSyncFailed n err), w')"
  obtains rs w4 where "batch_written env prepared computed batch_id w rs w4" "same_segment w4 w'"
proof -
  have marker: "write_batch_marker_frame env b k m idx rot v \<noteq> (Inl (BatchSyncFailed n err), v')" for b k m idx rot v v'
    by (auto simp: write_batch_marker_frame_def bind_op_def map_err_def split: sum.splits prod.splits if_splits)
  have event: "write_batch_event_frame env idx item sev v \<noteq> (Inl (BatchSyncFailed n err), v')" for idx item sev v v'
    by (auto simp: write_batch_event_frame_def bind_op_def map_err_def Let_def split: sum.splits prod.splits if_splits)
  have events: "write_batch_event_frames env idx pairs v \<noteq> (Inl (BatchSyncFailed n err), v')" for idx pairs v v'
  proof (induction pairs arbitrary: idx v v')
    case (Cons q pairs)
    then show ?case by (cases q) (auto simp: event bind_op_def split: prod.splits sum.splits)
  qed simp
  have run: "bind_op (write_batch_marker_frame env batch_id SYSTEM_BATCH_BEGIN (of_nat (length (pb_items prepared))) 0 True) (\<lambda>_.
      bind_op (write_batch_event_frames env 0 (zip (pb_items prepared) computed)) (\<lambda>receipts.
      bind_op (write_batch_marker_frame env batch_id SYSTEM_BATCH_COMMIT 0 (length (pb_items prepared) - 1) False) (\<lambda>_.
      bind_op (map_err (BatchSyncFailed (length (pb_items prepared))) (sync_with_mode env)) (\<lambda>_ w.
        (Inr receipts, on_marks advance_durable_to_accepted w))))) w = (Inl (BatchSyncFailed n err), w')"
    and len: "length (pb_items prepared) < 2 ^ 32"
    using assms by (auto simp: write_batch_def Let_def split: if_splits)
  from run obtain off1 w2 where b: "write_batch_marker_frame env batch_id SYSTEM_BATCH_BEGIN (of_nat (length (pb_items prepared))) 0 True w = (Inr off1, w2)"
    and run2: "bind_op (write_batch_event_frames env 0 (zip (pb_items prepared) computed)) (\<lambda>receipts.
      bind_op (write_batch_marker_frame env batch_id SYSTEM_BATCH_COMMIT 0 (length (pb_items prepared) - 1) False) (\<lambda>_.
      bind_op (map_err (BatchSyncFailed (length (pb_items prepared))) (sync_with_mode env)) (\<lambda>_ w.
        (Inr receipts, on_marks advance_durable_to_accepted w)))) w2 = (Inl (BatchSyncFailed n err), w')"
    by (cases rule: bind_opE) (auto simp: marker)
  from run2 obtain rs w3 where e: "write_batch_event_frames env 0 (zip (pb_items prepared) computed) w2 = (Inr rs, w3)"
    and run3: "bind_op (write_batch_marker_frame env batch_id SYSTEM_BATCH_COMMIT 0 (length (pb_items prepared) - 1) False) (\<lambda>_.
      bind_op (map_err (BatchSyncFailed (length (pb_items prepared))) (sync_with_mode env)) (\<lambda>_ w.
        (Inr rs, on_marks advance_durable_to_accepted w))) w3 = (Inl (BatchSyncFailed n err), w')"
    by (cases rule: bind_opE) (auto simp: events)
  from run3 obtain off2 w4 where c: "write_batch_marker_frame env batch_id SYSTEM_BATCH_COMMIT 0 (length (pb_items prepared) - 1) False w3 = (Inr off2, w4)"
    and run4: "bind_op (map_err (BatchSyncFailed (length (pb_items prepared))) (sync_with_mode env)) (\<lambda>_ w.
        (Inr rs, on_marks advance_durable_to_accepted w)) w4 = (Inl (BatchSyncFailed n err), w')"
    by (cases rule: bind_opE) (auto simp: marker)
  have "same_segment w4 w'"
    using run4 sync_frame(2,3) [of env w4] by (cases rule: bind_opE) (auto simp: map_err_def same_segment_def split: prod.splits sum.splits)
  moreover have "batch_written env prepared computed batch_id w rs w4" using len b e c by (auto simp: batch_written_def)
  ultimately show thesis using that by blast
qed

text \<open>
  The error of a failed sync comes after the commit marker is on disk. The batch is refused, the
  log stays as it was, and yet the recovery scan of that file hands over every event of the batch:
  what was reported as failed comes back after a restart.
\<close>

lemma failed_batch_returns:
  fixes w :: "'v writer"
  defines "g \<equiv> ix_sequence (wr_index w)"
  assumes pre: "precompute_batch_items env p (allocated g) (w\<lparr>wr_index := (wr_index w)\<lparr>ix_sequence := snd (reserve g (of_nat (length (pb_items p))))\<rparr>\<rparr>) =
      (Inr computed, w1)"
    and fails: "write_batch env p computed (allocated g) w1 = (Inl (BatchSyncFailed n err), w')"
    and codec: "frame_codec env from_header dp" and inv: "journal_inv env from_header dp es w"
    and room: "step_room w" "batch_room (wr_index w) (pb_items p)"
    and items: "pb_items p \<noteq> []" "length (pb_items p) \<le> unat MAX_BATCH_RECOVERY_ITEMS" "\<forall>item \<in> set (pb_items p). plain_kind (bi_kind item)"
    and disk: "seg_file (wr_active_segment w') = Some f" "torn_tail (we_crc env) torn" "length (f @ torn) < 2 ^ 63"
      "detect_sidx_boundary (we_crc env) (f @ torn) (wr_segment_id w') = Inr None"
  shows "handle_prepared_batch env p fence w = (Inl (BatchSyncFailed n err), fence, w') \<and> log_ok es (wr_index w') \<and>
    (\<exists>base rs b. scan_segment_frames (we_crc env) from_header dc dp (\<lambda>e found. (found @ [e], None)) RecoverTornTail (f @ torn) (wr_segment_id w')
        [] batch_recovery_default = (base @ rs, b, None) \<and>
      list_all2 (\<lambda>item s. sc_entity s = coord_entity (bi_coord item) \<and> eh_event_kind (sc_header s) = bi_kind item \<and>
        event_hash (scanned_index_entry.sc_hash_chain s) = se_hash (we_signing env) (bi_payload item)) (pb_items p) rs)"
proof -
  let ?w = "w\<lparr>wr_index := (wr_index w)\<lparr>ix_sequence := snd (reserve g (of_nat (length (pb_items p))))\<rparr>\<rparr>"
  have log: "log_ok es (wr_index w)" using inv by (simp add: journal_inv_def)
  have "gate_inv g" "unat (allocated g) + length (pb_items p) < 2 ^ 64"
    using log room(2) by (simp_all add: log_ok_def batch_room_def g_def)
  note res = reserve_inv [OF this]
  have log0: "log_ok es (wr_index ?w)" using res by (simp add: log_ok_gate [OF log, folded g_def])
  have quiet: "quiet ?w w1" using precompute_batch_quiet [of ?w env p "allocated g"] pre by simp
  have staged: "staged_batch env (allocated g) (wr_tick w) (pb_items p) computed"
    using precompute_batch_ok(1) [OF pre, of es] log0 by simp
  have core: "batch_core env p w = (Inl (BatchSyncFailed n err), w')"
    using pre fails by (simp add: batch_core_def index_reserve_sequences_def reserve_def g_def index_global_sequence_def Let_def bind_op_def)
  obtain rs w4 where bw: "batch_written env p computed (allocated g) w1 rs w4" "same_segment w4 w'"
    by (rule write_batch_unsynced [OF fails])
  obtain before where before: "segment_records env from_header dp w before" using inv by (auto simp: journal_inv_def)
  have seg: "same_segment w w1" using quiet_frame(4,5) [OF quiet] by (simp add: same_segment_def)
  have pos: "positioned w1" using room(1) seg by (simp add: step_room_def positioned_def same_segment_def)
  have kinds: "\<forall>sev \<in> set computed. plain_kind (sm_kind (sc_meta sev))"
    using items(3) staged_batch_items [OF staged] by (fastforce simp: list_all2_conv_all_nth in_set_conv_nth staged_for_def)
  have len: "length computed = length (pb_items p)" by (rule staged_batch_length [OF staged])
  obtain base ss where rec: "segment_records env from_header dp w4 (base @ ss)"
    "list_all2 (\<lambda>((item, sev), r) s. \<forall>ids. recovered_as s (staged_index_entry sev (rc_disk_pos r) ids (rc_extensions r)))
      (zip (zip (pb_items p) computed) rs) ss"
    using batch_written_records [OF bw(1) pos codec _ len _ items(2) kinds] before same_segment_records [OF seg] items(1) by blast
  then have rec': "segment_records env from_header dp w' (base @ ss)" using same_segment_records [OF bw(2)] by simp
  have "fold (\<lambda>e found. found @ [e]) xs acc = acc @ xs" for xs acc :: "scanned_index_entry list" by (induction xs arbitrary: acc) auto
  with records_recovered [OF rec' disk, of dc "\<lambda>e found. found @ [e]" "[]"]
  have scan: "\<exists>b. scan_segment_frames (we_crc env) from_header dc dp (\<lambda>e found. (found @ [e], None)) RecoverTornTail (f @ torn) (wr_segment_id w')
        [] batch_recovery_default = (base @ ss, b, None)" by simp
  have "log_ok es (wr_index w')"
    using store_logs.write_batch_keeps [of w1 env p computed "allocated g"] fails quiet_index [OF quiet] log0 by (simp add: same_log_def)
  moreover have "handle_prepared_batch env p fence w = (Inl (BatchSyncFailed n err), fence, w')"
    using core by (simp add: handle_prepared_batch_def)
  moreover have "list_all2 (\<lambda>item s. sc_entity s = coord_entity (bi_coord item) \<and> eh_event_kind (sc_header s) = bi_kind item \<and>
        event_hash (scanned_index_entry.sc_hash_chain s) = se_hash (we_signing env) (bi_payload item)) (pb_items p) ss"
  proof (rule list_all2_all_nthI)
    have lrs: "length rs = length (pb_items p)"
      using event_frames_length bw(1) len by (fastforce simp: batch_written_def)
    then show "length (pb_items p) = length ss" using list_all2_lengthD [OF rec(2)] len by simp
    fix j
    assume j: "j < length (pb_items p)"
    have "recovered_as (ss ! j) (staged_index_entry (computed ! j) (rc_disk_pos (rs ! j)) (0, 0) (rc_extensions (rs ! j)))"
      using list_all2_nthD [OF rec(2), of j] j len lrs by simp
    moreover obtain t seq where "staged_for env (pb_items p ! j) t seq (computed ! j)"
      using list_all2_nthD [OF staged_batch_items [OF staged] j] by blast
    ultimately show "sc_entity (ss ! j) = coord_entity (bi_coord (pb_items p ! j)) \<and> eh_event_kind (sc_header (ss ! j)) = bi_kind (pb_items p ! j) \<and>
        event_hash (scanned_index_entry.sc_hash_chain (ss ! j)) = se_hash (we_signing env) (bi_payload (pb_items p ! j))"
      by (simp add: recovered_as_def staged_for_def)
  qed
  ultimately show ?thesis using scan by blast
qed

end
