(* ===== verification/Config.thy ===== *)
theory Config
  imports Errors Recovery
begin

text \<open>
  The configuration of a store and the run-time policy derived from it
  (\<^verbatim>\<open>store/config.rs\<close>, \<^verbatim>\<open>config/types.rs\<close>, \<^verbatim>\<open>config/validation.rs\<close>, the pressure gate of
  \<^verbatim>\<open>write/control/store_bridge.rs\<close>). Only the fields that the validation looks at or hands on are
  here; the clock, the signing keys and the file system are parameters of the components.
\<close>

record batch_config =
  bc_max_size :: u32
  bc_max_bytes :: u32
  bc_group_commit_max_batch :: u32

record writer_config =
  wc_channel_capacity :: u64
  wc_pressure_retry_threshold_pct :: u8
  wc_shutdown_drain_limit :: u64

record store_config =
  cfg_segment_max_bytes :: u64
  cfg_fd_budget :: u64
  cfg_broadcast_capacity :: u64
  cfg_single_append_max_bytes :: u32
  cfg_batch :: batch_config
  cfg_writer :: writer_config
  cfg_sync_every_n_events :: u32
  cfg_incremental_projection :: bool
  cfg_enable_checkpoint :: bool
  cfg_enable_mmap_index :: bool

record validated_store_config =
  vc_pressure_retry_threshold :: u64
  vc_require_idempotency_keys :: bool
  vc_incremental_projection :: bool
  vc_enable_checkpoint :: bool
  vc_enable_mmap_index :: bool
  vc_shutdown_drain_limit :: u64
  vc_group_commit_drain_budget :: u32

definition saturating_mul :: "u64 \<Rightarrow> u64 \<Rightarrow> u64" where
  [rust_arith]: "saturating_mul a b = (if unat a * unat b < 2 ^ 64 then a * b else - 1)"

definition div_ceil :: "u64 \<Rightarrow> u64 \<Rightarrow> u64" where
  "div_ceil a b = of_nat ((unat a + unat b - 1) div unat b)"

definition pressure_threshold :: "u64 \<Rightarrow> u8 \<Rightarrow> u64" where
  "pressure_threshold capacity pct = max (div_ceil (saturating_mul capacity (ucast pct)) 100) 1"

definition drain_budget :: "u32 \<Rightarrow> u32" where
  "drain_budget group_commit_max_batch =
     (if group_commit_max_batch = 0 then - 1
      else if group_commit_max_batch = 1 then 0
      else saturating_sub group_commit_max_batch 1)"

definition validated :: "store_config \<Rightarrow> (StoreError, validated_store_config) result" where
  "validated c =
     (let b = cfg_batch c; wc = cfg_writer c in
      if cfg_segment_max_bytes c = 0 then Inl (Configuration ''segment_max_bytes must be > 0'')
      else if wc_channel_capacity wc = 0
      then Inl (Configuration ''writer.channel_capacity must be > 0 (0 creates a rendezvous channel that deadlocks)'')
      else if wc_pressure_retry_threshold_pct wc = 0 \<or> wc_pressure_retry_threshold_pct wc > 100
      then Inl (Configuration ''writer.pressure_retry_threshold_pct must be 1..=100'')
      else if cfg_fd_budget c = 0 then Inl (Configuration ''fd_budget must be > 0'')
      else if cfg_broadcast_capacity c = 0
      then Inl (Configuration ''broadcast_capacity must be > 0 (0 creates rendezvous channels that starve subscribers)'')
      else if cfg_single_append_max_bytes c = 0 \<or> cfg_single_append_max_bytes c > 64 * 1024 * 1024
      then Inl (Configuration ''single_append_max_bytes must be 1..=64MB'')
      else if bc_max_size b = 0 \<or> bc_max_size b > 4096 then Inl (Configuration ''batch.max_size must be 1..=4096'')
      else if bc_max_bytes b = 0 \<or> bc_max_bytes b > 16 * 1024 * 1024 then Inl (Configuration ''batch.max_bytes must be 1..=16MB'')
      else Inr \<lparr>vc_pressure_retry_threshold = pressure_threshold (wc_channel_capacity wc) (wc_pressure_retry_threshold_pct wc),
        vc_require_idempotency_keys = (bc_group_commit_max_batch b > 1),
        vc_incremental_projection = cfg_incremental_projection c,
        vc_enable_checkpoint = cfg_enable_checkpoint c, vc_enable_mmap_index = cfg_enable_mmap_index c,
        vc_shutdown_drain_limit = wc_shutdown_drain_limit wc,
        vc_group_commit_drain_budget = drain_budget (bc_group_commit_max_batch b)\<rparr>)"

text \<open>Whether a submission is asked to retry, given the length of the queue.\<close>

definition pressure_retry :: "validated_store_config \<Rightarrow> u64 \<Rightarrow> bool" where
  "pressure_retry v queued \<longleftrightarrow> \<not> queued < vc_pressure_retry_threshold v"

lemma pressure_threshold_bounds:
  assumes "0 < capacity" and "0 < pct" and "pct \<le> 100"
  shows "1 \<le> pressure_threshold capacity pct \<and> pressure_threshold capacity pct \<le> capacity"
proof -
  let ?m = "saturating_mul capacity (ucast pct)"
  have pct: "unat pct \<le> 100" using assms(3) by (simp add: word_le_nat_alt)
  then have u: "unat (ucast pct :: u64) = unat pct" by (simp add: unsigned_ucast_eq take_bit_nat_eq_self)
  have m: "unat ?m \<le> unat capacity * unat pct"
  proof (cases "unat capacity * unat pct < 2 ^ 64")
    case False
    then show ?thesis using unsigned_less [of "- 1 :: u64", where 'a = nat] by (simp add: saturating_mul_def u)
  qed (simp add: saturating_mul_def u unat_word_ariths)
  also have "\<dots> \<le> unat capacity * 100" using pct by (rule mult_left_mono) simp
  finally have le: "(unat ?m + 99) div 100 \<le> unat capacity" by linarith
  then have "div_ceil ?m 100 \<le> capacity"
    using unsigned_less [of capacity, where 'a = nat] by (simp add: div_ceil_def unat_of_nat word_le_nat_alt)
  moreover have "1 \<le> capacity" using assms(1) by (simp add: word_le_nat_alt word_less_nat_alt)
  ultimately show ?thesis by (simp add: pressure_threshold_def)
qed

text \<open>
  C40. A configuration that is accepted keeps the components inside their limits: the pressure gate
  closes at some queue length between one and the capacity, a batch is small enough for recovery to
  take it back, the payload of an append fits a frame, and the writer drains one append less than the
  group commit asks for, or all there is when it asks for no limit.
\<close>

theorem validated_bounds:
  assumes "validated c = Inr v"
  shows "\<not> pressure_retry v 0 \<and> pressure_retry v (wc_channel_capacity (cfg_writer c)) \<and>
    bc_max_size (cfg_batch c) \<le> MAX_BATCH_RECOVERY_ITEMS \<and> unat (cfg_single_append_max_bytes c) \<le> MAX_FRAME_PAYLOAD \<and>
    unat (vc_group_commit_drain_budget v) + 1 = (if bc_group_commit_max_batch (cfg_batch c) = 0 then 2 ^ 32 else unat (bc_group_commit_max_batch (cfg_batch c)))"
proof -
  let ?b = "cfg_batch c" and ?w = "cfg_writer c"
  have ok: "wc_channel_capacity ?w \<noteq> 0" "wc_pressure_retry_threshold_pct ?w \<noteq> 0" "wc_pressure_retry_threshold_pct ?w \<le> 100"
    "cfg_single_append_max_bytes c \<le> 64 * 1024 * 1024" "bc_max_size ?b \<le> 4096"
    and v: "vc_pressure_retry_threshold v = pressure_threshold (wc_channel_capacity ?w) (wc_pressure_retry_threshold_pct ?w)"
      "vc_group_commit_drain_budget v = drain_budget (bc_group_commit_max_batch ?b)"
    using assms by (auto simp: validated_def Let_def split: if_splits)
  have "\<not> pressure_retry v 0" "pressure_retry v (wc_channel_capacity ?w)"
    using pressure_threshold_bounds [of "wc_channel_capacity ?w" "wc_pressure_retry_threshold_pct ?w"] ok
    by (auto simp: pressure_retry_def v word_gt_0 not_less)
  moreover have "bc_max_size ?b \<le> MAX_BATCH_RECOVERY_ITEMS" using ok(5) by (simp add: MAX_BATCH_RECOVERY_ITEMS_def word_le_nat_alt)
  moreover have "unat (cfg_single_append_max_bytes c) \<le> MAX_FRAME_PAYLOAD" using ok(4) by (simp add: MAX_FRAME_PAYLOAD_def word_le_nat_alt)
  moreover have "unat (drain_budget n) + 1 = (if n = 0 then 2 ^ 32 else unat n)" for n :: u32
  proof (cases "n = 0")
    case False
    then have "1 \<le> n" by (simp add: word_le_nat_alt Suc_le_eq unat_gt_0)
    then show ?thesis using False by (auto simp: drain_budget_def saturating_sub_def unat_sub_le word_le_nat_alt)
  qed (simp add: drain_budget_def unsigned_minus_1_eq_mask mask_eq_exp_minus_1)
  ultimately show ?thesis by (simp add: v(2))
qed

definition default_config :: store_config where
  "default_config = \<lparr>cfg_segment_max_bytes = 268435456, cfg_fd_budget = 64, cfg_broadcast_capacity = 8192,
     cfg_single_append_max_bytes = 16777216, cfg_batch = \<lparr>bc_max_size = 256, bc_max_bytes = 1048576, bc_group_commit_max_batch = 1\<rparr>,
     cfg_writer = \<lparr>wc_channel_capacity = 4096, wc_pressure_retry_threshold_pct = 75, wc_shutdown_drain_limit = 1024\<rparr>,
     cfg_sync_every_n_events = 1000, cfg_incremental_projection = False, cfg_enable_checkpoint = True, cfg_enable_mmap_index = True\<rparr>"

theorem validated_bounds_witness:
  "\<exists>v. validated default_config = Inr v \<and> pressure_retry v 4096 \<and> vc_group_commit_drain_budget v = 0"
proof -
  obtain v where v: "validated default_config = Inr v" "vc_group_commit_drain_budget v = 0"
    by (simp add: validated_def default_config_def drain_budget_def)
  from validated_bounds [OF v(1)] v show ?thesis by (auto simp: default_config_def)
qed

end
