(* ===== verification/WriterLoop.thy ===== *)
theory WriterLoop
  imports Atomic Config "HOL-Library.Multiset"
begin

text \<open>
  The writer thread (\<^verbatim>\<open>store/write/writer.rs\<close>, \<^verbatim>\<open>writer/runtime.rs\<close> and the command results of
  \<^verbatim>\<open>writer/fence_runtime.rs\<close>): how commands are taken from the channel, executed in one of three
  phases, answered at once or after a sync, and how the thread shuts down and restarts.

  The receiving end of the channel is the list of what the thread will find there: a command, or
  nothing at that moment, which \<^verbatim>\<open>try_recv\<close> reports and a blocking receive waits over. The end of
  the list is the moment when the last sender is gone.
\<close>

section \<open>Commands\<close>

datatype WriterCommand =
    CmdBeginVisibilityFence u64 (cmd_channel: channel)
  | CmdAppend coordinate "bytes event" EventKind append_guards (cmd_channel: channel)
  | CmdFenceAppend u64 coordinate "bytes event" EventKind append_guards (cmd_channel: channel)
  | CmdAppendBatch "batch_item list" (cmd_channel: channel)
  | CmdFenceAppendBatch u64 "batch_item list" (cmd_channel: channel)
  | CmdCommitVisibilityFence u64 (cmd_channel: channel)
  | CmdCancelVisibilityFence u64 (cmd_channel: channel)
  | CmdSync (cmd_channel: channel)
  | is_CmdShutdown: CmdShutdown (cmd_channel: channel)

datatype WriterLoopPhase = Main | GroupCommitDrain | ShutdownDrain

datatype DeferredReply =
    DeferNone
  | DeferSync channel
  | DeferBeginVisibilityFence u64 channel
  | DeferCommitVisibilityFence u64 channel
  | DeferShutdown channel

record command_result =
  cr_sync_event_delta :: u32
  cr_break_after_reply :: bool
  cr_must_sync_before_continue :: bool
  cr_exit_writer :: bool
  cr_deferred_reply :: DeferredReply
  cr_shutdown_drain_respond :: "channel option"
  cr_enter_group_commit_drain :: bool

definition immediate :: "u32 \<Rightarrow> command_result" where
  "immediate delta = \<lparr>cr_sync_event_delta = delta, cr_break_after_reply = False, cr_must_sync_before_continue = False,
     cr_exit_writer = False, cr_deferred_reply = DeferNone, cr_shutdown_drain_respond = None, cr_enter_group_commit_drain = False\<rparr>"

definition break_after_reply :: "command_result \<Rightarrow> command_result" where
  "break_after_reply r = r\<lparr>cr_break_after_reply := True\<rparr>"

definition break_after_reply_if :: "bool \<Rightarrow> command_result \<Rightarrow> command_result" where
  "break_after_reply_if condition r = (if condition then break_after_reply r else r)"

definition with_sync :: "DeferredReply \<Rightarrow> command_result \<Rightarrow> command_result" where
  "with_sync deferred r = r\<lparr>cr_must_sync_before_continue := True, cr_deferred_reply := deferred\<rparr>"

definition exit_writer :: "command_result \<Rightarrow> command_result" where
  "exit_writer r = r\<lparr>cr_exit_writer := True\<rparr>"

definition enter_shutdown_drain :: "channel \<Rightarrow> command_result \<Rightarrow> command_result" where
  "enter_shutdown_drain respond r = r\<lparr>cr_exit_writer := True, cr_shutdown_drain_respond := Some respond\<rparr>"

definition enter_group_commit_drain :: "command_result \<Rightarrow> command_result" where
  "enter_group_commit_drain r = r\<lparr>cr_enter_group_commit_drain := True\<rparr>"

lemmas command_result_defs =
  immediate_def break_after_reply_def break_after_reply_if_def with_sync_def exit_writer_def enter_shutdown_drain_def enter_group_commit_drain_def

section \<open>Execution\<close>

text \<open>Run an operation and send its result.\<close>

definition answer :: "channel \<Rightarrow> ('a \<Rightarrow> reply) \<Rightarrow> ('v, 'a) op \<Rightarrow> 'v writer \<Rightarrow> 'v writer" where
  "answer respond f m w = (case m w of (r, w') \<Rightarrow> send_reply respond (map_sum id f r) w')"

text \<open>A fenced append answers only an error now.\<close>

definition answer_error :: "channel \<Rightarrow> ('v, unit) op \<Rightarrow> 'v writer \<Rightarrow> command_result \<times> 'v writer" where
  "answer_error respond m w =
     (case m w of
        (Inl err, w') \<Rightarrow> (immediate 0, send_reply respond (Inl err) w')
      | (Inr _, w') \<Rightarrow> (immediate 1, w'))"

definition unfenced :: "('v fence_ledger option \<Rightarrow> 'v writer \<Rightarrow> (StoreError, 'a) result \<times> 'v fence_ledger option \<times> 'v writer) \<Rightarrow> ('v, 'a) op" where
  "unfenced handle w = (case handle None w of (r, f, w') \<Rightarrow> (r, w'))"

fun execute_command :: "'v writer_env \<Rightarrow> WriterLoopPhase \<Rightarrow> WriterCommand \<Rightarrow> 'v writer \<Rightarrow> command_result \<times> 'v writer" where
  "execute_command env phase (CmdBeginVisibilityFence token respond) w =
     (if phase = GroupCommitDrain
      then (break_after_reply (with_sync (DeferBeginVisibilityFence token respond) (immediate 0)), w)
      else (immediate 0, answer respond (\<lambda>_. Done) (writer_begin_fence token) w))"
| "execute_command env phase (CmdAppend coord ev kind g respond) w =
     (let w' = answer respond Receipt (unfenced (handle_append env coord ev kind g)) w in
      (if phase = Main then enter_group_commit_drain (immediate 1) else immediate 1, w'))"
| "execute_command env phase (CmdFenceAppend token coord ev kind g respond) w =
     answer_error respond (handle_fence_append_command env token coord ev kind g respond) w"
| "execute_command env phase (CmdAppendBatch items respond) w =
     (immediate 1, answer respond Receipts (unfenced (handle_append_batch env items)) w)"
| "execute_command env phase (CmdFenceAppendBatch token items respond) w =
     answer_error respond (handle_fence_append_batch_command env token items respond) w"
| "execute_command env phase (CmdCommitVisibilityFence token respond) w =
     (if phase = ShutdownDrain then (immediate 0, answer respond (\<lambda>_. Done) (writer_commit_fence token) w)
      else (break_after_reply_if (phase = GroupCommitDrain) (with_sync (DeferCommitVisibilityFence token respond) (immediate 0)), w))"
| "execute_command env phase (CmdCancelVisibilityFence token respond) w =
     (let w' = answer respond (\<lambda>_. Done) (writer_cancel_fence env token) w in
      (if phase = GroupCommitDrain then break_after_reply (immediate 0) else immediate 0, w'))"
| "execute_command env phase (CmdSync respond) w =
     (if phase = ShutdownDrain then (immediate 0, answer respond (\<lambda>_. Done) (sync_active_segment env) w)
      else (break_after_reply_if (phase = GroupCommitDrain) (with_sync (DeferSync respond) (immediate 0)), w))"
| "execute_command env phase (CmdShutdown respond) w =
     (case phase of
        Main \<Rightarrow> (enter_shutdown_drain respond (immediate 0), w)
      | GroupCommitDrain \<Rightarrow> (exit_writer (break_after_reply (with_sync (DeferShutdown respond) (immediate 0))), w)
      | ShutdownDrain \<Rightarrow> (immediate 0, send_reply respond (Inr Done) w))"

text \<open>A deferred reply, sent with the result of the sync that came before.\<close>

definition after_sync :: "(StoreError, unit) result \<Rightarrow> ('v, unit) op \<Rightarrow> ('v, unit) op" where
  "after_sync sync_result m = bind_op (lift_op sync_result) (\<lambda>_. m)"

fun deferred_send :: "DeferredReply \<Rightarrow> (StoreError, unit) result \<Rightarrow> 'v writer \<Rightarrow> 'v writer" where
  "deferred_send DeferNone sync_result w = w"
| "deferred_send (DeferSync respond) sync_result w = answer respond (\<lambda>_. Done) (lift_op sync_result) w"
| "deferred_send (DeferBeginVisibilityFence token respond) sync_result w =
     answer respond (\<lambda>_. Done) (after_sync sync_result (writer_begin_fence token)) w"
| "deferred_send (DeferCommitVisibilityFence token respond) sync_result w =
     answer respond (\<lambda>_. Done) (after_sync sync_result (writer_commit_fence token)) w"
| "deferred_send (DeferShutdown respond) sync_result w = answer respond (\<lambda>_. Done) (lift_op sync_result) w"

section \<open>The loop\<close>

record loop_outcome =
  lo_break_loop :: bool
  lo_exit_writer :: bool
  lo_sync_event_delta :: u32
  lo_enter_group_commit_drain :: bool

definition settle_command_result ::
  "'v writer_env \<Rightarrow> u32 \<Rightarrow> command_result \<Rightarrow> 'v writer \<Rightarrow> loop_outcome \<times> u32 \<times> 'v writer" where
  "settle_command_result env events_since_sync result w =
     (let since = saturating_add events_since_sync (cr_sync_event_delta result);
          outcome = \<lparr>lo_break_loop = cr_break_after_reply result,
            lo_exit_writer = (cr_exit_writer result \<and> cr_shutdown_drain_respond result = None),
            lo_sync_event_delta = cr_sync_event_delta result,
            lo_enter_group_commit_drain = cr_enter_group_commit_drain result\<rparr> in
      if cr_must_sync_before_continue result
      then (case sync_active_segment env w of (sync_result, w1) \<Rightarrow>
              (outcome, 0, deferred_send (cr_deferred_reply result) sync_result w1))
      else (outcome, since, w))"

type_synonym inbox = "WriterCommand option list"

fun try_recv :: "inbox \<Rightarrow> WriterCommand option \<times> inbox" where
  "try_recv [] = (None, [])"
| "try_recv (x # rx) = (x, rx)"

fun recv :: "inbox \<Rightarrow> (WriterCommand \<times> inbox) option" where
  "recv [] = None"
| "recv (None # rx) = recv rx"
| "recv (Some cmd # rx) = Some (cmd, rx)"

text \<open>Execute a command and settle it.\<close>

definition run_command ::
  "'v writer_env \<Rightarrow> WriterLoopPhase \<Rightarrow> u32 \<Rightarrow> WriterCommand \<Rightarrow> 'v writer \<Rightarrow> loop_outcome \<times> u32 \<times> 'v writer" where
  "run_command env phase since cmd w =
     (case execute_command env phase cmd w of (result, w1) \<Rightarrow> settle_command_result env since result w1)"

fun drain_commands :: "'v writer_env \<Rightarrow> nat \<Rightarrow> u32 \<Rightarrow> inbox \<Rightarrow> 'v writer \<Rightarrow> inbox \<times> 'v writer" where
  "drain_commands env 0 since rx w = (rx, w)"
| "drain_commands env (Suc limit) since rx w =
     (case try_recv rx of
        (None, rx') \<Rightarrow> (rx', w)
      | (Some cmd, rx') \<Rightarrow>
          (case run_command env ShutdownDrain since cmd w of (outcome, since', w') \<Rightarrow> drain_commands env limit since' rx' w'))"

definition drain_shutdown_queue ::
  "'v writer_env \<Rightarrow> u64 \<Rightarrow> inbox \<Rightarrow> 'v writer \<Rightarrow> (StoreError, unit) result \<times> inbox \<times> 'v writer" where
  "drain_shutdown_queue env shutdown_drain_limit rx w =
     (case drain_commands env (unat shutdown_drain_limit) 0 rx w of (rx', w1) \<Rightarrow>
        (let w2 = auto_cancel_fence_on_shutdown env w1;
             w3 = snd (write_sidx_footer env w2) in
         case sync_active_segment env w3 of (r, w4) \<Rightarrow> (r, rx', w4)))"

definition group_commit_drain_budget_remaining :: "u32 \<Rightarrow> u32 \<Rightarrow> bool" where
  "group_commit_drain_budget_remaining drained extra_budget \<longleftrightarrow> drained < extra_budget"

datatype DriveStep = Continue | Exit

fun group_commit_drain ::
  "'v writer_env \<Rightarrow> u32 \<Rightarrow> u32 \<Rightarrow> u32 \<Rightarrow> inbox \<Rightarrow> 'v writer \<Rightarrow> DriveStep \<times> u32 \<times> inbox \<times> 'v writer" where
  "group_commit_drain env extra_budget drained since [] w = (Continue, since, [], w)"
| "group_commit_drain env extra_budget drained since (next_cmd # rx) w =
     (if \<not> group_commit_drain_budget_remaining drained extra_budget then (Continue, since, next_cmd # rx, w)
      else case next_cmd of
          None \<Rightarrow> (Continue, since, rx, w)
        | Some cmd \<Rightarrow>
            (case run_command env GroupCommitDrain since cmd w of (outcome, since', w') \<Rightarrow>
               if lo_exit_writer outcome then (Exit, since', rx, w')
               else if lo_break_loop outcome then (Continue, since', rx, w')
               else group_commit_drain env extra_budget (saturating_add drained (lo_sync_event_delta outcome)) since' rx w'))"

record loop_config =
  lc_shutdown_drain_limit :: u64
  lc_group_commit_drain_budget :: u32
  lc_sync_every_n_events :: u32

definition loop_config_of :: "store_config \<Rightarrow> validated_store_config \<Rightarrow> loop_config" where
  "loop_config_of c v = \<lparr>lc_shutdown_drain_limit = vc_shutdown_drain_limit v,
     lc_group_commit_drain_budget = vc_group_commit_drain_budget v, lc_sync_every_n_events = cfg_sync_every_n_events c\<rparr>"

definition periodic_sync :: "'v writer_env \<Rightarrow> loop_config \<Rightarrow> u32 \<Rightarrow> 'v writer \<Rightarrow> u32 \<times> 'v writer" where
  "periodic_sync env cfg since w =
     (if since \<ge> lc_sync_every_n_events cfg then (0, snd (sync_active_segment env w)) else (since, w))"

definition drive_command ::
  "'v writer_env \<Rightarrow> loop_config \<Rightarrow> u32 \<Rightarrow> WriterCommand \<Rightarrow> inbox \<Rightarrow> 'v writer \<Rightarrow> DriveStep \<times> u32 \<times> inbox \<times> 'v writer" where
  "drive_command env cfg since cmd rx w =
     (case execute_command env Main cmd w of (result, w1) \<Rightarrow>
        (case cr_shutdown_drain_respond result of
           Some respond \<Rightarrow>
             (case drain_shutdown_queue env (lc_shutdown_drain_limit cfg) rx w1 of
                (r, rx', w2) \<Rightarrow> (Exit, since, rx', answer respond (\<lambda>_. Done) (lift_op r) w2))
         | None \<Rightarrow>
             (case settle_command_result env since result w1 of (outcome, since1, w2) \<Rightarrow>
                if lo_exit_writer outcome then (Exit, since1, rx, w2)
                else case (if lo_enter_group_commit_drain outcome
                           then group_commit_drain env (lc_group_commit_drain_budget cfg) 0 since1 rx w2
                           else (Continue, since1, rx, w2)) of
                    (Exit, since2, rx', w3) \<Rightarrow> (Exit, since2, rx', w3)
                  | (Continue, since2, rx', w3) \<Rightarrow>
                      (case periodic_sync env cfg since2 w3 of (since3, w4) \<Rightarrow> (Continue, since3, rx', w4)))))"

section \<open>Answers\<close>

text \<open>The channels that were answered and those that wait for the fence.\<close>

fun response_channel :: "pending_fence_response \<Rightarrow> channel" where
  "response_channel (SingleResponse respond r) = respond"
| "response_channel (BatchResponse respond rs) = respond"

definition answered :: "'v writer \<Rightarrow> channel multiset" where
  "answered w = mset (map fst (wr_replies w))"

definition held :: "'v fence_ledger option \<Rightarrow> channel multiset" where
  "held f = (case f of None \<Rightarrow> {#} | Some l \<Rightarrow> mset (map response_channel (fl_responses l)))"

abbreviation waiting :: "'v writer \<Rightarrow> channel multiset" where
  "waiting w \<equiv> held (wr_fence_ledger w)"

definition same_mail :: "'v writer \<Rightarrow> 'v writer \<Rightarrow> bool" where
  "same_mail w w' \<longleftrightarrow> wr_replies w' = wr_replies w \<and> wr_fence_ledger w' = wr_fence_ledger w \<and> wr_ranges_file w' = wr_ranges_file w"

lemma same_log_mail: "same_log w w' \<Longrightarrow> same_mail w w'"
  by (simp add: same_log_def same_mail_def)

interpretation mails: storage_effect same_mail
proof
  show "same_mail w (snd (segment_write env frame w))" for w :: "'v writer" and env frame by (rule same_log_mail [OF segment_write_log])
  show "same_mail w (snd (maybe_rotate_segment env w))" for w :: "'v writer" and env by (rule same_log_mail [OF rotate_log])
qed (auto simp: same_mail_def on_marks_def)

lemma same_mail_channels: "same_mail w w' \<Longrightarrow> answered w' = answered w \<and> waiting w' = waiting w"
  by (simp add: same_mail_def answered_def)

lemma index_mail [simp]: "same_mail w (w\<lparr>wr_index := ix\<rparr>)" "same_mail w (w\<lparr>wr_sidx_collector := c, wr_index := ix\<rparr>)"
  "same_mail w (w\<lparr>wr_sidx_collector := c\<rparr>)"
  by (simp_all add: same_mail_def)

lemma intern_mail: "same_mail w (snd (interned_for_coord coord w))"
  unfolding interned_for_coord_def
  by (intro mails.bind_keeps) (auto simp: intern_op_def Let_def mails.refl split: prod.split)

lemma intern_all_mail: "same_mail w (snd (interned_ids items w))"
  by (induction items arbitrary: w) (auto intro!: mails.bind_keeps intern_mail simp: mails.refl)

lemma commit_append_mail: "same_mail w (snd (commit_append env sev ev has_key r w))"
  unfolding commit_append_def Let_def record_commit_index_artifacts_def
  by (intro mails.bind_ask_keeps mails.bind_keeps intern_mail) (auto simp: Let_def mails.refl split: sum.split)

lemma append_core_mail:
  fixes w :: "'v writer"
  shows "same_mail w (snd (append_core env coord ev kind g w))"
  unfolding append_core_def Let_def
proof (rule mails.bind_keeps)
  show "same_mail w (snd (plan_append env coord (eh_timestamp_us (ev_header ev)) g w))"
    using plan_frame [of env coord "eh_timestamp_us (ev_header ev)" g w] by (auto simp: same_mail_def)
  fix planned :: "receipt + append_plan" and w1 :: "'v writer"
  show "same_mail w1 (snd ((case planned of Inl r \<Rightarrow> lift_op (Inr (Inl r)) | Inr plan \<Rightarrow>
      bind_op (write_append_frame env coord ev kind g plan (append_chain env plan ev)) (\<lambda>r.
        bind_op (commit_append env (staged_append coord ev kind g plan (append_chain env plan ev)) ev (ag_idempotency_key g \<noteq> None) r)
          (\<lambda>artifacts. lift_op (Inr (Inr (r, plan, artifacts)))))) w1))"
    by (cases planned) (auto simp: mails.refl intro!: mails.bind_keeps commit_append_mail same_log_mail [OF write_append_frame_log])
qed

text \<open>Settling a commit answers nobody; under a fence only the ledger that was handed in changes.\<close>

lemma settle_mail:
  assumes "settle_commit first up_to point ns es fence w = (r, f, w')"
  shows "same_mail w w' \<and> held f = held fence \<and> (f = None \<longleftrightarrow> fence = None)"
  using assms
  by (auto simp: settle_commit_def publish_then_broadcast_unfenced_def broadcast_commit_artifacts_def same_mail_def on_marks_def
      record_publish_up_to_def extend_artifacts_def held_def Let_def split: option.splits sum.splits prod.splits)

lemma handle_append_mail:
  assumes "handle_append env coord ev kind g fence w = (r, f, w')"
  shows "same_mail w w' \<and> held f = held fence \<and> (f = None \<longleftrightarrow> fence = None)"
proof (cases "append_core env coord ev kind g w")
  case (Pair res w1)
  then have w1: "same_mail w w1" using append_core_mail [of w env coord ev kind g] by simp
  show ?thesis
  proof (cases "\<exists>x. res = Inr (Inr x)")
    case True
    then obtain q plan art where "res = Inr (Inr (q, plan, art))" by auto
    with assms Pair obtain first up_to point ns es r1 where "settle_commit first up_to point ns es fence w1 = (r1, f, w')"
      by (auto simp: handle_append_def Let_def split: prod.splits sum.splits)
    from settle_mail [OF this] w1 show ?thesis using mails.trans by blast
  next
    case False
    with assms Pair w1 show ?thesis by (auto simp: handle_append_def split: sum.splits)
  qed
qed

lemma record_sidx_mail: "same_mail w (snd (record_batch_sidx as w))"
  by (induction as arbitrary: w) (auto simp: mails.refl intro: mails.trans [OF index_mail(3)] split: sum.split)

lemma precompute_quiet: "quiet w (snd (precompute_batch_items env p first_seq w))"
  unfolding precompute_batch_items_def
  by (intro quiets.bind_ask_keeps quiets.bind_keeps precompute_items_quiet) (simp add: map_err_lift quiets.refl)

lemma batch_core_mail:
  fixes w :: "'v writer"
  shows "same_mail w (snd (batch_core env p w))"
proof -
  have pre: "same_mail u (snd (precompute_batch_items env p first u))" for u :: "'v writer" and first
  proof -
    obtain m t where "snd (precompute_batch_items env p first u) = u\<lparr>wr_watermarks := m, wr_tick := t\<rparr>"
      using precompute_quiet [of u env p first] unfolding quiet_def by blast
    then show ?thesis by (simp add: same_mail_def)
  qed
  have commit: "same_mail u (snd (commit_batch env items computed rs u))" for u :: "'v writer" and items computed rs
    unfolding commit_batch_def materialize_batch_commit_artifacts_def
    by (intro mails.bind_keeps mails.bind_ask_keeps intern_all_mail) (auto simp: Let_def mails.refl record_sidx_mail)
  have tail: "same_mail u (snd (bind_op (precompute_batch_items env p first) (\<lambda>computed. bind_op (write_batch env p computed batch_id) (\<lambda>receipts.
      bind_op (commit_batch env (pb_items p) computed receipts) (\<lambda>artifacts. lift_op (Inr (receipts, first, computed, artifacts))))) u))"
    for u :: "'v writer" and first batch_id
    by (intro mails.bind_keeps pre mails.write_batch_keeps commit) (simp add: mails.refl)
  obtain first ix where "index_reserve_sequences (wr_index w) (of_nat (length (pb_items p))) = (first, ix)" by fastforce
  then show ?thesis using mails.trans [OF index_mail(1) tail] by (simp add: batch_core_def Let_def)
qed

lemma handle_batch_mail:
  assumes "handle_append_batch env items fence w = (r, f, w')"
  shows "same_mail w w' \<and> held f = held fence \<and> (f = None \<longleftrightarrow> fence = None)"
proof -
  have prepared: "same_mail u u' \<and> held f = held fence \<and> (f = None \<longleftrightarrow> fence = None)"
    if run: "handle_prepared_batch env p fence u = (r, f, u')" for p u u'
  proof (cases "batch_core env p u")
    case (Pair res u1)
    then have u1: "same_mail u u1" using batch_core_mail [of u env p] by simp
    show ?thesis
    proof (cases res)
      case (Inr x)
      with run Pair obtain first up_to point ns es r1 where "settle_commit first up_to point ns es fence u1 = (r1, f, u')"
        by (cases x) (auto simp: handle_prepared_batch_def split: prod.splits sum.splits)
      from settle_mail [OF this] u1 show ?thesis using mails.trans by blast
    qed (use run Pair u1 in \<open>simp add: handle_prepared_batch_def\<close>)
  qed
  obtain i where "snd (admit_batch items w) = w\<lparr>wr_index := (wr_index w)\<lparr>ix_idemp := i\<rparr>\<rparr>" using admit_batch_frame by blast
  then obtain q where admit: "admit_batch items w = (q, w\<lparr>wr_index := (wr_index w)\<lparr>ix_idemp := i\<rparr>\<rparr>)" by (metis prod.collapse)
  show ?thesis
    using assms by (auto simp: handle_append_batch_def admit mails.refl split: sum.splits if_splits option.splits
        dest!: prepared intro: mails.trans [OF index_mail(1)])
qed

text \<open>The fence operations: what was waiting is answered, or lost when the operation fails half way.\<close>

lemma send_mail: "answered (send_reply respond r w) = add_mset respond (answered w)" "wr_fence_ledger (send_reply respond r w) = wr_fence_ledger w"
  by (simp_all add: answered_def send_reply_def)

lemma complete_mail:
  "answered (fold complete_ok rs w) = answered w + mset (map response_channel rs)" "wr_fence_ledger (fold complete_ok rs w) = wr_fence_ledger w"
  "answered (fold complete_cancelled rs w) = answered w + mset (map response_channel rs)"
  "wr_fence_ledger (fold complete_cancelled rs w) = wr_fence_ledger w"
proof -
  have ok: "complete_ok x w = send_reply (response_channel x) (case x of SingleResponse c r \<Rightarrow> Inr (Receipt r) | BatchResponse c rs \<Rightarrow> Inr (Receipts rs)) w"
    "complete_cancelled x w = send_reply (response_channel x) (Inl VisibilityFenceCancelled) w" for x and w :: "'v writer"
    by (cases x; simp)+
  show "answered (fold complete_ok rs w) = answered w + mset (map response_channel rs)" "wr_fence_ledger (fold complete_ok rs w) = wr_fence_ledger w"
    "answered (fold complete_cancelled rs w) = answered w + mset (map response_channel rs)"
    "wr_fence_ledger (fold complete_cancelled rs w) = wr_fence_ledger w"
    by (induction rs arbitrary: w) (simp_all add: ok send_mail)
qed

lemma begin_mail: "answered (snd (writer_begin_fence token w)) = answered w \<and> waiting (snd (writer_begin_fence token w)) = waiting w"
  by (auto simp: writer_begin_fence_def answered_def held_def fence_ledger_new_def)

text \<open>
  What commands did to the channels: each of them was answered once, or waits for the fence, or
  was lost, and only what waited for a fence before or was sent under one can be lost.
\<close>

fun fenced :: "WriterCommand \<Rightarrow> bool" where
  "fenced (CmdFenceAppend token coord ev kind g respond) = True"
| "fenced (CmdFenceAppendBatch token items respond) = True"
| "fenced cmd = False"

definition accounts :: "WriterCommand list \<Rightarrow> 'v writer \<Rightarrow> 'v writer \<Rightarrow> bool" where
  "accounts cs w w' \<longleftrightarrow> (\<exists>lost. answered w' + waiting w' + lost = answered w + waiting w + mset (map cmd_channel cs) \<and>
     waiting w' + lost \<subseteq># waiting w + mset (map cmd_channel (filter fenced cs)))"

lemma accounts_trans:
  assumes "accounts cs w w1" and "accounts ds w1 w2"
  shows "accounts (cs @ ds) w w2"
proof -
  from assms obtain l1 l2 where l1: "answered w1 + waiting w1 + l1 = answered w + waiting w + mset (map cmd_channel cs)"
      "waiting w1 + l1 \<subseteq># waiting w + mset (map cmd_channel (filter fenced cs))"
    and l2: "answered w2 + waiting w2 + l2 = answered w1 + waiting w1 + mset (map cmd_channel ds)"
      "waiting w2 + l2 \<subseteq># waiting w1 + mset (map cmd_channel (filter fenced ds))"
    by (auto simp: accounts_def)
  have "answered w2 + waiting w2 + (l1 + l2) = (answered w1 + waiting w1 + l1) + mset (map cmd_channel ds)"
    using l2(1) by (simp add: ac_simps)
  then have "answered w2 + waiting w2 + (l1 + l2) = answered w + waiting w + mset (map cmd_channel (cs @ ds))"
    unfolding l1(1) by (simp add: ac_simps)
  moreover have "waiting w2 + l2 + l1 \<subseteq># waiting w1 + l1 + mset (map cmd_channel (filter fenced ds))"
    using subset_mset.add_right_mono [OF l2(2), of l1] by (simp add: ac_simps)
  then have "waiting w2 + (l1 + l2) \<subseteq># waiting w + mset (map cmd_channel (filter fenced (cs @ ds)))"
    using subset_mset.order_trans [OF _ subset_mset.add_right_mono [OF l1(2), of "mset (map cmd_channel (filter fenced ds))"]]
    by (simp add: ac_simps)
  ultimately show ?thesis unfolding accounts_def by blast
qed

lemma accounts_none: "answered w' = answered w \<Longrightarrow> waiting w' = waiting w \<Longrightarrow> accounts [] w w'"
  by (auto simp: accounts_def)

lemma accounts_mail: "same_mail w w' \<Longrightarrow> accounts [] w w'"
  using same_mail_channels accounts_none by blast

lemma accounts_lost:
  assumes "answered w' + waiting w' + lost = answered w + waiting w" and "waiting w' + lost \<subseteq># waiting w"
  shows "accounts [] w w'"
  using assms by (auto simp: accounts_def)

lemma send_accounts:
  assumes "answered w1 = answered w" and "waiting w1 = waiting w"
  shows "accounts [cmd] w (send_reply (cmd_channel cmd) r w1)"
  unfolding accounts_def by (intro exI [of _ "{#}"]) (simp add: assms send_mail)

lemma answer_accounts:
  assumes "accounts [] w (snd (m w))"
  shows "accounts [cmd] w (answer (cmd_channel cmd) f m w)"
proof -
  obtain r w1 where m: "m w = (r, w1)" by fastforce
  from assms m obtain lost where "answered w1 + waiting w1 + lost = answered w + waiting w" "waiting w1 + lost \<subseteq># waiting w"
    by (auto simp: accounts_def)
  then show ?thesis
    unfolding accounts_def answer_def m
    by (intro exI [of _ lost]) (auto simp: send_mail ac_simps intro: subset_mset.order_trans)
qed

text \<open>Each command in turn.\<close>

lemma finish_mail: "same_mail w (snd (fence_finish_then_broadcast token up_to point ns es w))"
  by (auto simp: fence_finish_then_broadcast_def broadcast_commit_artifacts_def same_mail_def on_marks_def Let_def split: sum.split option.split)

lemma persist_replies:
  "wr_replies (snd (persist_cancelled_visibility_ranges env w)) = wr_replies w"
  "wr_fence_ledger (snd (persist_cancelled_visibility_ranges env w)) = wr_fence_ledger w"
  by (simp_all add: persist_cancelled_visibility_ranges_def split: sum.split)

lemma taken_ledger:
  assumes "wr_fence_ledger w = Some fence" and "wr_replies w1 = wr_replies w" and "wr_fence_ledger w1 = None"
  shows "accounts [] w w1" and "accounts [] w (fold complete_ok (fl_responses fence) w1)"
    and "accounts [] w (fold complete_cancelled (fl_responses fence) w1)"
proof -
  have same: "answered w1 = answered w" "waiting w1 = {#}" "waiting w = mset (map response_channel (fl_responses fence))"
    using assms by (simp_all add: answered_def held_def)
  show "accounts [] w w1" by (rule accounts_lost [of _ "waiting w"]) (simp_all add: same)
  show "accounts [] w (fold complete_ok (fl_responses fence) w1)" "accounts [] w (fold complete_cancelled (fl_responses fence) w1)"
    by (rule accounts_lost [of _ "{#}"]; simp add: same complete_mail)+
qed

lemma commit_fence_accounts: "accounts [] w (snd (writer_commit_fence token w))"
proof (cases "wr_fence_ledger w")
  case (Some fence)
  let ?w = "w\<lparr>wr_fence_ledger := None\<rparr>"
  obtain r w1 where fin: "fence_finish_then_broadcast token (fl_publish_up_to fence) (fl_frontier_point fence) (fl_notifications fence)
      (fl_envelopes fence) ?w = (r, w1)" by fastforce
  then have "same_mail ?w w1" using finish_mail [of ?w token] by (metis snd_conv)
  then have "wr_replies w1 = wr_replies w" "wr_fence_ledger w1 = None" by (simp_all add: same_mail_def)
  from taken_ledger [OF Some this] fin Some show ?thesis
    by (cases r) (auto simp: writer_commit_fence_def bind_op_def intro: accounts_none)
qed (simp add: writer_commit_fence_def accounts_none)

lemma cancel_fence_accounts: "accounts [] w (snd (writer_cancel_fence env token w))"
proof (cases "wr_fence_ledger w")
  case (Some fence)
  let ?w = "w\<lparr>wr_fence_ledger := None\<rparr>"
  show ?thesis
  proof (cases "fl_token fence = token")
    case True
    show ?thesis
    proof (cases "cancel_visibility_fence (wr_index ?w) token")
      case (Inl err)
      with True Some taken_ledger(1) [OF Some, of ?w] show ?thesis by (simp add: writer_cancel_fence_def Let_def)
    next
      case (Inr ix)
      obtain r w1 where p: "persist_cancelled_visibility_ranges env (?w\<lparr>wr_index := ix\<rparr>) = (r, w1)" by fastforce
      then have "wr_replies w1 = wr_replies w" "wr_fence_ledger w1 = None" using persist_replies [of env "?w\<lparr>wr_index := ix\<rparr>"] by simp_all
      from taken_ledger [OF Some this] p True Some Inr show ?thesis
        by (cases r) (simp_all add: writer_cancel_fence_def Let_def bind_op_def)
    qed
  qed (simp add: Some writer_cancel_fence_def accounts_none)
qed (simp add: writer_cancel_fence_def accounts_none)

lemma auto_cancel_accounts:
  "accounts [] w (auto_cancel_fence_on_shutdown env w)" "wr_fence_ledger (auto_cancel_fence_on_shutdown env w) = None"
proof -
  have "accounts [] w (auto_cancel_fence_on_shutdown env w) \<and> wr_fence_ledger (auto_cancel_fence_on_shutdown env w) = None"
  proof (cases "wr_fence_ledger w")
    case (Some fence)
    then show ?thesis
      by (auto simp: auto_cancel_fence_on_shutdown_def Let_def complete_mail persist_replies intro!: taken_ledger(3) split: sum.split)
  qed (simp add: auto_cancel_fence_on_shutdown_def accounts_none)
  then show "accounts [] w (auto_cancel_fence_on_shutdown env w)" "wr_fence_ledger (auto_cancel_fence_on_shutdown env w) = None" by simp_all
qed

text \<open>A fenced append is answered when it fails and waits in the ledger when it succeeds.\<close>

lemma fenced_accounts:
  assumes handle: "\<And>fence w r f w'. handle (Some fence) w = (r, f, w') \<Longrightarrow> same_mail w w' \<and> held f = held (Some fence) \<and> f \<noteq> None"
    and pend: "\<And>r. response_channel (pend r) = cmd_channel cmd" and cmd: "fenced cmd"
    and m: "m = with_matching_fence_ledger token (\<lambda>fence w. case handle (Some fence) w of
       (Inl err, f', w') \<Rightarrow> (Inl err, the f', w') | (Inr r, f', w') \<Rightarrow> (Inr (), push_response (pend r) (the f'), w'))"
  shows "accounts [cmd] w (snd (answer_error (cmd_channel cmd) m w))"
proof -
  show ?thesis
  proof (cases "\<exists>fence. wr_fence_ledger w = Some fence \<and> fl_token fence = token")
    case False
    then have "m w = (Inl VisibilityFenceNotActive, w)" by (auto simp: m with_matching_fence_ledger_def split: option.split)
    then show ?thesis by (simp add: answer_error_def send_accounts)
  next
    case True
    then obtain fence where fence: "wr_fence_ledger w = Some fence" "fl_token fence = token" by blast
    let ?w = "w\<lparr>wr_fence_ledger := None\<rparr>"
    obtain r f w1 where run: "handle (Some fence) ?w = (r, f, w1)" by (cases "handle (Some fence) ?w") auto
    from handle [OF run] obtain l where l: "f = Some l" "held (Some l) = held (Some fence)" "wr_replies w1 = wr_replies w" by (auto simp: same_mail_def)
    show ?thesis
    proof (cases r)
      case (Inl err)
      then have "m w = (Inl err, w1\<lparr>wr_fence_ledger := Some l\<rparr>)" using fence run l(1) by (simp add: m with_matching_fence_ledger_def)
      then show ?thesis using l fence by (simp add: answer_error_def send_accounts answered_def)
    next
      case (Inr q)
      then have "m w = (Inr (), w1\<lparr>wr_fence_ledger := Some (push_response (pend q) l)\<rparr>)"
        using fence run l(1) by (simp add: m with_matching_fence_ledger_def)
      then show ?thesis
        using l(2,3) fence(1) pend [of q] cmd by (auto simp: answer_error_def accounts_def answered_def held_def push_response_def)
    qed
  qed
qed

lemma handle_accounts:
  assumes "\<And>r f w'. handle None w = (r, f, w') \<Longrightarrow> same_mail w w'"
  shows "accounts [] w (snd (unfenced handle w))"
  using assms by (cases "handle None w") (auto simp: unfenced_def intro: accounts_mail)

lemma sync_log: "same_log w (snd (sync_active_segment env w))"
  unfolding sync_active_segment_def by (rule logs.bind_keeps) (auto simp: logs.sync_keeps logs.marks)

lemma sync_durable: "covers_sequence (durable_hlc (advance_durable_to_accepted m)) (accepted_hlc (advance_durable_to_accepted m))"
  by (auto simp: advance_durable_to_accepted_def advance_durable_def advance_lane_durability_to_physical_def max_by_sequence_def
      covers_sequence_def Let_def max_def)

lemma after_sync_accounts: "accounts [] w (snd (m w)) \<Longrightarrow> accounts [] w (snd (after_sync r m w))"
  by (cases r) (auto simp: after_sync_def accounts_none)

text \<open>A command answers at once, or leaves the answer to its deferred reply.\<close>

lemma execute_accounts:
  fixes w :: "'v writer"
  assumes ex: "execute_command env phase cmd w = (result, w1)" and main: "phase = Main \<Longrightarrow> \<not> is_CmdShutdown cmd"
  shows "if cr_must_sync_before_continue result
    then w1 = w \<and> (\<forall>r (u :: 'v writer). accounts [cmd] u (deferred_send (cr_deferred_reply result) r u)) else accounts [cmd] w w1"
proof -
  note ops = answer_accounts [where cmd = cmd] commit_fence_accounts cancel_fence_accounts accounts_none after_sync_accounts
    accounts_mail [OF same_log_mail [OF sync_log]] begin_mail [THEN conjunct1] begin_mail [THEN conjunct2]
  show ?thesis
  proof (cases "fenced cmd")
    case True
    then have fences: "accounts [cmd] w (snd (answer_error (cmd_channel cmd) (handle_fence_append_command env token coord ev kind g (cmd_channel cmd)) w))"
      "accounts [cmd] w (snd (answer_error (cmd_channel cmd) (handle_fence_append_batch_command env token items (cmd_channel cmd)) w))"
      for token coord ev kind g items
      using fenced_accounts [of "handle_append env coord ev kind g" "SingleResponse (cmd_channel cmd)" cmd _ token w]
        fenced_accounts [of "handle_append_batch env items" "BatchResponse (cmd_channel cmd)" cmd _ token w] handle_append_mail handle_batch_mail
      by (fastforce simp: handle_fence_append_command_def handle_fence_append_batch_command_def)+
    have "execute_command env phase cmd w = (result, w1) \<Longrightarrow> \<not> cr_must_sync_before_continue result"
      using True by (cases cmd) (auto simp: answer_error_def command_result_defs split: prod.splits sum.splits)
    with True fences show ?thesis using ex by (cases cmd) (fastforce dest: arg_cong [where f = snd])+
  next
    case False
    have appends: "accounts [cmd] w (answer (cmd_channel cmd) Receipt (unfenced (handle_append env coord ev kind g)) w)"
      "accounts [cmd] w (answer (cmd_channel cmd) Receipts (unfenced (handle_append_batch env items)) w)" for coord ev kind g items
      by (intro answer_accounts handle_accounts, use handle_append_mail handle_batch_mail in blast)+
    have syncs: "accounts [cmd] u (answer (cmd_channel cmd) f (lift_op r) u)"
      "accounts [cmd] u (answer (cmd_channel cmd) f (sync_active_segment env) u)"
      "accounts [cmd] u (send_reply (cmd_channel cmd) (Inr Done) u)" for u :: "'v writer" and f r
      by (simp_all add: answer_def [of _ _ "lift_op r"] send_accounts, intro ops)
    have fence_ops: "accounts [cmd] u (answer (cmd_channel cmd) f (writer_begin_fence token) u)"
      "accounts [cmd] u (answer (cmd_channel cmd) f (writer_commit_fence token) u)"
      "accounts [cmd] u (answer (cmd_channel cmd) f (writer_cancel_fence env token) u)"
      "accounts [cmd] u (answer (cmd_channel cmd) f (after_sync r (writer_begin_fence token)) u)"
      "accounts [cmd] u (answer (cmd_channel cmd) f (after_sync r (writer_commit_fence token)) u)" for u :: "'v writer" and f token r
      by (intro ops)+
    show ?thesis
      using ex main False appends syncs fence_ops
      by (cases cmd; cases phase) (auto simp: command_result_defs Let_def)
  qed
qed

lemma run_accounts:
  fixes w :: "'v writer"
  assumes run: "run_command env phase since cmd w = (outcome, since', w')" and main: "phase = Main \<Longrightarrow> \<not> is_CmdShutdown cmd"
  shows "accounts [cmd] w w'"
proof -
  obtain result w1 where ex: "execute_command env phase cmd w = (result, w1)" by fastforce
  note exec = execute_accounts [OF ex main]
  show ?thesis
  proof (cases "cr_must_sync_before_continue result")
    case True
    obtain q w2 where sync: "sync_active_segment env w1 = (q, w2)" by fastforce
    then have "accounts [] w1 w2" using accounts_mail [OF same_log_mail [OF sync_log [of w1 env]]] by simp
    moreover have "w' = deferred_send (cr_deferred_reply result) q w2"
      using run ex True sync by (simp add: run_command_def settle_command_result_def Let_def)
    ultimately show ?thesis using accounts_trans [of "[]" w w2 "[cmd]" w'] exec True by simp
  qed (use run ex exec in \<open>auto simp: run_command_def settle_command_result_def Let_def\<close>)
qed

text \<open>The commands among what was found on the channel, and what a drain does with them.\<close>

definition sent :: "inbox \<Rightarrow> WriterCommand list" where
  "sent rx = concat (map opt_list rx)"

lemma sent_simps [simp]: "sent [] = []" "sent (None # rx) = sent rx" "sent (Some cmd # rx) = cmd # sent rx" "sent (rx @ ry) = sent rx @ sent ry"
  by (simp_all add: sent_def opt_list_def)

lemma accounts_Cons: "accounts [cmd] w w1 \<Longrightarrow> accounts cs w1 w2 \<Longrightarrow> accounts (cmd # cs) w w2"
  using accounts_trans [of "[cmd]"] by simp

lemma accounts_perm: "accounts cs w w' \<Longrightarrow> mset ds = mset cs \<Longrightarrow> accounts ds w w'"
  by (simp add: accounts_def mset_map mset_filter)

lemma accounts_idle:
  assumes "rx = rx' \<or> rx = None # rx'"
  shows "\<exists>taken. rx = taken @ rx' \<and> accounts (sent taken) w w"
  using assms
proof
  assume "rx = None # rx'"
  then show ?thesis by (intro exI [of _ "[None]"]) (simp add: accounts_none)
qed (simp add: accounts_none)

lemma drain_accounts:
  "drain_commands env limit since rx w = (rx', w') \<Longrightarrow> \<exists>taken. rx = taken @ rx' \<and> accounts (sent taken) w w'"
proof (induction env limit since rx w rule: drain_commands.induct)
  case (2 env limit since rx w)
  show ?case
  proof (cases "\<exists>cmd rest. rx = Some cmd # rest")
    case True
    then obtain cmd rest where rx: "rx = Some cmd # rest" by blast
    obtain outcome since1 w1 where run: "run_command env ShutdownDrain since cmd w = (outcome, since1, w1)"
      by (cases "run_command env ShutdownDrain since cmd w") auto
    have "\<exists>taken. rest = taken @ rx' \<and> accounts (sent taken) w1 w'" by (rule 2(1)) (use 2(2) rx run in auto)
    then obtain taken where "rest = taken @ rx'" "accounts (sent taken) w1 w'" by blast
    with rx accounts_Cons [OF run_accounts [OF run]] show ?thesis by (intro exI [of _ "Some cmd # taken"]) simp
  next
    case False
    then have "w' = w" "rx = rx' \<or> rx = None # rx'" using 2(2) by (cases rx; auto split: option.splits)+
    then show ?thesis using accounts_idle by blast
  qed
qed (auto intro: accounts_none)

lemma drain_empty [simp]: "drain_commands env limit since [] w = ([], w)"
  by (cases limit) simp_all

lemma group_commit_accounts:
  "group_commit_drain env budget drained since rx w = (s, since', rx', w') \<Longrightarrow> \<exists>taken. rx = taken @ rx' \<and> accounts (sent taken) w w'"
proof (induction env budget drained since rx w rule: group_commit_drain.induct)
  case (2 env budget drained since x rx w)
  show ?case
  proof (cases "group_commit_drain_budget_remaining drained budget \<and> x \<noteq> None")
    case True
    then obtain cmd where cmd: "x = Some cmd" by auto
    obtain outcome since1 w1 where run: "run_command env GroupCommitDrain since cmd w = (outcome, since1, w1)"
      by (cases "run_command env GroupCommitDrain since cmd w") auto
    note one = run_accounts [OF run]
    show ?thesis
    proof (cases "lo_exit_writer outcome \<or> lo_break_loop outcome")
      case stop: True
      then have "w' = w1" "rx' = rx" using 2(2) True cmd run by (auto split: if_splits)
      then show ?thesis using one cmd by (intro exI [of _ "[x]"]) simp
    next
      case False
      have "\<exists>taken. rx = taken @ rx' \<and> accounts (sent taken) w1 w'"
        by (rule 2(1) [OF _ cmd run [symmetric]]) (use 2(2) True False cmd run in auto)
      then obtain taken where "rx = taken @ rx'" "accounts (sent taken) w1 w'" by blast
      with cmd accounts_Cons [OF one] show ?thesis by (intro exI [of _ "x # taken"]) simp
    qed
  next
    case False
    then have "w' = w" "x # rx = rx' \<or> x # rx = None # rx'" using 2(2) by (auto split: if_splits)
    then show ?thesis using accounts_idle by blast
  qed
qed (auto intro: accounts_none)

lemma shutdown_accounts:
  assumes "drain_shutdown_queue env limit rx w = (r, rx', w')"
  shows "\<exists>taken. rx = taken @ rx' \<and> accounts (sent taken) w w'" and "wr_fence_ledger w' = None"
proof -
  obtain w1 where drain: "drain_commands env (unat limit) 0 rx w = (rx', w1)"
    and w': "w' = snd (sync_active_segment env (snd (write_sidx_footer env (auto_cancel_fence_on_shutdown env w1))))"
    using assms by (auto simp: drain_shutdown_queue_def Let_def split: prod.splits)
  have mail: "same_mail (auto_cancel_fence_on_shutdown env w1) w'"
    unfolding w' by (rule mails.trans [OF same_log_mail [OF footer_log] same_log_mail [OF sync_log]])
  then have "accounts [] w1 w'" using accounts_trans [OF auto_cancel_accounts(1) accounts_mail] by fastforce
  with drain_accounts [OF drain] show "\<exists>taken. rx = taken @ rx' \<and> accounts (sent taken) w w'"
    using accounts_trans [of _ w w1 "[]" w'] by auto
  show "wr_fence_ledger w' = None" using mail auto_cancel_accounts(2) by (simp add: same_mail_def)
qed

lemma periodic_accounts: "accounts [] w (snd (periodic_sync env cfg since w))"
  by (auto simp: periodic_sync_def accounts_none intro: accounts_mail [OF same_log_mail [OF sync_log]])

lemma drive_accounts:
  fixes w :: "'v writer"
  assumes drive: "drive_command env cfg since cmd rx w = (s, since', rx', w')"
  shows "\<exists>taken. rx = taken @ rx' \<and> accounts (cmd # sent taken) w w'"
proof (cases "is_CmdShutdown cmd")
  case True
  then obtain respond where cmd: "cmd = CmdShutdown respond" by (cases cmd) auto
  obtain r rx1 w1 where sd: "drain_shutdown_queue env (lc_shutdown_drain_limit cfg) rx w = (r, rx1, w1)"
    by (cases "drain_shutdown_queue env (lc_shutdown_drain_limit cfg) rx w") auto
  then have end_state: "rx' = rx1" "w' = answer respond (\<lambda>_. Done) (lift_op r) w1"
    using drive cmd by (auto simp: drive_command_def command_result_defs)
  have "accounts [cmd] w1 w'" unfolding end_state(2) using answer_accounts [of w1 "lift_op r" cmd] cmd by (simp add: accounts_none)
  with shutdown_accounts(1) [OF sd] end_state(1) obtain taken where "rx = taken @ rx'" "accounts (sent taken @ [cmd]) w w'"
    using accounts_trans by blast
  then show ?thesis using accounts_perm [of "sent taken @ [cmd]" w w' "cmd # sent taken"] by auto
next
  case False
  obtain outcome since1 w1 where run: "run_command env Main since cmd w = (outcome, since1, w1)"
    by (cases "run_command env Main since cmd w") auto
  have "cr_shutdown_drain_respond (fst (execute_command env Main cmd w)) = None"
    using False by (cases cmd) (auto simp: command_result_defs answer_error_def Let_def split: prod.split sum.split)
  then have next_step: "(if lo_exit_writer outcome then (Exit, since1, rx, w1)
      else case (if lo_enter_group_commit_drain outcome then group_commit_drain env (lc_group_commit_drain_budget cfg) 0 since1 rx w1
                 else (Continue, since1, rx, w1)) of
          (Exit, since2, rx', w3) \<Rightarrow> (Exit, since2, rx', w3)
        | (Continue, since2, rx', w3) \<Rightarrow> (case periodic_sync env cfg since2 w3 of (since3, w4) \<Rightarrow> (Continue, since3, rx', w4))) =
      (s, since', rx', w')"
    using drive run by (cases "execute_command env Main cmd w") (simp add: drive_command_def run_command_def)
  note one = accounts_Cons [OF run_accounts [OF run False]]
  obtain s2 since2 rx2 w2 where drained: "(if lo_enter_group_commit_drain outcome \<and> \<not> lo_exit_writer outcome
      then group_commit_drain env (lc_group_commit_drain_budget cfg) 0 since1 rx w1 else (Continue, since1, rx, w1)) = (s2, since2, rx2, w2)"
    by (metis prod_cases4)
  then obtain taken where taken: "rx = taken @ rx2" "accounts (sent taken) w1 w2"
    using group_commit_accounts accounts_idle by (metis Pair_inject)
  have "rx' = rx2 \<and> (w' = w2 \<or> w' = snd (periodic_sync env cfg since2 w2))"
    using next_step drained by (auto split: if_splits DriveStep.splits prod.splits)
  then have "accounts [] w2 w'" "rx' = rx2" using periodic_accounts [of w2 env cfg since2] accounts_none [OF refl refl, of w2] by auto
  with taken one accounts_trans [of "sent taken" w1 w2 "[]" w'] show ?thesis by auto
qed

section \<open>The thread\<close>

lemma recv_takes: "recv rx = Some (cmd, rx') \<Longrightarrow> \<exists>n. rx = replicate n None @ Some cmd # rx'"
proof (induction rx rule: recv.induct)
  case (2 rx)
  then obtain n where "rx = replicate n None @ Some cmd # rx'" by auto
  then show ?case by (intro exI [of _ "Suc n"]) simp
qed (auto intro: exI [of _ 0])

lemma drive_shortens:
  "recv rx = Some (cmd, rx1) \<Longrightarrow> drive_command env cfg since cmd rx1 w = (s, since', rx2, w') \<Longrightarrow> length rx2 < length rx"
  by (fastforce dest: recv_takes drive_accounts)

function writer_loop :: "'v writer_env \<Rightarrow> loop_config \<Rightarrow> u32 \<Rightarrow> inbox \<Rightarrow> 'v writer \<Rightarrow> inbox \<times> 'v writer" where
  "writer_loop env cfg since rx w =
     (case recv rx of
        None \<Rightarrow> ([], w)
      | Some (cmd, rx1) \<Rightarrow>
          (case drive_command env cfg since cmd rx1 w of
             (Exit, since', rx2, w') \<Rightarrow> (rx2, w')
           | (Continue, since', rx2, w') \<Rightarrow> writer_loop env cfg since' rx2 w'))"
  by pat_completeness auto

termination
  by (relation "measure (\<lambda>(env, cfg, since, rx, w). length rx)") (auto dest: drive_shortens [OF _ sym])

declare writer_loop.simps [simp del]

lemma loop_accounts: "writer_loop env cfg since rx w = (rx', w') \<Longrightarrow> \<exists>taken. rx = taken @ rx' \<and> accounts (sent taken) w w'"
proof (induction env cfg since rx w rule: writer_loop.induct)
  case (1 env cfg since rx w)
  show ?case
  proof (cases "recv rx")
    case None
    then have "sent rx = []" by (induction rx rule: recv.induct) auto
    then show ?thesis using 1(2) None by (simp add: writer_loop.simps [of env cfg since rx w] accounts_none)
  next
    case (Some x)
    then obtain cmd rx1 where recv: "recv rx = Some (cmd, rx1)" by (cases x) auto
    obtain s since1 rx2 w1 where drive: "drive_command env cfg since cmd rx1 w = (s, since1, rx2, w1)"
      by (metis prod_cases4)
    obtain n where n: "rx = replicate n None @ Some cmd # rx1" using recv_takes [OF recv] by blast
    have nones: "sent (replicate n None) = []" by (induction n) auto
    obtain taken where taken: "rx1 = taken @ rx2" "accounts (cmd # sent taken) w w1" using drive_accounts [OF drive] by blast
    have "\<exists>more. rx2 = more @ rx' \<and> accounts (sent more) w1 w'"
    proof (cases s)
      case Continue
      then show ?thesis by (intro 1(1) [OF recv refl drive [symmetric]]) (use 1(2) recv drive Continue in \<open>auto simp: writer_loop.simps [of env cfg since rx w]\<close>)
    next
      case Exit
      then show ?thesis using 1(2) recv drive by (auto simp: writer_loop.simps [of env cfg since rx w] accounts_none)
    qed
    then obtain more where "rx2 = more @ rx'" "accounts (sent more) w1 w'" by blast
    with accounts_trans [OF taken(2) this(2)] n taken(1) nones show ?thesis
      by (intro exI [of _ "replicate n None @ Some cmd # taken @ more"]) simp
  qed
qed

lemma disk_replies [simp]: "disk (w\<lparr>wr_replies := rs\<rparr>) = disk w"
  by (simp add: disk_def fun_eq_iff)

lemma accounts_counts:
  assumes "accounts cs w w'" and "wr_fence_ledger w = None" and dist: "distinct (map cmd_channel (cs @ ds))"
    and old: "\<forall>cmd \<in> set (cs @ ds). cmd_channel cmd \<notin> fst ` set (wr_replies w)" and cmd: "cmd \<in> set (cs @ ds)"
  shows "count_list (map fst (wr_replies w')) (cmd_channel cmd) \<le> (if cmd \<in> set cs then 1 else 0)"
    and "cmd \<in> set cs \<Longrightarrow> \<not> fenced cmd \<Longrightarrow> count_list (map fst (wr_replies w')) (cmd_channel cmd) = 1"
proof -
  let ?c = "cmd_channel cmd"
  obtain lost where all: "answered w' + (waiting w' + lost) = answered w + mset (map cmd_channel cs)"
    and fences: "waiting w' + lost \<subseteq># mset (map cmd_channel (filter fenced cs))"
    using assms(1,2) by (auto simp: accounts_def held_def ac_simps)
  have inj: "inj_on cmd_channel (set (cs @ ds))" using dist unfolding distinct_map by blast
  have "distinct (map cmd_channel cs)" using dist by simp
  then have once: "count (mset (map cmd_channel cs)) ?c = (if cmd \<in> set cs then 1 else 0)"
    using inj_on_image_mem_iff [OF inj cmd, of "set cs"] by (simp add: distinct_count_atmost_1 del: mset_map)
  have "count (answered w) ?c = 0" using old cmd by (auto simp: answered_def count_eq_zero_iff)
  then have total: "count (answered w') ?c + count (waiting w' + lost) ?c = (if cmd \<in> set cs then 1 else 0)"
    using arg_cong [OF all, of "\<lambda>m. count m ?c"] once by simp
  have replies: "count_list (map fst (wr_replies w')) ?c = count (answered w') ?c"
    unfolding answered_def by (simp add: count_mset count_list_eq_length_filter eq_commute del: mset_map)
  show "count_list (map fst (wr_replies w')) ?c \<le> (if cmd \<in> set cs then 1 else 0)" using total unfolding replies by linarith
  assume taken: "cmd \<in> set cs" "\<not> fenced cmd"
  have "?c \<notin> cmd_channel ` set (filter fenced cs)"
    using inj_on_image_mem_iff [OF inj cmd, of "set (filter fenced cs)"] taken by fastforce
  then have "count (mset (map cmd_channel (filter fenced cs))) ?c = 0" by (simp add: count_eq_zero_iff)
  then have "count (waiting w' + lost) ?c = 0" using mset_subset_eq_count [OF fences, of ?c] by (metis le_zero_eq)
  then show "count_list (map fst (wr_replies w')) ?c = 1" using total taken(1) unfolding replies by simp
qed

text \<open>
  C9. Every command is answered exactly once. Whatever the thread finds on its channel, each command
  it takes gets exactly one answer on its channel and no other command gets any; only an append sent
  under a fence may be left without one, never with two.
\<close>

theorem commands_answered:
  assumes "writer_loop env cfg since rx w = (rx', w')" and "wr_fence_ledger w = None"
    and "distinct (map cmd_channel (sent rx))" and "\<forall>cmd \<in> set (sent rx). cmd_channel cmd \<notin> fst ` set (wr_replies w)"
  shows "\<exists>taken. rx = taken @ rx' \<and>
    (\<forall>cmd \<in> set (sent taken). count_list (map fst (wr_replies w')) (cmd_channel cmd) \<le> 1 \<and>
      (\<not> fenced cmd \<longrightarrow> count_list (map fst (wr_replies w')) (cmd_channel cmd) = 1)) \<and>
    (\<forall>cmd \<in> set (sent rx'). count_list (map fst (wr_replies w')) (cmd_channel cmd) = 0)"
proof -
  obtain taken where rx: "rx = taken @ rx'" and acc: "accounts (sent taken) w w'" using loop_accounts [OF assms(1)] by blast
  have "cmd \<notin> set (sent taken)" if "cmd \<in> set (sent rx')" for cmd using that assms(3) by (auto simp: rx distinct_map)
  with rx accounts_counts [OF acc assms(2), of "sent rx'"] assms(3,4) show ?thesis
    by (intro exI [of _ taken]) (fastforce simp: rx)
qed

text \<open>A sync and a shutdown, with nothing to read in between.\<close>

definition quiet_config :: loop_config where
  "quiet_config = \<lparr>lc_shutdown_drain_limit = 8, lc_group_commit_drain_budget = 3, lc_sync_every_n_events = 2\<rparr>"

theorem commands_answered_witness:
  "\<exists>w'. writer_loop (first_env (\<lambda>_. None)) quiet_config 0 [Some (CmdSync 4), None] first_writer = ([], w') \<and>
    count_list (map fst (wr_replies w')) 4 = 1"
proof -
  obtain rx' w' where run: "writer_loop (first_env (\<lambda>_. None)) quiet_config 0 [Some (CmdSync 4), None] first_writer = (rx', w')" by fastforce
  obtain q w1 where sync: "sync_active_segment (first_env (\<lambda>_. None)) first_writer = (q, w1)" by fastforce
  have "drive_command (first_env (\<lambda>_. None)) quiet_config 0 (CmdSync 4) [None] first_writer = (Continue, 0, [None], answer 4 (\<lambda>_. Done) (lift_op q) w1)"
    by (simp add: drive_command_def command_result_defs settle_command_result_def periodic_sync_def quiet_config_def sync)
  then have "rx' = []" using run by (simp add: writer_loop.simps)
  with commands_answered [OF run] run show ?thesis by (auto simp: first_writer_def)
qed



text \<open>
  With the default of one append per group commit, an append is answered before any sync, and the
  segment is synced only after as many events as the period of the sync says.
\<close>

lemma append_unsynced:
  assumes "handle_append env coord ev kind g None w = (r, f, w1)" and "lc_group_commit_drain_budget cfg = 0"
    and "unat since + 1 < unat (lc_sync_every_n_events cfg)"
  shows "drive_command env cfg since (CmdAppend coord ev kind g respond) rx w =
    (Continue, since + 1, rx, send_reply respond (map_sum id Receipt r) w1)"
proof -
  have room: "unat since + 1 < 2 ^ 32" using assms(3) unsigned_less [of "lc_sync_every_n_events cfg", where 'a = nat] by simp
  then have "\<not> lc_sync_every_n_events cfg \<le> since + 1" using assms(3) by (simp add: word_le_nat_alt unat_word_ariths)
  with room show ?thesis
    using assms
    by (cases rx) (simp_all add: drive_command_def settle_command_result_def command_result_defs answer_def unfenced_def Let_def
        periodic_sync_def saturating_add_def group_commit_drain_budget_remaining_def)
qed

text \<open>
  C11. A shutdown that the writer meets while it drains appends for a group commit is not a clean one:
  the thread ends with the rest of the queue unread, and the segment gets no footer; an open fence
  is not cancelled, keeps its appends waiting, and adds nothing to the file of hidden ranges.
\<close>

theorem group_commit_shutdown:
  assumes "0 < lc_group_commit_drain_budget cfg" and "handle_append env coord ev kind g None w = (r, f, w1)"
  shows "\<exists>since' x w'. drive_command env cfg since (CmdAppend coord ev kind g respond) (Some (CmdShutdown ch) # rx) w = (Exit, since', rx, w') \<and>
    wr_replies w' = wr_replies w @ [(respond, map_sum id Receipt r), (ch, x)] \<and> wr_fence_ledger w' = wr_fence_ledger w \<and>
    wr_ranges_file w' = wr_ranges_file w \<and> wr_index w' = wr_index w1 \<and> disk w' = disk w1"
proof -
  let ?w1 = "send_reply respond (map_sum id Receipt r) w1"
  obtain q w2 where sync: "sync_active_segment env ?w1 = (q, w2)" by fastforce
  have log: "same_log ?w1 w2" using sync_log [of ?w1 env] sync by simp
  have disk: "disk w2 = disk ?w1" using sync_frame(1-3) [of env ?w1] sync
    by (auto simp: sync_active_segment_def bind_op_def disk_def fun_eq_iff on_marks_def split: prod.splits sum.splits)
  have "drive_command env cfg since (CmdAppend coord ev kind g respond) (Some (CmdShutdown ch) # rx) w =
      (Exit, 0, rx, send_reply ch (map_sum id (\<lambda>_. Done) q) w2)"
    using assms sync
    by (simp add: drive_command_def run_command_def settle_command_result_def command_result_defs answer_def unfenced_def Let_def
        group_commit_drain_budget_remaining_def)
  then show ?thesis
    using handle_append_mail [OF assms(2)] log disk
    by (auto simp: same_mail_def same_log_def send_reply_def)
qed

theorem group_commit_shutdown_witness:
  "\<exists>since' x r w' w1. handle_append (first_env (\<lambda>_. None)) first_coord first_event DATA (first_guards None) None first_writer = (r, None, w1) \<and>
    drive_command (first_env (\<lambda>_. None)) quiet_config 0 (CmdAppend first_coord first_event DATA (first_guards None) 4)
      [Some (CmdShutdown 5), Some (CmdSync 6)] first_writer = (Exit, since', [Some (CmdSync 6)], w') \<and>
    wr_replies w' = [(4, map_sum id Receipt r), (5, x)]"
proof -
  obtain r f w1 where run: "handle_append (first_env (\<lambda>_. None)) first_coord first_event DATA (first_guards None) None first_writer = (r, f, w1)"
    by (metis prod_cases3)
  have "0 < lc_group_commit_drain_budget quiet_config" by (simp add: quiet_config_def)
  moreover have "f = None" using handle_append_mail [OF run] by simp
  ultimately show ?thesis using group_commit_shutdown [OF _ run, of quiet_config 0 4 5 "[Some (CmdSync 6)]"] run by (auto simp: first_writer_def)
qed

end
