(* ===== verification/Restart.thy ===== *)
theory Restart
  imports WriterLoop
begin

text \<open>
  The supervision of the writer thread (\<^verbatim>\<open>store/write/writer/runtime.rs\<close>, \<^verbatim>\<open>writer_thread_main\<close>): after a
  panic of the loop the thread either ends and is marked as crashed, or cancels the open fence and
  goes on with a new segment. A panic may come at any point, so nothing is assumed of the state it
  leaves behind beyond what the theorems say. The directory is the writer's own files; names that
  are no segment names are skipped by the code and have no counterpart here.
\<close>

section \<open>The budget\<close>

datatype RestartPolicy = Once | Bounded u32 u64

definition elapsed_ms :: "i64 \<Rightarrow> i64 \<Rightarrow> int" where
  "elapsed_ms window_start_ns now_ns = max 0 (sint (saturating_sub_i64 now_ns window_start_ns)) div 1000000"

definition within_limit :: "u64 \<Rightarrow> int" where
  "within_limit within_ms = (if unat within_ms < 2 ^ 63 then uint within_ms else 2 ^ 63 - 1)"

fun restart_budget_allows :: "RestartPolicy \<Rightarrow> u32 \<Rightarrow> i64 \<Rightarrow> i64 \<Rightarrow> bool \<times> u32 \<times> i64" where
  "restart_budget_allows Once restarts window_start_ns now_ns =
     (if restarts \<ge> 1 then (False, restarts, window_start_ns) else (True, restarts + 1, window_start_ns))"
| "restart_budget_allows (Bounded max_restarts within_ms) restarts window_start_ns now_ns =
     (let (n, start) = (if elapsed_ms window_start_ns now_ns > within_limit within_ms then (0, now_ns) else (restarts, window_start_ns)) in
      if n \<ge> max_restarts then (False, n, start) else (True, n + 1, start))"

definition next_restart_segment_id :: "u64 option \<Rightarrow> u64 \<Rightarrow> u64" where
  "next_restart_segment_id latest fallback = saturating_add (case latest of None \<Rightarrow> fallback | Some l \<Rightarrow> l) 1"

section \<open>The restart\<close>

definition segment_ids :: "'v writer \<Rightarrow> u64 list" where
  "segment_ids w = wr_segment_id w # map fst (wr_files w)"

definition find_latest_segment_id :: "'v writer_env \<Rightarrow> ('v, u64 option) op" where
  "find_latest_segment_id env =
     bind_op (ask (we_io env)) (\<lambda>outcome w.
       if outcome \<noteq> None then (Inl Io, w)
       else (Inr (foldl (\<lambda>latest sid. Some (max (unwrap_or_zero latest) sid)) None (segment_ids w)), w))"

definition cancel_open_fence :: "'v writer_env \<Rightarrow> 'v writer \<Rightarrow> 'v writer" where
  "cancel_open_fence env w =
     (case active_fence_token (ix_sequence (wr_index w)) of
        None \<Rightarrow> w
      | Some token \<Rightarrow>
          (case cancel_visibility_fence (wr_index w) token of
             Inl _ \<Rightarrow> w
           | Inr ix \<Rightarrow> snd (persist_cancelled_visibility_ranges env (w\<lparr>wr_index := ix\<rparr>))))"

text \<open>The core of a new loop: no fence, an empty collector, and the new segment; the reader is not told.\<close>

definition new_core :: "segment \<Rightarrow> u64 \<Rightarrow> 'v writer \<Rightarrow> 'v writer" where
  "new_core segment sid w =
     w\<lparr>wr_sidx_collector := collector_new, wr_fence_ledger := None,
       wr_files := bt_insert (wr_segment_id w) (file_contents (wr_active_segment w)) (bt_remove sid (wr_files w)),
       wr_active_segment := segment, wr_segment_id := sid\<rparr>"

datatype 'v thread_step = Crashed "'v writer" | Restarted u32 i64 "'v writer"

definition after_panic :: "'v writer_env \<Rightarrow> RestartPolicy \<Rightarrow> u32 \<Rightarrow> i64 \<Rightarrow> u64 \<Rightarrow> 'v writer \<Rightarrow> 'v thread_step" where
  "after_panic env policy restarts window_start seg_id w =
     (let now = we_now_mono_ns env (wr_tick w); w1 = w\<lparr>wr_tick := Suc (wr_tick w)\<rparr>; w2 = cancel_open_fence env w1 in
      case restart_budget_allows policy restarts window_start now of
        (False, restarts', start') \<Rightarrow> Crashed w2
      | (True, restarts', start') \<Rightarrow>
          (case find_latest_segment_id env w2 of
             (Inl err, w3) \<Rightarrow> Crashed w3
           | (Inr latest, w3) \<Rightarrow>
               (let sid = next_restart_segment_id latest seg_id in
                case create_segment env sid w3 of
                  (Inl err, w4) \<Rightarrow> Crashed w4
                | (Inr segment, w4) \<Rightarrow> Restarted restarts' start' (new_core segment sid w4))))"

section \<open>What a restart leaves behind\<close>

lemma persist_frame:
  "wr_index (snd (persist_cancelled_visibility_ranges env w)) = wr_index w" "wr_files (snd (persist_cancelled_visibility_ranges env w)) = wr_files w"
  "wr_segment_id (snd (persist_cancelled_visibility_ranges env w)) = wr_segment_id w"
  "wr_active_segment (snd (persist_cancelled_visibility_ranges env w)) = wr_active_segment w"
  by (simp_all add: persist_cancelled_visibility_ranges_def split: sum.split)

lemma cancel_visible:
  assumes "cancel_fence g token hidden = Inr g'"
  shows "is_visible (snapshot g') s \<Longrightarrow> is_visible (snapshot g) s" and "active_fence_token g' = None" and "allocated g' = allocated g"
  using assms
  by (auto simp: cancel_fence_def Let_def clear_fence_def is_visible_def snapshot_def active_fence_token_def contains_insert_cancelled split: if_splits)

lemma cancel_open_fence_keeps:
  assumes "log_ok es (wr_index w)" and w': "w' = cancel_open_fence env w"
  shows "log_ok es (wr_index w') \<and> active_fence_token (ix_sequence (wr_index w')) = None \<and>
    (\<forall>s. is_visible (snapshot (ix_sequence (wr_index w'))) s \<longrightarrow> is_visible (snapshot (ix_sequence (wr_index w))) s) \<and>
    wr_files w' = wr_files w \<and> wr_segment_id w' = wr_segment_id w \<and> wr_active_segment w' = wr_active_segment w"
proof (cases "active_fence_token (ix_sequence (wr_index w))")
  case (Some token)
  let ?g = "ix_sequence (wr_index w)"
  have "active_fence ?g = token" using Some by (auto simp: active_fence_token_def split: if_splits)
  then obtain g where g: "cancel_fence ?g token (fenced_lane_ranges (wr_index w)) = Inr g" by (auto simp: cancel_fence_def Let_def)
  then have state: "w' = snd (persist_cancelled_visibility_ranges env (w\<lparr>wr_index := (wr_index w)\<lparr>ix_sequence := g\<rparr>\<rparr>))"
    by (simp add: w' cancel_open_fence_def Some cancel_visibility_fence_def bind_result_def)
  have "gate_inv g" using cancel_fence_inv [OF _ g] assms(1) by (simp add: log_ok_def)
  then have "log_ok es ((wr_index w)\<lparr>ix_sequence := g\<rparr>)" using cancel_visible(3) [OF g] by (intro log_ok_gate [OF assms(1)]) simp_all
  with cancel_visible [OF g] show ?thesis unfolding state by (auto simp: persist_frame)
qed (simp add: w' cancel_open_fence_def assms(1))

lemma foldl_max: "foldl (\<lambda>latest sid. Some (max (unwrap_or_zero latest) sid)) m sids = Some l \<Longrightarrow>
  (\<forall>sid \<in> set sids. sid \<le> l) \<and> unwrap_or_zero m \<le> l"
  for l :: u64
proof (induction sids arbitrary: m)
  case (Cons sid sids)
  from Cons.IH [of "Some (max (unwrap_or_zero m) sid)"] Cons.prems show ?case by (auto simp: unwrap_or_zero_def split: option.splits)
qed (auto simp: unwrap_or_zero_def)

lemma latest_covers:
  assumes "find_latest_segment_id env w = (Inr latest, w')"
  shows "\<exists>l. latest = Some l \<and> (\<forall>sid. disk w sid \<noteq> None \<longrightarrow> sid \<le> l)" and "w' = w\<lparr>wr_tick := Suc (wr_tick w)\<rparr>"
proof -
  have run: "latest = foldl (\<lambda>latest sid. Some (max (unwrap_or_zero latest) sid)) None (segment_ids w)" "w' = w\<lparr>wr_tick := Suc (wr_tick w)\<rparr>"
    using assms by (auto simp: find_latest_segment_id_def segment_ids_def split: if_splits)
  have "foldl (\<lambda>latest sid. Some (max (unwrap_or_zero latest) sid)) m (x # xs) \<noteq> None" for m and x :: u64 and xs
    by (induction xs arbitrary: m x) auto
  then have "latest \<noteq> None" unfolding run(1) segment_ids_def .
  then obtain l where l: "latest = Some l" by blast
  have "sid \<in> set (segment_ids w)" if "disk w sid \<noteq> None" for sid
    using that by (auto simp: disk_def segment_ids_def split: if_splits dest: map_of_SomeD intro: rev_image_eqI)
  with foldl_max [of None "segment_ids w" l] l run show "\<exists>l. latest = Some l \<and> (\<forall>sid. disk w sid \<noteq> None \<longrightarrow> sid \<le> l)"
    "w' = w\<lparr>wr_tick := Suc (wr_tick w)\<rparr>" by auto
qed

lemma new_core_disk:
  assumes "bt_get (wr_files w) sid = Some (file_contents segment)" and "seg_file segment = Some f" and "sid \<noteq> wr_segment_id w"
  shows "disk_grows w (new_core segment sid w)"
proof -
  have "disk (new_core segment sid w) i = (if i = wr_segment_id w then Some (file_contents (wr_active_segment w)) else disk w i)" for i
    using assms by (auto simp: disk_def new_core_def bt_get_remove file_contents_def)
  then show ?thesis by (auto simp: disk_grows_def disk_def file_contents_def)
qed

text \<open>
  C12. A restart resumes the service without losing or showing anything: the log is the same, every
  byte on disk is still there, the new segment is one past every segment there is and ready for the
  next append, the fence that was open is cancelled for good, and no event becomes visible by it.
\<close>

theorem restart_resumes:
  assumes "after_panic env policy restarts start seg_id w = Restarted restarts' start' w'" and "log_ok es (wr_index w)"
  shows "log_ok es (wr_index w') \<and> positioned w' \<and> disk_grows w w' \<and> (\<forall>sid. disk w sid \<noteq> None \<longrightarrow> sid < wr_segment_id w') \<and>
    wr_fence_ledger w' = None \<and> active_fence_token (ix_sequence (wr_index w')) = None \<and>
    (\<forall>s. is_visible (snapshot (ix_sequence (wr_index w'))) s \<longrightarrow> is_visible (snapshot (ix_sequence (wr_index w))) s)"
proof -
  define w2 where "w2 = cancel_open_fence env (w\<lparr>wr_tick := Suc (wr_tick w)\<rparr>)"
  obtain latest w3 segment w4 where latest: "find_latest_segment_id env w2 = (Inr latest, w3)"
    and create: "create_segment env (next_restart_segment_id latest seg_id) w3 = (Inr segment, w4)"
    and w': "w' = new_core segment (next_restart_segment_id latest seg_id) w4"
    using assms(1) by (auto simp: after_panic_def w2_def Let_def split: prod.splits bool.splits sum.splits)
  let ?sid = "next_restart_segment_id latest seg_id"
  have fence: "log_ok es (wr_index w2)" "active_fence_token (ix_sequence (wr_index w2)) = None"
    "\<forall>s. is_visible (snapshot (ix_sequence (wr_index w2))) s \<longrightarrow> is_visible (snapshot (ix_sequence (wr_index w))) s"
    "wr_files w2 = wr_files w" "wr_segment_id w2 = wr_segment_id w" "wr_active_segment w2 = wr_active_segment w"
    using cancel_open_fence_keeps [OF _ w2_def, of es] assms(2) by simp_all
  have w3: "w3 = w2\<lparr>wr_tick := Suc (wr_tick w2)\<rparr>" by (rule latest_covers(2) [OF latest])
  have disk: "disk w3 = disk w" "disk w2 = disk w" using fence(4-6) by (simp_all add: w3 disk_def fun_eq_iff)
  have log: "same_log w3 w4" "disk_grows w3 w4" "wr_segment_id w4 = wr_segment_id w3"
    using create_log [of w3 env ?sid] create_disk [of w3 env ?sid] create_frame(2) [of env ?sid w3] create by simp_all
  note new = create_ok [OF create]
  obtain f where f: "seg_file segment = Some f" "written_bytes segment = of_nat (length f)" "length f < 2 ^ 33"
    using new(4) new_segment(1) by blast
  have "disk_grows w w'"
    unfolding w' using log(2) disk(1) new_core_disk [OF new(3) f(1)] new(1) log(3) disks.trans [of w3 w4] by (simp add: disk_grows_def)
  moreover have "sid < ?sid" if old: "disk w sid \<noteq> None" for sid
  proof -
    obtain l where "latest = Some l" "sid \<le> l" using latest_covers(1) [OF latest] old unfolding disk(2) by blast
    moreover have "l \<le> saturating_add l 1"
      by (cases "unat l + 1 < 2 ^ 64") (simp_all add: saturating_add_def word_le_nat_alt unat_word_ariths, simp flip: word_le_nat_alt)
    ultimately have "sid \<le> ?sid" by (auto simp: next_restart_segment_id_def)
    moreover have "sid \<noteq> ?sid" using old new(1,2) fence(5) by (auto simp: disk(1) [symmetric]) (auto simp: disk_def w3)
    ultimately show ?thesis by simp
  qed
  ultimately show ?thesis
    using fence log(1) f by (auto simp: w' new_core_def positioned_def same_log_def w3)
qed

text \<open>A panic of the first loop, before anything was written.\<close>

theorem restart_resumes_witness:
  "\<exists>w'. after_panic (first_env (\<lambda>_. None)) Once 0 0 1 first_writer = Restarted 1 0 w' \<and> log_ok [] (wr_index w') \<and> 1 < wr_segment_id w'"
proof -
  have latest: "find_latest_segment_id (first_env (\<lambda>_. None)) u = (Inr (Some 1), u\<lparr>wr_tick := Suc (wr_tick u)\<rparr>)"
    if "wr_segment_id u = 1" "wr_files u = []" for u :: "unit writer"
    using that by (simp add: find_latest_segment_id_def first_env_def segment_ids_def unwrap_or_zero_def)
  have "active_fence_token (ix_sequence (wr_index (first_writer :: unit writer))) = None"
    by (simp add: first_writer_def with_config_def gate_new_def active_fence_token_def)
  then have fence: "cancel_open_fence (first_env (\<lambda>_. None)) (first_writer\<lparr>wr_tick := Suc 0\<rparr>) = first_writer\<lparr>wr_tick := Suc 0\<rparr>"
    by (simp add: cancel_open_fence_def)
  have first: "wr_tick (first_writer :: unit writer) = 0" "wr_segment_id (first_writer :: unit writer) = 1" "wr_files (first_writer :: unit writer) = []"
    by (simp_all add: first_writer_def)
  obtain segment w4 where create: "create_segment (first_env (\<lambda>_. None)) 2 ((first_writer :: unit writer)\<lparr>wr_tick := 2\<rparr>) = (Inr segment, w4)"
    by (auto simp: create_segment_def first create_with_created_ns_def Let_def first_env_def)
  have "next_restart_segment_id (Some 1) 1 = 2" by (simp add: next_restart_segment_id_def saturating_add_def)
  then have run: "after_panic (first_env (\<lambda>_. None)) Once 0 0 1 first_writer = Restarted 1 0 (new_core segment 2 w4)"
    using create by (simp add: after_panic_def Let_def first fence latest numeral_2_eq_2)
  from restart_resumes [OF run first_log(1)] run show ?thesis by (auto simp: disk_def first_writer_def)
qed

section \<open>The number of restarts\<close>

text \<open>The answers to a sequence of panics at the given times.\<close>

fun grants :: "RestartPolicy \<Rightarrow> u32 \<Rightarrow> i64 \<Rightarrow> i64 list \<Rightarrow> bool list" where
  "grants policy restarts start [] = []"
| "grants policy restarts start (now # panics) =
     (case restart_budget_allows policy restarts start now of (ok, restarts', start') \<Rightarrow> ok # grants policy restarts' start' panics)"

lemma count_step: "n < m \<Longrightarrow> unat (n + 1) = unat n + 1" for n m :: u32
  using unsigned_less [of m, where 'a = nat] by (simp add: word_less_nat_alt unat_word_ariths)

lemma once_budget: "length (filter id (grants Once n start panics)) = min (length panics) (1 - unat n)"
proof (induction panics arbitrary: n)
  case (Cons now panics)
  show ?case
  proof (cases "1 \<le> n")
    case True
    then show ?thesis using Cons.IH [of n] by (simp add: word_le_nat_alt)
  next
    case False
    then have "n = 0" by (simp add: word_le_nat_alt unat_0_iff not_less_eq_eq)
    then show ?thesis using Cons.IH [of 1] by simp
  qed
qed simp

lemma bounded_budget:
  assumes "\<forall>now \<in> set panics. elapsed_ms start now \<le> within_limit within"
  shows "length (filter id (grants (Bounded m within) n start panics)) = min (length panics) (unat m - unat n)"
  using assms
proof (induction panics arbitrary: n)
  case (Cons now panics)
  then have window: "\<not> elapsed_ms start now > within_limit within" by simp
  show ?case
  proof (cases "m \<le> n")
    case True
    then show ?thesis using Cons window by (simp add: word_le_nat_alt)
  next
    case False
    then have "n < m" by simp
    then show ?thesis using Cons.IH [of "n + 1"] Cons.prems window False count_step [of n m] by (auto simp: word_less_nat_alt)
  qed
qed simp

end
