(* ===== verification/Outcomes.thy ===== *)
theory Outcomes
  imports Prelude
begin

text \<open>
  The outcome type of \<^verbatim>\<open>outcome/mod.rs\<close> with its combinators and the joins of
  \<^verbatim>\<open>outcome/combine.rs\<close>. A batch is a tree of outcomes, so the combinators recurse through
  lists. A message is the text a caller gave, or the format the source uses with its arguments.
  The closure of \<^verbatim>\<open>inspect\<close> is a step on a state the closures share.
\<close>

section \<open>Errors and waits\<close>

datatype WaitCondition =
    WaitTimeout u64
  | WaitEvent u128
  | WaitAll "WaitCondition list"
  | WaitAny "WaitCondition list"
  | WaitCustom u16 bytes

datatype CompensationAction =
    Rollback "u128 list"
  | Notify u128 string
  | Release "u128 list"
  | CustomAction string bytes

datatype ErrorKind =
    NotFound | Conflict | Validation | PolicyRejection | CancelledKind | StorageError | Timeout | PendingKind
  | SerializationKind | Internal | BatchCollapse | CustomKind u16

datatype outcome_message =
    Text string
  | CancelledBecause string
  | RetryAfter u64 u32 u32 string
  | PendingOn WaitCondition u128
  | CollapsedItems nat
  | LengthMismatch nat nat

record outcome_error =
  oe_kind :: ErrorKind
  oe_message :: outcome_message
  oe_compensation :: "CompensationAction option"

definition outcome_error_new :: "ErrorKind \<Rightarrow> outcome_message \<Rightarrow> outcome_error" where
  "outcome_error_new kind message = \<lparr>oe_kind = kind, oe_message = message, oe_compensation = None\<rparr>"

definition with_compensation :: "CompensationAction \<Rightarrow> outcome_error \<Rightarrow> outcome_error" where
  "with_compensation action e = e\<lparr>oe_compensation := Some action\<rparr>"

definition kind_is_retryable :: "ErrorKind \<Rightarrow> bool" where
  "kind_is_retryable kind \<longleftrightarrow> kind \<in> {StorageError, Timeout}"

definition is_domain :: "ErrorKind \<Rightarrow> bool" where
  "is_domain kind \<longleftrightarrow> kind \<in> {NotFound, Conflict, Validation, PolicyRejection, CancelledKind}"

definition is_operational :: "ErrorKind \<Rightarrow> bool" where
  "is_operational kind \<longleftrightarrow> kind \<in> {StorageError, Timeout, PendingKind, SerializationKind, Internal, BatchCollapse}"

definition is_retryable :: "outcome_error \<Rightarrow> bool" where
  "is_retryable e = kind_is_retryable (oe_kind e)"

section \<open>Outcomes\<close>

datatype 'a Outcome =
    Ok 'a
  | Err outcome_error
  | Retry u64 u32 u32 string
  | Pending WaitCondition u128
  | Cancelled string
  | Batch "'a Outcome list"

definition is_terminal :: "'a Outcome \<Rightarrow> bool" where
  "is_terminal m = (case m of Ok _ \<Rightarrow> True | Err _ \<Rightarrow> True | Cancelled _ \<Rightarrow> True | _ \<Rightarrow> False)"

primrec outcome_map :: "('a \<Rightarrow> 'b) \<Rightarrow> 'a Outcome \<Rightarrow> 'b Outcome" where
  "outcome_map f (Ok v) = Ok (f v)"
| "outcome_map f (Err e) = Err e"
| "outcome_map f (Retry after_ms attempt max_attempts reason) = Retry after_ms attempt max_attempts reason"
| "outcome_map f (Pending condition resume_token) = Pending condition resume_token"
| "outcome_map f (Cancelled reason) = Cancelled reason"
| "outcome_map f (Batch items) = Batch (map (outcome_map f) items)"

primrec and_then :: "'a Outcome \<Rightarrow> ('a \<Rightarrow> 'b Outcome) \<Rightarrow> 'b Outcome" where
  "and_then (Ok v) f = f v"
| "and_then (Err e) f = Err e"
| "and_then (Retry after_ms attempt max_attempts reason) f = Retry after_ms attempt max_attempts reason"
| "and_then (Pending condition resume_token) f = Pending condition resume_token"
| "and_then (Cancelled reason) f = Cancelled reason"
| "and_then (Batch items) f = Batch (map (\<lambda>o'. and_then o' f) items)"

primrec outcome_map_err :: "(outcome_error \<Rightarrow> outcome_error) \<Rightarrow> 'a Outcome \<Rightarrow> 'a Outcome" where
  "outcome_map_err f (Ok v) = Ok v"
| "outcome_map_err f (Err e) = Err (f e)"
| "outcome_map_err f (Retry after_ms attempt max_attempts reason) = Retry after_ms attempt max_attempts reason"
| "outcome_map_err f (Pending condition resume_token) = Pending condition resume_token"
| "outcome_map_err f (Cancelled reason) = Cancelled reason"
| "outcome_map_err f (Batch items) = Batch (map (outcome_map_err f) items)"

primrec or_else :: "(outcome_error \<Rightarrow> 'a Outcome) \<Rightarrow> 'a Outcome \<Rightarrow> 'a Outcome" where
  "or_else f (Ok v) = Ok v"
| "or_else f (Err e) = f e"
| "or_else f (Retry after_ms attempt max_attempts reason) = Retry after_ms attempt max_attempts reason"
| "or_else f (Pending condition resume_token) = Pending condition resume_token"
| "or_else f (Cancelled reason) = Cancelled reason"
| "or_else f (Batch items) = Batch (map (or_else f) items)"

fun inspect :: "('a \<Rightarrow> 's \<Rightarrow> 's) \<Rightarrow> 'a Outcome \<Rightarrow> 's \<Rightarrow> 'a Outcome \<times> 's"
  and inspect_items :: "('a \<Rightarrow> 's \<Rightarrow> 's) \<Rightarrow> 'a Outcome list \<Rightarrow> 's \<Rightarrow> 'a Outcome list \<times> 's" where
  "inspect f (Ok v) s = (Ok v, f v s)"
| "inspect f (Batch items) s = (case inspect_items f items s of (items', s') \<Rightarrow> (Batch items', s'))"
| "inspect f m s = (m, s)"
| "inspect_items f [] s = ([], s)"
| "inspect_items f (m # ms) s =
     (case inspect f m s of (m', s1) \<Rightarrow> (case inspect_items f ms s1 of (ms', s2) \<Rightarrow> (m' # ms', s2)))"

fun inspect_err :: "(outcome_error \<Rightarrow> 's \<Rightarrow> 's) \<Rightarrow> 'a Outcome \<Rightarrow> 's \<Rightarrow> 'a Outcome \<times> 's"
  and inspect_err_items :: "(outcome_error \<Rightarrow> 's \<Rightarrow> 's) \<Rightarrow> 'a Outcome list \<Rightarrow> 's \<Rightarrow> 'a Outcome list \<times> 's" where
  "inspect_err f (Err e) s = (Err e, f e s)"
| "inspect_err f (Batch items) s = (case inspect_err_items f items s of (items', s') \<Rightarrow> (Batch items', s'))"
| "inspect_err f m s = (m, s)"
| "inspect_err_items f [] s = ([], s)"
| "inspect_err_items f (m # ms) s =
     (case inspect_err f m s of (m', s1) \<Rightarrow> (case inspect_err_items f ms s1 of (ms', s2) \<Rightarrow> (m' # ms', s2)))"

primrec and_then_if :: "('a \<Rightarrow> bool) \<Rightarrow> ('a \<Rightarrow> 'a Outcome) \<Rightarrow> 'a Outcome \<Rightarrow> 'a Outcome" where
  "and_then_if pred f (Ok v) = (if pred v then f v else Ok v)"
| "and_then_if pred f (Err e) = Err e"
| "and_then_if pred f (Retry after_ms attempt max_attempts reason) = Retry after_ms attempt max_attempts reason"
| "and_then_if pred f (Pending condition resume_token) = Pending condition resume_token"
| "and_then_if pred f (Cancelled reason) = Cancelled reason"
| "and_then_if pred f (Batch items) = Batch (map (and_then_if pred f) items)"

fun into_result :: "'a Outcome \<Rightarrow> (outcome_error, 'a) result" where
  "into_result (Ok v) = Inr v"
| "into_result (Err e) = Inl e"
| "into_result (Cancelled reason) = Inl (outcome_error_new CancelledKind (CancelledBecause reason))"
| "into_result (Retry after_ms attempt max_attempts reason) =
     Inl (outcome_error_new Timeout (RetryAfter after_ms attempt max_attempts reason))"
| "into_result (Pending condition resume_token) = Inl (outcome_error_new PendingKind (PendingOn condition resume_token))"
| "into_result (Batch items) = Inl (outcome_error_new BatchCollapse (CollapsedItems (length items)))"

definition unwrap_or :: "'a \<Rightarrow> 'a Outcome \<Rightarrow> 'a" where
  "unwrap_or fallback m = (case m of Ok v \<Rightarrow> v | _ \<Rightarrow> fallback)"

definition unwrap_or_else :: "(unit \<Rightarrow> 'a) \<Rightarrow> 'a Outcome \<Rightarrow> 'a" where
  "unwrap_or_else f m = (case m of Ok v \<Rightarrow> v | _ \<Rightarrow> f ())"

definition outcome_flatten :: "'a Outcome Outcome \<Rightarrow> 'a Outcome" where
  "outcome_flatten m = and_then m (\<lambda>inner. inner)"

section \<open>Combining outcomes\<close>

lemma outcome_size_mem: "m \<in> set ms \<Longrightarrow> size m < Suc (size_list size ms)"
  by (induction ms) auto

function (sequential) zip_outcome :: "'a Outcome \<Rightarrow> 'b Outcome \<Rightarrow> ('a \<times> 'b) Outcome" where
  "zip_outcome (Ok a) (Ok b) = Ok (a, b)"
| "zip_outcome (Err e) _ = Err e"
| "zip_outcome _ (Err e) = Err e"
| "zip_outcome (Cancelled reason) _ = Cancelled reason"
| "zip_outcome _ (Cancelled reason) = Cancelled reason"
| "zip_outcome (Retry after_ms attempt max_attempts reason) _ = Retry after_ms attempt max_attempts reason"
| "zip_outcome _ (Retry after_ms attempt max_attempts reason) = Retry after_ms attempt max_attempts reason"
| "zip_outcome (Pending condition resume_token) _ = Pending condition resume_token"
| "zip_outcome _ (Pending condition resume_token) = Pending condition resume_token"
| "zip_outcome (Batch a_items) (Batch b_items) =
     (if length a_items \<noteq> length b_items
      then Err (outcome_error_new Internal (LengthMismatch (length a_items) (length b_items)))
      else Batch (map (\<lambda>(a, b). zip_outcome a b) (zip a_items b_items)))"
| "zip_outcome (Batch items) (Ok b) = Batch (map (\<lambda>a. zip_outcome a (Ok b)) items)"
| "zip_outcome (Ok a) (Batch items) = Batch (map (\<lambda>b. zip_outcome (Ok a) b) items)"
  by pat_completeness auto

termination zip_outcome
proof (relation "measure (\<lambda>(a, b). size a + size b)")
  fix as :: "'a Outcome list" and bs :: "'b Outcome list" and q a b
  assume "q \<in> set (zip as bs)" "(a, b) = q"
  then have "a \<in> set as" "b \<in> set bs" by (auto dest: set_zip_leftD set_zip_rightD)
  then show "((a, b), Batch as, Batch bs) \<in> measure (\<lambda>(a, b). size a + size b)"
    by (auto dest!: outcome_size_mem)
qed (auto dest!: outcome_size_mem)

fun join_all_from :: "'a list \<Rightarrow> 'a Outcome list \<Rightarrow> 'a list Outcome" where
  "join_all_from results [] = Ok results"
| "join_all_from results (Ok v # outcomes) = join_all_from (results @ [v]) outcomes"
| "join_all_from results (Err e # outcomes) = Err e"
| "join_all_from results (Cancelled reason # outcomes) = Cancelled reason"
| "join_all_from results (Retry after_ms attempt max_attempts reason # outcomes) = Retry after_ms attempt max_attempts reason"
| "join_all_from results (Pending condition resume_token # outcomes) = Pending condition resume_token"
| "join_all_from results (Batch inner # outcomes) =
     (case join_all_from [] inner of
        Ok vs \<Rightarrow> join_all_from (results @ vs) outcomes
      | Err e \<Rightarrow> Err e
      | Cancelled reason \<Rightarrow> Cancelled reason
      | Retry after_ms attempt max_attempts reason \<Rightarrow> Retry after_ms attempt max_attempts reason
      | Pending condition resume_token \<Rightarrow> Pending condition resume_token
      | Batch _ \<Rightarrow> Err (outcome_error_new Internal (Text ''join_all: recursive join produced a nested Batch'')))"

definition join_all :: "'a Outcome list \<Rightarrow> 'a list Outcome" where
  "join_all outcomes = join_all_from [] outcomes"

definition empty_join :: outcome_error where
  "empty_join = outcome_error_new Internal (Text ''join_any called with empty vec'')"

fun join_any_from :: "outcome_error option \<Rightarrow> 'a Outcome list \<Rightarrow> 'a Outcome" where
  "join_any_from last_err [] = (case last_err of Some e \<Rightarrow> Err e | None \<Rightarrow> Err empty_join)"
| "join_any_from last_err (Ok v # outcomes) = Ok v"
| "join_any_from last_err (Err e # outcomes) = join_any_from (Some e) outcomes"
| "join_any_from last_err (Batch inner # outcomes) =
     (case join_any_from None inner of
        Ok v \<Rightarrow> Ok v
      | Err e \<Rightarrow> join_any_from (Some e) outcomes
      | other \<Rightarrow> other)"
| "join_any_from last_err (ret # outcomes) = ret"

definition join_any :: "'a Outcome list \<Rightarrow> 'a Outcome" where
  "join_any outcomes = join_any_from None outcomes"

section \<open>The laws\<close>

lemma and_then_unit: "and_then m Ok = m"
  by (induction m) (simp_all add: map_idI)

lemma and_then_assoc: "and_then (and_then m f) g = and_then m (\<lambda>v. and_then (f v) g)"
  by (induction m) simp_all

lemma outcome_map_bind: "outcome_map f m = and_then m (\<lambda>v. Ok (f v))"
  by (induction m) simp_all

text \<open>The leaves of a tree of outcomes, and what a leaf means to a join.\<close>

fun leaves :: "'a Outcome \<Rightarrow> 'a Outcome list" where
  "leaves (Batch items) = concat (map leaves items)"
| "leaves m = [m]"

lemma inspect_frame:
  fixes f :: "'a \<Rightarrow> 's \<Rightarrow> 's"
  shows "inspect f m s = (m, fold (\<lambda>l. case l of Ok v \<Rightarrow> f v | _ \<Rightarrow> \<lambda>t. t) (leaves m) s)"
    and "inspect_items f ms s = (ms, fold (\<lambda>l. case l of Ok v \<Rightarrow> f v | _ \<Rightarrow> \<lambda>t. t) (concat (map leaves ms)) s)"
  by (induction f m s and f ms s rule: inspect_inspect_items.induct) auto

lemma inspect_err_frame:
  fixes f :: "outcome_error \<Rightarrow> 's \<Rightarrow> 's" and m :: "'a Outcome"
  shows "inspect_err f m s = (m, fold (\<lambda>l. case l of Err e \<Rightarrow> f e | _ \<Rightarrow> \<lambda>t. t) (leaves m) s)"
    and "inspect_err_items f (ms :: 'a Outcome list) s = (ms, fold (\<lambda>l. case l of Err e \<Rightarrow> f e | _ \<Rightarrow> \<lambda>t. t) (concat (map leaves ms)) s)"
  by (induction f m s and f ms s rule: inspect_err_inspect_err_items.induct) auto

definition failure :: "'a Outcome \<Rightarrow> 'b Outcome" where
  "failure m = and_then m (\<lambda>_. Batch [])"

lemma find_append: "find P (xs @ ys) = (case find P xs of None \<Rightarrow> find P ys | Some x \<Rightarrow> Some x)"
  by (induction xs) auto

lemma find_mem: "find P xs = Some x \<Longrightarrow> x \<in> set xs \<and> P x"
  by (induction xs) (auto split: if_splits)

lemma leaves_plain: "l \<in> set (leaves m) \<Longrightarrow> l \<notin> range Batch"
  by (induction m rule: leaves.induct) auto

definition leaf_values :: "'a Outcome list \<Rightarrow> 'a list" where
  "leaf_values ls = concat (map (\<lambda>l. case l of Ok v \<Rightarrow> [v] | _ \<Rightarrow> []) ls)"

definition read_all :: "'a list \<Rightarrow> 'a Outcome list \<Rightarrow> 'a list Outcome" where
  "read_all results ls = (case find (\<lambda>l. l \<notin> range Ok) ls of None \<Rightarrow> Ok (results @ leaf_values ls) | Some l \<Rightarrow> failure l)"

lemma read_all_append:
  "read_all results (ls @ ls') = (case find (\<lambda>l. l \<notin> range Ok) ls of None \<Rightarrow> read_all (results @ leaf_values ls) ls' | Some l \<Rightarrow> failure l)"
  by (auto simp: read_all_def leaf_values_def find_append split: option.splits)

lemma join_all_leaves: "join_all_from results outcomes = read_all results (concat (map leaves outcomes))"
proof (induction results outcomes rule: join_all_from.induct)
  case (7 results inner outcomes)
  show ?case
  proof (cases "find (\<lambda>l. l \<notin> range Ok) (concat (map leaves inner))")
    case None
    then show ?thesis using 7 by (simp add: read_all_append read_all_def [of "[]"])
  next
    case (Some l)
    then have "l \<in> set (concat (map leaves inner))" "l \<notin> range Ok" by (blast dest: find_mem)+
    then have "l \<notin> range Ok \<union> range Batch" by (auto dest!: leaves_plain)
    then show ?thesis using 7(1) Some by (cases l) (auto simp: read_all_append read_all_def [of "[]"] failure_def)
  qed
qed (auto simp: read_all_def leaf_values_def failure_def split: option.splits)

text \<open>To \<open>join_any\<close> an empty batch is an error of its own.\<close>

fun any_leaves :: "'a Outcome \<Rightarrow> 'a Outcome list" where
  "any_leaves (Batch items) = (if items = [] then [Err empty_join] else concat (map any_leaves items))"
| "any_leaves m = [m]"

lemma any_leaves_plain: "l \<in> set (any_leaves m) \<Longrightarrow> l \<notin> range Batch"
  by (induction m rule: any_leaves.induct) (auto split: if_splits)

lemma any_leaves_ne [simp]: "any_leaves m \<noteq> []"
  by (induction m rule: any_leaves.induct) auto

definition read_any :: "outcome_error option \<Rightarrow> 'a Outcome list \<Rightarrow> 'a Outcome" where
  "read_any last_err ls =
     (case find (\<lambda>l. l \<notin> range Err) ls of
        Some l \<Rightarrow> l
      | None \<Rightarrow> if ls = [] then Err (case last_err of Some e \<Rightarrow> e | None \<Rightarrow> empty_join) else last ls)"

lemma read_any_append:
  "ls \<noteq> [] \<Longrightarrow> read_any last_err (ls @ ls') = (case read_any None ls of Err e \<Rightarrow> read_any (Some e) ls' | other \<Rightarrow> other)"
proof (cases "find (\<lambda>l. l \<notin> range Err) ls")
  case None
  assume "ls \<noteq> []"
  moreover obtain e where "last ls = Err e" using None \<open>ls \<noteq> []\<close> by (auto simp: find_None_iff dest: last_in_set)
  ultimately show ?thesis using None by (auto simp: read_any_def find_append split: option.splits)
next
  case (Some l)
  then have "l \<notin> range Err" by (blast dest: find_mem)
  then show ?thesis using Some by (cases l) (auto simp: read_any_def find_append)
qed

lemma read_any_batch: "read_any None (concat (map any_leaves inner)) = read_any last_err (any_leaves (Batch inner))"
  by (cases inner) (auto simp: read_any_def split: option.splits)

lemma read_any_plain: "(\<forall>l \<in> set ls. l \<notin> range Batch) \<Longrightarrow> read_any last_err ls \<notin> range Batch"
  by (auto simp: read_any_def split: option.splits dest: find_mem)

lemma join_any_leaves: "join_any_from last_err outcomes = read_any last_err (concat (map any_leaves outcomes))"
proof (induction last_err outcomes rule: join_any_from.induct)
  case (4 last_err inner outcomes)
  have "join_any_from None inner = read_any None (any_leaves (Batch inner))" using 4(1) read_any_batch [of inner] by simp
  then have "read_any last_err (concat (map any_leaves (Batch inner # outcomes))) =
      (case join_any_from None inner of Err e \<Rightarrow> read_any (Some e) (concat (map any_leaves outcomes)) | other \<Rightarrow> other)"
    using read_any_append [OF any_leaves_ne] by (simp del: any_leaves.simps)
  moreover have "join_any_from last_err (Batch inner # outcomes) =
      (case join_any_from None inner of Err e \<Rightarrow> read_any (Some e) (concat (map any_leaves outcomes)) | other \<Rightarrow> other)"
    using 4(2) by (auto split: Outcome.split)
  ultimately show ?case by simp
qed (auto simp: read_any_def split: option.splits)

text \<open>The order in which one failure hides another.\<close>

fun priority :: "'a Outcome \<Rightarrow> nat" where
  "priority (Err _) = 5"
| "priority (Cancelled _) = 4"
| "priority (Retry _ _ _ _) = 3"
| "priority (Pending _ _) = 2"
| "priority (Batch _) = 1"
| "priority (Ok _) = 0"

lemma zip_stops:
  "max (priority a) (priority b) \<ge> 2 \<Longrightarrow>
   zip_outcome a b = (if priority b \<le> priority a then failure a else failure b)"
  by (cases a; cases b) (simp_all add: failure_def)

lemma zip_ok: "zip_outcome a b = Ok p \<longleftrightarrow> a = Ok (fst p) \<and> b = Ok (snd p)"
  by (cases p; cases a; cases b) auto

text \<open>
  Outcomes form a monad. A value is a unit of the bind on both sides and the bind is
  associative, also through nested batches; mapping is binding with a value, flattening joins one
  level, and looking at an outcome returns it unchanged after visiting its values in order.
\<close>

theorem outcome_monad:
  fixes m :: "'a Outcome" and f :: "'a \<Rightarrow> 'b Outcome" and g :: "'b \<Rightarrow> 'c Outcome" and h :: "'a \<Rightarrow> 'b" and look :: "'a \<Rightarrow> 's \<Rightarrow> 's"
  shows "and_then (Ok v) f = f v \<and> and_then m Ok = m \<and> and_then (and_then m f) g = and_then m (\<lambda>x. and_then (f x) g) \<and>
    outcome_map h m = and_then m (\<lambda>x. Ok (h x)) \<and> and_then m f = outcome_flatten (outcome_map f m) \<and>
    inspect look m s = (m, fold (\<lambda>l. case l of Ok x \<Rightarrow> look x | _ \<Rightarrow> \<lambda>t. t) (leaves m) s)"
  by (simp add: and_then_unit and_then_assoc outcome_map_bind outcome_flatten_def inspect_frame)

text \<open>
  C39. The joins read the leaves of their input from left to right. Joining all gives the values in
  order when every leaf is \<open>Ok\<close>, and otherwise the first leaf that is not. Joining any gives the
  first leaf that is not an error, and otherwise the last error; batches are descended into, never
  returned, and an empty one counts as an error. A pair fails with the more severe failure, the
  left one on a tie, and succeeds only if both parts do.
\<close>

theorem joins_exact:
  "join_all outcomes = read_all [] (concat (map leaves outcomes)) \<and>
   join_any outcomes = read_any None (concat (map any_leaves outcomes)) \<and> join_any outcomes \<notin> range Batch \<and>
   (2 \<le> max (priority a) (priority b) \<longrightarrow> zip_outcome a b = (if priority b \<le> priority a then failure a else failure b)) \<and>
   (zip_outcome a b = Ok p) = (a = Ok (fst p) \<and> b = Ok (snd p))"
proof -
  have "\<forall>l \<in> set (concat (map any_leaves outcomes)). l \<notin> range Batch" using any_leaves_plain by fastforce
  from read_any_plain [OF this, of None] show ?thesis
    by (simp add: join_all_def join_all_leaves join_any_def join_any_leaves zip_ok) (simp add: zip_stops)
qed

theorem joins_exact_witness:
  "join_all [Ok 1, Batch [Ok (2 :: nat)]] = Ok [1, 2] \<and> join_any [Err empty_join, Batch [Ok (2 :: nat)]] = Ok 2 \<and>
   zip_outcome (Pending (WaitEvent 3) 4 :: nat Outcome) (Cancelled ''x'' :: nat Outcome) = Cancelled ''x''"
  using joins_exact [of "[Ok 1, Batch [Ok (2 :: nat)]]" "Pending (WaitEvent 3) 4 :: nat Outcome" "Cancelled ''x'' :: nat Outcome" "(0, 0)"]
    joins_exact [of "[Err empty_join, Batch [Ok (2 :: nat)]]" "Ok (1 :: nat)" "Ok (2 :: nat)" "(1, 2)"]
  by (simp add: read_all_def read_any_def leaf_values_def failure_def image_iff)

text \<open>Collapsing an outcome: only a retry becomes a retryable error, and nothing but a value succeeds.\<close>

lemma into_result_exact:
  "(into_result m = Inr v \<longleftrightarrow> m = Ok v) \<and>
   (\<exists>e. into_result m = Inl e \<and> is_retryable e) = (m \<in> Err ` Collect is_retryable \<or> (\<exists>a b c r. m = Retry a b c r))"
  by (cases m) (auto simp: is_retryable_def outcome_error_new_def kind_is_retryable_def)

end
