(* ===== verification/Reservation.thy ===== *)
theory Reservation
  imports Prelude "HOL-Library.List_Lexorder" "HOL-Library.Product_Lexorder" "HOL-Library.Multiset"
begin

text \<open>
  The reservation ledger of \<^verbatim>\<open>reservation.rs\<close>: transitions are normalised, sorted and run through
  a ledger that reports every transition it refuses. The encoder \<^verbatim>\<open>encoding::to_bytes\<close> and the
  content hash are parameters. Rust's \<^verbatim>\<open>sort\<close> and \<^verbatim>\<open>sort_by\<close> are stable, and so is \<open>sort_key\<close>.
\<close>

section \<open>Data\<close>

definition RESERVATION_LEDGER_REPORT_SCHEMA_VERSION :: u32 where "RESERVATION_LEDGER_REPORT_SCHEMA_VERSION = 1"
definition RESERVATION_RECONCILIATION_REPORT_SCHEMA_VERSION :: u32 where "RESERVATION_RECONCILIATION_REPORT_SCHEMA_VERSION = 1"
definition RESERVATION_TRANSITION_SCHEMA_VERSION :: u32 where "RESERVATION_TRANSITION_SCHEMA_VERSION = 1"

definition RESERVATION_STATE_RESERVED :: u32 where "RESERVATION_STATE_RESERVED = 0"
definition RESERVATION_STATE_COMMITTED :: u32 where "RESERVATION_STATE_COMMITTED = 1"
definition RESERVATION_STATE_REFUNDED :: u32 where "RESERVATION_STATE_REFUNDED = 2"
definition RESERVATION_STATE_EXPIRED :: u32 where "RESERVATION_STATE_EXPIRED = 3"
definition RESERVATION_STATE_ORPHANED :: u32 where "RESERVATION_STATE_ORPHANED = 4"

definition RESERVATION_OP_RESERVE :: u32 where "RESERVATION_OP_RESERVE = 0"
definition RESERVATION_OP_COMMIT :: u32 where "RESERVATION_OP_COMMIT = 1"
definition RESERVATION_OP_REFUND :: u32 where "RESERVATION_OP_REFUND = 2"
definition RESERVATION_OP_EXPIRE :: u32 where "RESERVATION_OP_EXPIRE = 3"
definition RESERVATION_OP_ORPHAN :: u32 where "RESERVATION_OP_ORPHAN = 4"

definition RESERVATION_REASON_DOUBLE_COMMIT :: u32 where "RESERVATION_REASON_DOUBLE_COMMIT = 1"
definition RESERVATION_REASON_COMMIT_WITHOUT_RESERVE :: u32 where "RESERVATION_REASON_COMMIT_WITHOUT_RESERVE = 2"
definition RESERVATION_REASON_REFUND_INVALID_STATE :: u32 where "RESERVATION_REASON_REFUND_INVALID_STATE = 3"
definition RESERVATION_REASON_REFUND_AFTER_COMMIT :: u32 where "RESERVATION_REASON_REFUND_AFTER_COMMIT = 4"
definition RESERVATION_REASON_EXPIRE_INVALID_STATE :: u32 where "RESERVATION_REASON_EXPIRE_INVALID_STATE = 5"
definition RESERVATION_REASON_ORPHAN_INVALID_STATE :: u32 where "RESERVATION_REASON_ORPHAN_INVALID_STATE = 6"
definition RESERVATION_REASON_DUPLICATE_RESERVE :: u32 where "RESERVATION_REASON_DUPLICATE_RESERVE = 7"
definition RESERVATION_REASON_RESERVE_INVALID_SUBJECT_OR_UNITS :: u32 where "RESERVATION_REASON_RESERVE_INVALID_SUBJECT_OR_UNITS = 8"
definition RESERVATION_REASON_TRANSITION_ON_TERMINAL :: u32 where "RESERVATION_REASON_TRANSITION_ON_TERMINAL = 9"

lemmas reservation_states = RESERVATION_STATE_RESERVED_def RESERVATION_STATE_COMMITTED_def RESERVATION_STATE_REFUNDED_def
  RESERVATION_STATE_EXPIRED_def RESERVATION_STATE_ORPHANED_def

lemmas reservation_ops = RESERVATION_OP_RESERVE_def RESERVATION_OP_COMMIT_def RESERVATION_OP_REFUND_def RESERVATION_OP_EXPIRE_def
  RESERVATION_OP_ORPHAN_def

text \<open>A reservation id is a string of 32 bytes, ordered lexicographically.\<close>

type_synonym ReservationId = bytes

record reservation_subject_ref =
  rs_namespace :: u32
  rs_key_bytes :: bytes

record reservation_cause_ref =
  rc_lane :: u32
  rc_opaque_key :: bytes

record reservation_transition =
  rt_schema_version :: u32
  rt_sequence :: u64
  rt_reservation_id :: ReservationId
  rt_op :: u32
  rt_quantity_units :: u64
  rt_subject :: "reservation_subject_ref option"
  rt_cause_refs :: "reservation_cause_ref list"

record reservation_entry =
  re_reservation_id :: ReservationId
  re_subject_ref :: reservation_subject_ref
  re_quantity_units :: u64
  re_state :: u32
  re_opened_at_sequence :: u64

datatype ReservationFinding =
    InvalidTransition ReservationId u32 u32 u32
  | UnsupportedTransitionSchemaVersion ReservationId u32 u32

text \<open>The derived order on findings: the variant first, then its fields.\<close>

fun finding_key :: "ReservationFinding \<Rightarrow> nat \<times> ReservationId \<times> u32 \<times> u32 \<times> u32" where
  "finding_key (InvalidTransition i from op reason) = (0, i, from, op, reason)"
| "finding_key (UnsupportedTransitionSchemaVersion i observed expected) = (1, i, observed, expected, 0)"

record reservation_ledger_report =
  rl_schema_version :: u32
  rl_transition_log_digest :: bytes
  rl_entries_sorted :: "reservation_entry list"
  rl_findings_sorted :: "ReservationFinding list"

record reservation_reconciliation_report_body =
  rr_schema_version :: u32
  rr_reserved_open_ids :: "ReservationId list"
  rr_expired_ids :: "ReservationId list"
  rr_orphaned_ids :: "ReservationId list"
  rr_committed_ids :: "ReservationId list"
  rr_refunded_ids :: "ReservationId list"

section \<open>Normalising\<close>

definition normalize_reservation_subject_ref :: "reservation_subject_ref \<Rightarrow> reservation_subject_ref" where
  "normalize_reservation_subject_ref subject = subject"

definition cause_key :: "reservation_cause_ref \<Rightarrow> u32 \<times> bytes" where
  "cause_key c = (rc_lane c, rc_opaque_key c)"

definition normalize_reservation_transition :: "reservation_transition \<Rightarrow> reservation_transition" where
  "normalize_reservation_transition t = t\<lparr>rt_cause_refs := sort_key cause_key (rt_cause_refs t)\<rparr>"

definition reservation_transition_bytes :: "(reservation_transition \<Rightarrow> bytes option) \<Rightarrow> reservation_transition \<Rightarrow> bytes option" where
  "reservation_transition_bytes to_bytes t = to_bytes (normalize_reservation_transition t)"

definition transition_key :: "reservation_transition \<Rightarrow> u64 \<times> ReservationId" where
  "transition_key t = (rt_sequence t, rt_reservation_id t)"

definition normalize_reservation_transition_list :: "reservation_transition list \<Rightarrow> reservation_transition list" where
  "normalize_reservation_transition_list ts = sort_key transition_key (map normalize_reservation_transition ts)"

fun transition_log_bytes :: "(reservation_transition \<Rightarrow> bytes option) \<Rightarrow> reservation_transition list \<Rightarrow> bytes option" where
  "transition_log_bytes to_bytes [] = Some []"
| "transition_log_bytes to_bytes (t # ts) =
     (case reservation_transition_bytes to_bytes t of
        None \<Rightarrow> None
      | Some bs \<Rightarrow> map_option (\<lambda>rest. bs @ rest) (transition_log_bytes to_bytes ts))"

definition reservation_transition_log_digest ::
  "(reservation_transition \<Rightarrow> bytes option) \<Rightarrow> (bytes \<Rightarrow> bytes) \<Rightarrow> reservation_transition list \<Rightarrow> bytes option" where
  "reservation_transition_log_digest to_bytes content_hash ts = map_option content_hash (transition_log_bytes to_bytes ts)"

section \<open>The ledger\<close>

type_synonym ledger_state = "ReservationFinding list \<times> (ReservationId, reservation_entry) btree"

definition push_invalid :: "ReservationId \<Rightarrow> u32 \<Rightarrow> u32 \<Rightarrow> u32 \<Rightarrow> ledger_state \<Rightarrow> ledger_state" where
  "push_invalid i from op reason s = (fst s @ [InvalidTransition i from op reason], snd s)"

definition set_state :: "u32 \<Rightarrow> reservation_entry \<Rightarrow> ledger_state \<Rightarrow> ledger_state" where
  "set_state state e s = (fst s, bt_insert (re_reservation_id e) (e\<lparr>re_state := state\<rparr>) (snd s))"

definition apply_transition :: "reservation_transition \<Rightarrow> ledger_state \<Rightarrow> ledger_state" where
  "apply_transition t s =
     (let i = rt_reservation_id t; op = rt_op t in
      if rt_schema_version t \<noteq> RESERVATION_TRANSITION_SCHEMA_VERSION
        then (fst s @ [UnsupportedTransitionSchemaVersion i (rt_schema_version t) RESERVATION_TRANSITION_SCHEMA_VERSION], snd s)
      else if op = RESERVATION_OP_RESERVE then
        (case bt_get (snd s) i of
           Some existing \<Rightarrow> push_invalid i (re_state existing) op RESERVATION_REASON_DUPLICATE_RESERVE s
         | None \<Rightarrow>
             (case rt_subject t of
                None \<Rightarrow> push_invalid i (- 1) op RESERVATION_REASON_RESERVE_INVALID_SUBJECT_OR_UNITS s
              | Some subject \<Rightarrow>
                  if rt_quantity_units t = 0 then push_invalid i (- 1) op RESERVATION_REASON_RESERVE_INVALID_SUBJECT_OR_UNITS s
                  else (fst s, bt_insert i \<lparr>re_reservation_id = i, re_subject_ref = normalize_reservation_subject_ref subject,
                         re_quantity_units = rt_quantity_units t, re_state = RESERVATION_STATE_RESERVED,
                         re_opened_at_sequence = rt_sequence t\<rparr> (snd s))))
      else if op = RESERVATION_OP_COMMIT then
        (case bt_get (snd s) i of
           None \<Rightarrow> push_invalid i (- 1) op RESERVATION_REASON_COMMIT_WITHOUT_RESERVE s
         | Some e \<Rightarrow>
             if re_state e = RESERVATION_STATE_RESERVED then set_state RESERVATION_STATE_COMMITTED e s
             else if re_state e = RESERVATION_STATE_COMMITTED then push_invalid i (re_state e) op RESERVATION_REASON_DOUBLE_COMMIT s
             else push_invalid i (re_state e) op RESERVATION_REASON_TRANSITION_ON_TERMINAL s)
      else if op = RESERVATION_OP_REFUND then
        (case bt_get (snd s) i of
           None \<Rightarrow> push_invalid i (- 1) op RESERVATION_REASON_REFUND_INVALID_STATE s
         | Some e \<Rightarrow>
             if re_state e = RESERVATION_STATE_RESERVED then set_state RESERVATION_STATE_REFUNDED e s
             else if re_state e = RESERVATION_STATE_COMMITTED then push_invalid i (re_state e) op RESERVATION_REASON_REFUND_AFTER_COMMIT s
             else push_invalid i (re_state e) op RESERVATION_REASON_REFUND_INVALID_STATE s)
      else if op = RESERVATION_OP_EXPIRE then
        (case bt_get (snd s) i of
           None \<Rightarrow> push_invalid i (- 1) op RESERVATION_REASON_EXPIRE_INVALID_STATE s
         | Some e \<Rightarrow>
             if re_state e = RESERVATION_STATE_RESERVED then set_state RESERVATION_STATE_EXPIRED e s
             else push_invalid i (re_state e) op RESERVATION_REASON_EXPIRE_INVALID_STATE s)
      else if op = RESERVATION_OP_ORPHAN then
        (case bt_get (snd s) i of
           None \<Rightarrow> push_invalid i (- 1) op RESERVATION_REASON_ORPHAN_INVALID_STATE s
         | Some e \<Rightarrow>
             if re_state e = RESERVATION_STATE_RESERVED then set_state RESERVATION_STATE_ORPHANED e s
             else push_invalid i (re_state e) op RESERVATION_REASON_ORPHAN_INVALID_STATE s)
      else push_invalid i (- 1) op RESERVATION_REASON_TRANSITION_ON_TERMINAL s)"

definition simulate_reservation_ledger ::
  "(reservation_transition \<Rightarrow> bytes option) \<Rightarrow> (bytes \<Rightarrow> bytes) \<Rightarrow> reservation_transition list \<Rightarrow> reservation_ledger_report option" where
  "simulate_reservation_ledger to_bytes content_hash transitions =
     (let sorted = normalize_reservation_transition_list transitions in
      case reservation_transition_log_digest to_bytes content_hash sorted of
        None \<Rightarrow> None
      | Some digest \<Rightarrow>
          (case fold apply_transition sorted ([], []) of
             (findings, ledger) \<Rightarrow>
               Some \<lparr>rl_schema_version = RESERVATION_LEDGER_REPORT_SCHEMA_VERSION, rl_transition_log_digest = digest,
                 rl_entries_sorted = sort_key re_reservation_id (map snd ledger),
                 rl_findings_sorted = sort_key finding_key findings\<rparr>))"

definition in_state :: "u32 \<Rightarrow> reservation_entry list \<Rightarrow> ReservationId list" where
  "in_state state entries = sort (map re_reservation_id (filter (\<lambda>e. re_state e = state) entries))"

definition reservation_reconciliation_report :: "reservation_entry list \<Rightarrow> reservation_reconciliation_report_body" where
  "reservation_reconciliation_report entries =
     \<lparr>rr_schema_version = RESERVATION_RECONCILIATION_REPORT_SCHEMA_VERSION,
      rr_reserved_open_ids = in_state RESERVATION_STATE_RESERVED entries,
      rr_expired_ids = in_state RESERVATION_STATE_EXPIRED entries,
      rr_orphaned_ids = in_state RESERVATION_STATE_ORPHANED entries,
      rr_committed_ids = in_state RESERVATION_STATE_COMMITTED entries,
      rr_refunded_ids = in_state RESERVATION_STATE_REFUNDED entries\<rparr>"

definition reservation_ledger_report_body_hash ::
  "(reservation_ledger_report \<Rightarrow> bytes option) \<Rightarrow> (bytes \<Rightarrow> bytes) \<Rightarrow> reservation_ledger_report \<Rightarrow> bytes option" where
  "reservation_ledger_report_body_hash to_bytes content_hash body =
     map_option content_hash (to_bytes (body\<lparr>rl_findings_sorted := sort_key finding_key (rl_findings_sorted body),
       rl_entries_sorted := sort_key re_reservation_id (rl_entries_sorted body)\<rparr>))"

definition reservation_reconciliation_report_body_hash ::
  "(reservation_reconciliation_report_body \<Rightarrow> bytes option) \<Rightarrow> (bytes \<Rightarrow> bytes) \<Rightarrow> reservation_reconciliation_report_body \<Rightarrow> bytes option" where
  "reservation_reconciliation_report_body_hash to_bytes content_hash body = map_option content_hash (to_bytes body)"

section \<open>The life of one reservation\<close>

text \<open>
  What the ledger promises: each reservation is a state machine of its own. It opens with a
  reserve that names a subject and some units, leaves the open state once, and never moves again.
\<close>

definition closing_state :: "u32 \<Rightarrow> u32 option" where
  "closing_state op =
     (if op = RESERVATION_OP_COMMIT then Some RESERVATION_STATE_COMMITTED
      else if op = RESERVATION_OP_REFUND then Some RESERVATION_STATE_REFUNDED
      else if op = RESERVATION_OP_EXPIRE then Some RESERVATION_STATE_EXPIRED
      else if op = RESERVATION_OP_ORPHAN then Some RESERVATION_STATE_ORPHANED
      else None)"

definition opened_by :: "reservation_transition \<Rightarrow> reservation_entry option" where
  "opened_by t =
     (if rt_op t = RESERVATION_OP_RESERVE \<and> rt_quantity_units t \<noteq> 0
      then map_option (\<lambda>subject. \<lparr>re_reservation_id = rt_reservation_id t, re_subject_ref = subject,
             re_quantity_units = rt_quantity_units t, re_state = RESERVATION_STATE_RESERVED,
             re_opened_at_sequence = rt_sequence t\<rparr>) (rt_subject t)
      else None)"

definition move :: "reservation_transition \<Rightarrow> reservation_entry option \<Rightarrow> reservation_entry option" where
  "move t st =
     (if rt_schema_version t \<noteq> RESERVATION_TRANSITION_SCHEMA_VERSION then None
      else case st of
        None \<Rightarrow> opened_by t
      | Some e \<Rightarrow> if re_state e = RESERVATION_STATE_RESERVED
                  then map_option (\<lambda>state. e\<lparr>re_state := state\<rparr>) (closing_state (rt_op t)) else None)"

definition live :: "reservation_transition \<Rightarrow> reservation_entry option \<Rightarrow> reservation_entry option" where
  "live t st = (case move t st of None \<Rightarrow> st | Some e \<Rightarrow> Some e)"

definition ledger_inv :: "(ReservationId, reservation_entry) btree \<Rightarrow> bool" where
  "ledger_inv l \<longleftrightarrow> bt_wf l \<and> (\<forall>i e. bt_get l i = Some e \<longrightarrow> re_reservation_id e = i \<and> re_quantity_units e \<noteq> 0 \<and>
     re_state e \<in> {RESERVATION_STATE_RESERVED, RESERVATION_STATE_COMMITTED, RESERVATION_STATE_REFUNDED,
       RESERVATION_STATE_EXPIRED, RESERVATION_STATE_ORPHANED})"

lemma ledger_inv_insert:
  assumes "ledger_inv l" and "re_reservation_id e = i" and "re_quantity_units e \<noteq> 0"
    and "re_state e \<in> {RESERVATION_STATE_RESERVED, RESERVATION_STATE_COMMITTED, RESERVATION_STATE_REFUNDED,
       RESERVATION_STATE_EXPIRED, RESERVATION_STATE_ORPHANED}"
  shows "ledger_inv (bt_insert i e l)"
  using assms unfolding ledger_inv_def by (auto split: if_splits)

text \<open>One step of the ledger is one step of the machine of its reservation, or one finding.\<close>

lemma apply_transition_cases:
  assumes "ledger_inv l"
  obtains (moved) e where "move t (bt_get l (rt_reservation_id t)) = Some e"
      "apply_transition t (fs, l) = (fs, bt_insert (rt_reservation_id t) e l)" "ledger_inv (bt_insert (rt_reservation_id t) e l)"
    | (refused) f where "move t (bt_get l (rt_reservation_id t)) = None" "apply_transition t (fs, l) = (fs @ [f], l)"
proof (cases "move t (bt_get l (rt_reservation_id t))")
  case None
  then have "\<exists>f. apply_transition t (fs, l) = (fs @ [f], l)"
    by (auto simp: apply_transition_def move_def opened_by_def closing_state_def push_invalid_def Let_def reservation_ops
        split: option.splits if_splits)
  then show thesis using None refused by blast
next
  case (Some e)
  have same: "re_reservation_id d = rt_reservation_id t" if "bt_get l (rt_reservation_id t) = Some d" for d
    using that assms by (simp add: ledger_inv_def)
  have "apply_transition t (fs, l) = (fs, bt_insert (rt_reservation_id t) e l)"
    using Some same
    by (auto simp: apply_transition_def move_def opened_by_def closing_state_def set_state_def normalize_reservation_subject_ref_def
        Let_def reservation_ops split: option.splits if_splits)
  moreover have "ledger_inv (bt_insert (rt_reservation_id t) e l)"
    using Some assms
    by (intro ledger_inv_insert) (auto simp: ledger_inv_def move_def opened_by_def closing_state_def split: option.splits if_splits)
  ultimately show thesis using Some moved by blast
qed

fun refusals :: "reservation_transition list \<Rightarrow> reservation_entry option \<Rightarrow> nat" where
  "refusals [] st = 0"
| "refusals (t # ts) st = (if move t st = None then 1 else 0) + refusals ts (live t st)"

fun finding_id :: "ReservationFinding \<Rightarrow> ReservationId" where
  "finding_id (InvalidTransition i from op reason) = i"
| "finding_id (UnsupportedTransitionSchemaVersion i observed expected) = i"

lemma apply_finding: "apply_transition t (fs, l) = (fs @ [f], l') \<Longrightarrow> finding_id f = rt_reservation_id t"
  by (auto simp: apply_transition_def push_invalid_def set_state_def Let_def split: option.splits if_splits)

abbreviation of_reservation :: "ReservationId \<Rightarrow> reservation_transition list \<Rightarrow> reservation_transition list" where
  "of_reservation i ts \<equiv> filter (\<lambda>t. rt_reservation_id t = i) ts"

lemma ledger_run:
  assumes "ledger_inv l" and "fold apply_transition ts (fs, l) = (fs', l')"
  shows "ledger_inv l'" and "bt_get l' i = fold live (of_reservation i ts) (bt_get l i)"
    and "length (filter (\<lambda>f. finding_id f = i) fs') = length (filter (\<lambda>f. finding_id f = i) fs) + refusals (of_reservation i ts) (bt_get l i)"
  using assms
proof (induction ts arbitrary: fs l)
  case (Cons t ts)
  {
    case 1
    from \<open>ledger_inv l\<close> show ?case by (cases rule: apply_transition_cases [where t = t and fs = fs]) (use 1 Cons.IH(1) in auto)
  next
    case 2
    from \<open>ledger_inv l\<close> show ?case
      by (cases rule: apply_transition_cases [where t = t and fs = fs]) (use 2 Cons.IH(2) in \<open>auto simp: live_def\<close>)
  next
    case 3
    from \<open>ledger_inv l\<close> show ?case
    proof (cases rule: apply_transition_cases [where t = t and fs = fs])
      case (moved e)
      then show ?thesis using 3 Cons.IH(3) by (auto simp: live_def)
    next
      case (refused f)
      then show ?thesis using 3 Cons.IH(3) [of l "fs @ [f]"] apply_finding [OF refused(2)] by (auto simp: live_def)
    qed
  }
qed simp_all

lemma ledger_inv_empty: "ledger_inv []"
  by (simp add: ledger_inv_def)

lemma simulate_run:
  assumes "simulate_reservation_ledger to_bytes content_hash ts = Some rep"
  obtains fs l where "fold apply_transition (normalize_reservation_transition_list ts) ([], []) = (fs, l)" "ledger_inv l"
    "rl_findings_sorted rep = sort_key finding_key fs" "rl_entries_sorted rep = map snd l"
proof -
  obtain fs l where run: "fold apply_transition (normalize_reservation_transition_list ts) ([], []) = (fs, l)"
    and rep: "rl_findings_sorted rep = sort_key finding_key fs" "rl_entries_sorted rep = sort_key re_reservation_id (map snd l)"
    using assms by (auto simp: simulate_reservation_ledger_def Let_def split: option.splits prod.splits)
  have inv: "ledger_inv l" by (rule ledger_run(1) [OF ledger_inv_empty run])
  have "map re_reservation_id (map snd l) = map fst l"
  proof -
    have "\<forall>(i, e) \<in> set l. re_reservation_id e = i"
      using inv by (auto simp: ledger_inv_def dest: bt_wf_distinct)
    then show ?thesis by auto
  qed
  moreover have "sorted (map fst l)" using inv by (simp add: ledger_inv_def bt_wf_def strict_sorted_imp_sorted)
  ultimately have "sort_key re_reservation_id (map snd l) = map snd l" by (intro sort_key_id_if_sorted) (simp only:)
  with run inv rep that show thesis by metis
qed

lemma ledger_entries:
  assumes "ledger_inv l"
  shows "filter (\<lambda>e. re_reservation_id e = i) (map snd l) = (case bt_get l i of None \<Rightarrow> [] | Some e \<Rightarrow> [e])"
proof -
  have "bt_wf l" and "\<forall>(j, e) \<in> set l. re_reservation_id e = j"
    using assms by (auto simp: ledger_inv_def dest: bt_wf_distinct)
  then show ?thesis
  proof (induction l)
    case (Cons p l)
    have "filter (\<lambda>e. re_reservation_id e = fst p) (map snd l) = []"
      using Cons.prems by (fastforce simp: bt_wf_Cons filter_empty_conv)
    with Cons show ?case by (cases p) (auto simp: bt_wf_Cons)
  qed simp
qed

text \<open>
  C37. The ledger refines one state machine per reservation. A report has at most one entry for a
  reservation, the state its own transitions lead to in the order of their sequences whatever the
  other reservations do, and exactly one finding for every transition the machine refuses.
\<close>

theorem ledger_refines:
  assumes "simulate_reservation_ledger to_bytes content_hash ts = Some rep"
  defines "log \<equiv> normalize_reservation_transition_list ts"
  shows "filter (\<lambda>e. re_reservation_id e = i) (rl_entries_sorted rep) =
      (case fold live (of_reservation i log) None of None \<Rightarrow> [] | Some e \<Rightarrow> [e]) \<and>
    length (filter (\<lambda>f. finding_id f = i) (rl_findings_sorted rep)) = refusals (of_reservation i log) None"
proof -
  obtain fs l where run: "fold apply_transition log ([], []) = (fs, l)" and inv: "ledger_inv l"
    and rep: "rl_findings_sorted rep = sort_key finding_key fs" "rl_entries_sorted rep = map snd l"
    using simulate_run [OF assms(1)] unfolding log_def by metis
  note steps = ledger_run(2,3) [OF ledger_inv_empty run, of i]
  have "length (filter P (sort_key finding_key fs)) = length (filter P fs)" for P
    by (metis length_filter_conv_card mset_filter mset_sort size_mset)
  then show ?thesis using steps ledger_entries [OF inv, of i] by (simp add: rep)
qed

definition example_transition :: "u64 \<Rightarrow> u32 \<Rightarrow> reservation_transition" where
  "example_transition sequence op = \<lparr>rt_schema_version = 1, rt_sequence = sequence, rt_reservation_id = [7], rt_op = op,
     rt_quantity_units = 3, rt_subject = Some \<lparr>rs_namespace = 1, rs_key_bytes = []\<rparr>, rt_cause_refs = []\<rparr>"

lemma example_runs:
  "simulate_reservation_ledger (\<lambda>_. Some []) (\<lambda>_. []) [example_transition 2 1, example_transition 1 0] \<noteq> None \<and>
   map_option rl_findings_sorted (simulate_reservation_ledger (\<lambda>_. Some []) (\<lambda>_. []) [example_transition 2 1, example_transition 1 0]) = Some []"
  by code_simp

lemma example_life:
  "map_option re_state (fold live (of_reservation [7] (normalize_reservation_transition_list [example_transition 2 1, example_transition 1 0])) None) =
   Some RESERVATION_STATE_COMMITTED"
  by code_simp

theorem ledger_refines_witness:
  "\<exists>rep e. simulate_reservation_ledger (\<lambda>_. Some []) (\<lambda>_. []) [example_transition 2 1, example_transition 1 0] = Some rep \<and>
    filter (\<lambda>e. re_reservation_id e = [7]) (rl_entries_sorted rep) = [e] \<and> re_state e = RESERVATION_STATE_COMMITTED \<and>
    rl_findings_sorted rep = []"
proof -
  obtain rep where rep: "simulate_reservation_ledger (\<lambda>_. Some []) (\<lambda>_. []) [example_transition 2 1, example_transition 1 0] = Some rep"
    "rl_findings_sorted rep = []"
    using example_runs by auto
  from ledger_refines [OF rep(1), of "[7]"] rep example_life show ?thesis by (auto split: option.splits)
qed

text \<open>The five lists of a reconciliation share the reservations out.\<close>

lemma sorted_states:
  assumes "\<forall>e \<in> set es. re_state e \<in> {RESERVATION_STATE_RESERVED, RESERVATION_STATE_COMMITTED, RESERVATION_STATE_REFUNDED,
       RESERVATION_STATE_EXPIRED, RESERVATION_STATE_ORPHANED}"
  defines "r \<equiv> reservation_reconciliation_report es"
  shows "mset (rr_reserved_open_ids r) + mset (rr_expired_ids r) + mset (rr_orphaned_ids r) + mset (rr_committed_ids r) +
    mset (rr_refunded_ids r) = mset (map re_reservation_id es)"
  using assms(1) unfolding r_def reservation_reconciliation_report_def in_state_def
  by (induction es) (auto simp: reservation_states)



text \<open>
  The report does not depend on the order in which the transitions are given, nor on the order of
  their causes, as long as no two of them share a sequence and a reservation.
\<close>

lemma ledger_order:
  assumes "mset (map normalize_reservation_transition ts) = mset (map normalize_reservation_transition us)"
    and "inj_on transition_key (normalize_reservation_transition ` set ts)"
  shows "simulate_reservation_ledger to_bytes content_hash ts = simulate_reservation_ledger to_bytes content_hash us"
proof -
  have "normalize_reservation_transition_list ts = normalize_reservation_transition_list us"
    unfolding normalize_reservation_transition_list_def
    by (rule sort_key_inj_key_eq) (use assms in simp_all)
  then show ?thesis by (simp add: simulate_reservation_ledger_def)
qed

text \<open>Two transitions that share both: the order they are given in decides the report.\<close>

lemma ledger_tie:
  "map_option (\<lambda>r. map re_state (rl_entries_sorted r)) (simulate_reservation_ledger (\<lambda>_. Some []) (\<lambda>_. []) [example_transition 1 0, example_transition 1 1]) =
     Some [RESERVATION_STATE_COMMITTED]"
  "map_option (\<lambda>r. map re_state (rl_entries_sorted r)) (simulate_reservation_ledger (\<lambda>_. Some []) (\<lambda>_. []) [example_transition 1 1, example_transition 1 0]) =
     Some [RESERVATION_STATE_RESERVED]"
  by code_simp+

end
