(* ===== verification/Spec2Isabelle.thy ===== *)
theory Spec2Isabelle
  imports Idempotency Watermark IndexSwap Walks Faults Restart Outcomes Reservation
begin

text \<open>
  A verification development of batpak, an embedded event-sourced store written in Rust. The
  sources are under \<^verbatim>\<open>src/bpk-lib/crates/core/src/\<close>; paths below are relative to that directory.

  \<^bold>\<open>The program.\<close> A store keeps an append-only log of events. Every event has a coordinate (an
  entity and a scope), a kind, a lane, a clock on its stream and a hash chain link to the event
  before it on that stream. One writer thread takes commands from the callers. For an append it
  checks the guards, stamps the event, signs a receipt, writes a checksummed frame to the active
  segment file, rotates the file when it is full, enters the event into the index, publishes the
  sequence through the visibility gate, raises the watermarks and notifies the subscribers. A
  batch is written between two marker frames, so that recovery takes all of it or nothing. A
  fence holds publication back until it is committed, and hides what it covered when it is
  cancelled. Readers query the index and read frames back by position. After a restart the
  segments are scanned, through the footer of a sealed one or frame by frame, and the index is
  rebuilt.

  \<^bold>\<open>How the parts are modelled.\<close> A struct is a record, an enum a datatype with the source's
  variants, a function a function on those; a method that mutates returns the state it leaves
  behind, on every early return too. A machine integer is a word of its width, \<^verbatim>\<open>usize\<close> a
  natural number with the 64-bit checks of the source written out. A file is its bytes. Locks and
  atomics are dropped where one thread holds them for the whole call: such a call is one
  transition. A \<^verbatim>\<open>BTreeMap\<close> is a sorted association list; a concurrent hash map is one too
  where no answer depends on its order, and the one place where the order shows is said in theory
  \<open>Index\<close>. Code that is not in the repository is an argument of the definitions that use it: the
  MessagePack encoders and decoders, the checksum, the content hash, the signature scheme, the
  clocks, the generator of identifiers, and the file system. The writer puts its questions to them
  through the record \<open>writer_env\<close>, indexed by a counter, so that an answer (a clock reading, the
  outcome of a write or of a sync) may differ from call to call and any of them may fail. What a
  theorem asks of a parameter is a named predicate: \<open>frame_codec\<close> (decoding undoes encoding),
  \<open>scheme_ok\<close> (signatures verify), \<open>covers_encode\<close>, \<open>healthy\<close> (no file operation fails),
  \<open>faithful\<close> (reading gives the event indexed there).

  \<^bold>\<open>The theories, and what they show.\<close>

  \<^item> \<open>Prelude\<close>: words, results, checked and saturating arithmetic, byte encodings, ordered maps.
    The locale \<open>fixed_codec\<close> is the contract of a fixed-width codec; it is interpreted on the
    integer encodings here and on the footer entry in \<open>Sidx\<close>.
  \<^item> \<open>Hlc\<close>, \<open>Coordinate\<close>, \<open>Errors\<close>, \<open>Events\<close>: the data (\<^verbatim>\<open>store/stats.rs\<close>, \<^verbatim>\<open>event/\<close>,
    \<^verbatim>\<open>coordinate/\<close>, \<^verbatim>\<open>store/error.rs\<close>, \<^verbatim>\<open>store/index/entry.rs\<close>). The locale \<open>bounded_join\<close>
    is the lattice of frontier points, interpreted on both orders the code uses.
  \<^item> \<open>Ranges\<close>, \<open>Visibility\<close>, \<open>HiddenRanges\<close>: the sequence gate and the ranges that stay hidden
    (\<^verbatim>\<open>store/index/visibility.rs\<close>, \<^verbatim>\<open>store/hidden_ranges.rs\<close>). The locales \<open>range_set\<close> and
    \<open>canonical_ranges\<close> say what insertion means. Reachable gates show nothing early, a cancelled
    fence hides its range for good, and the file of the ranges round trips and fails closed.
  \<^item> \<open>Idempotency\<close>: \<^verbatim>\<open>store/index/idemp.rs\<close>. The locale \<open>retaining_store\<close> is what replay
    relies on; keys inside the window survive eviction and stay replayable.
  \<^item> \<open>Watermark\<close>: \<^verbatim>\<open>store/write/writer/watermark.rs\<close>, \<^verbatim>\<open>store/projection/registry.rs\<close>. The
    frontier keeps its order and never moves back; a wait returns exactly when it should.
  \<^item> \<open>Segment\<close>, \<open>Sidx\<close>, \<open>Manifest\<close>, \<open>ColdStart\<close>, \<open>Recovery\<close>, \<open>Reader\<close>: segment files
    (\<^verbatim>\<open>store/segment/\<close>, \<^verbatim>\<open>store/cold_start/row.rs\<close>, \<^verbatim>\<open>store/lifecycle_compact.rs\<close>): the frame
    and footer codecs, the search for frames, the walk under an untrusted footer, the recovery
    scan against a specification of committed events, the fast path, point reads and caches.
  \<^item> \<open>Columnar\<close>, \<open>Interner\<close>, \<open>Index\<close>, \<open>IndexSwap\<close>: the index (\<^verbatim>\<open>store/index/\<close>). The locale
    \<open>scan_layout\<close> is the contract of a column layout, interpreted on the three layouts and the
    base maps, so every topology answers alike; queries and pages are exact.
  \<^item> \<open>Signing\<close>, \<open>Staging\<close>: receipts, signatures, options and staged events (\<^verbatim>\<open>store/signing.rs\<close>,
    \<^verbatim>\<open>store/append.rs\<close>, \<^verbatim>\<open>store/write/staging.rs\<close>, \<^verbatim>\<open>store/write/control/submission.rs\<close>).
  \<^item> \<open>Writer\<close>, \<open>Batch\<close>: the handlers (\<^verbatim>\<open>store/write/writer.rs\<close>, \<^verbatim>\<open>writer/append.rs\<close>,
    \<^verbatim>\<open>writer/publish.rs\<close>, \<^verbatim>\<open>writer/fence_runtime.rs\<close>, \<^verbatim>\<open>writer/batch.rs\<close>).
  \<^item> \<open>Append\<close>, \<open>Commit\<close>, \<open>BatchCommit\<close>, \<open>Atomic\<close>: what the handlers promise. The locale
    \<open>effect\<close> is a relation between writer states that sequencing keeps, \<open>storage_effect\<close> one that
    the file operations keep; both are interpreted on the log and on the disk, and on the mail of
    the callers in \<open>WriterLoop\<close>. The abstract
    specification is the log, a list of entries related to the index by \<open>log_ok\<close>: an append adds
    one entry, a batch adds all of its entries or none, streams are numbered without gaps and
    chained, receipts verify, events read back, retries replay.
  \<^item> \<open>Crash\<close>: the writer against the recovery scan. The invariant \<open>journal_inv\<close> relates the
    active file to the log, every command keeps it (the step relation \<open>writer_step\<close>), and so a
    scan after a crash hands back the entries of that file.
  \<^item> \<open>Faults\<close>: what failed file operations leave behind: a rotation that can never be repeated,
    and a refused batch that comes back after a restart.
  \<^item> \<open>Config\<close>, \<open>WriterLoop\<close>, \<open>Restart\<close>: the configuration (\<^verbatim>\<open>store/config/\<close>), the command loop
    and the supervision of the writer thread (\<^verbatim>\<open>store/write/writer.rs\<close>, \<^verbatim>\<open>writer/runtime.rs\<close>,
    \<^verbatim>\<open>writer/fence_runtime.rs\<close>). The channel is the list of what the thread finds on it. The
    relation \<open>accounts\<close> keeps the books of the answers, so every command is answered once; a
    shutdown leaves no fence open, except the one that a group-commit drain meets; a restart keeps
    the log, the files and what is visible.
  \<^item> \<open>Walks\<close>: \<^verbatim>\<open>store/ancestry/\<close>, \<^verbatim>\<open>store/chain_walk.rs\<close>. Chain walks end by themselves;
    ancestors are the chain when contents differ, and skip events when they repeat.
  \<^item> \<open>Outcomes\<close>, \<open>Reservation\<close>: \<^verbatim>\<open>outcome/\<close> and \<^verbatim>\<open>reservation.rs\<close>, two libraries beside the
    store: the laws of outcomes and their joins, and the ledger as one state machine per
    reservation.

  \<^bold>\<open>Loops and bounds.\<close> Every loop is a total function. The loops over a file recurse on the bytes
  left, with the overflow checks of the source; the walks recurse on the limit, and theorem
  \<open>chain_walk_ends\<close> bounds them without it. Waiting is a function of the list of turns a waiter
  takes, the writer thread a function of what arrives on its channel. The only fuel is
  \<open>digits_fuel\<close>, 20 digits, which every 64-bit number fits in. Theorems ask for room where a
  counter of the source could wrap: \<open>has_room\<close>, \<open>batch_room\<close>, \<open>step_room\<close>.
  The witnesses after the theorems run the definitions on a small store.

  \<^bold>\<open>Not modelled.\<close> The interleaving of callers with the writer thread: commands are executed one
  after another, as that thread does, and a caller shows only in what is on the channel. The
  handles that send commands and wait for answers. Subscriptions, cursors,
  projections and their caches. Opening, locking, forking, importing and backing up a store, which
  are file system work around the modelled parts. The checkpoint and the memory-mapped index,
  caches of what the scan rebuilds. The test-only fault hooks and the simulator. The derive
  macros, the typed layer over the store, the other crates of the family and the build tools.
\<close>

end
